(* ===== verification/Prelude.thy ===== *)
theory Prelude
  imports Main "HOL-Library.AList" "HOL-Library.Sublist" "HOL-Library.Char_ord" "HOL-Library.List_Lexorder"
begin

text \<open>
  What every component of the development shares: the errors the kernel modules raise, JSON
  values as Python's \<^verbatim>\<open>json\<close> module reads them, the string operations the sources use
  (\<^verbatim>\<open>str.split\<close>, \<^verbatim>\<open>str.rsplit\<close>, \<^verbatim>\<open>str.lower\<close>, \<^verbatim>\<open>str.isdigit\<close>, decimal
  printing), and generic lemmas on association lists, pairwise lists and options.
\<close>

named_theorems registry_simps \<open>what each control-root registry unfolds to over the store's primitives\<close>

text \<open>
  Every exception the modelled functions raise. A fallible operation returns \<open>error + 'a\<close>,
  with \<open>Inl\<close> for the raise. \<open>StoreError\<close> is any failure of the store that is neither a lost
  create nor a lost replace (\<^verbatim>\<open>ClientError\<close>, \<^verbatim>\<open>OSError\<close>), and \<open>ValueError\<close> a stored body
  that is not the JSON object its reader validates.
\<close>

datatype error =
    RecordExistsError | RecordChangedError | RecordMissingError | StoreError | ValueError
  | HistoryFencedError | CommitTurnBusyError | LocationHeldError | ClaimChangedError
  | NotHeld | AuthorRecordedError | InvalidTransactionUuidError | PublishError
  | AmbiguousProjectWarehouseError | InvalidInputError | InternalError
  | UnsupportedOperationError | PermissionDeniedError | TypeError | UnreadableBaseRecordError | AttributeError | KeyError
  | KeyReusedError | InFlightError | InvalidTableStateError | TableVersionNotFoundError
  | TableTagAlreadyExistsError | TableTagNotFoundError | NamespaceNotFoundError | UnauthenticatedError
  | ReleaseLost | FileNotFoundError | OverlaysPresent | HistoryPastTheCeiling | LanceError
  | MaintenanceDenied | TableNotGoverned | VendUndecided | NotADatasetRootError | ProtectedBaseError
  | OverflowError | GovernedElsewhere | MaintenanceUnauthenticated

type_synonym 'a result = "error + 'a"

text \<open>JSON as \<^verbatim>\<open>json.loads\<close> returns it; an object is a dictionary, kept as an association list.\<close>

datatype json =
    JNull | JBool bool | JInt int | JStr string | JList "json list" | JObj "(string \<times> json) list"

type_synonym dict = "(string \<times> json) list"

text \<open>\<^verbatim>\<open>{**record, k: v}\<close> and \<^verbatim>\<open>record.get(k)\<close>.\<close>

abbreviation dict_set :: "string \<Rightarrow> json \<Rightarrow> dict \<Rightarrow> dict" where
  "dict_set \<equiv> AList.update"

abbreviation dict_get :: "dict \<Rightarrow> string \<Rightarrow> json option" where
  "dict_get \<equiv> map_of"

text \<open>Python's truth value of what \<^verbatim>\<open>dict.get\<close> returns.\<close>

fun truthy :: "json option \<Rightarrow> bool" where
  "truthy None = False"
| "truthy (Some JNull) = False"
| "truthy (Some (JBool b)) = b"
| "truthy (Some (JInt i)) = (i \<noteq> 0)"
| "truthy (Some (JStr s)) = (s \<noteq> [])"
| "truthy (Some (JList xs)) = (xs \<noteq> [])"
| "truthy (Some (JObj kv)) = (kv \<noteq> [])"

section \<open>Strings\<close>

text \<open>\<^verbatim>\<open>s.split(c)\<close>: the pieces between the occurrences of one character.\<close>

fun split_on :: "char \<Rightarrow> string \<Rightarrow> string list" where
  "split_on c [] = [[]]"
| "split_on c (x # xs) =
     (if x = c then [] # split_on c xs
      else (case split_on c xs of [] \<Rightarrow> [[x]] | p # ps \<Rightarrow> (x # p) # ps))"

text \<open>\<^verbatim>\<open>c.join(pieces)\<close>.\<close>

fun join_with :: "char \<Rightarrow> string list \<Rightarrow> string" where
  "join_with c [] = []"
| "join_with c [p] = p"
| "join_with c (p # q # ps) = p @ c # join_with c (q # ps)"

lemma split_on_not_Nil [simp]: "split_on c s \<noteq> []"
  by (induction s) (auto split: list.splits)

lemma split_on_no_sep: "c \<notin> set s \<Longrightarrow> split_on c s = [s]"
  by (induction s) auto

lemma split_on_append: "c \<notin> set p \<Longrightarrow> split_on c (p @ c # s) = p # split_on c s"
  by (induction p) auto

lemma split_join:
  "ps \<noteq> [] \<Longrightarrow> (\<forall>p\<in>set ps. c \<notin> set p) \<Longrightarrow> split_on c (join_with c ps) = ps"
  by (induction c ps rule: join_with.induct) (auto simp: split_on_no_sep split_on_append)

lemma join_split: "join_with c (split_on c s) = s"
proof (induction s)
  case (Cons x xs)
  obtain p ps where eq: "split_on c xs = p # ps"
    by (cases "split_on c xs") auto
  show ?case
    using Cons eq by (cases ps) auto
qed simp

lemma first_sep_unique:
  assumes "p @ c # s = q @ c # t" "c \<notin> set p" "c \<notin> set q"
  shows "p = q \<and> s = t"
proof -
  have "takeWhile (\<lambda>x. x \<noteq> c) (p @ c # s) = p" "takeWhile (\<lambda>x. x \<noteq> c) (q @ c # t) = q"
    using assms(2,3) by (auto simp: takeWhile_append takeWhile_eq_all_conv)
  with assms(1) have "p = q" by simp
  with assms(1) show ?thesis by simp
qed

lemma split_on_pieces: "p \<in> set (split_on c s) \<Longrightarrow> c \<notin> set p"
  by (induction s arbitrary: p) (auto split: if_splits list.splits)

text \<open>\<^verbatim>\<open>s.rsplit("/", 1)[-1]\<close>: the last path component.\<close>

definition base_name :: "string \<Rightarrow> string" where
  "base_name s = last (split_on (CHR ''/'') s)"

text \<open>\<^verbatim>\<open>s.lower()\<close> and \<^verbatim>\<open>s.upper()\<close> on ASCII letters; other characters are left as they are.\<close>

definition lower_char :: "char \<Rightarrow> char" where
  "lower_char c = (if CHR ''A'' \<le> c \<and> c \<le> CHR ''Z'' then char_of (of_char c + (32::nat)) else c)"

definition upper_char :: "char \<Rightarrow> char" where
  "upper_char c = (if CHR ''a'' \<le> c \<and> c \<le> CHR ''z'' then char_of (of_char c - (32::nat)) else c)"

definition is_space :: "char \<Rightarrow> bool" where
  "is_space c = (c \<in> set [CHR '' '', CHR 0x09, CHR 0x0A, CHR 0x0B, CHR 0x0C, CHR 0x0D,
     CHR 0x1C, CHR 0x1D, CHR 0x1E, CHR 0x1F])"

text \<open>\<^verbatim>\<open>s.strip()\<close>.\<close>

definition strip :: "string \<Rightarrow> string" where
  "strip s = rev (dropWhile is_space (rev (dropWhile is_space s)))"

text \<open>\<^verbatim>\<open>s.rstrip("/")\<close>.\<close>

definition rstrip_slash :: "string \<Rightarrow> string" where
  "rstrip_slash s = rev (dropWhile (\<lambda>c. c = CHR ''/'') (rev s))"

text \<open>\<^verbatim>\<open>s.removesuffix(t)\<close> and \<^verbatim>\<open>s.removeprefix(t)\<close>.\<close>

definition remove_suffix :: "string \<Rightarrow> string \<Rightarrow> string" where
  "remove_suffix t s = (if suffix t s then take (length s - length t) s else s)"

definition remove_prefix :: "string \<Rightarrow> string \<Rightarrow> string" where
  "remove_prefix t s = (if prefix t s then drop (length t) s else s)"

lemma remove_suffix_append [simp]: "remove_suffix t (s @ t) = s"
  by (simp add: remove_suffix_def suffix_def)

lemma remove_prefix_append [simp]: "remove_prefix t (t @ s) = s"
  by (simp add: remove_prefix_def)

section \<open>Decimal numbers\<close>

definition is_digit :: "char \<Rightarrow> bool" where
  "is_digit c = (CHR ''0'' \<le> c \<and> c \<le> CHR ''9'')"

text \<open>\<^verbatim>\<open>c.isalpha()\<close> on ASCII: a letter is a character with another case.\<close>

definition is_letter :: "char \<Rightarrow> bool" where
  "is_letter c = (lower_char c \<noteq> c \<or> upper_char c \<noteq> c)"

definition digit :: "nat \<Rightarrow> char" where
  "digit d = char_of (48 + d)"

definition digit_value :: "char \<Rightarrow> nat" where
  "digit_value c = of_char c - 48"

text \<open>\<^verbatim>\<open>s.isdigit()\<close> on ASCII text, \<^verbatim>\<open>int(s)\<close> of such text, and \<^verbatim>\<open>str(n)\<close>.\<close>

definition all_digits :: "string \<Rightarrow> bool" where
  "all_digits s = (s \<noteq> [] \<and> list_all is_digit s)"

definition parse_nat :: "string \<Rightarrow> nat" where
  "parse_nat s = foldl (\<lambda>n c. 10 * n + digit_value c) 0 s"

fun show_nat :: "nat \<Rightarrow> string" where
  "show_nat n = (if n < 10 then [digit n] else show_nat (n div 10) @ [digit (n mod 10)])"

declare show_nat.simps [simp del]

lemma digit_cases: "d < 10 \<Longrightarrow> d \<in> {0, 1, 2, 3, 4, 5, 6, 7, 8, 9::nat}"
  by auto

lemma digit_value_digit [simp]: "d < 10 \<Longrightarrow> digit_value (digit d) = d"
  by (drule digit_cases) (auto simp: digit_def digit_value_def)

lemma is_digit_digit [simp]: "d < 10 \<Longrightarrow> is_digit (digit d)"
  by (drule digit_cases) (auto simp: digit_def is_digit_def less_eq_char_def)

lemma show_nat_not_Nil [simp]: "show_nat n \<noteq> []"
  by (subst show_nat.simps) simp

lemma all_digits_show_nat [simp]: "all_digits (show_nat n)"
proof (induction n rule: show_nat.induct)
  case (1 n)
  show ?case
    using "1" by (subst show_nat.simps) (auto simp: all_digits_def)
qed

lemma parse_nat_snoc: "parse_nat (s @ [c]) = 10 * parse_nat s + digit_value c"
  by (simp add: parse_nat_def)

lemma parse_show_nat [simp]: "parse_nat (show_nat n) = n"
proof (induction n rule: show_nat.induct)
  case (1 n)
  show ?case
  proof (cases "n < 10")
    case True
    then show ?thesis by (subst show_nat.simps) (simp add: parse_nat_def)
  next
    case False
    with "1" show ?thesis
      by (subst show_nat.simps) (simp add: parse_nat_snoc)
  qed
qed

text \<open>\<^verbatim>\<open>str(v)\<close> of a JSON value; \<open>repr\<close> is what Python prints of an array or object.\<close>

fun py_str :: "(json \<Rightarrow> string) \<Rightarrow> json \<Rightarrow> string" where
  "py_str repr JNull = ''None''"
| "py_str repr (JBool b) = (if b then ''True'' else ''False'')"
| "py_str repr (JInt i) = (if i < 0 then CHR ''-'' # show_nat (nat (- i)) else show_nat (nat i))"
| "py_str repr (JStr s) = s"
| "py_str repr j = repr j"

section \<open>Lists and options\<close>

text \<open>A loop that reads one answer per element and ends at the first that raises.\<close>

fun each :: "('a \<Rightarrow> 'b result) \<Rightarrow> 'a list \<Rightarrow> 'b list result" where
  "each f [] = Inr []"
| "each f (x # xs) = (case f x of Inl e \<Rightarrow> Inl e
     | Inr y \<Rightarrow> (case each f xs of Inl e \<Rightarrow> Inl e | Inr ys \<Rightarrow> Inr (y # ys)))"

lemma each_answers: "each f xs = Inr ys \<Longrightarrow> map f xs = map Inr ys"
  by (induction f xs arbitrary: ys rule: each.induct) (auto split: sum.splits)

text \<open>A dictionary written by a comprehension: the last value of a key, at the place of its first.\<close>

definition dict_of :: "('k \<times> 'v) list \<Rightarrow> ('k \<times> 'v) list" where
  "dict_of kv = fold (\<lambda>(k, v). AList.update k v) kv []"

lemma update_fresh: "k \<notin> fst ` set kv \<Longrightarrow> AList.update k v kv = kv @ [(k, v)]"
  by (induction kv) auto

lemma dict_of_distinct: "distinct (map fst kv) \<Longrightarrow> dict_of kv = kv"
proof -
  have "distinct (map fst (acc @ kv)) \<Longrightarrow> fold (\<lambda>(k, v). AList.update k v) kv acc = acc @ kv" for acc
    by (induction kv arbitrary: acc) (auto simp: update_fresh)
  then show "distinct (map fst kv) \<Longrightarrow> dict_of kv = kv"
    unfolding dict_of_def by fastforce
qed

text \<open>\<^verbatim>\<open>next((x for x in xs if p(x)), None)\<close> is \<^const>\<open>List.find\<close>.\<close>

lemma find_None_ball: "List.find P xs = None \<longleftrightarrow> (\<forall>x\<in>set xs. \<not> P x)"
  by (auto simp: find_None_iff)

lemma sorted_wrt_pair:
  assumes "sorted_wrt R xs" "symp R" "x \<in> set xs" "y \<in> set xs" "x \<noteq> y"
  shows "R x y"
  using assms by (induction xs) (auto dest: sympD)

lemma sorted_wrt_filter_snoc:
  assumes "sorted_wrt R xs" "\<And>x. x \<in> set xs \<Longrightarrow> P x \<Longrightarrow> R x m"
  shows "sorted_wrt R (filter P xs @ [m])"
  using assms by (auto simp: sorted_wrt_append intro: sorted_wrt_filter)

lemma in_map_filter: "y \<in> set (List.map_filter f xs) \<longleftrightarrow> (\<exists>x\<in>set xs. f x = Some y)"
  by (force simp: map_filter_def)

lemma list_all2_bex:
  assumes "list_all2 R xs ys" "\<And>x y. x \<in> set xs \<Longrightarrow> R x y \<Longrightarrow> Q x \<longleftrightarrow> P y"
  shows "(\<exists>x\<in>set xs. Q x) \<longleftrightarrow> (\<exists>y\<in>set ys. P y)"
  using assms by (induction rule: list_all2_induct) auto

text \<open>Association lists: what \<open>AList.update\<close> and \<open>AList.delete\<close> answer a lookup with.\<close>

lemma map_of_update [simp]: "map_of (AList.update k v kv) k' = (if k' = k then Some v else map_of kv k')"
  by (simp add: update_conv')

lemma set_update_subset: "set (AList.update k v kv) \<subseteq> insert (k, v) (set kv)"
  by (induction kv) auto

lemma map_of_delete [simp]: "map_of (AList.delete k kv) k' = (if k' = k then None else map_of kv k')"
  by (simp add: delete_conv')

end
