(* ===== verification/Locations.thy ===== *)
theory Locations
  imports Prelude
begin

text \<open>
  Where a spelled location is: the path comparisons of
  \<^verbatim>\<open>packages/lakehouse-kit/src/lakehouse_kit/base_refs.py\<close> (\<^verbatim>\<open>normalise\<close> to
  \<^verbatim>\<open>location_in_store\<close>), with the percent decoding of \<^verbatim>\<open>urllib.parse\<close> they use.

  A Python \<^verbatim>\<open>str\<close> is kept as its UTF-8 bytes, one \<^typ>\<open>char\<close> per byte, so that
  \<^verbatim>\<open>unquote_to_bytes(s).decode("utf-8")\<close> is the decoded byte list when that list is
  well-formed UTF-8 and an error otherwise, and every comparison with an ASCII character reads the
  same on the bytes as on the code points.

  The lemmas show that the segment-wise containment is the path-prefix order on decoded paths, that
  no segment of a location can climb or divide, and that a percent-encoded spelling and the decoded
  directory name one place.
\<close>

section \<open>Percent encoding and UTF-8\<close>

definition hex_value :: "char \<Rightarrow> nat option" where
  "hex_value c =
     (let n = of_char c in
      if 48 \<le> n \<and> n \<le> 57 then Some (n - 48)
      else if 65 \<le> n \<and> n \<le> 70 then Some (n - 55)
      else if 97 \<le> n \<and> n \<le> 102 then Some (n - 87)
      else None)"

text \<open>\<^verbatim>\<open>urllib.parse.unquote_to_bytes\<close>: every \<^verbatim>\<open>%XX\<close> becomes its byte; any other \<^verbatim>\<open>%\<close> stays.\<close>

fun unquote_to_bytes :: "string \<Rightarrow> string" where
  "unquote_to_bytes (p # a # b # s) =
     (case (p = CHR ''%'', hex_value a, hex_value b) of
        (True, Some x, Some y) \<Rightarrow> char_of (16 * x + y) # unquote_to_bytes s
      | _ \<Rightarrow> p # unquote_to_bytes (a # b # s))"
| "unquote_to_bytes s = s"

definition hex_digit :: "nat \<Rightarrow> char" where
  "hex_digit n = char_of (if n < 10 then 48 + n else 55 + n)"

text \<open>\<^verbatim>\<open>urllib.parse.quote(s, safe=...)\<close>: the bytes that are not safe become \<^verbatim>\<open>%XX\<close>.\<close>

fun quote :: "(char \<Rightarrow> bool) \<Rightarrow> string \<Rightarrow> string" where
  "quote safe [] = []"
| "quote safe (c # s) =
     (if safe c then c # quote safe s
      else CHR ''%'' # hex_digit (of_char c div 16) # hex_digit (of_char c mod 16) # quote safe s)"

text \<open>The bytes \<^verbatim>\<open>quote\<close> leaves alone whatever its \<^verbatim>\<open>safe\<close> argument: letters, digits and \<^verbatim>\<open>_.-~\<close>.\<close>

definition always_safe :: "char \<Rightarrow> bool" where
  "always_safe c =
     (let n = of_char c :: nat in
      48 \<le> n \<and> n \<le> 57 \<or> 65 \<le> n \<and> n \<le> 90 \<or> 97 \<le> n \<and> n \<le> 122 \<or> n \<in> {95, 46, 45, 126})"

definition cont_byte :: "char \<Rightarrow> bool" where
  "cont_byte c = (let n = of_char c :: nat in 128 \<le> n \<and> n \<le> 191)"

definition byte_in :: "nat \<Rightarrow> nat \<Rightarrow> char \<Rightarrow> bool" where
  "byte_in lo hi c = (lo \<le> of_char c \<and> of_char c \<le> hi)"

text \<open>
  Well-formed UTF-8 as Python's strict decoder accepts it: no overlong form, no surrogate, nothing
  past U+10FFFF.
\<close>

fun utf8 :: "string \<Rightarrow> bool" where
  "utf8 [] = True"
| "utf8 (a # s) =
     (if byte_in 0 127 a then utf8 s
      else case s of
        [] \<Rightarrow> False
      | b # s1 \<Rightarrow>
          if byte_in 194 223 a then cont_byte b \<and> utf8 s1
          else (case s1 of
            [] \<Rightarrow> False
          | c # s2 \<Rightarrow>
              if byte_in 224 239 a then
                cont_byte c \<and> utf8 s2 \<and>
                (if of_char a = (224::nat) then byte_in 160 191 b
                 else if of_char a = (237::nat) then byte_in 128 159 b else cont_byte b)
              else (case s2 of
                [] \<Rightarrow> False
              | d # s3 \<Rightarrow>
                  byte_in 240 244 a \<and> cont_byte c \<and> cont_byte d \<and> utf8 s3 \<and>
                  (if of_char a = (240::nat) then byte_in 144 191 b
                   else if of_char a = (244::nat) then byte_in 128 143 b else cont_byte b))))"

text \<open>\<^verbatim>\<open>len(s)\<close> of a Python string: its code points, so every byte that continues none.\<close>

definition py_len :: "string \<Rightarrow> nat" where
  "py_len s = length (filter (\<lambda>c. \<not> cont_byte c) s)"

lemma hex_value_digit [simp]: "n < 16 \<Longrightarrow> hex_value (hex_digit n) = Some n"
  by (auto simp: hex_value_def hex_digit_def Let_def)

lemma unquote_literal: "c \<noteq> CHR ''%'' \<Longrightarrow> unquote_to_bytes (c # s) = c # unquote_to_bytes s"
  by (cases s; cases "tl s") (auto split: option.splits)

lemma unquote_escape:
  "a < 16 \<Longrightarrow> b < 16 \<Longrightarrow>
   unquote_to_bytes (CHR ''%'' # hex_digit a # hex_digit b # s) = char_of (16 * a + b) # unquote_to_bytes s"
  by simp

lemma of_char_split: "char_of (16 * (of_char c div 16) + of_char c mod (16::nat)) = (c::char)"
  by (simp add: mult_div_mod_eq)

lemma high_nibble [simp]: "of_char c div 16 < (16::nat)"
  using nat_of_char_less_256 [of c] by linarith

lemma unquote_quote: "\<not> safe (CHR ''%'') \<Longrightarrow> unquote_to_bytes (quote safe s) = s"
proof (induction s)
  case (Cons c s)
  then have "safe c \<Longrightarrow> c \<noteq> CHR ''%''" by auto
  with Cons show ?case
    by (auto simp: unquote_literal unquote_escape of_char_split simp del: unquote_to_bytes.simps)
qed simp

section \<open>Spellings and locations\<close>

text \<open>\<^verbatim>\<open>uri.partition("://")\<close>: what stands before the first \<^verbatim>\<open>://\<close> and what stands after it.\<close>

fun scheme_partition :: "string \<Rightarrow> (string \<times> string) option" where
  "scheme_partition [] = None"
| "scheme_partition (c # s) =
     (if prefix ''://'' (c # s) then Some ([], drop 3 (c # s))
      else map_option (\<lambda>(a, b). (c # a, b)) (scheme_partition s))"

definition is_slash :: "char \<Rightarrow> bool" where
  "is_slash c = (c = CHR ''/'')"

text \<open>\<^verbatim>\<open>s.strip("/")\<close>.\<close>

definition strip_slash :: "string \<Rightarrow> string" where
  "strip_slash s = rev (dropWhile is_slash (rev (dropWhile is_slash s)))"

definition normalise :: "string \<Rightarrow> string" where
  "normalise uri =
     strip_slash (case scheme_partition uri of Some (_, rest) \<Rightarrow> rest | None \<Rightarrow> uri)"

definition decoded_once :: "string \<Rightarrow> string option" where
  "decoded_once segment =
     (let bytes = unquote_to_bytes segment in if utf8 bytes then Some bytes else None)"

definition non_location_segments :: "string list" where
  "non_location_segments = [[], ''.'', ''..'']"

definition control_char :: "char \<Rightarrow> bool" where
  "control_char c = (of_char c < (32::nat) \<or> of_char c = (127::nat))"

definition separators :: "char list" where
  "separators = [CHR ''/'', CHR 0x5C]"

text \<open>One turn of the loop of \<^verbatim>\<open>decoded_segments\<close>: the segment, or the refusal.\<close>

definition judged_segment :: "string \<Rightarrow> string option" where
  "judged_segment spelled =
     (case decoded_once spelled of
        None \<Rightarrow> None
      | Some segment \<Rightarrow>
          if segment \<in> set non_location_segments \<or> CHR ''?'' \<in> set segment then None
          else if list_ex control_char segment then None
          else if list_ex (\<lambda>sep. count_list segment sep > count_list spelled sep) separators then None
          else Some segment)"

fun judged_segments :: "string list \<Rightarrow> string list option" where
  "judged_segments [] = Some []"
| "judged_segments (p # ps) =
     (case judged_segment p of
        None \<Rightarrow> None
      | Some segment \<Rightarrow> map_option ((#) segment) (judged_segments ps))"

definition decoded_segments :: "string \<Rightarrow> string list option" where
  "decoded_segments uri =
     (let path = normalise uri in
      if path = [] then None else judged_segments (split_on (CHR ''/'') path))"

definition decoded_path :: "string \<Rightarrow> string" where
  "decoded_path uri =
     (case decoded_segments uri of
        None \<Rightarrow> normalise uri
      | Some segments \<Rightarrow> join_with (CHR ''/'') segments)"

definition names_a_location :: "string \<Rightarrow> bool" where
  "names_a_location uri = (decoded_segments uri \<noteq> None)"

definition location_within :: "string \<Rightarrow> string \<Rightarrow> bool" where
  "location_within outer inner =
     (case (decoded_segments outer, decoded_segments inner) of
        (Some there, Some here) \<Rightarrow> take (length there) here = there
      | _ \<Rightarrow> False)"

definition store_of :: "string \<Rightarrow> string" where
  "store_of uri =
     (case scheme_partition uri of
        Some (scheme, _) \<Rightarrow> map lower_char scheme
      | None \<Rightarrow> ''file'')"

definition key_uri :: "string \<Rightarrow> string \<Rightarrow> string" where
  "key_uri store key = (if store = ''file'' then CHR ''/'' # key else store @ ''://'' @ key)"

definition location_in_store :: "string \<Rightarrow> string \<Rightarrow> bool" where
  "location_in_store outer inner = (store_of outer = store_of inner \<and> location_within outer inner)"

section \<open>What a location's segments are\<close>

definition plain_segment :: "string \<Rightarrow> bool" where
  "plain_segment s =
     (s \<noteq> [] \<and> s \<noteq> ''.'' \<and> s \<noteq> ''..'' \<and> utf8 s \<and> CHR ''?'' \<notin> set s \<and> CHR ''/'' \<notin> set s \<and>
      \<not> list_ex control_char s)"

lemma judged_segment_plain:
  assumes "judged_segment p = Some s" "CHR ''/'' \<notin> set p"
  shows "plain_segment s"
proof -
  have "count_list p (CHR ''/'') = 0" using assms(2) by (simp add: count_list_0_iff)
  with assms(1) have "count_list s (CHR ''/'') = 0"
    by (auto simp: judged_segment_def separators_def split: option.splits if_splits)
  then show ?thesis
    using assms(1)
    by (auto simp: judged_segment_def decoded_once_def plain_segment_def non_location_segments_def
        count_list_0_iff Let_def split: option.splits if_splits)
qed

lemma judged_segments_plain:
  "judged_segments ps = Some ss \<Longrightarrow> \<forall>p\<in>set ps. CHR ''/'' \<notin> set p \<Longrightarrow> list_all plain_segment ss"
  by (induction ps arbitrary: ss) (auto split: option.splits intro: judged_segment_plain)

lemma judged_segments_Nil: "judged_segments ps = Some [] \<longleftrightarrow> ps = []"
  by (cases ps) (auto split: option.splits)

lemma decoded_segments_plain: "decoded_segments uri = Some ss \<Longrightarrow> list_all plain_segment ss"
  by (auto simp: decoded_segments_def Let_def split: if_splits
      intro: judged_segments_plain dest: split_on_pieces)

lemma decoded_segments_not_Nil: "decoded_segments uri = Some ss \<Longrightarrow> ss \<noteq> []"
  by (auto simp: decoded_segments_def Let_def judged_segments_Nil split: if_splits)

lemma plain_segments_no_slash: "list_all plain_segment ss \<Longrightarrow> \<forall>s\<in>set ss. CHR ''/'' \<notin> set s"
  by (auto simp: list_all_iff plain_segment_def)

lemmas decoded_segments_no_slash = plain_segments_no_slash [OF decoded_segments_plain]

lemma decoded_path_segments:
  "decoded_segments uri = Some ss \<Longrightarrow> split_on (CHR ''/'') (decoded_path uri) = ss"
  by (simp add: decoded_path_def split_join decoded_segments_no_slash decoded_segments_not_Nil)

text \<open>A location's normalised path is a spelling of the same location.\<close>

lemma scheme_partition_Some: "scheme_partition s = Some (a, b) \<Longrightarrow> s = a @ ''://'' @ b"
  by (induction s arbitrary: a) (auto simp: prefix_def split: if_splits)

lemma split_on_double: "[] \<in> set (tl (split_on c (p @ c # c # s)))"
  by (induction p) (auto split: list.splits dest: list.set_sel(2) [rotated])

lemma judged_segments_empty: "[] \<in> set ps \<Longrightarrow> judged_segments ps = None"
  by (induction ps)
    (auto simp: judged_segment_def decoded_once_def non_location_segments_def split: option.splits)

lemma dropWhile_idem: "dropWhile P (dropWhile P xs) = dropWhile P xs"
  by (induction xs) auto

lemma strip_slash_idem: "strip_slash (strip_slash s) = strip_slash s"
proof -
  let ?t = "dropWhile is_slash s"
  have "dropWhile is_slash (rev (dropWhile is_slash (rev ?t))) = rev (dropWhile is_slash (rev ?t))"
  proof (cases ?t)
    case (Cons c t)
    then have "\<not> is_slash c"
      using hd_dropWhile [of is_slash s] by force
    then have "\<not> is_slash (last (rev ?t))" by (simp add: Cons)
    then show ?thesis
      by (simp add: Cons dropWhile_append)
  qed (simp only: rev.simps dropWhile.simps)
  then show ?thesis
    by (simp add: strip_slash_def dropWhile_idem)
qed

lemma normalise_location:
  assumes "names_a_location uri"
  shows "normalise (normalise uri) = normalise uri"
proof -
  have "scheme_partition (normalise uri) = None"
  proof (rule ccontr)
    assume "scheme_partition (normalise uri) \<noteq> None"
    then obtain a b where "normalise uri = (a @ '':'') @ CHR ''/'' # CHR ''/'' # b"
      by (auto dest: scheme_partition_Some)
    then have "[] \<in> set (split_on (CHR ''/'') (normalise uri))"
      by (metis split_on_double split_on_not_Nil list.set_sel(2))
    with assms show False
      by (auto simp: names_a_location_def decoded_segments_def judged_segments_empty Let_def split: if_splits)
  qed
  then have "normalise (normalise uri) = strip_slash (normalise uri)"
    by (simp add: normalise_def [of "normalise uri"])
  also have "\<dots> = normalise uri"
    by (simp add: normalise_def [of uri] strip_slash_idem)
  finally show ?thesis .
qed

lemma decoded_path_normalise: "names_a_location uri \<Longrightarrow> decoded_path (normalise uri) = decoded_path uri"
  by (auto simp: decoded_path_def decoded_segments_def normalise_location split: option.splits)

lemma names_a_location_normalise: "names_a_location uri \<Longrightarrow> names_a_location (normalise uri)"
  by (simp add: names_a_location_def decoded_segments_def normalise_location)

section \<open>Containment is the path order\<close>

lemma join_with_append:
  "ps \<noteq> [] \<Longrightarrow> qs \<noteq> [] \<Longrightarrow> join_with c (ps @ qs) = join_with c ps @ c # join_with c qs"
  by (induction c ps rule: join_with.induct) (auto simp: neq_Nil_conv)

lemma split_on_join_append:
  "ps \<noteq> [] \<Longrightarrow> \<forall>p\<in>set ps. c \<notin> set p \<Longrightarrow>
   split_on c (join_with c ps @ c # s) = ps @ split_on c s"
  by (induction c ps rule: join_with.induct) (auto simp: split_on_append)

text \<open>On a path boundary: \<^verbatim>\<open>b\<close> is \<^verbatim>\<open>a\<close>, or starts with \<^verbatim>\<open>f"{a}/"\<close>.\<close>

definition path_under :: "string \<Rightarrow> string \<Rightarrow> bool" where
  "path_under a b = (b = a \<or> prefix (a @ ''/'') b)"

lemma prefix_iff_path_under:
  assumes "ps \<noteq> []" "\<forall>p\<in>set ps. CHR ''/'' \<notin> set p"
    and "qs \<noteq> []" "\<forall>q\<in>set qs. CHR ''/'' \<notin> set q"
  shows "prefix ps qs \<longleftrightarrow> path_under (join_with (CHR ''/'') ps) (join_with (CHR ''/'') qs)"
    (is "_ \<longleftrightarrow> path_under ?p ?q")
proof
  assume "prefix ps qs"
  then obtain rs where qs: "qs = ps @ rs" by (auto simp: prefix_def)
  show "path_under ?p ?q"
    using assms(1) by (cases "rs = []") (auto simp: path_under_def qs join_with_append)
next
  have split: "split_on (CHR ''/'') ?p = ps" "split_on (CHR ''/'') ?q = qs"
    using assms by (simp_all add: split_join)
  assume "path_under ?p ?q"
  then consider "?q = ?p" | r where "?q = ?p @ CHR ''/'' # r"
    by (auto simp: path_under_def prefix_def)
  then show "prefix ps qs"
  proof cases
    case 1
    then have "split_on (CHR ''/'') ?q = split_on (CHR ''/'') ?p" by (rule arg_cong)
    then show ?thesis by (simp add: split)
  next
    case 2
    then have "split_on (CHR ''/'') ?q = ps @ split_on (CHR ''/'') r"
      using assms(1,2) by (simp add: split_on_join_append)
    then show ?thesis by (simp add: split prefix_def)
  qed
qed

lemma location_within_prefix:
  "location_within outer inner \<longleftrightarrow>
   (\<exists>there here. decoded_segments outer = Some there \<and> decoded_segments inner = Some here \<and>
      prefix there here)"
  by (auto simp: location_within_def prefix_def split: option.splits)
    (metis append_take_drop_id)

text \<open>
  \<^verbatim>\<open>location_within\<close>, which compares decoded segments, is exactly the path-boundary order on
  decoded paths: both sides name a location, and the inner path is the outer one or continues it
  after a \<^verbatim>\<open>/\<close>. So \<^verbatim>\<open>bucket/t\<close> never contains \<^verbatim>\<open>bucket/t-evil\<close>, and a spelling
  that names no location is inside nothing and contains nothing.
\<close>

theorem location_within_is_path_order:
  "location_within outer inner \<longleftrightarrow>
   names_a_location outer \<and> names_a_location inner \<and>
   path_under (decoded_path outer) (decoded_path inner)"
  by (auto simp: location_within_prefix names_a_location_def decoded_path_def decoded_segments_not_Nil
      decoded_segments_no_slash prefix_iff_path_under [symmetric])

section \<open>The two spellings of one place\<close>

lemma judged_segment_quote:
  assumes "plain_segment s" "CHR 0x5C \<notin> set s" "\<not> safe (CHR ''%'')"
  shows "judged_segment (quote safe s) = Some s"
  using assms
  by (auto simp: judged_segment_def decoded_once_def unquote_quote plain_segment_def separators_def
      non_location_segments_def Let_def dest: count_notin)

lemma judged_segments_quote:
  "list_all plain_segment ss \<Longrightarrow> \<forall>s\<in>set ss. CHR 0x5C \<notin> set s \<Longrightarrow> \<not> safe (CHR ''%'') \<Longrightarrow>
   judged_segments (map (quote safe) ss) = Some ss"
  by (induction ss) (auto simp: judged_segment_quote)

lemma hex_digit_not_slash: "n < 16 \<Longrightarrow> hex_digit n \<noteq> CHR ''/''"
  using hex_value_digit [of n] by (auto simp: hex_value_def simp del: hex_value_digit)

lemma quote_no_slash: "CHR ''/'' \<notin> set s \<Longrightarrow> CHR ''/'' \<notin> set (quote safe s)"
proof (induction s)
  case (Cons c s)
  then show ?case
    by (auto simp: hex_digit_not_slash hex_digit_not_slash [symmetric])
qed simp

lemma quote_Nil [simp]: "quote safe s = [] \<longleftrightarrow> s = []"
  by (cases s) auto

lemma strip_slash_id:
  "s \<noteq> [] \<Longrightarrow> hd s \<noteq> CHR ''/'' \<Longrightarrow> last s \<noteq> CHR ''/'' \<Longrightarrow> strip_slash s = s"
  by (simp add: strip_slash_def dropWhile_eq_self_iff [THEN iffD2] hd_rev is_slash_def)

lemma scheme_partition_first:
  "CHR '':'' \<notin> set scheme \<Longrightarrow> scheme_partition (scheme @ ''://'' @ rest) = Some (scheme, rest)"
  by (induction scheme) auto

lemma join_with_ends:
  assumes "ps \<noteq> []" "\<forall>p\<in>set ps. p \<noteq> [] \<and> c \<notin> set p"
  shows "join_with c ps \<noteq> [] \<and> hd (join_with c ps) \<noteq> c \<and> last (join_with c ps) \<noteq> c"
  using assms
  by (induction c ps rule: join_with.induct) (auto simp: hd_append)

lemma normalise_uri:
  assumes "CHR '':'' \<notin> set scheme" "ps \<noteq> []" "\<forall>p\<in>set ps. p \<noteq> [] \<and> CHR ''/'' \<notin> set p"
  shows "normalise (scheme @ ''://'' @ join_with (CHR ''/'') ps) = join_with (CHR ''/'') ps"
  using join_with_ends [OF assms(2,3)] assms(1)
  by (simp add: normalise_def scheme_partition_first [simplified] strip_slash_id)

lemma decoded_segments_uri:
  assumes "CHR '':'' \<notin> set scheme" "ps \<noteq> []" "\<forall>p\<in>set ps. p \<noteq> [] \<and> CHR ''/'' \<notin> set p"
  shows "decoded_segments (scheme @ ''://'' @ join_with (CHR ''/'') ps) = judged_segments ps"
  using join_with_ends [OF assms(2,3)] normalise_uri [OF assms] assms(2,3)
  by (simp add: decoded_segments_def split_join)

text \<open>
  percent encoding is undone exactly once. Take any directory names that a store can hold
  (non-empty, UTF-8, none of \<^verbatim>\<open>.\<close> and \<^verbatim>\<open>..\<close>, without a slash, a backslash, a question mark
  or a control character), percent-encode each of them with whatever bytes the encoder keeps as
  they are, and spell the location under a scheme: it names a location, its decoded path is the
  path of the names themselves, and its store is the scheme, so the catalog's encoded spelling and
  the directory that discovery lists are one place.
\<close>

theorem encoded_spelling_names_the_directory:
  assumes "list_all plain_segment ss" "ss \<noteq> []" "\<forall>s\<in>set ss. CHR 0x5C \<notin> set s"
    and "\<not> safe (CHR ''%'')" "CHR '':'' \<notin> set scheme"
  shows "names_a_location (scheme @ ''://'' @ join_with (CHR ''/'') (map (quote safe) ss)) \<and>
    decoded_path (scheme @ ''://'' @ join_with (CHR ''/'') (map (quote safe) ss)) =
      join_with (CHR ''/'') ss \<and>
    store_of (scheme @ ''://'' @ join_with (CHR ''/'') (map (quote safe) ss)) = map lower_char scheme"
proof -
  have "\<forall>p\<in>set (map (quote safe) ss). p \<noteq> [] \<and> CHR ''/'' \<notin> set p"
    using assms(1) by (auto simp: list_all_iff plain_segment_def dest: quote_no_slash)
  then have "decoded_segments (scheme @ ''://'' @ join_with (CHR ''/'') (map (quote safe) ss)) = Some ss"
    using assms by (simp add: decoded_segments_uri [simplified] judged_segments_quote)
  then show ?thesis
    using assms(5)
    by (simp add: names_a_location_def decoded_path_def store_of_def scheme_partition_first [simplified])
qed

theorem encoded_spelling_names_the_directory_witness:
  "decoded_path ''s3://lake/growth%25/a%20b'' = ''lake/growth%/a b''"
proof -
  have "list_all plain_segment [''lake'', ''growth%'', ''a b'']"
    by (simp add: plain_segment_def control_char_def byte_in_def)
  moreover have "map (quote always_safe) [''lake'', ''growth%'', ''a b''] =
      [''lake'', ''growth%25'', ''a%20b'']"
    by code_simp
  moreover have "\<not> always_safe (CHR ''%'')"
    by code_simp
  ultimately show ?thesis
    using encoded_spelling_names_the_directory
      [of "[''lake'', ''growth%'', ''a b'']" always_safe "''s3''"]
    by (simp del: list.map)
qed

section \<open>Containment as an interface\<close>

text \<open>
  What every judge of a declared base relies on: containment relates locations only, every location
  contains itself, containment composes, and two locations around one inner location are comparable.
  The outermost of a family of containing roots is then the same whatever order they are met in.
\<close>

locale containment =
  fixes within :: "string \<Rightarrow> string \<Rightarrow> bool" and loc :: "string \<Rightarrow> bool"
  assumes within_loc: "within a b \<Longrightarrow> loc a \<and> loc b"
    and within_refl: "loc a \<Longrightarrow> within a a"
    and within_trans: "within a b \<Longrightarrow> within b c \<Longrightarrow> within a c"
    and within_linear: "within a c \<Longrightarrow> within b c \<Longrightarrow> within a b \<or> within b a"
begin

lemma outermost_contains:
  assumes "within r u" "within r' u" "\<not> within r r'"
  shows "within r' r"
  using assms within_linear by blast

lemma same_place_same_answers:
  assumes "within a b" "within b a"
  shows "within a c \<longleftrightarrow> within b c"
  using assms within_trans by blast

lemma same_place_same_holders:
  assumes "within a b" "within b a"
  shows "within c a \<longleftrightarrow> within c b"
  using assms within_trans by blast

end

interpretation path_containment: containment location_within names_a_location
proof
  show "location_within a b \<Longrightarrow> names_a_location a \<and> names_a_location b" for a b
    by (auto simp: location_within_prefix names_a_location_def)
  show "names_a_location a \<Longrightarrow> location_within a a" for a
    by (auto simp: location_within_prefix names_a_location_def)
  show "location_within a b \<Longrightarrow> location_within b c \<Longrightarrow> location_within a c" for a b c
    by (auto simp: location_within_prefix)
  show "location_within a c \<Longrightarrow> location_within b c \<Longrightarrow> location_within a b \<or> location_within b a" for a b c
    by (auto simp: location_within_prefix dest: prefix_same_cases)
qed

interpretation store_containment: containment location_in_store names_a_location
proof
  show "location_in_store a b \<Longrightarrow> names_a_location a \<and> names_a_location b" for a b
    using path_containment.within_loc by (auto simp: location_in_store_def)
  show "names_a_location a \<Longrightarrow> location_in_store a a" for a
    using path_containment.within_refl by (auto simp: location_in_store_def)
  show "location_in_store a b \<Longrightarrow> location_in_store b c \<Longrightarrow> location_in_store a c" for a b c
    using path_containment.within_trans by (auto simp: location_in_store_def)
  show "location_in_store a c \<Longrightarrow> location_in_store b c \<Longrightarrow> location_in_store a b \<or> location_in_store b a" for a b c
    using path_containment.within_linear by (auto simp: location_in_store_def)
qed

end
