(* ===== verification/Branch_Layout.thy ===== *)
theory Branch_Layout
  imports Locations
begin

text \<open>
  \<^verbatim>\<open>lakehouse_kit/branch_layout.py\<close>: where a branch's files live under its table, and which branch
  names would land inside another branch's files. A branch name is kept as its UTF-8 bytes; \<open>decode\<close>
  is \<^verbatim>\<open>bytes.decode("utf-8", errors="replace")\<close>, which leaves well-formed UTF-8 as it is.
\<close>

definition branch_file_dirs :: "string list" where
  "branch_file_dirs = [''_versions'', ''_transactions'', ''_deletions'', ''_indices'', ''data'']"

definition reserved_segments :: "string list" where
  "reserved_segments = branch_file_dirs @ [''_refs'', ''_mem_wal'', ''tree'']"

definition branch_refs_dir :: string where
  "branch_refs_dir = ''_refs/branches''"

definition branch_container :: string where
  "branch_container = ''tree''"

definition reserved_segment :: "string \<Rightarrow> string option" where
  "reserved_segment name = List.find (\<lambda>s. s \<in> set reserved_segments) (split_on (CHR ''/'') name)"

definition slashes :: "string \<Rightarrow> nat" where
  "slashes b = count_list b (CHR ''/'')"

text \<open>Sorted by \<^verbatim>\<open>(-b.count("/"), b)\<close> and by \<^verbatim>\<open>(b.count("/"), b)\<close>: by name, and stably by depth.\<close>

definition branches_inside :: "string \<Rightarrow> string list \<Rightarrow> string list" where
  "branches_inside name branches =
     sort_key (\<lambda>b. - int (slashes b)) (sort (filter (prefix (name @ ''/'')) branches))"

definition branches_enclosing :: "string \<Rightarrow> string list \<Rightarrow> string list" where
  "branches_enclosing name branches =
     sort_key slashes (sort (filter (\<lambda>b. prefix (b @ ''/'') name) branches))"

definition lies_in_files_of :: "string \<Rightarrow> string \<Rightarrow> bool" where
  "lies_in_files_of name parent =
     (if \<not> prefix (parent @ ''/'') name then False
      else hd (split_on (CHR ''/'') (drop (length parent + 1) name)) \<in> set branch_file_dirs)"

definition ref_file_name :: "string \<Rightarrow> string" where
  "ref_file_name name = quote always_safe name @ ''.json''"

definition branch_name_from_ref_file :: "(string \<Rightarrow> string) \<Rightarrow> string \<Rightarrow> string option" where
  "branch_name_from_ref_file decode file_name =
     (if \<not> suffix ''.json'' file_name then None
      else (let name = decode (unquote_to_bytes (remove_suffix ''.json'' file_name)) in
        if name = [] then None else Some name))"

text \<open>\<^verbatim>\<open>max(named, key=len, default=None)\<close>: the first of the longest.\<close>

fun longest :: "string list \<Rightarrow> string option" where
  "longest [] = None"
| "longest (b # bs) = (case longest bs of
       None \<Rightarrow> Some b
     | Some c \<Rightarrow> if py_len c > py_len b then Some c else Some b)"

definition branch_named_by :: "string \<Rightarrow> string list \<Rightarrow> string option" where
  "branch_named_by location branches =
     longest (filter (\<lambda>b. suffix (''/'' @ branch_container @ ''/'' @ b) (rstrip_slash location)) branches)"

section \<open>Properties\<close>

text \<open>
  A branch's ref file names it. For every non-empty branch or tag name that is UTF-8, the file
  name is free of slashes, so it lies directly in the refs directory, and reading it back gives the
  name; so no two names share a ref file.
\<close>

theorem ref_file_round_trip:
  assumes "name \<noteq> []" "utf8 name" "\<And>s. utf8 s \<Longrightarrow> decode s = s"
  shows "branch_name_from_ref_file decode (ref_file_name name) = Some name \<and>
    CHR ''/'' \<notin> set (ref_file_name name)"
proof -
  have "\<not> always_safe (CHR ''%'')" by code_simp
  moreover have "\<not> always_safe (CHR ''/'')" by code_simp
  then have "CHR ''/'' \<notin> set (quote always_safe s)" for s
    by (induction s) (auto simp: hex_digit_not_slash hex_digit_not_slash [symmetric])
  ultimately show ?thesis
    using assms
    by (auto simp: branch_name_from_ref_file_def ref_file_name_def unquote_quote suffix_def Let_def)
qed

theorem ref_file_round_trip_witness:
  "branch_name_from_ref_file id (ref_file_name ''team/fix'') = Some ''team/fix'' \<and>
   ref_file_name ''team/fix'' = ''team%2Ffix.json''"
proof -
  have "ref_file_name ''team/fix'' = ''team%2Ffix.json''" by code_simp
  moreover have "utf8 ''team/fix''" by code_simp
  ultimately show ?thesis
    using ref_file_round_trip [of "''team/fix''" id] by simp
qed

lemma split_on_segments_append:
  "set (split_on c s) \<subseteq> set (tl (split_on c (p @ c # s)))"
  by (induction p) (auto split: list.splits dest: list.set_sel(2) [rotated])

text \<open>
  A name the create door accepts puts no branch among another's files. A branch name with no
  reserved segment lies in the file directories of no branch at all, so deleting it can never remove
  another branch's versions, transactions, deletions, indices or data.
\<close>

theorem unreserved_branch_stays_out_of_files:
  assumes "reserved_segment name = None"
  shows "\<not> lies_in_files_of name parent"
proof
  assume inside: "lies_in_files_of name parent"
  then obtain rest where rest: "name = parent @ CHR ''/'' # rest"
    by (auto simp: lies_in_files_of_def prefix_def split: if_splits)
  then have "hd (split_on (CHR ''/'') rest) \<in> set branch_file_dirs"
    using inside by (simp add: lies_in_files_of_def split: if_splits)
  moreover have "hd (split_on (CHR ''/'') rest) \<in> set (split_on (CHR ''/'') name)"
    using split_on_segments_append [of "CHR ''/''" rest parent] rest
    by (metis hd_in_set list.set_sel(2) split_on_not_Nil subsetD)
  ultimately show False
    using assms by (auto simp: reserved_segment_def find_None_iff reserved_segments_def)
qed

theorem unreserved_branch_stays_out_of_files_witness:
  "\<not> lies_in_files_of ''team/fix'' ''team'' \<and> lies_in_files_of ''team/data/x'' ''team''"
proof -
  have "reserved_segment ''team/fix'' = None" by code_simp
  moreover have "lies_in_files_of ''team/data/x'' ''team''" by code_simp
  ultimately show ?thesis
    using unreserved_branch_stays_out_of_files by blast
qed

lemma slashes_inside: "prefix (a @ ''/'') b \<Longrightarrow> slashes a < slashes b"
  by (auto simp: prefix_def slashes_def)

text \<open>
  A delete can take the branches inside a branch in the order they are listed: each listed
  branch lies inside the named one, and none comes before a branch that lies inside it, so a parent
  is never removed before its child.
\<close>

theorem nested_branches_deepest_first:
  "sorted_wrt (\<lambda>a b. \<not> prefix (a @ ''/'') b) (branches_inside name branches) \<and>
   set (branches_inside name branches) = {b \<in> set branches. prefix (name @ ''/'') b}"
proof -
  have "sorted (map (\<lambda>b. - int (slashes b)) (branches_inside name branches))"
    by (simp add: branches_inside_def)
  then have "sorted_wrt (\<lambda>a b. slashes b \<le> slashes a) (branches_inside name branches)"
    by (simp add: sorted_map)
  then show ?thesis
    by (auto simp: branches_inside_def elim!: sorted_wrt_mono_rel [rotated] dest: slashes_inside)
qed

end
