(* ===== verification/Discovery.thy ===== *)
theory Discovery
  imports Branch_Layout
begin

text \<open>
  \<^verbatim>\<open>maintenance/services/discovery.py\<close>: the bounded walk of one bucket that finds the estate's
  datasets, and the prefixes it did not reach. The pyarrow filesystem is a record of the three answers
  the walk asks it for; a listing that is refused raises, and one of an absent prefix says so.
\<close>

datatype file_type = Directory | File | NotFound

record entry =
  e_path :: string
  e_type :: file_type

datatype listing = Listed "entry list" | Absent | Unlistable

record filesystem =
  fs_list :: "string \<Rightarrow> listing"
  fs_info :: "string \<Rightarrow> file_type result"
  fs_is_s3 :: bool

record discovery =
  uris :: "string list"
  truncated :: "string list"

definition control_prefixes :: "string list" where
  "control_prefixes =
     [''__manifest'', ''_trash'', ''_projects'', ''_warehouses'', ''_policies'', ''_protection'', ''_bases'',
      ''_locations'', ''_idempotency'', ''_gates'', ''_maintenance_due'', ''_history_fences'',
      ''_commit_turns'', ''_commit_authors'', ''_commit_marks'', ''_file_identities'',
      ''_erasure_obligations'', ''_erasure_releases'', ''_promotions'', ''_table_inputs'',
      ''_lineage_outbox'', ''_control_outbox'', ''_staging'', ''_backups'']"

definition may_hide_a_dataset :: "filesystem \<Rightarrow> string \<Rightarrow> bool" where
  "may_hide_a_dataset fs path = (case fs_list fs path of
       Unlistable \<Rightarrow> True
     | Absent \<Rightarrow> False
     | Listed children \<Rightarrow> list_ex (\<lambda>c. e_type c = Directory) children)"

text \<open>\<^verbatim>\<open>s.partition("/")\<close>: what precedes the first slash, and what follows it.\<close>

definition before_slash :: "string \<Rightarrow> string" where
  "before_slash s = takeWhile (\<lambda>c. c \<noteq> CHR ''/'') s"

definition after_slash :: "string \<Rightarrow> string" where
  "after_slash s = tl (dropWhile (\<lambda>c. c \<noteq> CHR ''/'') s)"

definition is_a_prefix_of_an_existing_bucket :: "filesystem \<Rightarrow> string \<Rightarrow> bool result" where
  "is_a_prefix_of_an_existing_bucket fs root =
     (if \<not> fs_is_s3 fs \<or> after_slash root = [] then Inr False
      else map_sum id (\<lambda>t. t = Directory) (fs_info fs (before_slash root)))"

definition branch_refs :: "(string \<Rightarrow> string) \<Rightarrow> filesystem \<Rightarrow> string \<Rightarrow> string list result" where
  "branch_refs decode fs root = (case fs_list fs (root @ ''/'' @ branch_refs_dir) of
       Unlistable \<Rightarrow> Inl StoreError
     | Absent \<Rightarrow> Inr []
     | Listed infos \<Rightarrow> Inr (sort (List.map_filter
         (\<lambda>i. if e_type i = File then branch_name_from_ref_file decode (base_name (e_path i)) else None) infos)))"

definition skipped_dir :: "string \<Rightarrow> bool" where
  "skipped_dir path = (let name = base_name (rstrip_slash path) in
     prefix ''__'' name \<or> name \<in> set control_prefixes)"

definition s3_uri :: "string \<Rightarrow> string" where
  "s3_uri path = ''s3://'' @ path"

text \<open>
  The inner \<^verbatim>\<open>_walk\<close> and the loop over one listing. A failed read raises out of the whole walk, so
  the datasets found before it are not returned.
\<close>

function (sequential) walk ::
    "(string \<Rightarrow> string) \<Rightarrow> filesystem \<Rightarrow> nat \<Rightarrow> string \<Rightarrow> nat \<Rightarrow> discovery \<Rightarrow> discovery result"
  and walk_entries ::
    "(string \<Rightarrow> string) \<Rightarrow> filesystem \<Rightarrow> nat \<Rightarrow> entry list \<Rightarrow> nat \<Rightarrow> discovery \<Rightarrow> discovery result" where
  "walk decode fs max_depth p depth found = (case fs_list fs p of
       Unlistable \<Rightarrow> Inl StoreError
     | Absent \<Rightarrow>
         (if depth = 1 then (case is_a_prefix_of_an_existing_bucket fs p of
              Inl e \<Rightarrow> Inl e
            | Inr b \<Rightarrow> if b then Inr found else Inl FileNotFoundError)
          else Inr found)
     | Listed es \<Rightarrow> walk_entries decode fs max_depth es depth found)"
| "walk_entries decode fs max_depth [] depth found = Inr found"
| "walk_entries decode fs max_depth (i # is) depth found =
     (if e_type i \<noteq> Directory \<or> skipped_dir (e_path i)
      then walk_entries decode fs max_depth is depth found
      else (case fs_info fs (e_path i @ ''/_versions'') of
          Inl e \<Rightarrow> Inl e
        | Inr marker \<Rightarrow>
           (if marker = Directory then
              (case branch_refs decode fs (e_path i) of
                 Inl e \<Rightarrow> Inl e
               | Inr names \<Rightarrow> walk_entries decode fs max_depth is depth
                   (found\<lparr>uris := uris found @ s3_uri (e_path i) #
                      map (\<lambda>n. s3_uri (e_path i @ ''/'' @ branch_container @ ''/'' @ n)) names\<rparr>))
            else if depth < max_depth then
              (case walk decode fs max_depth (e_path i) (depth + 1) found of
                 Inl e \<Rightarrow> Inl e
               | Inr found' \<Rightarrow> walk_entries decode fs max_depth is depth found')
            else if may_hide_a_dataset fs (e_path i) then
              walk_entries decode fs max_depth is depth
                (found\<lparr>truncated := truncated found @ [s3_uri (e_path i)]\<rparr>)
            else walk_entries decode fs max_depth is depth found)))"
  by pat_completeness auto

termination
  by (relation "measures
       [\<lambda>x. case x of Inl (_, _, m, _, d, _) \<Rightarrow> m - d | Inr (_, _, m, _, d, _) \<Rightarrow> m - d,
        \<lambda>x. case x of Inl _ \<Rightarrow> 1 | Inr _ \<Rightarrow> 0,
        \<lambda>x. case x of Inl _ \<Rightarrow> 0 | Inr (_, _, _, es, _, _) \<Rightarrow> length es]") auto

declare walk.simps [simp del] walk_entries.simps(2) [simp del]

definition discover_datasets :: "(string \<Rightarrow> string) \<Rightarrow> filesystem \<Rightarrow> string \<Rightarrow> nat \<Rightarrow> discovery result" where
  "discover_datasets decode fs bucket max_depth =
     walk decode fs max_depth bucket 1 \<lparr>uris = [], truncated = []\<rparr>"

section \<open>What lies under a prefix\<close>

text \<open>
  The estate as it stands, with no bound on the depth: \<open>lies_under fs p d\<close> says that \<open>d\<close> is a
  dataset under \<open>p\<close>, reached through directories that are neither bookkeeping nor datasets themselves.
\<close>

definition is_dataset :: "filesystem \<Rightarrow> string \<Rightarrow> bool" where
  "is_dataset fs path = (fs_info fs (path @ ''/_versions'') = Inr Directory)"

inductive lies_under :: "filesystem \<Rightarrow> string \<Rightarrow> string \<Rightarrow> bool" for fs where
  here: "\<lbrakk>fs_list fs p = Listed es; i \<in> set es; e_type i = Directory; \<not> skipped_dir (e_path i);
    is_dataset fs (e_path i)\<rbrakk> \<Longrightarrow> lies_under fs p (e_path i)"
| below: "\<lbrakk>fs_list fs p = Listed es; i \<in> set es; e_type i = Directory; \<not> skipped_dir (e_path i);
    \<not> is_dataset fs (e_path i); lies_under fs (e_path i) d\<rbrakk> \<Longrightarrow> lies_under fs p d"

inductive_cases lies_underE: "lies_under fs p d"

text \<open>What the walk lists for the dataset \<open>d\<close>: the dataset and every branch its refs name.\<close>

definition listed_for :: "(string \<Rightarrow> string) \<Rightarrow> filesystem \<Rightarrow> string \<Rightarrow> string set" where
  "listed_for decode fs d = insert (s3_uri d)
     (case branch_refs decode fs d of Inl _ \<Rightarrow> {}
      | Inr names \<Rightarrow> (\<lambda>n. s3_uri (d @ ''/'' @ branch_container @ ''/'' @ n)) ` set names)"

lemma hides_when_a_dataset_lies_under: "lies_under fs p d \<Longrightarrow> may_hide_a_dataset fs p"
  by (erule lies_underE) (auto simp: may_hide_a_dataset_def list_ex_iff)

text \<open>
  The step of the walk as a relation: from what was found before to what is found after, the datasets of
  \<open>D\<close> are listed or lie under a prefix noted as truncated, and nothing else is listed.
\<close>

definition accounted :: "(string \<Rightarrow> string) \<Rightarrow> filesystem \<Rightarrow> discovery \<Rightarrow> string \<Rightarrow> bool" where
  "accounted decode fs b d \<longleftrightarrow> listed_for decode fs d \<subseteq> set (uris b) \<or>
     (\<exists>t. s3_uri t \<in> set (truncated b) \<and> lies_under fs t d)"

lemma accounted_mono:
  "accounted decode fs b d \<Longrightarrow> set (uris b) \<subseteq> set (uris c) \<Longrightarrow> set (truncated b) \<subseteq> set (truncated c) \<Longrightarrow>
   accounted decode fs c d"
  by (auto simp: accounted_def)

definition covers ::
    "(string \<Rightarrow> string) \<Rightarrow> filesystem \<Rightarrow> string set \<Rightarrow> discovery \<Rightarrow> discovery \<Rightarrow> bool" where
  "covers decode fs D a b \<longleftrightarrow>
     set (uris a) \<subseteq> set (uris b) \<and> set (truncated a) \<subseteq> set (truncated b) \<and>
     (\<forall>d\<in>D. accounted decode fs b d) \<and>
     (\<forall>u\<in>set (uris b) - set (uris a). \<exists>d\<in>D. u \<in> listed_for decode fs d)"

definition in_entries :: "filesystem \<Rightarrow> entry list \<Rightarrow> string set" where
  "in_entries fs es = {d. \<exists>i\<in>set es. e_type i = Directory \<and> \<not> skipped_dir (e_path i) \<and>
     (if is_dataset fs (e_path i) then d = e_path i else lies_under fs (e_path i) d)}"

lemma lies_under_listed: "fs_list fs p = Listed es \<Longrightarrow> {d. lies_under fs p d} = in_entries fs es"
  unfolding in_entries_def by (subst lies_under.simps) auto

lemma lies_under_unlisted: "\<nexists>es. fs_list fs p = Listed es \<Longrightarrow> {d. lies_under fs p d} = {}"
  by (auto elim: lies_underE)

lemma in_entries_Nil [simp]: "in_entries fs [] = {}"
  by (simp add: in_entries_def)

lemma in_entries_Cons:
  "in_entries fs (i # es) =
     (if e_type i \<noteq> Directory \<or> skipped_dir (e_path i) then {}
      else if is_dataset fs (e_path i) then {e_path i} else {d. lies_under fs (e_path i) d}) \<union> in_entries fs es"
  by (auto simp: in_entries_def)

lemma covers_refl: "covers decode fs {} a a"
  by (simp add: covers_def)

lemma covers_trans:
  assumes "covers decode fs D a b" "covers decode fs E b c"
  shows "covers decode fs (D \<union> E) a c"
proof -
  have "u \<in> set (uris c) \<Longrightarrow> u \<notin> set (uris a) \<Longrightarrow> \<exists>d\<in>D \<union> E. u \<in> listed_for decode fs d" for u
    using assms by (cases "u \<in> set (uris b)") (auto simp: covers_def)
  moreover have "d \<in> D \<union> E \<Longrightarrow> accounted decode fs c d" for d
    using assms by (auto simp: covers_def intro: accounted_mono)
  moreover have "set (uris a) \<subseteq> set (uris c)" "set (truncated a) \<subseteq> set (truncated c)"
    using assms by (auto simp: covers_def)
  ultimately show ?thesis
    by (simp add: covers_def)
qed

lemma covers_dataset:
  assumes "branch_refs decode fs d = Inr names"
  shows "covers decode fs {d} a (a\<lparr>uris := uris a @ s3_uri d #
     map (\<lambda>n. s3_uri (d @ ''/'' @ branch_container @ ''/'' @ n)) names\<rparr>)"
  using assms by (auto simp: covers_def accounted_def listed_for_def)

lemma covers_truncated:
  "covers decode fs {d. lies_under fs t d} a (a\<lparr>truncated := truncated a @ [s3_uri t]\<rparr>)"
  by (auto simp: covers_def accounted_def)

lemma covers_nothing_hidden: "\<not> may_hide_a_dataset fs t \<Longrightarrow> covers decode fs {d. lies_under fs t d} a a"
  by (auto simp: covers_def dest: hides_when_a_dataset_lies_under)

lemma walk_covers:
  "walk decode fs m p depth a = Inr b \<Longrightarrow> covers decode fs {d. lies_under fs p d} a b"
  "walk_entries decode fs m es depth a = Inr b \<Longrightarrow> covers decode fs (in_entries fs es) a b"
proof (induction decode fs m p depth a and decode fs m es depth a arbitrary: b and b
    rule: walk_walk_entries.induct)
  case (1 decode fs m p depth a)
  then show ?case
    by (cases "fs_list fs p")
      (auto simp: walk.simps lies_under_listed lies_under_unlisted covers_refl split: if_splits sum.splits)
next
  case (2 decode fs m depth a)
  then show ?case by (simp add: covers_refl)
next
  case (3 decode fs m i es depth a)
  show ?case
  proof (cases "e_type i \<noteq> Directory \<or> skipped_dir (e_path i)")
    case True
    with 3 show ?thesis by (auto simp: walk_entries.simps in_entries_Cons)
  next
    case go: False
    obtain marker where marker: "fs_info fs (e_path i @ ''/_versions'') = Inr marker"
      using 3(7) go by (auto simp: walk_entries.simps split: sum.splits)
    consider (dataset) "marker = Directory" | (deeper) "marker \<noteq> Directory" "depth < m"
      | (hides) "marker \<noteq> Directory" "\<not> depth < m" "may_hide_a_dataset fs (e_path i)"
      | (bare) "marker \<noteq> Directory" "\<not> depth < m" "\<not> may_hide_a_dataset fs (e_path i)"
      by blast
    then show ?thesis
    proof cases
      case dataset
      then obtain names where names: "branch_refs decode fs (e_path i) = Inr names"
        using 3(7) go marker by (auto simp: walk_entries.simps split: sum.splits)
      have "covers decode fs (in_entries fs es) (a\<lparr>uris := uris a @ s3_uri (e_path i) #
          map (\<lambda>n. s3_uri (e_path i @ ''/'' @ branch_container @ ''/'' @ n)) names\<rparr>) b"
        using 3(2) [OF go marker dataset names] 3(7) go marker dataset names
        by (simp add: walk_entries.simps)
      from covers_trans [OF covers_dataset [OF names] this] show ?thesis
        using go marker dataset by (simp add: in_entries_Cons is_dataset_def)
    next
      case deeper
      then obtain c where c: "walk decode fs m (e_path i) (depth + 1) a = Inr c"
          "walk_entries decode fs m es depth c = Inr b"
        using 3(7) go marker by (auto simp: walk_entries.simps split: sum.splits)
      from covers_trans [OF 3(3) [OF go marker deeper c(1)] 3(4) [OF go marker deeper c(1) c(2)]]
      show ?thesis using go marker deeper by (simp add: in_entries_Cons is_dataset_def)
    next
      case hides
      then have "covers decode fs (in_entries fs es) (a\<lparr>truncated := truncated a @ [s3_uri (e_path i)]\<rparr>) b"
        using 3 go marker by (simp add: walk_entries.simps)
      from covers_trans [OF covers_truncated this] show ?thesis
        using go marker hides by (simp add: in_entries_Cons is_dataset_def)
    next
      case bare
      then have "covers decode fs (in_entries fs es) a b"
        using 3 go marker by (simp add: walk_entries.simps)
      from covers_trans [OF covers_nothing_hidden [OF bare(3)] this] show ?thesis
        using go marker bare by (simp add: in_entries_Cons is_dataset_def)
    qed
  qed
qed

section \<open>Properties\<close>

text \<open>
  C24: the walk of a bucket accounts for every dataset in it. Whatever the depth bound, each
  dataset under the bucket is listed together with every branch its refs name, or lies under a prefix
  the walk reports as truncated; and each listed location is such a dataset or one of its branches. So
  a walk that reports no truncation found exactly the datasets of the bucket and their branches, and an
  absent answer is never a dataset that was not looked for.
\<close>

theorem discovery_accounts_for_every_dataset:
  assumes "discover_datasets decode fs bucket max_depth = Inr found"
  shows "(\<forall>d. lies_under fs bucket d \<longrightarrow> listed_for decode fs d \<subseteq> set (uris found) \<or>
      (\<exists>t. s3_uri t \<in> set (truncated found) \<and> lies_under fs t d)) \<and>
    (\<forall>u\<in>set (uris found). \<exists>d. lies_under fs bucket d \<and> u \<in> listed_for decode fs d) \<and>
    (truncated found = [] \<longrightarrow> set (uris found) = \<Union> (listed_for decode fs ` {d. lies_under fs bucket d}))"
proof -
  have "covers decode fs {d. lies_under fs bucket d} \<lparr>uris = [], truncated = []\<rparr> found"
    using assms by (simp add: discover_datasets_def walk_covers)
  then show ?thesis
    by (auto simp: covers_def accounted_def)
qed

definition small_estate :: filesystem where
  "small_estate = \<lparr>
     fs_list = (\<lambda>p.
       if p = ''b'' then Listed [\<lparr>e_path = ''b/pages'', e_type = Directory\<rparr>,
         \<lparr>e_path = ''b/_trash'', e_type = Directory\<rparr>, \<lparr>e_path = ''b/team'', e_type = Directory\<rparr>]
       else if p = ''b/pages/_refs/branches'' then Listed [\<lparr>e_path = ''b/pages/_refs/branches/fix.json'', e_type = File\<rparr>]
       else if p = ''b/team'' then Listed [\<lparr>e_path = ''b/team/lines'', e_type = Directory\<rparr>]
       else Absent),
     fs_info = (\<lambda>p. Inr (if p = ''b/pages/_versions'' \<or> p = ''b/team/lines/_versions'' then Directory else NotFound)),
     fs_is_s3 = True\<rparr>"

theorem discovery_accounts_for_every_dataset_witness:
  "discover_datasets id small_estate ''b'' 1 =
     Inr \<lparr>uris = [''s3://b/pages'', ''s3://b/pages/tree/fix''], truncated = [''s3://b/team'']\<rparr> \<and>
   (\<exists>t. s3_uri t = ''s3://b/team'' \<and> lies_under small_estate t ''b/team/lines'')"
proof -
  have run: "discover_datasets id small_estate ''b'' 1 =
     Inr \<lparr>uris = [''s3://b/pages'', ''s3://b/pages/tree/fix''], truncated = [''s3://b/team'']\<rparr>"
    by code_simp
  have "lies_under small_estate ''b/team'' ''b/team/lines''"
    using lies_under.here [of small_estate "''b/team''" "[\<lparr>e_path = ''b/team/lines'', e_type = Directory\<rparr>]"
        "\<lparr>e_path = ''b/team/lines'', e_type = Directory\<rparr>"]
    by (simp add: small_estate_def is_dataset_def skipped_dir_def base_name_def rstrip_slash_def control_prefixes_def)
  then have "lies_under small_estate ''b'' ''b/team/lines''"
    using lies_under.below [of small_estate "''b''" _ "\<lparr>e_path = ''b/team'', e_type = Directory\<rparr>" "''b/team/lines''"]
    by (simp add: small_estate_def is_dataset_def skipped_dir_def base_name_def rstrip_slash_def control_prefixes_def)
  with discovery_accounts_for_every_dataset [OF run]
  have "listed_for id small_estate ''b/team/lines'' \<subseteq> {''s3://b/pages'', ''s3://b/pages/tree/fix''} \<or>
      (\<exists>t. s3_uri t = ''s3://b/team'' \<and> lies_under small_estate t ''b/team/lines'')"
    by simp
  moreover have "''s3://b/team/lines'' \<in> listed_for id small_estate ''b/team/lines''"
    by (simp add: listed_for_def s3_uri_def)
  moreover have "''s3://b/team/lines'' \<notin> {''s3://b/pages'', ''s3://b/pages/tree/fix''}"
    by simp
  ultimately show ?thesis
    using run by blast
qed

end
