(* ===== verification/Records.thy ===== *)
theory Records
  imports Prelude
begin

text \<open>
  The control root's object store and its two seams: the conditional writes of
  \<^verbatim>\<open>lakehouse_kit/records.py\<close> (create-if-absent, replace-if-the-ETag-matches, the
  read-modify-write loop over them) and the unconditional registry primitives of
  \<^verbatim>\<open>lakehouse_kit/record_store.py\<close>.

  The store is a \<open>world\<close>: the objects by key, the store's clock, and what other clients do
  before each of this client's next accesses (\<open>pending\<close>). An access is atomic; between two
  accesses of one operation any number of other clients may have written, time passes, and the
  store may refuse to answer. \<open>pending\<close> makes that interleaving an explicit argument, so an
  operation is an executable function and a claim about every interleaving quantifies over it.

  ETags: on a local root the ETag of an object is the SHA-256 of its bytes, on S3 it is the
  store's own digest of them, so an ETag is a function \<open>dg\<close> of the content, a parameter of every
  definition that uses one; where a property needs that different contents have different ETags
  it says \<open>inj dg\<close>.
\<close>

section \<open>The store\<close>

text \<open>
  What lies at a key: a JSON object the reader's model accepts, JSON that is not such an object,
  or bytes that are not JSON at all.
\<close>

datatype 'j content = Json 'j | NotObject | Undecodable

type_synonym 'j objects = "(string \<times> 'j content) list"

text \<open>One gap before an access: what the others wrote, how long it took, whether the store answers.\<close>

record 'j gap =
  others :: "'j objects \<Rightarrow> 'j objects"
  elapsed :: nat
  answers :: bool

record 'j world =
  objects :: "'j objects"
  clock :: int
  pending :: "'j gap list"

text \<open>The two kinds of control root: \<^verbatim>\<open>s3://\<close> and a local directory.\<close>

datatype root = S3 | Local

definition lookup :: "'j world \<Rightarrow> string \<Rightarrow> 'j content option" where
  "lookup w k = map_of (objects w) k"

definition access :: "'j world \<Rightarrow> bool \<times> 'j world" where
  "access w = (case pending w of
       [] \<Rightarrow> (True, w)
     | g # gs \<Rightarrow> (answers g, w\<lparr>objects := others g (objects w),
                              clock := clock w + int (elapsed g), pending := gs\<rparr>))"

definition store_put :: "string \<Rightarrow> 'j content \<Rightarrow> 'j world \<Rightarrow> 'j world" where
  "store_put k c w = w\<lparr>objects := AList.update k c (objects w)\<rparr>"

definition store_delete :: "string \<Rightarrow> 'j world \<Rightarrow> 'j world" where
  "store_delete k w = w\<lparr>objects := AList.delete k (objects w)\<rparr>"

lemma lookup_store_put [simp]: "lookup (store_put k c w) k' = (if k' = k then Some c else lookup w k')"
  by (simp add: lookup_def store_put_def)

lemma lookup_store_delete [simp]: "lookup (store_delete k w) k' = (if k' = k then None else lookup w k')"
  by (simp add: lookup_def store_delete_def)

lemma clock_store [simp]: "clock (store_put k c w) = clock w" "clock (store_delete k w) = clock w"
  by (simp_all add: store_put_def store_delete_def)

lemma pending_store [simp]: "pending (store_put k c w) = pending w" "pending (store_delete k w) = pending w"
  by (simp_all add: store_put_def store_delete_def)

lemma access_quiet [simp]: "pending w = [] \<Longrightarrow> access w = (True, w)"
  by (simp add: access_def)

lemma access_pending: "access w = (b, w') \<Longrightarrow> pending w' = tl (pending w)"
  by (auto simp: access_def split: list.splits)

section \<open>Conditional records (\<^verbatim>\<open>records.py\<close>)\<close>

record ('j, 'e) stored =
  body :: 'j
  etag :: 'e

record ('j, 'e) store_read =
  stored :: "('j, 'e) stored option"
  at :: int

text \<open>
  \<^verbatim>\<open>create_json\<close>: put-if-not-exists on S3, a hard link on a local root. Either way the store
  picks the winner, and a present key is the lost race.
\<close>

definition create_json :: "string \<Rightarrow> 'j \<Rightarrow> 'j world \<Rightarrow> unit result \<times> 'j world" where
  "create_json k r w = (case access w of
       (False, w1) \<Rightarrow> (Inl StoreError, w1)
     | (True, w1) \<Rightarrow>
         (if lookup w1 k \<noteq> None then (Inl RecordExistsError, w1)
          else (Inr (), store_put k (Json r) w1)))"

text \<open>
  \<^verbatim>\<open>read_json_at\<close>: the record with its ETag and the store's clock at the read. A body that
  does not validate raises.
\<close>

definition read_json_at ::
  "('j content \<Rightarrow> 'e) \<Rightarrow> string \<Rightarrow> 'j world \<Rightarrow> ('j, 'e) store_read result \<times> 'j world" where
  "read_json_at dg k w = (case access w of
       (False, w1) \<Rightarrow> (Inl StoreError, w1)
     | (True, w1) \<Rightarrow>
         (case lookup w1 k of
            None \<Rightarrow> (Inr \<lparr>stored = None, at = clock w1\<rparr>, w1)
          | Some (Json r) \<Rightarrow> (Inr \<lparr>stored = Some \<lparr>body = r, etag = dg (Json r)\<rparr>, at = clock w1\<rparr>, w1)
          | Some _ \<Rightarrow> (Inl ValueError, w1)))"

definition read_json ::
  "('j content \<Rightarrow> 'e) \<Rightarrow> string \<Rightarrow> 'j world \<Rightarrow> ('j \<times> 'e) option result \<times> 'j world" where
  "read_json dg k w = (case read_json_at dg k w of
       (Inl e, w1) \<Rightarrow> (Inl e, w1)
     | (Inr rd, w1) \<Rightarrow> (Inr (map_option (\<lambda>s. (body s, etag s)) (stored rd)), w1))"

text \<open>
  \<^verbatim>\<open>_replace_json\<close>: one conditional overwrite. On S3 an absent key is answered 404, which is not
  the lost-race signal and surfaces as itself. On a local root the file is opened \<^verbatim>\<open>"a+b"\<close>
  before the compare, so an absent key is created empty and then refused as changed.
\<close>

definition replace_json ::
  "root \<Rightarrow> ('j content \<Rightarrow> 'e) \<Rightarrow> string \<Rightarrow> 'j \<Rightarrow> 'e \<Rightarrow> 'j world \<Rightarrow> unit result \<times> 'j world" where
  "replace_json rt dg k r e w = (case access w of
       (False, w1) \<Rightarrow> (Inl StoreError, w1)
     | (True, w1) \<Rightarrow>
         (case lookup w1 k of
            None \<Rightarrow> (case rt of S3 \<Rightarrow> (Inl StoreError, w1)
                             | Local \<Rightarrow> (Inl RecordChangedError, store_put k Undecodable w1))
          | Some c \<Rightarrow> (if dg c = e then (Inr (), store_put k (Json r) w1)
                       else (Inl RecordChangedError, w1))))"

text \<open>
  \<^verbatim>\<open>exchange_json\<close>: read, apply, write back under the ETag read; a lost race re-reads and
  re-applies, at most \<open>attempts\<close> times. \<^verbatim>\<open>mutate_json\<close> keeps only the record it wrote.
\<close>

fun exchange_json ::
  "root \<Rightarrow> ('j content \<Rightarrow> 'e) \<Rightarrow> string \<Rightarrow> ('j \<Rightarrow> 'j result) \<Rightarrow> nat \<Rightarrow> 'j world \<Rightarrow> ('j \<times> 'j) result \<times> 'j world" where
  "exchange_json rt dg k f 0 w = (Inl RecordChangedError, w)"
| "exchange_json rt dg k f (Suc n) w = (case read_json dg k w of
       (Inl e, w1) \<Rightarrow> (Inl e, w1)
     | (Inr None, w1) \<Rightarrow> (Inl RecordMissingError, w1)
     | (Inr (Some (r, e)), w1) \<Rightarrow>
         (case f r of
            Inl err \<Rightarrow> (Inl err, w1)
          | Inr u \<Rightarrow>
              (case replace_json rt dg k u e w1 of
                 (Inl RecordChangedError, w2) \<Rightarrow> exchange_json rt dg k f n w2
               | (Inl err, w2) \<Rightarrow> (Inl err, w2)
               | (Inr _, w2) \<Rightarrow> (Inr (r, u), w2))))"

definition mutate_attempts :: nat where
  "mutate_attempts = 5"

definition mutate_json ::
  "root \<Rightarrow> ('j content \<Rightarrow> 'e) \<Rightarrow> string \<Rightarrow> ('j \<Rightarrow> 'j result) \<Rightarrow> 'j world \<Rightarrow> 'j result \<times> 'j world" where
  "mutate_json rt dg k f w = (case exchange_json rt dg k f mutate_attempts w of
       (Inl e, w1) \<Rightarrow> (Inl e, w1)
     | (Inr (_, u), w1) \<Rightarrow> (Inr u, w1))"

section \<open>Registry records (\<^verbatim>\<open>record_store.py\<close>)\<close>

text \<open>
  \<^verbatim>\<open>record_key\<close>: \<open>hex\<close> stands for the SHA-256 hex digest.
\<close>

definition record_key :: "(string \<Rightarrow> string) \<Rightarrow> string \<Rightarrow> string \<Rightarrow> string \<Rightarrow> string" where
  "record_key hex pre kind cid =
     pre @ ''/'' @ kind @ ''-'' @ take 24 (hex (kind @ '':'' @ cid)) @ ''.json''"

definition put_record :: "string \<Rightarrow> 'j \<Rightarrow> 'j world \<Rightarrow> unit result \<times> 'j world" where
  "put_record k r w = (case access w of
       (False, w1) \<Rightarrow> (Inl StoreError, w1)
     | (True, w1) \<Rightarrow> (Inr (), store_put k (Json r) w1))"

definition get_record :: "string \<Rightarrow> 'j world \<Rightarrow> 'j option result \<times> 'j world" where
  "get_record k w = (case access w of
       (False, w1) \<Rightarrow> (Inl StoreError, w1)
     | (True, w1) \<Rightarrow>
         (case lookup w1 k of
            None \<Rightarrow> (Inr None, w1)
          | Some (Json r) \<Rightarrow> (Inr (Some r), w1)
          | Some NotObject \<Rightarrow> (Inr None, w1)
          | Some Undecodable \<Rightarrow> (Inl ValueError, w1)))"

text \<open>\<^verbatim>\<open>stored_objects.delete_object\<close>: one delete on a local root, a head and then a delete on S3.\<close>

definition delete_object :: "root \<Rightarrow> string \<Rightarrow> 'j world \<Rightarrow> bool result \<times> 'j world" where
  "delete_object rt k w = (case access w of
       (False, w1) \<Rightarrow> (Inl StoreError, w1)
     | (True, w1) \<Rightarrow>
         (if lookup w1 k = None then (Inr False, w1)
          else case rt of
            Local \<Rightarrow> (Inr True, store_delete k w1)
          | S3 \<Rightarrow> (case access w1 of
                (False, w2) \<Rightarrow> (Inl StoreError, w2)
              | (True, w2) \<Rightarrow> (Inr True, store_delete k w2))))"

definition delete_record :: "root \<Rightarrow> string \<Rightarrow> 'j world \<Rightarrow> bool result \<times> 'j world" where
  "delete_record rt k w = delete_object rt k w"

text \<open>The non-recursive listing: \<^verbatim>\<open><prefix>/<name>.json\<close> with no further \<^verbatim>\<open>/\<close>.\<close>

definition in_prefix :: "string \<Rightarrow> string \<Rightarrow> bool" where
  "in_prefix pre k = (prefix (pre @ ''/'') k \<and>
     CHR ''/'' \<notin> set (drop (Suc (length pre)) k) \<and> suffix ''.json'' k)"

text \<open>
  One pass over the listed objects. A body that cannot be decoded or is no object is skipped, or
  raises under \<open>strict\<close>.
\<close>

fun read_listed :: "bool \<Rightarrow> 'j content list \<Rightarrow> 'j list result" where
  "read_listed strict [] = Inr []"
| "read_listed strict (Json r # cs) =
     (case read_listed strict cs of Inl e \<Rightarrow> Inl e | Inr rs \<Rightarrow> Inr (r # rs))"
| "read_listed strict (_ # cs) = (if strict then Inl ValueError else read_listed strict cs)"

definition list_records :: "string \<Rightarrow> bool \<Rightarrow> 'j world \<Rightarrow> 'j list result \<times> 'j world" where
  "list_records pre strict w = (case access w of
       (False, w1) \<Rightarrow> (Inl StoreError, w1)
     | (True, w1) \<Rightarrow>
         (read_listed strict (map snd (filter (\<lambda>(k, _). in_prefix pre k) (objects w1))), w1))"

lemmas store_defs = create_json_def read_json_at_def read_json_def replace_json_def
  put_record_def get_record_def delete_record_def delete_object_def list_records_def

section \<open>What a client of the conditional store relies on\<close>

text \<open>
  The interface the record protocols are written against: \<open>reach\<close> is one access (time passes and
  others write), \<open>look\<close> what lies at a key, \<open>time\<close> the store's clock. A read answers what lies at
  the key once it was reached; a create that succeeded found the key absent, and a replace that
  succeeded found a content with the ETag it named, at the moment of the write.
\<close>

locale conditional_store =
  fixes look :: "'w \<Rightarrow> string \<Rightarrow> 'j content option"
    and reach :: "'w \<Rightarrow> bool \<times> 'w"
    and time :: "'w \<Rightarrow> int"
    and dg :: "'j content \<Rightarrow> 'e"
    and create :: "string \<Rightarrow> 'j \<Rightarrow> 'w \<Rightarrow> unit result \<times> 'w"
    and read :: "string \<Rightarrow> 'w \<Rightarrow> ('j, 'e) store_read result \<times> 'w"
    and replace :: "string \<Rightarrow> 'j \<Rightarrow> 'e \<Rightarrow> 'w \<Rightarrow> unit result \<times> 'w"
  assumes reach_time: "time w \<le> time (snd (reach w))"
    and read_keeps: "read k w = (x, w1) \<Longrightarrow> w1 = snd (reach w)"
    and read_answer: "read k w = (Inr rd, w1) \<Longrightarrow> look w1 k = map_option (\<lambda>s. Json (body s)) (stored rd)
      \<and> at rd = time w1 \<and> (\<forall>s. stored rd = Some s \<longrightarrow> etag s = dg (Json (body s)))"
    and create_won: "create k r w = (Inr u, w1) \<Longrightarrow> look (snd (reach w)) k = None
      \<and> look w1 = (look (snd (reach w)))(k \<mapsto> Json r) \<and> time w1 = time (snd (reach w))"
    and create_lost: "create k r w = (Inl err, w1) \<Longrightarrow> w1 = snd (reach w)"
    and replace_won: "replace k r e w = (Inr u, w1) \<Longrightarrow>
      (\<exists>c. look (snd (reach w)) k = Some c \<and> dg c = e)
      \<and> look w1 = (look (snd (reach w)))(k \<mapsto> Json r) \<and> time w1 = time (snd (reach w))"
begin

text \<open>
  One compare-and-swap round: a replace under the ETag of a read lands only on the very record
  that was read, whatever was written in between.
\<close>

lemma swap_lands_on_read:
  assumes "inj dg" and rd: "read k w = (Inr rd, w1)" and st: "stored rd = Some s"
    and won: "replace k r (etag s) w2 = (Inr u, w3)"
  shows "look (snd (reach w2)) k = Some (Json (body s))"
    and "look w3 = (look (snd (reach w2)))(k \<mapsto> Json r)"
proof -
  have tag: "etag s = dg (Json (body s))"
    using read_answer [OF rd] st by blast
  obtain c where c: "look (snd (reach w2)) k = Some c" "dg c = etag s"
    using replace_won [OF won] by blast
  have "c = Json (body s)"
    using c(2) tag \<open>inj dg\<close> by (simp add: inj_eq)
  with c(1) show "look (snd (reach w2)) k = Some (Json (body s))" by simp
  show "look w3 = (look (snd (reach w2)))(k \<mapsto> Json r)"
    using replace_won [OF won] by blast
qed

text \<open>
  The conditional write of the protocols, create where the read found nothing and replace
  otherwise: where it wins, the key held at the write exactly what the read found.
\<close>

lemma write_over_lands_on_read:
  assumes "inj dg" and rd: "read k w = (Inr rd, w1)"
    and won: "(case stored rd of None \<Rightarrow> create k r w1 | Some s \<Rightarrow> replace k r (etag s) w1) = (Inr u, w2)"
  shows "look (snd (reach w1)) k = map_option (\<lambda>s. Json (body s)) (stored rd)"
    and "look w2 = (look (snd (reach w1)))(k \<mapsto> Json r)"
    and "at rd \<le> time (snd (reach w1))" and "time w2 = time (snd (reach w1))"
proof -
  show "at rd \<le> time (snd (reach w1))"
    using read_answer [OF rd] reach_time [of w1] by simp
  show "time w2 = time (snd (reach w1))"
    using won create_won replace_won by (cases "stored rd") auto
  show "look (snd (reach w1)) k = map_option (\<lambda>s. Json (body s)) (stored rd)"
    using won create_won swap_lands_on_read(1) [OF \<open>inj dg\<close> rd] by (cases "stored rd") auto
  show "look w2 = (look (snd (reach w1)))(k \<mapsto> Json r)"
    using won create_won replace_won by (cases "stored rd") auto
qed

end

text \<open>The model's store keeps that contract, on either kind of root and for any ETag function.\<close>

lemma access_clock: "clock w \<le> clock (snd (access w))"
  by (simp add: access_def split: list.splits)

interpretation cs: conditional_store lookup access clock dg create_json "read_json_at dg" "replace_json rt dg"
  for dg :: "'j content \<Rightarrow> 'e" and rt
  by unfold_locales
    (auto simp: access_clock create_json_def read_json_at_def replace_json_def fun_eq_iff
      split: prod.splits bool.splits option.splits content.splits if_splits root.splits)

text \<open>The conditional write itself, as \<^verbatim>\<open>history_fences\<close>, \<^verbatim>\<open>commit_turns\<close> and \<^verbatim>\<open>location_claims\<close> make it.\<close>

definition write_over ::
  "root \<Rightarrow> ('j content \<Rightarrow> 'e) \<Rightarrow> string \<Rightarrow> ('j, 'e) stored option \<Rightarrow> 'j \<Rightarrow> 'j world \<Rightarrow> unit result \<times> 'j world" where
  "write_over rt dg k s r w = (case s of None \<Rightarrow> create_json k r w | Some s \<Rightarrow> replace_json rt dg k r (etag s) w)"

lemmas write_over_won =
  cs.write_over_lands_on_read [folded write_over_def]

text \<open>What others do on their own over the next \<open>m\<close> accesses.\<close>

definition drift :: "nat \<Rightarrow> 'j world \<Rightarrow> 'j world" where
  "drift m = (snd \<circ> access) ^^ m"

lemma drift_0 [simp]: "drift 0 w = w"
  by (simp add: drift_def)

lemma drift_access: "drift m (snd (access w)) = drift (Suc m) w"
  by (simp add: drift_def funpow_swap1)

lemma drift_after: "snd (access (drift m w)) = drift (Suc m) w"
  by (simp add: drift_def)

lemma drift_add: "drift m (drift n w) = drift (m + n) w"
  by (simp add: drift_def funpow_add)

lemma read_json_answer:
  "read_json dg k w = (x, w1) \<Longrightarrow> w1 = snd (access w) \<and>
    (\<forall>r e. x = Inr (Some (r, e)) \<longrightarrow> lookup w1 k = Some (Json r) \<and> e = dg (Json r))"
  by (auto simp: read_json_def read_json_at_def split: prod.splits bool.splits option.splits content.splits if_splits)

lemma replace_json_s3:
  "replace_json S3 dg k r e w = (x, w1) \<Longrightarrow>
    (case x of Inl _ \<Rightarrow> w1 = snd (access w)
     | Inr _ \<Rightarrow> \<exists>c. lookup (snd (access w)) k = Some c \<and> dg c = e \<and> w1 = store_put k (Json r) (snd (access w)))"
  by (auto simp: replace_json_def split: prod.splits bool.splits option.splits if_splits)

lemma read_json_at_drift: "read_json_at dg k w = (x, w1) \<Longrightarrow> w1 = drift 1 w"
  using cs.read_keeps [where dg = dg] by (simp add: drift_def)

lemma create_json_effect:
  "create_json k r w = (x, w1) \<Longrightarrow>
    (case x of Inl _ \<Rightarrow> w1 = snd (access w) | Inr _ \<Rightarrow> w1 = store_put k (Json r) (snd (access w)))"
  by (auto simp: create_json_def split: prod.splits bool.splits if_splits)

text \<open>
  One round of a record protocol on S3, read and conditional write, with every interleaving: a
  lost write changed nothing, and a write that won landed on the record its read found.
\<close>

lemma cas_round_s3:
  assumes "inj dg" and rd: "read_json_at dg k w = (Inr rd, w1)"
    and wr: "write_over S3 dg k (stored rd) r w1 = (x, w2)"
  shows "case x of Inl _ \<Rightarrow> w2 = drift 2 w
    | Inr _ \<Rightarrow> lookup (drift 2 w) k = map_option (\<lambda>s. Json (body s)) (stored rd)
        \<and> at rd \<le> clock (drift 2 w) \<and> w2 = store_put k (Json r) (drift 2 w)"
proof -
  have two: "snd (access w1) = drift 2 w"
    using read_json_at_drift [OF rd] by (simp add: drift_after numeral_2_eq_2)
  have eff: "case x of Inl _ \<Rightarrow> w2 = drift 2 w | Inr _ \<Rightarrow> w2 = store_put k (Json r) (drift 2 w)"
  proof (cases "stored rd")
    case None
    then have "create_json k r w1 = (x, w2)"
      using wr by (simp add: write_over_def)
    from create_json_effect [OF this] two show ?thesis by (auto split: sum.splits)
  next
    case (Some s)
    then have "replace_json S3 dg k r (etag s) w1 = (x, w2)"
      using wr by (simp add: write_over_def)
    from replace_json_s3 [OF this] two show ?thesis by (auto split: sum.splits)
  qed
  show ?thesis
  proof (cases x)
    case (Inl e)
    with eff show ?thesis by simp
  next
    case (Inr u)
    with write_over_won [OF assms(1) rd wr [unfolded Inr]] eff two show ?thesis by simp
  qed
qed

text \<open>
  The loop the record protocols share: read the record with the store's clock, judge it, and
  either answer without a write or write conditionally over what was read; a lost write judges
  the record again, at most \<open>n\<close> times.
\<close>

datatype ('j, 'r) verdict = Stop "'r result" | Write 'j 'r

fun cas_loop ::
  "root \<Rightarrow> ('j content \<Rightarrow> 'e) \<Rightarrow> string \<Rightarrow> ('j option \<Rightarrow> int \<Rightarrow> ('j, 'r) verdict) \<Rightarrow> nat
    \<Rightarrow> 'j world \<Rightarrow> 'r result \<times> 'j world" where
  "cas_loop rt dg k judge 0 w = (Inl RecordChangedError, w)"
| "cas_loop rt dg k judge (Suc n) w = (case read_json_at dg k w of
       (Inl e, w1) \<Rightarrow> (Inl e, w1)
     | (Inr rd, w1) \<Rightarrow>
         (case judge (map_option body (stored rd)) (at rd) of
            Stop x \<Rightarrow> (x, w1)
          | Write r y \<Rightarrow>
              (case write_over rt dg k (stored rd) r w1 of
                 (Inr _, w2) \<Rightarrow> (Inr y, w2)
               | (Inl e, w2) \<Rightarrow>
                   (if e = RecordExistsError \<or> e = RecordChangedError
                    then cas_loop rt dg k judge n w2 else (Inl e, w2)))))"

text \<open>
  What one run of the loop did, for every interleaving: it read \<open>c\<close> at the clock \<open>t\<close>, and either
  it stopped there and wrote nothing, or the record was still \<open>c\<close> when it wrote its verdict.
\<close>

definition cas_ran ::
  "string \<Rightarrow> ('j option \<Rightarrow> int \<Rightarrow> ('j, 'r) verdict) \<Rightarrow> 'j world \<Rightarrow> 'r result \<Rightarrow> 'j world \<Rightarrow> bool" where
  "cas_ran k judge v x w' \<longleftrightarrow>
     w' = v \<and> (\<exists>e. x = Inl e) \<or>
     w' = v \<and> (\<exists>c. lookup v k = map_option Json c \<and> judge c (clock v) = Stop x) \<or>
     (\<exists>c t r y. lookup v k = map_option Json c \<and> t \<le> clock v \<and> judge c t = Write r y \<and>
        x = Inr y \<and> w' = store_put k (Json r) v)"

lemma read_json_at_answer:
  "read_json_at dg k w = (Inr rd, w1) \<Longrightarrow>
    lookup w1 k = map_option Json (map_option body (stored rd)) \<and> at rd = clock w1"
  using cs.read_answer [of dg k w rd w1] by (simp add: option.map_comp comp_def)

lemma cas_loop_ran:
  assumes "inj dg" and "cas_loop S3 dg k judge n w = (x, w')"
  shows "\<exists>m. cas_ran k judge (drift m w) x w'"
  using assms(2)
proof (induction n arbitrary: w)
  case 0
  then show ?case by (auto simp: cas_ran_def intro: exI [of _ 0])
next
  case (Suc n)
  obtain y w1 where rd0: "read_json_at dg k w = (y, w1)" by force
  note w1 = read_json_at_drift [OF rd0]
  show ?case
  proof (cases y)
    case (Inl e)
    with Suc.prems rd0 w1 show ?thesis by (auto simp: cas_ran_def)
  next
    case (Inr rd)
    note rd = rd0 [unfolded Inr]
    let ?c = "map_option body (stored rd)"
    show ?thesis
    proof (cases "judge ?c (at rd)")
      case (Stop z)
      with Suc.prems rd read_json_at_answer [OF rd] have "cas_ran k judge w1 x w'"
        by (auto simp: cas_ran_def)
      with w1 show ?thesis by blast
    next
      case (Write r y)
      obtain z w2 where wr: "write_over S3 dg k (stored rd) r w1 = (z, w2)" by force
      note round = cas_round_s3 [OF assms(1) rd wr]
      show ?thesis
      proof (cases z)
        case (Inr u)
        with Suc.prems rd Write wr round have "cas_ran k judge (drift 2 w) x w'"
          by (auto simp: cas_ran_def option.map_comp comp_def intro!: exI [of _ ?c] exI [of _ "at rd"])
        then show ?thesis by blast
      next
        case (Inl e)
        with round have w2: "w2 = drift 2 w" by simp
        show ?thesis
        proof (cases "e = RecordExistsError \<or> e = RecordChangedError")
          case True
          with Suc.prems rd Write wr Inl have "cas_loop S3 dg k judge n w2 = (x, w')" by auto
          from Suc.IH [OF this] show ?thesis
            unfolding w2 drift_add by blast
        next
          case False
          with Suc.prems rd Write wr Inl w2 show ?thesis by (auto simp: cas_ran_def)
        qed
      qed
    qed
  qed
qed

lemma cas_loop_quiet:
  assumes "pending w = []" "lookup w k = map_option Json c"
  shows "cas_loop rt dg k judge (Suc n) w = (case judge c (clock w) of
      Stop x \<Rightarrow> (x, w) | Write r y \<Rightarrow> (Inr y, store_put k (Json r) w))"
  using assms
  by (cases c) (auto simp: read_json_at_def write_over_def create_json_def replace_json_def
      split: verdict.splits)

text \<open>One round of the read-modify-write, and the loop by induction on the rounds.\<close>

lemma exchange_json_effect:
  assumes "inj dg" and "exchange_json S3 dg k f n w = (x, w')"
  shows "\<exists>m. case x of Inl _ \<Rightarrow> w' = drift m w
    | Inr (r, u) \<Rightarrow> f r = Inr u \<and> lookup (drift m w) k = Some (Json r) \<and> w' = store_put k (Json u) (drift m w)"
  using assms(2)
proof (induction n arbitrary: w)
  case 0
  then show ?case by (auto intro: exI [of _ 0])
next
  case (Suc n)
  obtain y w1 where rd: "read_json dg k w = (y, w1)" by force
  then have w1: "w1 = drift 1 w" and ans: "\<And>r e. y = Inr (Some (r, e)) \<Longrightarrow> e = dg (Json r)"
    using read_json_answer [OF rd] by (auto simp: drift_def)
  show ?case
  proof (cases "\<exists>r e u. y = Inr (Some (r, e)) \<and> f r = Inr u")
    case False
    with Suc.prems rd w1 have "(\<exists>e. x = Inl e) \<and> w' = drift 1 w"
      by (auto split: sum.splits option.splits)
    then show ?thesis by auto
  next
    case True
    then obtain r e u where y: "y = Inr (Some (r, e))" "f r = Inr u" by blast
    obtain z w2 where rep: "replace_json S3 dg k u e w1 = (z, w2)" by force
    have two: "snd (access w1) = drift 2 w"
      by (simp add: w1 drift_after numeral_2_eq_2)
    note eff = replace_json_s3 [OF rep, unfolded two]
    show ?thesis
    proof (cases z)
      case (Inr v)
      with eff ans [OF y(1)] \<open>inj dg\<close> have "lookup (drift 2 w) k = Some (Json r)" "w2 = store_put k (Json u) (drift 2 w)"
        by (auto simp: inj_eq)
      with Suc.prems rd rep y Inr show ?thesis by (auto intro: exI [of _ 2])
    next
      case (Inl err)
      with eff have w2: "w2 = drift 2 w" by simp
      show ?thesis
      proof (cases "err = RecordChangedError")
        case True
        with Suc.prems rd rep y Inl have "exchange_json S3 dg k f n w2 = (x, w')" by simp
        then obtain m where m: "case x of Inl _ \<Rightarrow> w' = drift m w2
            | Inr (r, u) \<Rightarrow> f r = Inr u \<and> lookup (drift m w2) k = Some (Json r) \<and> w' = store_put k (Json u) (drift m w2)"
          using Suc.IH by blast
        have "drift m w2 = drift (m + 2) w"
          unfolding w2 by (rule drift_add)
        from m [unfolded this] show ?thesis by (rule exI)
      next
        case False
        with Suc.prems rd rep y Inl have "x = Inl err \<and> w' = w2"
          by (cases err) auto
        with w2 show ?thesis by auto
      qed
    qed
  qed
qed

lemma exchange_json_quiet:
  assumes "pending w = []" "lookup w k = Some (Json r)" "f r = Inr u"
  shows "exchange_json rt dg k f (Suc n) w = (Inr (r, u), store_put k (Json u) w)"
  using assms by (simp add: read_json_def read_json_at_def replace_json_def)

lemma exchange_json_quiet_raise:
  assumes "pending w = []" "lookup w k = Some (Json r)" "f r = Inl e"
  shows "exchange_json rt dg k f (Suc n) w = (Inl e, w)"
  using assms by (simp add: read_json_def read_json_at_def)

lemma mutate_json_quiet:
  assumes "pending w = []" "lookup w k = Some (Json r)" "f r = Inr u"
  shows "mutate_json rt dg k f w = (Inr u, store_put k (Json u) w)"
proof -
  have "mutate_attempts = Suc 4" by (simp add: mutate_attempts_def)
  with exchange_json_quiet [of w k r f u rt dg 4, OF assms] show ?thesis by (simp add: mutate_json_def)
qed

lemma mutate_json_effect:
  assumes "inj dg" and "mutate_json S3 dg k f w = (x, w')"
  shows "\<exists>m. case x of Inl _ \<Rightarrow> w' = drift m w
    | Inr u \<Rightarrow> (\<exists>r. lookup (drift m w) k = Some (Json r) \<and> f r = Inr u) \<and> w' = store_put k (Json u) (drift m w)"
proof -
  obtain y where ex: "exchange_json S3 dg k f mutate_attempts w = (y, w')"
    using assms(2) by (auto simp: mutate_json_def split: prod.splits sum.splits)
  then show ?thesis
    using exchange_json_effect [OF assms(1) ex] assms(2)
    by (force simp: mutate_json_def split: sum.splits)
qed

section \<open>What a registry relies on\<close>

text \<open>
  The unconditional half: a put makes the record the one a get answers, until something else
  writes the key, and a delete makes it absent.
\<close>

locale record_registry =
  fixes look :: "'w \<Rightarrow> string \<Rightarrow> 'j content option"
    and reach :: "'w \<Rightarrow> bool \<times> 'w"
    and put :: "string \<Rightarrow> 'j \<Rightarrow> 'w \<Rightarrow> unit result \<times> 'w"
    and get :: "string \<Rightarrow> 'w \<Rightarrow> 'j option result \<times> 'w"
    and del :: "string \<Rightarrow> 'w \<Rightarrow> bool result \<times> 'w"
  assumes put_done: "put k r w = (Inr u, w1) \<Longrightarrow> look w1 = (look (snd (reach w)))(k \<mapsto> Json r)"
    and get_answer: "get k w = (Inr x, w1) \<Longrightarrow> w1 = snd (reach w)
      \<and> x = (case look w1 k of Some (Json r) \<Rightarrow> Some r | _ \<Rightarrow> None)"
    and del_done: "del k w = (Inr b, w1) \<Longrightarrow> look w1 k = None
      \<and> (\<exists>w0. look w1 = (look w0)(k := None) \<and> (w0 = snd (reach w) \<or> w0 = snd (reach (snd (reach w)))))"
begin

text \<open>Whatever happened before it, a get that finds the key untouched since a put answers that record.\<close>

lemma get_after_put:
  assumes "put k r w = (Inr u, w1)" "look (snd (reach w2)) k = look w1 k" "get k w2 = (Inr x, w3)"
  shows "x = Some r"
  using put_done [OF assms(1)] get_answer [OF assms(3)] assms(2) by simp

lemma get_after_del:
  assumes "del k w = (Inr b, w1)" "look (snd (reach w2)) k = look w1 k" "get k w2 = (Inr x, w3)"
  shows "x = None"
  using del_done [OF assms(1)] get_answer [OF assms(3)] assms(2) by simp

lemma put_elsewhere:
  assumes "put k r w = (Inr u, w1)" "k' \<noteq> k"
  shows "look w1 k' = look (snd (reach w)) k'"
  using put_done [OF assms(1)] assms(2) by simp

end

interpretation reg: record_registry lookup access put_record get_record "delete_record rt" for rt
proof
  fix rt :: root and k and w w1 :: "'j world" and b
  assume d: "delete_record rt k w = (Inr b, w1)"
  obtain up1 v1 where a1: "access w = (up1, v1)" by force
  obtain up2 v2 where a2: "access v1 = (up2, v2)" by force
  have "w1 = v1 \<and> lookup v1 k = None \<or> w1 = store_delete k v1 \<or> w1 = store_delete k v2"
    using d a1 a2 by (auto simp: delete_record_def delete_object_def split: bool.splits if_splits root.splits)
  then show "lookup w1 k = None \<and> (\<exists>w0. lookup w1 = (lookup w0)(k := None)
      \<and> (w0 = snd (access w) \<or> w0 = snd (access (snd (access w)))))"
    using a1 a2 by (auto simp: fun_eq_iff)
qed (auto simp: put_record_def get_record_def fun_eq_iff
      split: prod.splits bool.splits option.splits content.splits if_splits)

text \<open>A tolerant listing is the readable objects; a strict one is all of them or a raise.\<close>

definition json_of :: "'j content \<Rightarrow> 'j option" where
  "json_of c = (case c of Json r \<Rightarrow> Some r | _ \<Rightarrow> None)"

lemma read_listed_tolerant: "read_listed False cs = Inr (List.map_filter json_of cs)"
proof (induction cs)
  case (Cons c cs)
  then show ?case by (cases c) (auto simp: json_of_def List.map_filter_def)
qed (simp add: List.map_filter_def)

lemma read_listed_strict: "read_listed True cs = Inr rs \<longleftrightarrow> cs = map Json rs"
proof (induction cs arbitrary: rs)
  case (Cons c cs)
  then show ?case by (cases c) (fastforce split: sum.splits simp: inj_map_eq_map inj_on_def)+
qed auto

section \<open>Properties\<close>

text \<open>C8: A read-modify-write of a control-root record on S3 never loses another writer's
  update. If \<^verbatim>\<open>mutate_json\<close> returns, there is an instant, some number of accesses into the
  run, at which the key held exactly the record its mutation was applied to, and the store it
  leaves is the store of that instant with only that key replaced by the mutated record; if it
  raises, it wrote nothing, however the others' writes and outages interleave.\<close>

theorem mutate_json_no_lost_update:
  assumes "inj dg" and "mutate_json S3 dg k f w = (x, w')"
  shows "\<exists>m. case x of Inl _ \<Rightarrow> w' = drift m w
    | Inr u \<Rightarrow> (\<exists>r. lookup (drift m w) k = Some (Json r) \<and> f r = Inr u) \<and> w' = store_put k (Json u) (drift m w)"
  using assms by (rule mutate_json_effect)

theorem mutate_json_no_lost_update_witness:
  "\<exists>m. store_put ''k'' (Json (7::int)) \<lparr>objects = [(''k'', Json 6)], clock = 0, pending = []\<rparr>
     = store_put ''k'' (Json 7) (drift m \<lparr>objects = [(''k'', Json 1)], clock = 0,
         pending = [\<lparr>others = id, elapsed = 0, answers = True\<rparr>,
                    \<lparr>others = (\<lambda>_. [(''k'', Json 6)]), elapsed = 0, answers = True\<rparr>]\<rparr>)"
proof -
  let ?w = "\<lparr>objects = [(''k'', Json 1)], clock = 0,
         pending = [\<lparr>others = id, elapsed = 0, answers = True\<rparr>,
                    \<lparr>others = (\<lambda>_. [(''k'', Json 6)]), elapsed = 0, answers = True\<rparr>]\<rparr> :: int world"
  have run: "mutate_json S3 id ''k'' (\<lambda>r. Inr (r + 1)) ?w
      = (Inr 7, store_put ''k'' (Json 7) \<lparr>objects = [(''k'', Json 6)], clock = 0, pending = []\<rparr>)"
    by (simp add: mutate_json_def mutate_attempts_def read_json_def read_json_at_def replace_json_def
        access_def lookup_def store_put_def eval_nat_numeral)
  show ?thesis
    using mutate_json_no_lost_update [OF inj_on_id run] by auto
qed

text \<open>On a local root a conditional replace of a record that has been deleted since it was
  read does not leave the key absent: it reports a lost race, and the next read of the key
  raises instead of finding no record, because the file was created empty before the compare.\<close>

theorem local_replace_leaves_an_unreadable_record:
  assumes "pending w = []" and "lookup w k = None"
  shows "fst (replace_json Local dg k r e w) = Inl RecordChangedError
    \<and> fst (read_json_at dg k (snd (replace_json Local dg k r e w))) = Inl ValueError"
  using assms by (simp add: replace_json_def read_json_at_def)

theorem local_replace_leaves_an_unreadable_record_witness:
  "fst (read_json_at id ''k'' (snd (replace_json Local id ''k'' (1::int) (Json 0)
     \<lparr>objects = [], clock = 0, pending = []\<rparr>))) = Inl ValueError"
  using local_replace_leaves_an_unreadable_record
    [of "\<lparr>objects = [], clock = 0, pending = []\<rparr>" "''k''" id "1::int" "Json 0"]
  by (simp add: lookup_def)

text \<open>Two objects of one registry never share a record key: for kinds that hold no hyphen,
  and digests that do not collide in their first 24 characters on the two inputs, two objects that
  differ in kind or in canonical id have different keys under every prefix.\<close>

theorem record_key_injective:
  assumes "(k1, c1) \<noteq> (k2, c2)"
    and "CHR ''-'' \<notin> set k1" "CHR ''-'' \<notin> set k2"
    and "inj_on (\<lambda>s. take 24 (hex s)) {k1 @ '':'' @ c1, k2 @ '':'' @ c2}"
  shows "record_key hex pre k1 c1 \<noteq> record_key hex pre k2 c2"
proof
  let ?d = "\<lambda>k c. take 24 (hex (k @ '':'' @ c))"
  assume "record_key hex pre k1 c1 = record_key hex pre k2 c2"
  then have "k1 @ CHR ''-'' # ?d k1 c1 = k2 @ CHR ''-'' # ?d k2 c2"
    by (simp add: record_key_def)
  from first_sep_unique [OF this assms(2,3)] have "k1 = k2" "?d k1 c1 = ?d k2 c2"
    by blast+
  moreover from this(2) have "k1 @ '':'' @ c1 = k2 @ '':'' @ c2"
    by (rule inj_onD [OF assms(4)]) simp_all
  ultimately show False
    using assms(1) by simp
qed

theorem record_key_injective_witness:
  "record_key rev ''_trash'' ''table'' ''a'' \<noteq> record_key rev ''_trash'' ''table'' ''b''"
  using record_key_injective [of "''table''" "''a''" "''table''" "''b''" rev "''_trash''"] by simp

end
