(* ===== verification/Location_Claims.thy ===== *)
theory Location_Claims
  imports Records Locations
begin

text \<open>
  \<^verbatim>\<open>lakehouse_kit/location_claims.py\<close>: which table holds a dataset location. One record per
  location, created if absent and replaced under its ETag, released by a stamp and never deleted.
  The operations are the module's functions over the store of \<open>Records\<close>; \<open>claim_step\<close> is the
  record's own state machine, with the request that makes each step, and the refinement lemmas say
  that every operation is one step of it or none.

  The predicates \<^verbatim>\<open>is_gone\<close> and \<^verbatim>\<open>is_kept\<close> are the caller's, as in the source; times are
  microseconds of the store's clock.
\<close>

section \<open>Data\<close>

record claim_fence =
  cf_token :: string
  cf_at :: int

record location_claim =
  lc_location :: string
  lc_table :: string
  lc_segments :: "string list"
  lc_uuid :: "string option"
  lc_claimed_at :: int
  lc_token :: "string option"
  lc_released_at :: "int option"
  lc_fence :: "claim_fence option"

definition claim_lease :: int where
  "claim_lease = 15 * 60 * 1000000"

definition take_attempts :: nat where
  "take_attempts = 8"

definition claim_prefix :: string where
  "claim_prefix = ''_locations''"

definition within_lease :: "location_claim \<Rightarrow> int \<Rightarrow> bool" where
  "within_lease c now = (now - lc_claimed_at c < claim_lease)"

definition fenced_against :: "location_claim \<Rightarrow> string option \<Rightarrow> int \<Rightarrow> bool" where
  "fenced_against c token now =
     (lc_released_at c = None \<and>
      (case lc_fence c of
         None \<Rightarrow> False
       | Some f \<Rightarrow> Some (cf_token f) \<noteq> token \<and> now - cf_at f < claim_lease))"

record 'e claim_read =
  cr_claim :: location_claim
  cr_etag :: 'e

text \<open>Where a claim lives: the kind of control root, and \<open>hex\<close> for the SHA-256 hex digest.\<close>

record claim_store =
  cl_root :: root
  cl_hex :: "string \<Rightarrow> string"

definition claim_key :: "claim_store \<Rightarrow> string \<Rightarrow> string" where
  "claim_key st location = claim_prefix @ ''/'' @ cl_hex st (decoded_path location) @ ''.json''"

section \<open>Reads\<close>

definition claim_holder ::
  "claim_store \<Rightarrow> (location_claim content \<Rightarrow> 'e) \<Rightarrow> string \<Rightarrow> location_claim world
    \<Rightarrow> location_claim option result \<times> location_claim world" where
  "claim_holder st dg location w = (case read_json dg (claim_key st location) w of
       (Inl e, w1) \<Rightarrow> (Inl e, w1)
     | (Inr None, w1) \<Rightarrow> (Inr None, w1)
     | (Inr (Some (claim, _)), w1) \<Rightarrow>
         (Inr (if lc_released_at claim \<noteq> None then None else Some claim), w1))"

definition held_claims :: "location_claim world \<Rightarrow> location_claim list result \<times> location_claim world" where
  "held_claims w = (case list_records claim_prefix False w of
       (Inl e, w1) \<Rightarrow> (Inl e, w1)
     | (Inr claims, w1) \<Rightarrow> (Inr (filter (\<lambda>c. lc_released_at c = None) claims), w1))"

definition every_claim :: "location_claim world \<Rightarrow> location_claim list result \<times> location_claim world" where
  "every_claim w = list_records claim_prefix True w"

definition claim_read ::
  "claim_store \<Rightarrow> (location_claim content \<Rightarrow> 'e) \<Rightarrow> string \<Rightarrow> location_claim world
    \<Rightarrow> 'e claim_read option result \<times> location_claim world" where
  "claim_read st dg location w = (case read_json_at dg (claim_key st location) w of
       (Inl e, w1) \<Rightarrow> (Inl e, w1)
     | (Inr rd, w1) \<Rightarrow>
         (Inr (map_option (\<lambda>s. \<lparr>cr_claim = body s, cr_etag = etag s\<rparr>) (stored rd)), w1))"

definition store_now ::
  "claim_store \<Rightarrow> (location_claim content \<Rightarrow> 'e) \<Rightarrow> string \<Rightarrow> location_claim world
    \<Rightarrow> int result \<times> location_claim world" where
  "store_now st dg location w = (case read_json_at dg (claim_key st location) w of
       (Inl e, w1) \<Rightarrow> (Inl e, w1)
     | (Inr rd, w1) \<Rightarrow> (Inr (at rd), w1))"

section \<open>Taking a location\<close>

text \<open>What a caller asks with, in the order of \<^verbatim>\<open>take\<close>'s parameters.\<close>

record claim_request =
  rq_location :: string
  rq_table :: string
  rq_segments :: "string list"
  rq_is_gone :: "location_claim \<Rightarrow> bool"
  rq_previous :: "string option"
  rq_token :: "string option"
  rq_uuid :: "string option"
  rq_is_kept :: "location_claim \<Rightarrow> bool"

text \<open>\<^verbatim>\<open>_claim(carried)\<close>: a claim of the request's table, unreleased and unfenced.\<close>

definition fresh_claim :: "claim_request \<Rightarrow> string option \<Rightarrow> int \<Rightarrow> location_claim" where
  "fresh_claim rq carried now =
     \<lparr>lc_location = decoded_path (rq_location rq), lc_table = rq_table rq, lc_segments = rq_segments rq,
      lc_uuid = carried, lc_claimed_at = now, lc_token = rq_token rq, lc_released_at = None,
      lc_fence = None\<rparr>"

text \<open>\<^verbatim>\<open>_taken\<close>; \<open>Inr None\<close> is the answer \<^verbatim>\<open>current\<close> itself.\<close>

definition taken_claim :: "claim_request \<Rightarrow> location_claim \<Rightarrow> int \<Rightarrow> location_claim option result" where
  "taken_claim rq current now =
     (if lc_released_at current \<noteq> None then Inr (Some (fresh_claim rq (rq_uuid rq) now))
      else if fenced_against current (rq_token rq) now then Inl LocationHeldError
      else if lc_table current = rq_table rq \<and> rq_uuid rq \<noteq> None then
        (if rq_is_kept rq current then Inl LocationHeldError
         else Inr (Some (fresh_claim rq (rq_uuid rq) now)))
      else if lc_table current = rq_table rq \<and> (rq_token rq = None \<or> lc_token current = rq_token rq) then
        Inr None
      else if Some (lc_table current) = rq_previous rq then Inr (Some (fresh_claim rq (lc_uuid current) now))
      else if within_lease current now \<or> \<not> rq_is_gone rq current then Inl LocationHeldError
      else Inr (Some (fresh_claim rq (if rq_uuid rq = None then lc_uuid current else rq_uuid rq) now)))"

text \<open>The body of \<^verbatim>\<open>take\<close>'s loop between its read and its write.\<close>

definition take_verdict ::
  "claim_request \<Rightarrow> location_claim option \<Rightarrow> int \<Rightarrow> (location_claim, location_claim) verdict" where
  "take_verdict rq found now = (case found of
       None \<Rightarrow> (let fresh = fresh_claim rq (rq_uuid rq) now in Write fresh fresh)
     | Some current \<Rightarrow>
         (case taken_claim rq current now of
            Inl e \<Rightarrow> Stop (Inl e)
          | Inr None \<Rightarrow> Stop (Inr current)
          | Inr (Some held) \<Rightarrow> Write held held))"

definition take_claim ::
  "claim_store \<Rightarrow> (location_claim content \<Rightarrow> 'e) \<Rightarrow> claim_request \<Rightarrow> location_claim world
    \<Rightarrow> location_claim result \<times> location_claim world" where
  "take_claim st dg rq w =
     cas_loop (cl_root st) dg (claim_key st (rq_location rq)) (take_verdict rq) take_attempts w"

section \<open>Acting on the claim a request read\<close>

definition write_over_claim ::
  "claim_store \<Rightarrow> (location_claim content \<Rightarrow> 'e) \<Rightarrow> string \<Rightarrow> 'e claim_read option \<Rightarrow> location_claim
    \<Rightarrow> location_claim world \<Rightarrow> unit result \<times> location_claim world" where
  "write_over_claim st dg location read_as claim w =
     (case (case read_as of
              None \<Rightarrow> create_json (claim_key st location) claim w
            | Some r \<Rightarrow> replace_json (cl_root st) dg (claim_key st location) claim (cr_etag r) w) of
        (Inr _, w1) \<Rightarrow> (Inr (), w1)
      | (Inl e, w1) \<Rightarrow>
          (Inl (if e = RecordExistsError \<or> e = RecordChangedError then ClaimChangedError else e), w1))"

text \<open>
  \<^verbatim>\<open>hand_over\<close>: the rename's take, judged on the claim its request read. The request brings a
  token and a previous name, and no uuid.
\<close>

definition handed_claim ::
  "claim_request \<Rightarrow> location_claim option \<Rightarrow> int \<Rightarrow> location_claim result" where
  "handed_claim rq read_as now = (case read_as of
       None \<Rightarrow> Inr (fresh_claim rq None now)
     | Some c \<Rightarrow>
         (case taken_claim (rq\<lparr>rq_uuid := None, rq_is_kept := (\<lambda>_. False)\<rparr>) c now of
            Inl e \<Rightarrow> Inl e
          | Inr None \<Rightarrow> Inr c
          | Inr (Some held) \<Rightarrow> Inr held))"

definition hand_over ::
  "claim_store \<Rightarrow> (location_claim content \<Rightarrow> 'e) \<Rightarrow> claim_request \<Rightarrow> 'e claim_read option
    \<Rightarrow> location_claim world \<Rightarrow> location_claim result \<times> location_claim world" where
  "hand_over st dg rq read_as w =
     (case store_now st dg (rq_location rq) w of
        (Inl e, w1) \<Rightarrow> (Inl e, w1)
      | (Inr now, w1) \<Rightarrow>
          (case handed_claim rq (map_option cr_claim read_as) now of
             Inl e \<Rightarrow> (Inl e, w1)
           | Inr held \<Rightarrow>
               (case write_over_claim st dg (rq_location rq) read_as held w1 of
                  (Inl e, w2) \<Rightarrow> (Inl e, w2)
                | (Inr _, w2) \<Rightarrow> (Inr held, w2))))"

text \<open>What \<^verbatim>\<open>fence\<close> writes over the claim its request read, at the clock \<open>now\<close>.\<close>

definition fenced_claim :: "claim_request \<Rightarrow> string \<Rightarrow> location_claim option \<Rightarrow> int \<Rightarrow> location_claim result" where
  "fenced_claim rq token current now =
     (let mark = Some \<lparr>cf_token = token, cf_at = now\<rparr>;
          made = (\<lambda>carried. (fresh_claim rq carried now)\<lparr>lc_token := None, lc_fence := mark\<rparr>) in
      case current of
        None \<Rightarrow> Inr (made None)
      | Some c \<Rightarrow>
          if fenced_against c (Some token) now then Inl ClaimChangedError
          else if lc_released_at c \<noteq> None then
            Inr (made (if lc_table c = rq_table rq then lc_uuid c else None))
          else if lc_table c = rq_table rq then Inr (c\<lparr>lc_fence := mark\<rparr>)
          else if within_lease c now \<or> \<not> rq_is_gone rq c then Inl LocationHeldError
          else Inr (made (lc_uuid c)))"

definition fence_claim ::
  "claim_store \<Rightarrow> (location_claim content \<Rightarrow> 'e) \<Rightarrow> claim_request \<Rightarrow> string \<Rightarrow> 'e claim_read option
    \<Rightarrow> location_claim world \<Rightarrow> unit result \<times> location_claim world" where
  "fence_claim st dg rq token read_as w =
     (case store_now st dg (rq_location rq) w of
        (Inl e, w1) \<Rightarrow> (Inl e, w1)
      | (Inr now, w1) \<Rightarrow>
          (case fenced_claim rq token (map_option cr_claim read_as) now of
             Inl e \<Rightarrow> (Inl e, w1)
           | Inr fenced \<Rightarrow> write_over_claim st dg (rq_location rq) read_as fenced w1))"

text \<open>\<^verbatim>\<open>lift_fence\<close>: a read-modify-write that raises out of the mutation when the fence is not its own.\<close>

definition lifted :: "string \<Rightarrow> location_claim \<Rightarrow> location_claim result" where
  "lifted token current = (case lc_fence current of
       None \<Rightarrow> Inl NotHeld
     | Some f \<Rightarrow> if cf_token f \<noteq> token then Inl NotHeld else Inr (current\<lparr>lc_fence := None\<rparr>))"

definition lift_fence ::
  "claim_store \<Rightarrow> (location_claim content \<Rightarrow> 'e) \<Rightarrow> string \<Rightarrow> string \<Rightarrow> location_claim world
    \<Rightarrow> unit result \<times> location_claim world" where
  "lift_fence st dg location token w =
     (case mutate_json (cl_root st) dg (claim_key st location) (lifted token) w of
        (Inr _, w1) \<Rightarrow> (Inr (), w1)
      | (Inl e, w1) \<Rightarrow>
          (if e = RecordMissingError \<or> e = NotHeld then Inr () else Inl e, w1))"

section \<open>Releasing a location\<close>

definition release_verdict ::
  "string \<Rightarrow> location_claim option \<Rightarrow> int \<Rightarrow> (location_claim, bool) verdict" where
  "release_verdict table found now = (case found of
       None \<Rightarrow> Stop (Inr False)
     | Some current \<Rightarrow>
         (if lc_released_at current \<noteq> None \<or> lc_table current \<noteq> table then Stop (Inr False)
          else Write (current\<lparr>lc_released_at := Some now\<rparr>) True))"

definition release_claim ::
  "claim_store \<Rightarrow> (location_claim content \<Rightarrow> 'e) \<Rightarrow> string \<Rightarrow> string \<Rightarrow> location_claim world
    \<Rightarrow> bool result \<times> location_claim world" where
  "release_claim st dg location table w =
     cas_loop (cl_root st) dg (claim_key st location) (release_verdict table) take_attempts w"

section \<open>The claim as a state machine\<close>

record claim_sys =
  ks_claim :: "location_claim option"
  ks_now :: int

text \<open>Who acts on the record; the passing of time is nobody's act.\<close>

datatype claim_act =
    Passes | Takes claim_request | Fences claim_request string | Lifts string | Releases string

inductive claim_step :: "claim_act \<Rightarrow> claim_sys \<Rightarrow> claim_sys \<Rightarrow> bool" where
  passes: "ks_now s \<le> t \<Longrightarrow> claim_step Passes s (s\<lparr>ks_now := t\<rparr>)"
| takes: "t \<le> ks_now s \<Longrightarrow> take_verdict rq (ks_claim s) t = Write c y \<Longrightarrow>
    claim_step (Takes rq) s (s\<lparr>ks_claim := Some c\<rparr>)"
| fences: "t \<le> ks_now s \<Longrightarrow> fenced_claim rq token (ks_claim s) t = Inr c \<Longrightarrow>
    claim_step (Fences rq token) s (s\<lparr>ks_claim := Some c\<rparr>)"
| lifts: "ks_claim s = Some c0 \<Longrightarrow> lifted token c0 = Inr c \<Longrightarrow>
    claim_step (Lifts token) s (s\<lparr>ks_claim := Some c\<rparr>)"
| releases: "t \<le> ks_now s \<Longrightarrow> release_verdict table (ks_claim s) t = Write c y \<Longrightarrow>
    claim_step (Releases table) s (s\<lparr>ks_claim := Some c\<rparr>)"

inductive_cases claim_step_elims:
  "claim_step Passes s s'" "claim_step (Takes rq) s s'" "claim_step (Fences rq token) s s'"
  "claim_step (Lifts token) s s'" "claim_step (Releases table) s s'"

text \<open>Who holds the location, and under which uuid: what \<^verbatim>\<open>holder\<close> answers.\<close>

definition owner :: "claim_sys \<Rightarrow> (string \<times> string option) option" where
  "owner s = (case ks_claim s of
       None \<Rightarrow> None
     | Some c \<Rightarrow> if lc_released_at c \<noteq> None then None else Some (lc_table c, lc_uuid c))"

definition claim_of :: "location_claim content option \<Rightarrow> location_claim option" where
  "claim_of c = (case c of Some (Json r) \<Rightarrow> Some r | _ \<Rightarrow> None)"

definition claim_sys_at :: "string \<Rightarrow> location_claim world \<Rightarrow> claim_sys" where
  "claim_sys_at k w = \<lparr>ks_claim = claim_of (lookup w k), ks_now = clock w\<rparr>"

lemma claim_of_Json [simp]: "claim_of (map_option Json c) = c" "claim_of (Some (Json d)) = Some d"
  by (cases c) (auto simp: claim_of_def)

lemma claim_sys_at_put [simp]:
  "claim_sys_at k (store_put k (Json c) w) = (claim_sys_at k w)\<lparr>ks_claim := Some c\<rparr>"
  by (simp add: claim_sys_at_def)

lemma claim_step_time: "claim_step a s s' \<Longrightarrow> ks_now s \<le> ks_now s'"
  by (cases rule: claim_step.cases) auto

lemma fresh_claim_fields [simp]:
  "lc_table (fresh_claim rq u t) = rq_table rq" "lc_uuid (fresh_claim rq u t) = u"
  "lc_released_at (fresh_claim rq u t) = None" "lc_fence (fresh_claim rq u t) = None"
  "lc_claimed_at (fresh_claim rq u t) = t" "lc_token (fresh_claim rq u t) = rq_token rq"
  by (simp_all add: fresh_claim_def)

lemma taken_claim_table:
  "taken_claim rq c t = Inr (Some d) \<Longrightarrow> lc_table d = rq_table rq \<and> lc_released_at d = None"
  by (auto simp: taken_claim_def split: if_splits)

lemma taken_claim_retry:
  "taken_claim rq c t = Inr None \<Longrightarrow> lc_table c = rq_table rq \<and> lc_released_at c = None \<and> rq_uuid rq = None"
  by (auto simp: taken_claim_def split: if_splits)

lemma take_verdict_Write:
  "take_verdict rq found t = Write c y \<Longrightarrow> y = c \<and> lc_table c = rq_table rq \<and> lc_released_at c = None"
  by (auto simp: take_verdict_def Let_def dest: taken_claim_table split: option.splits sum.splits)

lemma take_verdict_Stop:
  "take_verdict rq found t = Stop (Inr c) \<Longrightarrow>
    found = Some c \<and> lc_table c = rq_table rq \<and> lc_released_at c = None \<and> rq_uuid rq = None"
  by (auto simp: take_verdict_def Let_def dest: taken_claim_retry split: option.splits sum.splits)

section \<open>Who may change hands\<close>

text \<open>
  C3: A held location passes from one table to another in one way only. If a step leaves the
  location with a holder of another name, the step was a take or a fence for that new name, and
  either it was a take that names the old holder as the one it was renamed from, or at the clock
  the request judged the claim was older than its lease and the caller found its holder gone. The
  uuid it then carries is the old holder's, or the one a table being created brings.
\<close>

theorem holder_changes_hands:
  assumes "claim_step a s s'" "owner s = Some (tb, u)" "owner s' = Some (tb', u')" "tb' \<noteq> tb"
  shows "\<exists>rq c t. ks_claim s = Some c \<and> (a = Takes rq \<or> (\<exists>token. a = Fences rq token)) \<and>
    rq_table rq = tb' \<and> t \<le> ks_now s \<and>
    (a = Takes rq \<and> rq_previous rq = Some tb \<and> u' = u \<or>
     claim_lease \<le> t - lc_claimed_at c \<and> rq_is_gone rq c \<and>
       (u' = u \<or> a = Takes rq \<and> rq_uuid rq \<noteq> None \<and> u' = rq_uuid rq))"
proof -
  obtain c where c: "ks_claim s = Some c" "lc_released_at c = None" "lc_table c = tb" "lc_uuid c = u"
    using assms(2) by (auto simp: owner_def split: option.splits if_splits)
  show ?thesis
    using assms(1)
  proof cases
    case (takes t rq d y)
    moreover have "taken_claim rq c t = Inr (Some d)" "lc_table d = tb'" "lc_uuid d = u'" "rq_table rq = tb'"
      using takes(4) assms(3) c(1) takes(2) take_verdict_Write [OF takes(4)]
      by (auto simp: take_verdict_def owner_def split: option.splits sum.splits if_splits)
    ultimately show ?thesis
      using c assms(4)
      by (intro exI [of _ rq] exI [of _ c] exI [of _ t])
        (auto simp: taken_claim_def within_lease_def split: if_splits)
  next
    case (fences t rq token d)
    then show ?thesis
      using c assms(3,4)
      by (intro exI [of _ rq] exI [of _ c] exI [of _ t])
        (auto simp: fenced_claim_def within_lease_def owner_def Let_def split: if_splits)
  next
    case (releases t table d y)
    then show ?thesis
      using assms(3) by (auto simp: release_verdict_def owner_def split: option.splits if_splits)
  qed (use c assms(2-4) in \<open>auto simp: owner_def lifted_def split: option.splits if_splits\<close>)
qed

theorem holder_changes_hands_witness:
  "\<exists>rq. claim_step (Takes rq)
     \<lparr>ks_claim = Some \<lparr>lc_location = ''l'', lc_table = ''a'', lc_segments = [], lc_uuid = Some ''u'', lc_claimed_at = 0,
        lc_token = None, lc_released_at = None, lc_fence = None\<rparr>, ks_now = 7\<rparr>
     \<lparr>ks_claim = Some \<lparr>lc_location = decoded_path ''l'', lc_table = ''b'', lc_segments = [], lc_uuid = Some ''u'', lc_claimed_at = 7,
        lc_token = Some ''t'', lc_released_at = None, lc_fence = None\<rparr>, ks_now = 7\<rparr>
     \<and> rq_previous rq = Some ''a''"
proof -
  let ?c = "\<lparr>lc_location = ''l'', lc_table = ''a'', lc_segments = [], lc_uuid = Some ''u'', lc_claimed_at = 0,
        lc_token = None, lc_released_at = None, lc_fence = None\<rparr>"
  let ?d = "\<lparr>lc_location = decoded_path ''l'', lc_table = ''b'', lc_segments = [], lc_uuid = Some ''u'', lc_claimed_at = 7,
        lc_token = Some ''t'', lc_released_at = None, lc_fence = None\<rparr>"
  let ?rq = "\<lparr>rq_location = ''l'', rq_table = ''b'', rq_segments = [], rq_is_gone = (\<lambda>_. False),
      rq_previous = Some ''a'', rq_token = Some ''t'', rq_uuid = None, rq_is_kept = (\<lambda>_. False)\<rparr>"
  let ?s = "\<lparr>ks_claim = Some ?c, ks_now = 7\<rparr>"
  have step: "claim_step (Takes ?rq) ?s (?s\<lparr>ks_claim := Some ?d\<rparr>)"
    by (rule claim_step.takes [of 7 _ _ _ ?d])
      (simp_all add: take_verdict_def taken_claim_def fenced_against_def fresh_claim_def)
  have "owner ?s = Some (''a'', Some ''u'')" "owner (?s\<lparr>ks_claim := Some ?d\<rparr>) = Some (''b'', Some ''u'')"
    by (simp_all add: owner_def)
  from holder_changes_hands [OF step this] step show ?thesis by auto
qed

section \<open>What a fence keeps\<close>

text \<open>An act of another request than \<open>token\<close>, and no release by the fenced table itself.\<close>

fun foreign :: "string \<Rightarrow> string \<Rightarrow> claim_act \<Rightarrow> bool" where
  "foreign token table Passes = True"
| "foreign token table (Takes rq) = (rq_token rq \<noteq> Some token)"
| "foreign token table (Fences rq t) = (t \<noteq> token)"
| "foreign token table (Lifts t) = (t \<noteq> token)"
| "foreign token table (Releases tb) = (tb \<noteq> table)"

definition foreign_step :: "string \<Rightarrow> string \<Rightarrow> claim_sys \<Rightarrow> claim_sys \<Rightarrow> bool" where
  "foreign_step token table s s' = (\<exists>a. foreign token table a \<and> claim_step a s s')"

lemma foreign_step_fenced:
  assumes "foreign_step (cf_token f) (lc_table c) s s'" "ks_claim s = Some c" "lc_released_at c = None"
    and "lc_fence c = Some f" "ks_now s - cf_at f < claim_lease"
  shows "ks_claim s' = Some c"
proof -
  obtain a where a: "foreign (cf_token f) (lc_table c) a" "claim_step a s s'"
    using assms(1) by (auto simp: foreign_step_def)
  from a(2) show ?thesis
  proof cases
    case (takes t rq d y)
    then have "fenced_against c (rq_token rq) t"
      using a(1) assms(3-5) by (auto simp: fenced_against_def)
    with takes assms(2,3) show ?thesis by (simp add: take_verdict_def taken_claim_def)
  next
    case (fences t rq token d)
    then have "fenced_against c (Some token) t"
      using a(1) assms(3-5) by (auto simp: fenced_against_def)
    with fences assms(2) show ?thesis by (simp add: fenced_claim_def Let_def)
  qed (use a(1) assms(2-4) in \<open>auto simp: lifted_def release_verdict_def split: if_splits\<close>)
qed

lemma foreign_run_time: "(foreign_step token table)\<^sup>*\<^sup>* s s' \<Longrightarrow> ks_now s \<le> ks_now s'"
  by (induction rule: rtranclp_induct) (auto simp: foreign_step_def dest: claim_step_time)

text \<open>
  A fence keeps the claim it stands on. Once a request has fenced a table's claim, whatever
  other requests attempt, in any number and order (takes, renames handing the location over,
  fences, lifts of other fences, releases of other tables, and the passing of time short of the
  lease), the record is still the very claim that was fenced.
\<close>

theorem fenced_claim_is_unchanged:
  assumes "(foreign_step (cf_token f) (lc_table c))\<^sup>*\<^sup>* s s'" "ks_claim s = Some c"
    and "lc_released_at c = None" "lc_fence c = Some f" "ks_now s' - cf_at f < claim_lease"
  shows "ks_claim s' = Some c"
  using assms
proof (induction rule: rtranclp_induct)
  case (step s1 s2)
  have "ks_now s1 \<le> ks_now s2"
    using step.hyps(2) by (auto simp: foreign_step_def dest: claim_step_time)
  with step.prems(4) have t: "ks_now s1 - cf_at f < claim_lease" by simp
  with step.IH step.prems have "ks_claim s1 = Some c" by blast
  with step.hyps(2) show ?case
    using step.prems(2,3) t by (rule foreign_step_fenced)
qed simp

theorem fenced_claim_is_unchanged_witness:
  "ks_claim \<lparr>ks_claim = Some \<lparr>lc_location = ''l'', lc_table = ''a'', lc_segments = [], lc_uuid = None, lc_claimed_at = 0,
        lc_token = None, lc_released_at = None, lc_fence = Some \<lparr>cf_token = ''t'', cf_at = 3\<rparr>\<rparr>, ks_now = 9\<rparr>
    = Some \<lparr>lc_location = ''l'', lc_table = ''a'', lc_segments = [], lc_uuid = None, lc_claimed_at = 0,
        lc_token = None, lc_released_at = None, lc_fence = Some \<lparr>cf_token = ''t'', cf_at = 3\<rparr>\<rparr>"
proof -
  let ?f = "\<lparr>cf_token = ''t'', cf_at = 3\<rparr>"
  let ?c = "\<lparr>lc_location = ''l'', lc_table = ''a'', lc_segments = [], lc_uuid = None, lc_claimed_at = 0,
        lc_token = None, lc_released_at = None, lc_fence = Some ?f\<rparr>"
  let ?s = "\<lparr>ks_claim = Some ?c, ks_now = 4\<rparr>"
  have "foreign_step (cf_token ?f) (lc_table ?c) ?s (?s\<lparr>ks_now := 9\<rparr>)"
    using claim_step.passes [of ?s 9] by (auto simp: foreign_step_def intro!: exI [of _ Passes])
  then have "(foreign_step (cf_token ?f) (lc_table ?c))\<^sup>*\<^sup>* ?s (?s\<lparr>ks_now := 9\<rparr>)"
    by (rule r_into_rtranclp)
  then show ?thesis
    using fenced_claim_is_unchanged [of ?f ?c ?s "?s\<lparr>ks_now := 9\<rparr>"] by (simp add: claim_lease_def)
qed

section \<open>The operations are steps of the machine\<close>

lemma take_claim_ran:
  assumes "inj dg" "cl_root st = S3" "take_claim st dg rq w = (x, w')"
  shows "\<exists>m. cas_ran (claim_key st (rq_location rq)) (take_verdict rq) (drift m w) x w'"
  using cas_loop_ran assms unfolding take_claim_def by metis

text \<open>
  C37: \<^verbatim>\<open>take\<close> on S3 refines the claim's machine for every interleaving and outage. If it
  raises, it wrote nothing itself. If it returns a claim, that claim names the asking table and is
  unreleased, and at some instant of the run either the record already was that claim, a retry, and
  was left alone, or it was replaced by that claim in one take step, nothing else being touched.
\<close>

theorem take_refines_claim_step:
  assumes "inj dg" "cl_root st = S3" "take_claim st dg rq w = (x, w')"
  shows "\<exists>m. case x of
      Inl _ \<Rightarrow> w' = drift m w
    | Inr c \<Rightarrow> lc_table c = rq_table rq \<and> lc_released_at c = None \<and>
        (w' = drift m w \<and> lookup w' (claim_key st (rq_location rq)) = Some (Json c) \<or>
         w' = store_put (claim_key st (rq_location rq)) (Json c) (drift m w) \<and>
         claim_step (Takes rq) (claim_sys_at (claim_key st (rq_location rq)) (drift m w))
           (claim_sys_at (claim_key st (rq_location rq)) w'))"
proof -
  let ?k = "claim_key st (rq_location rq)"
  obtain m where ran: "cas_ran ?k (take_verdict rq) (drift m w) x w'"
    using take_claim_ran [OF assms] by blast
  show ?thesis
  proof (rule exI [of _ m], cases x)
    case (Inr c)
    then consider (stop) d where "w' = drift m w" "lookup w' ?k = map_option Json d"
        "take_verdict rq d (clock w') = Stop (Inr c)"
      | (wrote) d t r y where "lookup (drift m w) ?k = map_option Json d" "t \<le> clock (drift m w)"
        "take_verdict rq d t = Write r y" "c = y" "w' = store_put ?k (Json r) (drift m w)"
      using ran unfolding cas_ran_def by auto
    then show "case x of
      Inl _ \<Rightarrow> w' = drift m w
    | Inr c \<Rightarrow> lc_table c = rq_table rq \<and> lc_released_at c = None \<and>
        (w' = drift m w \<and> lookup w' ?k = Some (Json c) \<or>
         w' = store_put ?k (Json c) (drift m w) \<and>
         claim_step (Takes rq) (claim_sys_at ?k (drift m w)) (claim_sys_at ?k w'))"
    proof cases
      case stop
      with take_verdict_Stop [OF stop(3)] Inr show ?thesis by simp
    next
      case wrote
      have "claim_step (Takes rq) (claim_sys_at ?k (drift m w))
          ((claim_sys_at ?k (drift m w))\<lparr>ks_claim := Some r\<rparr>)"
        using wrote by (intro claim_step.takes) (auto simp: claim_sys_at_def)
      with take_verdict_Write [OF wrote(3)] wrote Inr show ?thesis by simp
    qed
  qed (use ran in \<open>auto simp: cas_ran_def\<close>)
qed

theorem take_refines_claim_step_witness:
  "let st = \<lparr>cl_root = S3, cl_hex = id\<rparr>; w = \<lparr>objects = [], clock = 5, pending = []\<rparr>;
       rq = \<lparr>rq_location = ''s3://b/t'', rq_table = ''t'', rq_segments = [''t''], rq_is_gone = (\<lambda>_. False),
             rq_previous = None, rq_token = None, rq_uuid = Some ''u'', rq_is_kept = (\<lambda>_. False)\<rparr> in
   lc_table (fresh_claim rq (Some ''u'') 5) = ''t'' \<and>
   take_claim st id rq w = (Inr (fresh_claim rq (Some ''u'') 5),
     store_put (claim_key st ''s3://b/t'') (Json (fresh_claim rq (Some ''u'') 5)) w)"
proof -
  let ?st = "\<lparr>cl_root = S3, cl_hex = id\<rparr>"
  let ?w = "\<lparr>objects = [], clock = 5, pending = []\<rparr> :: location_claim world"
  let ?rq = "\<lparr>rq_location = ''s3://b/t'', rq_table = ''t'', rq_segments = [''t''], rq_is_gone = (\<lambda>_. False),
             rq_previous = None, rq_token = None, rq_uuid = Some ''u'', rq_is_kept = (\<lambda>_. False)\<rparr>"
  have run: "take_claim ?st id ?rq ?w = (Inr (fresh_claim ?rq (Some ''u'') 5),
     store_put (claim_key ?st ''s3://b/t'') (Json (fresh_claim ?rq (Some ''u'') 5)) ?w)"
    using cas_loop_quiet [of ?w "claim_key ?st ''s3://b/t''" None S3 id "take_verdict ?rq" 7]
    by (simp add: take_claim_def take_attempts_def take_verdict_def lookup_def Let_def)
  from take_refines_claim_step [OF inj_on_id _ run] run show ?thesis by simp
qed

text \<open>
  A table being created never inherits an identity. When \<^verbatim>\<open>take\<close> is given the uuid its
  door minted and no name it was renamed from, the claim it returns carries exactly that uuid,
  whatever claim of an ended table lay at the location, and that claim is what the store then holds.
\<close>

theorem new_table_keeps_its_own_uuid:
  assumes "inj dg" "cl_root st = S3" "take_claim st dg rq w = (Inr c, w')"
    and "rq_uuid rq = Some u" "rq_previous rq = None"
  shows "lc_uuid c = Some u \<and> lookup w' (claim_key st (rq_location rq)) = Some (Json c)"
proof -
  obtain m where ran: "cas_ran (claim_key st (rq_location rq)) (take_verdict rq) (drift m w) (Inr c) w'"
    using take_claim_ran [OF assms(1-3)] by blast
  have "take_verdict rq d t = Write r y \<Longrightarrow> y = r \<and> lc_uuid r = Some u" for d t r y
    using assms(4,5) by (auto simp: take_verdict_def taken_claim_def Let_def split: option.splits sum.splits if_splits)
  with ran show ?thesis
    using take_verdict_Stop assms(4) by (fastforce simp: cas_ran_def)
qed

theorem new_table_keeps_its_own_uuid_witness:
  "let st = \<lparr>cl_root = S3, cl_hex = id\<rparr>;
       old = \<lparr>lc_location = ''b/t'', lc_table = ''t'', lc_segments = [''t''], lc_uuid = Some ''old'', lc_claimed_at = 0,
              lc_token = None, lc_released_at = None, lc_fence = None\<rparr>;
       w = \<lparr>objects = [(claim_key st ''s3://b/t'', Json old)], clock = 5, pending = []\<rparr>;
       rq = \<lparr>rq_location = ''s3://b/t'', rq_table = ''t'', rq_segments = [''t''], rq_is_gone = (\<lambda>_. False),
             rq_previous = None, rq_token = None, rq_uuid = Some ''new'', rq_is_kept = (\<lambda>_. False)\<rparr> in
   lookup (snd (take_claim st id rq w)) (claim_key st ''s3://b/t'') = Some (Json (fresh_claim rq (Some ''new'') 5))"
proof -
  let ?st = "\<lparr>cl_root = S3, cl_hex = id\<rparr>"
  let ?k = "claim_key ?st ''s3://b/t''"
  let ?old = "\<lparr>lc_location = ''b/t'', lc_table = ''t'', lc_segments = [''t''], lc_uuid = Some ''old'', lc_claimed_at = 0,
              lc_token = None, lc_released_at = None, lc_fence = None\<rparr>"
  let ?w = "\<lparr>objects = [(?k, Json ?old)], clock = 5, pending = []\<rparr>"
  let ?rq = "\<lparr>rq_location = ''s3://b/t'', rq_table = ''t'', rq_segments = [''t''], rq_is_gone = (\<lambda>_. False),
             rq_previous = None, rq_token = None, rq_uuid = Some ''new'', rq_is_kept = (\<lambda>_. False)\<rparr>"
  have run: "take_claim ?st id ?rq ?w = (Inr (fresh_claim ?rq (Some ''new'') 5),
     store_put ?k (Json (fresh_claim ?rq (Some ''new'') 5)) ?w)"
    using cas_loop_quiet [of ?w ?k "Some ?old" S3 id "take_verdict ?rq" 7]
    by (simp add: take_claim_def take_attempts_def take_verdict_def taken_claim_def fenced_against_def lookup_def Let_def)
  have "lc_uuid (fresh_claim ?rq (Some ''new'') 5) = Some ''new'' \<and>
      lookup (store_put ?k (Json (fresh_claim ?rq (Some ''new'') 5)) ?w) (claim_key ?st (rq_location ?rq)) =
        Some (Json (fresh_claim ?rq (Some ''new'') 5))"
    by (rule new_table_keeps_its_own_uuid [OF inj_on_id _ run]) simp_all
  with run show ?thesis by (simp add: Let_def)
qed

text \<open>A conditional write over a claim a request read, for every interleaving.\<close>

lemma write_over_claim_won:
  assumes "inj dg" "cl_root st = S3" "write_over_claim st dg location read_as claim w = (x, w')"
    and "\<forall>r. read_as = Some r \<longrightarrow> cr_etag r = dg (Json (cr_claim r))"
  shows "case x of
      Inl _ \<Rightarrow> w' = drift 1 w
    | Inr _ \<Rightarrow> lookup (drift 1 w) (claim_key st location) = map_option Json (map_option cr_claim read_as) \<and>
        w' = store_put (claim_key st location) (Json claim) (drift 1 w)"
proof (cases read_as)
  case None
  obtain y w1 where cr: "create_json (claim_key st location) claim w = (y, w1)" by force
  show ?thesis
    using create_json_effect [OF cr] cs.create_won [of "claim_key st location" claim w _ w1] cr assms(3) None
    by (auto simp: write_over_claim_def drift_def split: sum.splits)
next
  case (Some r)
  obtain y w1 where rp: "replace_json S3 dg (claim_key st location) claim (cr_etag r) w = (y, w1)" by force
  show ?thesis
    using replace_json_s3 [OF rp] rp assms Some
    by (auto simp: write_over_claim_def drift_def inj_eq split: sum.splits)
qed

lemma store_now_drift:
  "store_now st dg location w = (x, w1) \<Longrightarrow> w1 = drift 1 w \<and> (\<forall>t. x = Inr t \<longrightarrow> t = clock w1)"
  using read_json_at_drift [of dg "claim_key st location" w]
    read_json_at_answer [of dg "claim_key st location" w]
  by (auto simp: store_now_def split: prod.splits sum.splits)

lemma handed_claim_table: "handed_claim rq found t = Inr c \<Longrightarrow> lc_table c = rq_table rq"
  by (auto simp: handed_claim_def split: option.splits sum.splits
      dest: taken_claim_table taken_claim_retry)

text \<open>
  A rename acts on the claim its request read, or not at all. If \<^verbatim>\<open>hand_over\<close> returns,
  then at its write the record was exactly what the request had read, absent or that claim, the
  returned claim names the new table and is the one record that changed; so of a rename and any
  other door that wrote the same claim since, the later one is refused. If it raises it wrote
  nothing.
\<close>

theorem hand_over_acts_on_the_claim_it_read:
  assumes "inj dg" "cl_root st = S3" "hand_over st dg rq read_as w = (x, w')"
    and "\<forall>r. read_as = Some r \<longrightarrow> cr_etag r = dg (Json (cr_claim r))"
  shows "\<exists>m. case x of
      Inl _ \<Rightarrow> w' = drift m w
    | Inr c \<Rightarrow> lookup (drift m w) (claim_key st (rq_location rq)) = map_option Json (map_option cr_claim read_as) \<and>
        lc_table c = rq_table rq \<and> w' = store_put (claim_key st (rq_location rq)) (Json c) (drift m w)"
proof -
  obtain y w1 where now: "store_now st dg (rq_location rq) w = (y, w1)" by force
  note w1 = store_now_drift [OF now]
  show ?thesis
  proof (cases "\<exists>t c. y = Inr t \<and> handed_claim rq (map_option cr_claim read_as) t = Inr c")
    case False
    with assms(3) now have "w' = w1 \<and> (\<exists>e. x = Inl e)"
      by (auto simp: hand_over_def split: sum.splits intro: sym)
    with w1 show ?thesis by auto
  next
    case True
    then obtain t c where c: "y = Inr t" "handed_claim rq (map_option cr_claim read_as) t = Inr c" by blast
    obtain z w2 where wr: "write_over_claim st dg (rq_location rq) read_as c w1 = (z, w2)" by force
    have two: "drift 1 w1 = drift 2 w"
      using w1 by (simp add: drift_add numeral_2_eq_2)
    have "(x, w') = (case z of Inl e \<Rightarrow> (Inl e, w2) | Inr _ \<Rightarrow> (Inr c, w2))"
      using assms(3) now c wr by (simp add: hand_over_def split: sum.splits)
    with write_over_claim_won [OF assms(1,2) wr assms(4)] two handed_claim_table [OF c(2)] show ?thesis
      by (intro exI [of _ 2]) (auto split: sum.splits)
  qed
qed

theorem hand_over_acts_on_the_claim_it_read_witness:
  "let st = \<lparr>cl_root = S3, cl_hex = id\<rparr>;
       rq = \<lparr>rq_location = ''s3://b/t'', rq_table = ''n'', rq_segments = [''n''], rq_is_gone = (\<lambda>_. False),
             rq_previous = Some ''t'', rq_token = Some ''r'', rq_uuid = None, rq_is_kept = (\<lambda>_. False)\<rparr>;
       c = \<lparr>lc_location = ''b/t'', lc_table = ''t'', lc_segments = [''t''], lc_uuid = Some ''u'', lc_claimed_at = 0,
            lc_token = None, lc_released_at = None, lc_fence = None\<rparr>;
       w = \<lparr>objects = [(claim_key st ''s3://b/t'', Json (c\<lparr>lc_table := ''z''\<rparr>))], clock = 5, pending = []\<rparr> in
   \<exists>m. fst (hand_over st id rq (Some \<lparr>cr_claim = c, cr_etag = Json c\<rparr>) w) = Inl ClaimChangedError \<and>
       snd (hand_over st id rq (Some \<lparr>cr_claim = c, cr_etag = Json c\<rparr>) w) = drift m w"
proof -
  let ?st = "\<lparr>cl_root = S3, cl_hex = id\<rparr>"
  let ?rq = "\<lparr>rq_location = ''s3://b/t'', rq_table = ''n'', rq_segments = [''n''], rq_is_gone = (\<lambda>_. False),
             rq_previous = Some ''t'', rq_token = Some ''r'', rq_uuid = None, rq_is_kept = (\<lambda>_. False)\<rparr>"
  let ?c = "\<lparr>lc_location = ''b/t'', lc_table = ''t'', lc_segments = [''t''], lc_uuid = Some ''u'', lc_claimed_at = 0,
            lc_token = None, lc_released_at = None, lc_fence = None\<rparr>"
  let ?w = "\<lparr>objects = [(claim_key ?st ''s3://b/t'', Json (?c\<lparr>lc_table := ''z''\<rparr>))], clock = 5, pending = []\<rparr>"
  have run: "hand_over ?st id ?rq (Some \<lparr>cr_claim = ?c, cr_etag = Json ?c\<rparr>) ?w = (Inl ClaimChangedError, ?w)"
    by (simp add: hand_over_def handed_claim_def store_now_def read_json_at_def lookup_def taken_claim_def
        fenced_against_def write_over_claim_def replace_json_def fresh_claim_def)
  have "\<exists>m. ?w = drift m ?w"
    using hand_over_acts_on_the_claim_it_read [OF inj_on_id _ run] by simp
  with run show ?thesis by (simp add: Let_def)
qed

text \<open>
  A release is its holder's alone, and a released location is free. If \<^verbatim>\<open>release\<close>
  answers true, then at its write the record was an unreleased claim of that table, it became the
  same claim with only the release stamped, and the location then has no holder; in every other
  case it wrote nothing, so another table's claim is never freed.
\<close>

theorem release_frees_only_its_own_claim:
  assumes "inj dg" "cl_root st = S3" "release_claim st dg location table w = (x, w')"
  shows "\<exists>m. if x = Inr True
    then (\<exists>c t. lookup (drift m w) (claim_key st location) = Some (Json c) \<and> lc_table c = table \<and>
            lc_released_at c = None \<and> t \<le> clock (drift m w) \<and>
            w' = store_put (claim_key st location) (Json (c\<lparr>lc_released_at := Some t\<rparr>)) (drift m w)) \<and>
         claim_step (Releases table) (claim_sys_at (claim_key st location) (drift m w))
           (claim_sys_at (claim_key st location) w') \<and>
         owner (claim_sys_at (claim_key st location) w') = None
    else w' = drift m w"
proof -
  let ?k = "claim_key st location"
  obtain m where ran: "cas_ran ?k (release_verdict table) (drift m w) x w'"
    using cas_loop_ran assms unfolding release_claim_def by metis
  show ?thesis
  proof (cases "x = Inr True")
    case True
    have never: "release_verdict table c t \<noteq> Stop (Inr True)" for c t
      by (simp add: release_verdict_def split: option.splits)
    obtain c t r y where c: "lookup (drift m w) ?k = map_option Json c" "t \<le> clock (drift m w)"
      "release_verdict table c t = Write r y" "w' = store_put ?k (Json r) (drift m w)"
      using ran True never unfolding cas_ran_def by blast
    have "claim_step (Releases table) (claim_sys_at ?k (drift m w))
        ((claim_sys_at ?k (drift m w))\<lparr>ks_claim := Some r\<rparr>)"
      using c by (intro claim_step.releases) (auto simp: claim_sys_at_def)
    with c True show ?thesis
      by (intro exI [of _ m]) (auto simp: release_verdict_def owner_def split: option.splits if_splits)
  next
    case False
    have "release_verdict table c t = Write r y \<Longrightarrow> y = True" for c t r y
      by (auto simp: release_verdict_def split: option.splits if_splits)
    with ran False show ?thesis
      by (auto simp: cas_ran_def)
  qed
qed

theorem release_frees_only_its_own_claim_witness:
  "let st = \<lparr>cl_root = S3, cl_hex = id\<rparr>;
       c = \<lparr>lc_location = ''b/t'', lc_table = ''t'', lc_segments = [''t''], lc_uuid = None, lc_claimed_at = 0,
            lc_token = None, lc_released_at = None, lc_fence = None\<rparr>;
       w = \<lparr>objects = [(claim_key st ''s3://b/t'', Json c)], clock = 5, pending = []\<rparr> in
   owner (claim_sys_at (claim_key st ''s3://b/t'') (snd (release_claim st id ''s3://b/t'' ''t'' w))) = None"
proof -
  let ?st = "\<lparr>cl_root = S3, cl_hex = id\<rparr>"
  let ?k = "claim_key ?st ''s3://b/t''"
  let ?c = "\<lparr>lc_location = ''b/t'', lc_table = ''t'', lc_segments = [''t''], lc_uuid = None, lc_claimed_at = 0,
            lc_token = None, lc_released_at = None, lc_fence = None\<rparr>"
  let ?w = "\<lparr>objects = [(?k, Json ?c)], clock = 5, pending = []\<rparr>"
  have run: "release_claim ?st id ''s3://b/t'' ''t'' ?w = (Inr True, store_put ?k (Json (?c\<lparr>lc_released_at := Some 5\<rparr>)) ?w)"
    using cas_loop_quiet [of ?w ?k "Some ?c" S3 id "release_verdict ''t''" 7]
    by (simp add: release_claim_def take_attempts_def release_verdict_def lookup_def)
  have root: "cl_root ?st = S3" by simp
  have "owner (claim_sys_at ?k (snd (release_claim ?st id ''s3://b/t'' ''t'' ?w))) = None"
    using release_frees_only_its_own_claim [OF inj_on_id root run]
    unfolding run by (auto simp only: if_True simp_thms snd_conv)
  then show ?thesis by (simp only: Let_def)
qed

end
