(* ===== verification/Base_Registry.thy ===== *)
theory Base_Registry
  imports Location_Claims
begin

text \<open>
  \<^verbatim>\<open>lakehouse_kit/base_registry.py\<close>: the catalog's own record of the foreign bases a table may
  declare, and the one predicate that decides a declared base's standing.

  The base records and the location claims lie under two prefixes of one control root
  (\<^verbatim>\<open>_bases/\<close> and \<^verbatim>\<open>_locations/\<close>), so the operations that touch both thread two worlds of
  \<open>Records\<close>, one for each prefix. A stored body that validates is a \<open>base_record\<close>; a body that
  does not is \<open>NotObject\<close> or \<open>Undecodable\<close>.
\<close>

section \<open>Data\<close>

datatype base_role = EXTERNAL_BLOB | DATA | DERIVED_FROM

datatype base_origin = CREATE | REGISTER | SILVER

record recorded_base =
  rb_path :: string
  rb_store :: string
  rb_role :: base_role
  rb_is_root :: bool
  rb_name :: "string option"
  rb_origin :: base_origin
  rb_source :: "string option"
  rb_tag :: "string option"

text \<open>\<^verbatim>\<open>_a_location\<close>, the validator of a location field.\<close>

definition a_location :: "string \<Rightarrow> string result" where
  "a_location value = (if names_a_location value then Inr (normalise value) else Inl ValueError)"

text \<open>
  The validators of \<^verbatim>\<open>RecordedBase\<close>, in the order they run: the store its spelling names when
  none is given, then the path and the source table as locations.
\<close>

definition the_store_its_spelling_names :: "recorded_base \<Rightarrow> recorded_base result" where
  "the_store_its_spelling_names b =
     (if rb_store b \<noteq> [] then Inr b
      else if scheme_partition (rb_path b) = None \<and> \<not> prefix ''/'' (rb_path b) then Inl ValueError
      else Inr (b\<lparr>rb_store := store_of (rb_path b)\<rparr>))"

definition recorded_base_of :: "recorded_base \<Rightarrow> recorded_base result" where
  "recorded_base_of b0 = (case the_store_its_spelling_names b0 of
       Inl e \<Rightarrow> Inl e
     | Inr b \<Rightarrow>
         (case (a_location (rb_path b), map_option a_location (rb_source b)) of
            (Inl e, _) \<Rightarrow> Inl e
          | (Inr p, None) \<Rightarrow> Inr (b\<lparr>rb_path := p\<rparr>)
          | (Inr p, Some (Inl e)) \<Rightarrow> Inl e
          | (Inr p, Some (Inr s)) \<Rightarrow> Inr (b\<lparr>rb_path := p, rb_source := Some s\<rparr>)))"

type_synonym base_identity = "string \<times> string \<times> bool \<times> base_role"

definition identity :: "recorded_base \<Rightarrow> base_identity" where
  "identity b = (rb_path b, rb_store b, rb_is_root b, rb_role b)"

record base_record =
  br_location :: string
  br_entries :: "recorded_base list"

definition base_record_of :: "string \<Rightarrow> recorded_base list \<Rightarrow> base_record result" where
  "base_record_of location entries = (case a_location location of
       Inl e \<Rightarrow> Inl e
     | Inr l \<Rightarrow> Inr \<lparr>br_location = l, br_entries = entries\<rparr>)"

record base_claim =
  bc_location :: string
  bc_created :: bool
  bc_added :: "recorded_base list"

record base_registry =
  bg_root :: root
  bg_hex :: "string \<Rightarrow> string"

definition bases_prefix :: string where
  "bases_prefix = ''_bases''"

definition claim_attempts :: nat where
  "claim_attempts = 3"

definition record_key_for :: "base_registry \<Rightarrow> string \<Rightarrow> string" where
  "record_key_for rg location = record_key (bg_hex rg) bases_prefix ''table'' (decoded_path location)"

definition claims_of :: "base_registry \<Rightarrow> claim_store" where
  "claims_of rg = \<lparr>cl_root = bg_root rg, cl_hex = bg_hex rg\<rparr>"

section \<open>The record\<close>

definition parsed_record :: "base_record \<Rightarrow> string \<Rightarrow> base_record result" where
  "parsed_record r location =
     (if decoded_path (br_location r) \<noteq> decoded_path location then Inl UnreadableBaseRecordError else Inr r)"

definition read_base_record ::
  "base_registry \<Rightarrow> (base_record content \<Rightarrow> 'e) \<Rightarrow> string \<Rightarrow> base_record world
    \<Rightarrow> base_record option result \<times> base_record world" where
  "read_base_record rg dg location w = (case read_json dg (record_key_for rg location) w of
       (Inl e, w1) \<Rightarrow> (Inl (if e = ValueError then UnreadableBaseRecordError else e), w1)
     | (Inr None, w1) \<Rightarrow> (Inr None, w1)
     | (Inr (Some (r, _)), w1) \<Rightarrow>
         (case parsed_record r location of Inl e \<Rightarrow> (Inl e, w1) | Inr r \<Rightarrow> (Inr (Some r), w1)))"

fun distinct_entries_from :: "base_identity list \<Rightarrow> recorded_base list \<Rightarrow> recorded_base list" where
  "distinct_entries_from seen [] = []"
| "distinct_entries_from seen (b # bs) =
     (if identity b \<in> set seen then distinct_entries_from seen bs
      else b # distinct_entries_from (identity b # seen) bs)"

definition distinct_entries :: "recorded_base list \<Rightarrow> recorded_base list" where
  "distinct_entries bs = distinct_entries_from [] bs"

definition missing_entries :: "recorded_base list \<Rightarrow> recorded_base list \<Rightarrow> recorded_base list" where
  "missing_entries wanted present = filter (\<lambda>b. identity b \<notin> set (map identity present)) wanted"

definition add_entries :: "base_record \<Rightarrow> base_record \<Rightarrow> base_record result" where
  "add_entries wanted raw = (case parsed_record raw (br_location wanted) of
       Inl e \<Rightarrow> Inl e
     | Inr r \<Rightarrow> base_record_of (br_location r)
         (br_entries r @ missing_entries (br_entries wanted) (br_entries r)))"

text \<open>
  \<^verbatim>\<open>_add_missing\<close>: what it answers is recomputed in every round, so it is what the round that
  wrote had found missing.
\<close>

definition add_missing ::
  "base_registry \<Rightarrow> (base_record content \<Rightarrow> 'e) \<Rightarrow> string \<Rightarrow> base_record \<Rightarrow> base_record world
    \<Rightarrow> recorded_base list result \<times> base_record world" where
  "add_missing rg dg k wanted w =
     (case exchange_json (bg_root rg) dg k (add_entries wanted) mutate_attempts w of
        (Inl e, w1) \<Rightarrow> (Inl e, w1)
      | (Inr (r, _), w1) \<Rightarrow> (Inr (missing_entries (br_entries wanted) (br_entries r)), w1))"

fun claim_rounds ::
  "base_registry \<Rightarrow> (base_record content \<Rightarrow> 'e) \<Rightarrow> string \<Rightarrow> base_record \<Rightarrow> nat \<Rightarrow> base_record world
    \<Rightarrow> base_claim result \<times> base_record world" where
  "claim_rounds rg dg location wanted 0 w = (Inl RecordChangedError, w)"
| "claim_rounds rg dg location wanted (Suc n) w =
     (case create_json (record_key_for rg location) wanted w of
        (Inr _, w1) \<Rightarrow>
          (Inr \<lparr>bc_location = br_location wanted, bc_created = True, bc_added = br_entries wanted\<rparr>, w1)
      | (Inl e, w1) \<Rightarrow>
          (if e \<noteq> RecordExistsError then (Inl e, w1)
           else case read_base_record rg dg location w1 of
             (Inl e, w2) \<Rightarrow> (Inl e, w2)
           | (Inr None, w2) \<Rightarrow> claim_rounds rg dg location wanted n w2
           | (Inr (Some current), w2) \<Rightarrow>
               (if missing_entries (br_entries wanted) (br_entries current) = [] then
                  (Inr \<lparr>bc_location = br_location wanted, bc_created = False, bc_added = []\<rparr>, w2)
                else case add_missing rg dg (record_key_for rg location) wanted w2 of
                  (Inr added, w3) \<Rightarrow>
                    (Inr \<lparr>bc_location = br_location wanted, bc_created = False, bc_added = added\<rparr>, w3)
                | (Inl e, w3) \<Rightarrow>
                    (if e = RecordMissingError then claim_rounds rg dg location wanted n w3 else (Inl e, w3)))))"

definition claim_bases ::
  "base_registry \<Rightarrow> (base_record content \<Rightarrow> 'e) \<Rightarrow> string \<Rightarrow> recorded_base list \<Rightarrow> base_record world
    \<Rightarrow> base_claim result \<times> base_record world" where
  "claim_bases rg dg location entries w = (case base_record_of location (distinct_entries entries) of
       Inl e \<Rightarrow> (Inl e, w)
     | Inr wanted \<Rightarrow> claim_rounds rg dg location wanted claim_attempts w)"

definition remove_entries :: "base_claim \<Rightarrow> base_record \<Rightarrow> base_record result" where
  "remove_entries claim raw = (case parsed_record raw (bc_location claim) of
       Inl e \<Rightarrow> Inl e
     | Inr r \<Rightarrow> base_record_of (br_location r)
         (filter (\<lambda>b. identity b \<notin> set (map identity (bc_added claim))) (br_entries r)))"

text \<open>\<^verbatim>\<open>release_claim\<close> of this module.\<close>

definition release_bases ::
  "base_registry \<Rightarrow> (base_record content \<Rightarrow> 'e) \<Rightarrow> base_claim \<Rightarrow> base_record world
    \<Rightarrow> unit result \<times> base_record world" where
  "release_bases rg dg claim w =
     (let k = record_key_for rg (bc_location claim) in
      if bc_created claim then
        (case delete_record (bg_root rg) k w of
           (Inl e, w1) \<Rightarrow> (Inl e, w1)
         | (Inr _, w1) \<Rightarrow> (Inr (), w1))
      else if bc_added claim = [] then (Inr (), w)
      else (case mutate_json (bg_root rg) dg k (remove_entries claim) w of
          (Inr _, w1) \<Rightarrow> (Inr (), w1)
        | (Inl e, w1) \<Rightarrow> (if e = RecordMissingError then Inr () else Inl e, w1)))"

section \<open>Data directories\<close>

definition data_paths :: "recorded_base list \<Rightarrow> string list" where
  "data_paths entries = map rb_path (filter (\<lambda>b. rb_role b = DATA) entries)"

fun release_data_directories ::
  "base_registry \<Rightarrow> (location_claim content \<Rightarrow> 'e) \<Rightarrow> string list \<Rightarrow> string \<Rightarrow> location_claim world
    \<Rightarrow> unit result \<times> location_claim world" where
  "release_data_directories rg dg [] table w = (Inr (), w)"
| "release_data_directories rg dg (d # ds) table w =
     (case release_claim (claims_of rg) dg d table w of
        (Inl e, w1) \<Rightarrow> (Inl e, w1)
      | (Inr _, w1) \<Rightarrow> release_data_directories rg dg ds table w1)"

text \<open>The loop of takes: the directories taken so far, and the error that ended it, if any.\<close>

fun take_each ::
  "base_registry \<Rightarrow> (location_claim content \<Rightarrow> 'e) \<Rightarrow> (string \<Rightarrow> claim_request) \<Rightarrow> string list
    \<Rightarrow> location_claim world \<Rightarrow> string list \<times> error option \<times> location_claim world" where
  "take_each rg dg rq [] w = ([], None, w)"
| "take_each rg dg rq (d # ds) w =
     (case take_claim (claims_of rg) dg (rq d) w of
        (Inl e, w1) \<Rightarrow> ([], Some e, w1)
      | (Inr _, w1) \<Rightarrow> (case take_each rg dg rq ds w1 of (taken, e, w2) \<Rightarrow> (d # taken, e, w2)))"

definition directory_request ::
  "string \<Rightarrow> string list \<Rightarrow> (location_claim \<Rightarrow> bool) \<Rightarrow> string option \<Rightarrow> string \<Rightarrow> claim_request" where
  "directory_request table segments is_gone previous d =
     \<lparr>rq_location = d, rq_table = table, rq_segments = segments, rq_is_gone = is_gone,
      rq_previous = previous, rq_token = None, rq_uuid = None, rq_is_kept = (\<lambda>_. False)\<rparr>"

definition claim_data_directories ::
  "base_registry \<Rightarrow> (location_claim content \<Rightarrow> 'e) \<Rightarrow> recorded_base list \<Rightarrow> string \<Rightarrow> string list
    \<Rightarrow> (location_claim \<Rightarrow> bool) \<Rightarrow> location_claim world \<Rightarrow> string list result \<times> location_claim world" where
  "claim_data_directories rg dg entries table segments is_gone w =
     (case take_each rg dg (directory_request table segments is_gone None) (data_paths entries) w of
        (taken, None, w1) \<Rightarrow> (Inr taken, w1)
      | (taken, Some e, w1) \<Rightarrow>
          (case release_data_directories rg dg taken table w1 of
             (Inl e', w2) \<Rightarrow> (Inl e', w2)
           | (Inr _, w2) \<Rightarrow> (Inl e, w2)))"

definition recorded_entries :: "base_record option \<Rightarrow> recorded_base list" where
  "recorded_entries r = (case r of None \<Rightarrow> [] | Some r \<Rightarrow> br_entries r)"

definition hand_over_data_directories ::
  "base_registry \<Rightarrow> (base_record content \<Rightarrow> 'e) \<Rightarrow> (location_claim content \<Rightarrow> 'f) \<Rightarrow> string \<Rightarrow> string \<Rightarrow> string
    \<Rightarrow> string list \<Rightarrow> base_record world \<times> location_claim world
    \<Rightarrow> string list result \<times> base_record world \<times> location_claim world" where
  "hand_over_data_directories rg dg dg' location previous table segments ws =
     (case read_base_record rg dg location (fst ws) of
        (Inl e, w1) \<Rightarrow> (Inl e, w1, snd ws)
      | (Inr r, w1) \<Rightarrow>
          (case take_each rg dg' (directory_request table segments (\<lambda>_. False) (Some previous))
                  (data_paths (recorded_entries r)) (snd ws) of
             (handed, None, c1) \<Rightarrow> (Inr handed, w1, c1)
           | (handed, Some e, c1) \<Rightarrow> (Inl e, w1, c1)))"

definition forget_base_record ::
  "base_registry \<Rightarrow> (base_record content \<Rightarrow> 'e) \<Rightarrow> (location_claim content \<Rightarrow> 'f) \<Rightarrow> string \<Rightarrow> string
    \<Rightarrow> base_record world \<times> location_claim world
    \<Rightarrow> bool result \<times> base_record world \<times> location_claim world" where
  "forget_base_record rg dg dg' location table ws =
     (case read_base_record rg dg location (fst ws) of
        (Inl e, w1) \<Rightarrow> (Inl e, w1, snd ws)
      | (Inr r, w1) \<Rightarrow>
          (case release_data_directories rg dg' (data_paths (recorded_entries r)) table (snd ws) of
             (Inl e, c1) \<Rightarrow> (Inl e, w1, c1)
           | (Inr _, c1) \<Rightarrow>
               (case delete_record (bg_root rg) (record_key_for rg location) w1 of
                  (x, w2) \<Rightarrow> (x, w2, c1))))"

section \<open>The standing of a declared base\<close>

record base_path_ref =
  bp_path :: string
  bp_is_root :: bool
  bp_name :: "string option"

datatype base_standing = OWN | CONFIGURED | RECORDED | UNRECORDED

record base_judgement =
  bj_ref :: base_path_ref
  bj_standing :: base_standing
  bj_entry :: "recorded_base option"

definition standing_without_a_read :: "string \<Rightarrow> base_path_ref \<Rightarrow> string list \<Rightarrow> base_standing option" where
  "standing_without_a_read table_root ref configured =
     (if \<not> names_a_location (bp_path ref) then Some UNRECORDED
      else if location_in_store table_root (bp_path ref) then Some OWN
      else if \<not> bp_is_root ref \<and> list_ex (\<lambda>base. location_in_store base (bp_path ref)) configured then
        Some CONFIGURED
      else None)"

definition is_own :: "string \<Rightarrow> base_path_ref \<Rightarrow> bool" where
  "is_own table_root ref = (standing_without_a_read table_root ref [] = Some OWN)"

definition recorded_entry :: "base_path_ref \<Rightarrow> base_record option \<Rightarrow> recorded_base option" where
  "recorded_entry ref r = (case r of
       None \<Rightarrow> None
     | Some r \<Rightarrow>
         List.find (\<lambda>b. (rb_path b, rb_store b, rb_is_root b) =
            (normalise (bp_path ref), store_of (bp_path ref), bp_is_root ref)) (br_entries r))"

definition judge_base ::
  "string \<Rightarrow> base_path_ref \<Rightarrow> string list \<Rightarrow> base_record option \<Rightarrow> base_judgement" where
  "judge_base table_root ref configured r = (case standing_without_a_read table_root ref configured of
       Some fast \<Rightarrow> \<lparr>bj_ref = ref, bj_standing = fast, bj_entry = None\<rparr>
     | None \<Rightarrow>
         (let entry = recorded_entry ref r in
          \<lparr>bj_ref = ref, bj_standing = (if entry \<noteq> None then RECORDED else UNRECORDED), bj_entry = entry\<rparr>))"

text \<open>
  \<^verbatim>\<open>judge_bases\<close>: \<open>load\<close> reads the record and may raise; \<open>loaded\<close> is the record once it was read.
\<close>

fun judge_bases_from ::
  "string \<Rightarrow> string list \<Rightarrow> ('w \<Rightarrow> base_record option result \<times> 'w) \<Rightarrow> base_record option option
    \<Rightarrow> base_path_ref list \<Rightarrow> 'w \<Rightarrow> base_judgement list result \<times> 'w" where
  "judge_bases_from table_root configured load loaded [] w = (Inr [], w)"
| "judge_bases_from table_root configured load loaded (ref # refs) w =
     (case standing_without_a_read table_root ref configured of
        Some fast \<Rightarrow>
          (case judge_bases_from table_root configured load loaded refs w of
             (Inl e, w1) \<Rightarrow> (Inl e, w1)
           | (Inr js, w1) \<Rightarrow> (Inr (\<lparr>bj_ref = ref, bj_standing = fast, bj_entry = None\<rparr> # js), w1))
      | None \<Rightarrow>
          (case (case loaded of Some r \<Rightarrow> (Inr r, w) | None \<Rightarrow> load w) of
             (Inl e, w1) \<Rightarrow> (Inl e, w1)
           | (Inr r, w1) \<Rightarrow>
               (case judge_bases_from table_root configured load (Some r) refs w1 of
                  (Inl e, w2) \<Rightarrow> (Inl e, w2)
                | (Inr js, w2) \<Rightarrow> (Inr (judge_base table_root ref configured r # js), w2))))"

definition judge_bases ::
  "string \<Rightarrow> base_path_ref list \<Rightarrow> string list \<Rightarrow> ('w \<Rightarrow> base_record option result \<times> 'w)
    \<Rightarrow> 'w \<Rightarrow> base_judgement list result \<times> 'w" where
  "judge_bases table_root refs configured load w =
     judge_bases_from table_root configured load None refs w"

section \<open>One read at most, and the same verdicts\<close>

definition needs_record :: "string \<Rightarrow> string list \<Rightarrow> base_path_ref \<Rightarrow> bool" where
  "needs_record table_root configured ref = (standing_without_a_read table_root ref configured = None)"

lemma judge_base_fast:
  "\<not> needs_record table_root configured ref \<Longrightarrow>
   judge_base table_root ref configured r = judge_base table_root ref configured r'"
  by (auto simp: needs_record_def judge_base_def)

lemma judge_bases_loaded:
  "judge_bases_from table_root configured load (Some r) refs w =
   (Inr (map (\<lambda>ref. judge_base table_root ref configured r) refs), w)"
  by (induction refs) (auto simp: judge_base_def split: option.splits)

lemma judge_bases_eq:
  "judge_bases table_root refs configured load w =
   (if list_ex (needs_record table_root configured) refs then
      (case load w of
         (Inl e, w1) \<Rightarrow> (Inl e, w1)
       | (Inr r, w1) \<Rightarrow> (Inr (map (\<lambda>ref. judge_base table_root ref configured r) refs), w1))
    else (Inr (map (\<lambda>ref. judge_base table_root ref configured None) refs), w))"
  unfolding judge_bases_def
proof (induction refs)
  case (Cons ref refs)
  show ?case
  proof (cases "needs_record table_root configured ref")
    case True
    then show ?thesis
      by (simp add: needs_record_def judge_bases_loaded split: prod.splits sum.splits)
  next
    case False
    then obtain fast where fast: "standing_without_a_read table_root ref configured = Some fast"
      by (auto simp: needs_record_def)
    with Cons.IH show ?thesis
      by (auto simp: needs_record_def judge_base_def split: prod.splits sum.splits)
  qed
qed simp

text \<open>
  The sweep's judge is the one-base judge over every base, with the record read at most once
  and only if some base needs it. When every base is settled by its path alone, \<^verbatim>\<open>judge_bases\<close>
  reads nothing and cannot fail; otherwise it reads exactly once, fails exactly when that read
  does, and answers \<^verbatim>\<open>judge_base\<close> of each declared base, in order, on that record.
\<close>

theorem judge_bases_reads_once:
  "judge_bases table_root refs configured load w =
   (if list_ex (needs_record table_root configured) refs then
      (case load w of
         (Inl e, w1) \<Rightarrow> (Inl e, w1)
       | (Inr r, w1) \<Rightarrow> (Inr (map (\<lambda>ref. judge_base table_root ref configured r) refs), w1))
    else (Inr (map (\<lambda>ref. judge_base table_root ref configured None) refs), w))"
  by (rule judge_bases_eq)

lemma recorded_entry_None:
  "recorded_entry ref r = None \<longleftrightarrow>
   \<not> (\<exists>rec b. r = Some rec \<and> b \<in> set (br_entries rec) \<and> rb_path b = normalise (bp_path ref) \<and>
       rb_store b = store_of (bp_path ref) \<and> rb_is_root b = bp_is_root ref)"
  by (cases r) (auto simp: recorded_entry_def find_None_iff)

text \<open>
  Only three things sanction a declared base, and no spelling climbs out of them. A base's
  standing is other than unrecorded exactly when its path names a location and it lies, in the same
  store and on a path boundary, inside the table's own root, or it is a plain base inside an
  operator-configured one, or the record names that very path, store and root-ness.
\<close>

theorem sanctioned_bases:
  "bj_standing (judge_base table_root ref configured r) \<noteq> UNRECORDED \<longleftrightarrow>
   names_a_location (bp_path ref) \<and>
   (location_in_store table_root (bp_path ref) \<or>
    \<not> bp_is_root ref \<and> (\<exists>base\<in>set configured. location_in_store base (bp_path ref)) \<or>
    (\<exists>rec b. r = Some rec \<and> b \<in> set (br_entries rec) \<and> rb_path b = normalise (bp_path ref) \<and>
       rb_store b = store_of (bp_path ref) \<and> rb_is_root b = bp_is_root ref))"
  unfolding recorded_entry_None [THEN arg_cong [where f = Not], unfolded not_not, symmetric]
  by (auto simp: judge_base_def standing_without_a_read_def Let_def list_ex_iff split: if_splits)

theorem sanctioned_bases_witness:
  "bj_standing (judge_base ''s3://lake/a'' \<lparr>bp_path = ''s3://lake/a/%2e%2e/b'', bp_is_root = False, bp_name = None\<rparr> [] None)
     = UNRECORDED"
proof -
  have no: "\<not> names_a_location ''s3://lake/a/%2e%2e/b''" by code_simp
  show ?thesis
    using sanctioned_bases [of "''s3://lake/a''"
        "\<lparr>bp_path = ''s3://lake/a/%2e%2e/b'', bp_is_root = False, bp_name = None\<rparr>" "[]" None] no
    by simp
qed

section \<open>Claiming and releasing bases\<close>

lemma base_record_of_location: "base_record_of l es = Inr r \<Longrightarrow> br_location r = normalise l \<and> br_entries r = es"
  by (auto simp: base_record_of_def a_location_def split: if_splits)

lemma identity_distinct_entries:
  "set seen \<union> identity ` set (distinct_entries_from seen bs) = set seen \<union> identity ` set bs"
proof (induction bs arbitrary: seen)
  case (Cons b bs)
  show ?case
    using Cons.IH [of seen] Cons.IH [of "identity b # seen"]
    by (cases "identity b \<in> set seen") (simp_all add: insert_absorb)
qed simp

lemma missing_entries_covers:
  "identity ` set wanted \<subseteq> identity ` set (present @ missing_entries wanted present)"
proof
  fix i
  assume "i \<in> identity ` set wanted"
  then obtain b where "b \<in> set wanted" "i = identity b" by blast
  then show "i \<in> identity ` set (present @ missing_entries wanted present)"
    by (cases "i \<in> identity ` set present") (simp_all add: missing_entries_def image_Un)
qed

lemma missing_entries_Nil: "missing_entries wanted present = [] \<longleftrightarrow> identity ` set wanted \<subseteq> identity ` set present"
  by (auto simp: missing_entries_def filter_empty_conv)

definition records_all :: "base_record \<Rightarrow> base_record content option \<Rightarrow> bool" where
  "records_all wanted c = (case c of
       Some (Json r) \<Rightarrow> identity ` set (br_entries wanted) \<subseteq> identity ` set (br_entries r)
     | _ \<Rightarrow> False)"

definition kept_entries :: "base_record content option \<Rightarrow> base_record content option \<Rightarrow> bool" where
  "kept_entries before after =
     (\<forall>r. before = Some (Json r) \<longrightarrow>
        (\<exists>r'. after = Some (Json r') \<and> prefix (br_entries r) (br_entries r')))"

lemma kept_entries_refl [simp]: "kept_entries c c"
  by (simp add: kept_entries_def)

lemma add_entries_result:
  "add_entries wanted r = Inr u \<Longrightarrow>
    br_entries u = br_entries r @ missing_entries (br_entries wanted) (br_entries r)"
  by (auto simp: add_entries_def parsed_record_def split: if_splits dest: base_record_of_location)

lemma read_base_record_drift:
  "read_base_record rg dg location w = (x, w1) \<Longrightarrow> w1 = drift 1 w \<and>
    (\<forall>r. x = Inr (Some r) \<longrightarrow> lookup w1 (record_key_for rg location) = Some (Json r))"
  using read_json_answer [of dg "record_key_for rg location" w]
  by (auto simp: read_base_record_def parsed_record_def drift_def split: prod.splits sum.splits option.splits if_splits)

text \<open>What a claim leaves, as one statement over the store its rounds ended on.\<close>

definition bases_claimed ::
  "string \<Rightarrow> base_record \<Rightarrow> base_record world \<Rightarrow> base_claim result \<Rightarrow> base_record world \<Rightarrow> bool" where
  "bases_claimed k wanted v x w' = (case x of
       Inl _ \<Rightarrow> w' = v
     | Inr cl \<Rightarrow> records_all wanted (lookup w' k) \<and> kept_entries (lookup v k) (lookup w' k) \<and>
         (w' = v \<and> bc_added cl = [] \<and> \<not> bc_created cl \<or> (\<exists>r. w' = store_put k (Json r) v)))"

lemma add_missing_claimed:
  assumes "inj dg" "bg_root rg = S3" "add_missing rg dg k wanted w = (x, w')"
  shows "\<exists>m. case x of
      Inl _ \<Rightarrow> w' = drift m w
    | Inr added \<Rightarrow> records_all wanted (lookup w' k) \<and> kept_entries (lookup (drift m w) k) (lookup w' k) \<and>
        (\<exists>r. w' = store_put k (Json r) (drift m w))"
proof -
  obtain y where ex: "exchange_json S3 dg k (add_entries wanted) mutate_attempts w = (y, w')"
    using assms(2,3) by (auto simp: add_missing_def split: prod.splits sum.splits)
  obtain m where m: "case y of Inl _ \<Rightarrow> w' = drift m w
    | Inr (r, u) \<Rightarrow> add_entries wanted r = Inr u \<and> lookup (drift m w) k = Some (Json r) \<and>
        w' = store_put k (Json u) (drift m w)"
    using exchange_json_effect [OF assms(1) ex] by blast
  show ?thesis
  proof (rule exI [of _ m], cases y)
    case (Inr p)
    obtain r u where p: "p = (r, u)" by force
    with m Inr have "br_entries u = br_entries r @ missing_entries (br_entries wanted) (br_entries r)"
      "lookup (drift m w) k = Some (Json r)" "w' = store_put k (Json u) (drift m w)"
      by (auto dest: add_entries_result)
    moreover from this(1) have "identity ` set (br_entries wanted) \<subseteq> identity ` set (br_entries u)"
      using missing_entries_covers by metis
    ultimately show "case x of
      Inl _ \<Rightarrow> w' = drift m w
    | Inr added \<Rightarrow> records_all wanted (lookup w' k) \<and> kept_entries (lookup (drift m w) k) (lookup w' k) \<and>
        (\<exists>r. w' = store_put k (Json r) (drift m w))"
      using assms(2,3) ex Inr p
      by (auto simp: add_missing_def records_all_def kept_entries_def)
  qed (use assms(2,3) ex m in \<open>auto simp: add_missing_def\<close>)
qed

lemma create_json_drift:
  "create_json k r w = (x, w1) \<Longrightarrow>
    (case x of Inl _ \<Rightarrow> w1 = drift 1 w
     | Inr _ \<Rightarrow> lookup (drift 1 w) k = None \<and> w1 = store_put k (Json r) (drift 1 w))"
  using create_json_effect [of k r w x w1] cs.create_won [of k r w _ w1]
  by (auto simp: drift_def split: sum.splits)

lemma claim_rounds_claimed:
  assumes "inj dg" "bg_root rg = S3" "claim_rounds rg dg location wanted n w = (x, w')"
  shows "\<exists>m. bases_claimed (record_key_for rg location) wanted (drift m w) x w'"
  using assms(3)
proof (induction n arbitrary: w)
  case 0
  then show ?case by (auto simp: bases_claimed_def intro: exI [of _ 0])
next
  case (Suc n)
  let ?k = "record_key_for rg location"
  have again: "\<exists>m. bases_claimed ?k wanted (drift m w) x w'"
    if "claim_rounds rg dg location wanted n (drift j w) = (x, w')" for j
    using Suc.IH [OF that] unfolding drift_add by blast
  obtain y w1 where cr: "create_json ?k wanted w = (y, w1)" by force
  note c = create_json_drift [OF cr]
  show ?case
  proof (cases "y = Inl RecordExistsError")
    case False
    with Suc.prems cr c have "bases_claimed ?k wanted (drift 1 w) x w'"
      by (auto simp: bases_claimed_def records_all_def kept_entries_def split: sum.splits if_splits)
    then show ?thesis ..
  next
    case True
    with c have w1: "w1 = drift 1 w" by simp
    obtain z w2 where rd: "read_base_record rg dg location w1 = (z, w2)" by force
    have w2: "w2 = drift 2 w" and ans: "\<And>r. z = Inr (Some r) \<Longrightarrow> lookup w2 ?k = Some (Json r)"
      using read_base_record_drift [OF rd] by (auto simp: w1 drift_add numeral_2_eq_2)
    show ?thesis
    proof (cases "\<exists>r. z = Inr (Some r) \<and> missing_entries (br_entries wanted) (br_entries r) \<noteq> []")
      case False
      show ?thesis
      proof (cases "z = Inr None")
        case True
        with Suc.prems cr \<open>y = _\<close> rd w2 show ?thesis by (intro again [of 2]) simp
      next
        case z: False
        with False Suc.prems cr \<open>y = _\<close> rd ans have "bases_claimed ?k wanted w2 x w'"
          by (auto simp: bases_claimed_def records_all_def missing_entries_Nil
              split: sum.splits option.splits)
        with w2 show ?thesis by blast
      qed
    next
      case True
      then obtain r where r: "z = Inr (Some r)" "missing_entries (br_entries wanted) (br_entries r) \<noteq> []"
        by blast
      obtain u w3 where ad: "add_missing rg dg ?k wanted w2 = (u, w3)" by force
      obtain m where m: "case u of
          Inl _ \<Rightarrow> w3 = drift (m + 2) w
        | Inr added \<Rightarrow> records_all wanted (lookup w3 ?k) \<and> kept_entries (lookup (drift (m + 2) w) ?k) (lookup w3 ?k) \<and>
            (\<exists>r. w3 = store_put ?k (Json r) (drift (m + 2) w))"
        using add_missing_claimed [OF assms(1,2) ad] unfolding w2 drift_add by blast
      show ?thesis
      proof (cases "u = Inl RecordMissingError")
        case True
        with Suc.prems cr \<open>y = _\<close> rd r ad m show ?thesis by (intro again [of "m + 2"]) simp
      next
        case False
        with Suc.prems cr \<open>y = _\<close> rd r ad m have "bases_claimed ?k wanted (drift (m + 2) w) x w'"
          by (auto simp: bases_claimed_def split: sum.splits)
        then show ?thesis ..
      qed
    qed
  qed
qed

text \<open>
  A claim of bases that returns has them recorded, and forgets nobody else's. For every
  interleaving on S3, when \<^verbatim>\<open>claim_bases\<close> returns, the record at the table's key holds an entry of
  the identity of each base asked for, every entry the record held at that instant is still there in
  its place, and no other record changed; when it raises, it wrote nothing.
\<close>

theorem claimed_bases_are_recorded:
  assumes "inj dg" "bg_root rg = S3" "claim_bases rg dg location entries w = (x, w')"
  shows "\<exists>m. case x of
      Inl _ \<Rightarrow> w' = drift m w
    | Inr cl \<Rightarrow>
        (\<exists>r. lookup w' (record_key_for rg location) = Some (Json r) \<and>
           identity ` set entries \<subseteq> identity ` set (br_entries r)) \<and>
        kept_entries (lookup (drift m w) (record_key_for rg location)) (lookup w' (record_key_for rg location)) \<and>
        (\<forall>k. k \<noteq> record_key_for rg location \<longrightarrow> lookup w' k = lookup (drift m w) k)"
proof (cases "base_record_of location (distinct_entries entries)")
  case (Inl e)
  with assms(3) have "x = Inl e \<and> w' = drift 0 w" by (simp add: claim_bases_def)
  then show ?thesis by (intro exI [of _ 0]) simp
next
  case (Inr wanted)
  then have same: "identity ` set (br_entries wanted) = identity ` set entries"
    using identity_distinct_entries [of "[]" entries] base_record_of_location [OF Inr]
    by (simp add: distinct_entries_def)
  have "claim_rounds rg dg location wanted claim_attempts w = (x, w')"
    using assms(3) Inr by (simp add: claim_bases_def)
  from claim_rounds_claimed [OF assms(1,2) this]
  obtain m where m: "bases_claimed (record_key_for rg location) wanted (drift m w) x w'" ..
  show ?thesis
    by (rule exI [of _ m])
      (use m same in \<open>auto simp: bases_claimed_def records_all_def split: sum.splits option.splits content.splits\<close>)
qed

theorem claimed_bases_are_recorded_witness:
  "let rg = \<lparr>bg_root = S3, bg_hex = id\<rparr>; w = \<lparr>objects = [], clock = 0, pending = []\<rparr>;
       b = \<lparr>rb_path = ''lake/src'', rb_store = ''s3'', rb_role = DERIVED_FROM, rb_is_root = True, rb_name = None,
            rb_origin = CREATE, rb_source = None, rb_tag = Some ''pin''\<rparr> in
   \<exists>r. lookup (snd (claim_bases rg id ''s3://lake/t'' [b] w)) (record_key_for rg ''s3://lake/t'') = Some (Json r) \<and>
     identity b \<in> identity ` set (br_entries r)"
proof -
  let ?rg = "\<lparr>bg_root = S3, bg_hex = id\<rparr>"
  let ?w = "\<lparr>objects = [], clock = 0, pending = []\<rparr> :: base_record world"
  let ?b = "\<lparr>rb_path = ''lake/src'', rb_store = ''s3'', rb_role = DERIVED_FROM, rb_is_root = True, rb_name = None,
            rb_origin = CREATE, rb_source = None, rb_tag = Some ''pin''\<rparr>"
  have loc: "names_a_location ''s3://lake/t''" by code_simp
  define wanted where "wanted = \<lparr>br_location = normalise ''s3://lake/t'', br_entries = [?b]\<rparr>"
  have run: "claim_bases ?rg id ''s3://lake/t'' [?b] ?w =
      (Inr \<lparr>bc_location = br_location wanted, bc_created = True, bc_added = [?b]\<rparr>,
       store_put (record_key_for ?rg ''s3://lake/t'') (Json wanted) ?w)"
    using loc
    by (simp add: claim_bases_def base_record_of_def a_location_def distinct_entries_def claim_attempts_def
        numeral_3_eq_3 create_json_def lookup_def wanted_def)
  have root: "bg_root ?rg = S3" by simp
  show ?thesis
    using claimed_bases_are_recorded [OF inj_on_id root run] unfolding run Let_def snd_conv
    by (auto simp only: sum.case list.set image_insert image_empty insert_subset)
qed

section \<open>Undoing a claim\<close>

lemma claim_bases_quiet:
  assumes "pending w = []" "names_a_location location" "k = record_key_for rg location"
    and "lookup w k = map_option Json old"
    and "\<forall>r. old = Some r \<longrightarrow> base_record_of (br_location r) (br_entries r) = Inr r \<and>
      decoded_path (br_location r) = decoded_path location"
    and "wanted = distinct_entries entries"
  shows "claim_bases rg dg location entries w = (case old of
      None \<Rightarrow> (Inr \<lparr>bc_location = normalise location, bc_created = True, bc_added = wanted\<rparr>,
          store_put k (Json \<lparr>br_location = normalise location, br_entries = wanted\<rparr>) w)
    | Some r \<Rightarrow> (Inr \<lparr>bc_location = normalise location, bc_created = False,
            bc_added = missing_entries wanted (br_entries r)\<rparr>,
          if missing_entries wanted (br_entries r) = [] then w
          else store_put k (Json (r\<lparr>br_entries := br_entries r @ missing_entries wanted (br_entries r)\<rparr>)) w))"
proof (cases old)
  case None
  with assms show ?thesis
    by (simp add: claim_bases_def base_record_of_def a_location_def claim_attempts_def numeral_3_eq_3
        create_json_def)
next
  case (Some r)
  then have valid: "names_a_location (br_location r)" "normalise (br_location r) = br_location r"
    and here: "decoded_path (br_location r) = decoded_path (normalise location)"
    using assms(2,5) by (auto simp: base_record_of_def a_location_def decoded_path_normalise split: if_splits)
      (metis base_record.select_convs(1))
  have lk: "lookup w k = Some (Json r)" using Some assms(4) by simp
  have rd: "read_base_record rg dg location w = (Inr (Some r), w)"
    using assms(1,3,5) Some lk
    by (simp add: read_base_record_def read_json_def read_json_at_def parsed_record_def)
  have add: "add_entries \<lparr>br_location = normalise location, br_entries = wanted\<rparr> r =
      Inr (r\<lparr>br_entries := br_entries r @ missing_entries wanted (br_entries r)\<rparr>)"
    using valid here by (simp add: add_entries_def parsed_record_def base_record_of_def a_location_def)
  have "exchange_json (bg_root rg) dg k (add_entries \<lparr>br_location = normalise location, br_entries = wanted\<rparr>) mutate_attempts w =
      (Inr (r, r\<lparr>br_entries := br_entries r @ missing_entries wanted (br_entries r)\<rparr>),
       store_put k (Json (r\<lparr>br_entries := br_entries r @ missing_entries wanted (br_entries r)\<rparr>)) w)"
    using exchange_json_quiet [OF assms(1) lk,
        of "add_entries \<lparr>br_location = normalise location, br_entries = wanted\<rparr>", OF add, of "bg_root rg" dg 4]
    by (simp add: mutate_attempts_def)
  then show ?thesis
    using assms(1,2,3,6) Some lk rd
    by (simp add: claim_bases_def base_record_of_def a_location_def claim_attempts_def numeral_3_eq_3
        create_json_def add_missing_def)
qed

lemma missing_entries_disjoint:
  "b \<in> set present \<Longrightarrow> identity b \<notin> identity ` set (missing_entries wanted present)"
  by (auto simp: missing_entries_def image_iff) metis

lemma filter_missing_entries:
  "filter (\<lambda>b. identity b \<notin> identity ` set (missing_entries wanted present))
     (present @ missing_entries wanted present) = present"
proof -
  have "filter (\<lambda>b. identity b \<notin> identity ` set (missing_entries wanted present)) present = present"
    by (simp add: filter_id_conv missing_entries_disjoint)
  moreover have "filter (\<lambda>b. identity b \<notin> identity ` set (missing_entries wanted present))
      (missing_entries wanted present) = []"
    by (simp add: filter_empty_conv)
  ultimately show ?thesis by simp
qed

text \<open>
  Undoing a claim restores the record. With no other writer in between, on either kind of
  root, \<^verbatim>\<open>release_claim\<close> of what \<^verbatim>\<open>claim_bases\<close> returned leaves every key of the control root as
  it was before the claim: the record is absent again if the claim created it, and otherwise holds
  exactly the entries it held.
\<close>

theorem release_undoes_claim:
  assumes "pending w = []" "names_a_location location"
    and "lookup w (record_key_for rg location) = map_option Json old"
    and "\<forall>r. old = Some r \<longrightarrow> base_record_of (br_location r) (br_entries r) = Inr r \<and>
      decoded_path (br_location r) = decoded_path location"
    and "claim_bases rg dg location entries w = (Inr cl, w1)"
  shows "fst (release_bases rg dg cl w1) = Inr () \<and> lookup (snd (release_bases rg dg cl w1)) = lookup w"
proof -
  define k where "k = record_key_for rg location"
  define wanted where "wanted = distinct_entries entries"
  have key: "record_key_for rg (normalise location) = k"
    by (simp add: k_def record_key_for_def decoded_path_normalise [OF assms(2)])
  note claimed = assms(5) [unfolded claim_bases_quiet [OF assms(1,2) k_def assms(3) [folded k_def] assms(4) wanted_def]]
  show ?thesis
  proof (cases old)
    case None
    with claimed assms(1,3) show ?thesis
      by (cases "bg_root rg")
        (auto simp: release_bases_def Let_def key delete_record_def delete_object_def k_def fun_eq_iff)
  next
    case (Some r)
    define added where "added = missing_entries wanted (br_entries r)"
    define u where "u = r\<lparr>br_entries := br_entries r @ added\<rparr>"
    have cl: "cl = \<lparr>bc_location = normalise location, bc_created = False, bc_added = added\<rparr>"
      and w1: "w1 = (if added = [] then w else store_put k (Json u) w)"
      using claimed Some by (auto simp: added_def u_def)
    have valid: "names_a_location (br_location r)" "normalise (br_location r) = br_location r"
      and here: "decoded_path (br_location r) = decoded_path (normalise location)"
      using assms(2,4) Some by (auto simp: base_record_of_def a_location_def decoded_path_normalise split: if_splits)
        (metis base_record.select_convs(1))
    have gone: "filter (\<lambda>b. identity b \<notin> identity ` set added) (br_entries r @ added) = br_entries r"
      unfolding added_def by (rule filter_missing_entries)
    have rem: "remove_entries cl u = Inr r"
      using valid here gone by (simp add: remove_entries_def parsed_record_def base_record_of_def a_location_def cl u_def)
    show ?thesis
    proof (cases "added = []")
      case True
      then show ?thesis by (simp add: release_bases_def cl w1)
    next
      case False
      then have "mutate_json (bg_root rg) dg k (remove_entries cl) w1 = (Inr r, store_put k (Json r) w1)"
        using exchange_json_quiet [of w1 k u "remove_entries cl" r "bg_root rg" dg 4] rem assms(1)
        by (simp add: mutate_json_def mutate_attempts_def w1)
      with False Some assms(3) show ?thesis
        by (auto simp: release_bases_def cl key w1 k_def fun_eq_iff Let_def)
    qed
  qed
qed

theorem release_undoes_claim_witness:
  "let rg = \<lparr>bg_root = Local, bg_hex = id\<rparr>; w = \<lparr>objects = [], clock = 0, pending = []\<rparr>;
       cl = \<lparr>bc_location = normalise ''s3://lake/t'', bc_created = True, bc_added = []\<rparr> in
   lookup (snd (release_bases rg id cl (snd (claim_bases rg id ''s3://lake/t'' [] w)))) = lookup w"
proof -
  let ?rg = "\<lparr>bg_root = Local, bg_hex = id\<rparr>"
  let ?w = "\<lparr>objects = [], clock = 0, pending = []\<rparr> :: base_record world"
  let ?cl = "\<lparr>bc_location = normalise ''s3://lake/t'', bc_created = True, bc_added = []\<rparr>"
  have loc: "names_a_location ''s3://lake/t''" by code_simp
  have run: "claim_bases ?rg id ''s3://lake/t'' [] ?w = (Inr ?cl,
      store_put (record_key_for ?rg ''s3://lake/t'') (Json \<lparr>br_location = normalise ''s3://lake/t'', br_entries = []\<rparr>) ?w)"
    using claim_bases_quiet [of ?w "''s3://lake/t''" _ ?rg None "[]" "[]" id] loc
    by (simp add: lookup_def distinct_entries_def)
  show ?thesis
    using release_undoes_claim [of ?w "''s3://lake/t''" ?rg None id "[]" ?cl, OF _ loc _ _ run]
    by (simp add: Let_def run lookup_def [of ?w])
qed

end
