(* ===== verification/Features.thy ===== *)
theory Features
  imports Base_Registry "HOL-Library.Word"
begin

unbundle bit_operations_syntax

text \<open>
  \<^verbatim>\<open>lakehouse_kit/features.py\<close>: a manifest's feature flags, read from the protobuf bytes, and the
  refusal gates over them. A flag word is an unbounded Python integer; the manifest is a list of
  bytes, walked by index as the source walks it.

  The protobuf wire format the walk relies on is stated by an encoder of a manifest's fields
  (\<open>encode_fields\<close>), and what the walk must answer by \<open>last_varint\<close>; the walk refines that
  specification. A dataset handle's answers (its declared bases, its fragments' data files) are
  pylance's, and the probe of a base is the object store's: both are arguments and may raise.
\<close>

section \<open>Flags\<close>

definition FLAG_DELETION_FILES :: int where "FLAG_DELETION_FILES = 1"
definition FLAG_STABLE_ROW_IDS :: int where "FLAG_STABLE_ROW_IDS = 2"
definition FLAG_USE_V2_FORMAT_DEPRECATED :: int where "FLAG_USE_V2_FORMAT_DEPRECATED = 4"
definition FLAG_TABLE_CONFIG :: int where "FLAG_TABLE_CONFIG = 8"
definition FLAG_BASE_PATHS :: int where "FLAG_BASE_PATHS = 16"
definition FLAG_DISABLE_TRANSACTION_FILE :: int where "FLAG_DISABLE_TRANSACTION_FILE = 32"
definition FLAG_DATA_OVERLAYS :: int where "FLAG_DATA_OVERLAYS = 64"
definition FLAG_COVERED_INDEX_METADATA :: int where "FLAG_COVERED_INDEX_METADATA = 128"
definition FLAG_MIXED_DATA_FILE_VERSIONS :: int where "FLAG_MIXED_DATA_FILE_VERSIONS = 256"
definition FLAG_FRAG_REUSE_WITH_STABLE_ROW_IDS :: int where "FLAG_FRAG_REUSE_WITH_STABLE_ROW_IDS = 512"
definition FLAG_FRAGMENT_REUSE_INDEX :: int where "FLAG_FRAGMENT_REUSE_INDEX = 1024"
definition FLAG_SPILLED_ROW_LINEAGE :: int where "FLAG_SPILLED_ROW_LINEAGE = 2048"
definition FLAG_FRAGMENT_TREE :: int where "FLAG_FRAGMENT_TREE = 4096"
definition FLAG_INDEPENDENT_COVERING_FIELDS :: int where "FLAG_INDEPENDENT_COVERING_FIELDS = 8192"

definition SUPPORTED :: int where
  "SUPPORTED = FLAG_DELETION_FILES OR FLAG_STABLE_ROW_IDS OR FLAG_USE_V2_FORMAT_DEPRECATED OR FLAG_TABLE_CONFIG"

definition SUPPORTED_FOR_GC :: int where
  "SUPPORTED_FOR_GC = SUPPORTED OR FLAG_BASE_PATHS"

definition flag_names :: "(int \<times> string) list" where
  "flag_names =
     [(FLAG_DELETION_FILES, ''deletion files''),
      (FLAG_STABLE_ROW_IDS, ''stable row ids''),
      (FLAG_USE_V2_FORMAT_DEPRECATED, ''v2 format (deprecated)''),
      (FLAG_TABLE_CONFIG, ''table config''),
      (FLAG_BASE_PATHS, ''base_paths (shallow clone / multi-base)''),
      (FLAG_DISABLE_TRANSACTION_FILE, ''disable_transaction_file (writer-required only)''),
      (FLAG_DATA_OVERLAYS, ''data overlays''),
      (FLAG_COVERED_INDEX_METADATA, ''covered index metadata (sticky)''),
      (FLAG_MIXED_DATA_FILE_VERSIONS, ''mixed data file versions''),
      (FLAG_FRAG_REUSE_WITH_STABLE_ROW_IDS, ''fragment reuse with stable row ids''),
      (FLAG_FRAGMENT_REUSE_INDEX, ''fragment reuse index''),
      (FLAG_SPILLED_ROW_LINEAGE, ''spilled row lineage (unstable)''),
      (FLAG_FRAGMENT_TREE, ''fragment tree (reserved)''),
      (FLAG_INDEPENDENT_COVERING_FIELDS, ''independent covering fields (reserved)'')]"

text \<open>\<^verbatim>\<open>_bits\<close>: bit \<open>i\<close> of \<open>mask >> i & 1\<close>, for the low 64 bits.\<close>

definition bits :: "int \<Rightarrow> int list" where
  "bits flags = map (\<lambda>i. push_bit i 1) (filter (\<lambda>i. drop_bit i flags AND 1 \<noteq> 0) [0..<64])"

text \<open>\<^verbatim>\<open>", ".join(...)\<close>.\<close>

fun join_comma :: "string list \<Rightarrow> string" where
  "join_comma [] = []"
| "join_comma [p] = p"
| "join_comma (p # q # ps) = p @ '', '' @ join_comma (q # ps)"

definition named :: "int \<Rightarrow> string" where
  "named flags = join_comma (map (\<lambda>bit. show_nat (nat bit) @ '' ('' @
     (case map_of flag_names bit of None \<Rightarrow> ''unknown'' | Some n \<Rightarrow> n) @ '')'') (bits flags))"

section \<open>Reading the manifest\<close>

text \<open>\<^verbatim>\<open>_varint\<close>: one base-128 varint from index \<open>i\<close>, with the index after it.\<close>

function varint_loop :: "8 word list \<Rightarrow> nat \<Rightarrow> int \<Rightarrow> nat \<Rightarrow> int \<times> nat" where
  "varint_loop blob i value shift =
     (if i < length blob then
        (let byte = uint (blob ! i); value' = value OR push_bit shift (byte AND 0x7F) in
         if byte AND 0x80 = 0 then (value', i + 1) else varint_loop blob (i + 1) value' (shift + 7))
      else (value, i))"
  by pat_completeness auto
termination by (relation "measure (\<lambda>(blob, i, _, _). length blob - i)") auto

declare varint_loop.simps [simp del]

definition varint :: "8 word list \<Rightarrow> nat \<Rightarrow> int \<times> nat" where
  "varint blob i = varint_loop blob i 0 0"

lemma varint_loop_mono: "i \<le> snd (varint_loop blob i v s)"
proof (induction blob i v s rule: varint_loop.induct)
  case (1 blob i v s)
  then show ?case
    by (subst varint_loop.simps) (auto simp: Let_def intro: order_trans [of i "Suc i"])
qed

lemma varint_advances: "i < length blob \<Longrightarrow> i < snd (varint blob i)"
  using varint_loop_mono [of "Suc i" blob]
  by (subst varint_def, subst varint_loop.simps) (auto simp: Let_def Suc_le_eq)

lemma varint_mono: "i \<le> snd (varint blob i)"
  by (simp add: varint_def varint_loop_mono)

text \<open>\<^verbatim>\<open>manifest_feature_flags\<close>: the walk over the top-level fields, each skipped by its wire type.\<close>

definition MANIFEST_READER_FLAGS_FIELD :: int where "MANIFEST_READER_FLAGS_FIELD = 9"
definition MANIFEST_WRITER_FLAGS_FIELD :: int where "MANIFEST_WRITER_FLAGS_FIELD = 10"

function walk_flags :: "8 word list \<Rightarrow> nat \<Rightarrow> int \<Rightarrow> int \<Rightarrow> int \<times> int" where
  "walk_flags blob i reader writer =
     (if i < length blob then
        (let (key, i1) = varint blob i; field = drop_bit 3 key; wire = key AND 7 in
         if wire = 0 then
           (let (value, i2) = varint blob i1 in
            walk_flags blob i2
              (if field = MANIFEST_READER_FLAGS_FIELD then value else reader)
              (if field \<noteq> MANIFEST_READER_FLAGS_FIELD \<and> field = MANIFEST_WRITER_FLAGS_FIELD then value else writer))
         else if wire = 2 then
           (let (size, i2) = varint blob i1 in walk_flags blob (i2 + nat size) reader writer)
         else if wire = 5 then walk_flags blob (i1 + 4) reader writer
         else if wire = 1 then walk_flags blob (i1 + 8) reader writer
         else (reader, writer))
      else (reader, writer))"
  by pat_completeness auto
termination
proof (relation "measure (\<lambda>(blob, i, _, _). length blob - i)", goal_cases)
  case (2 blob i reader writer z key i1 field wire y v i2)
  then have "i < i1" "i1 \<le> i2"
    using varint_advances [of i blob] varint_mono [of i1 blob] by (auto simp: prod_eq_iff)
  with 2 show ?case by simp
next
  case (3 blob i reader writer z key i1 field wire y size i2)
  then have "i < i1" "i1 \<le> i2"
    using varint_advances [of i blob] varint_mono [of i1 blob] by (auto simp: prod_eq_iff)
  with 3 show ?case by simp
next
  case (4 blob i reader writer z key i1 field wire)
  then have "i < i1" using varint_advances [of i blob] by (auto simp: prod_eq_iff)
  with 4 show ?case by simp
next
  case (5 blob i reader writer z key i1 field wire)
  then have "i < i1" using varint_advances [of i blob] by (auto simp: prod_eq_iff)
  with 5 show ?case by simp
qed simp

declare walk_flags.simps [simp del]

definition manifest_feature_flags :: "8 word list \<Rightarrow> int \<times> int" where
  "manifest_feature_flags blob = walk_flags blob 0 0 0"

section \<open>Refusal gates over the flags\<close>

text \<open>
  A refusal is the text the source formats from the offending bits, the two words and, for a
  compaction, why the bases do not lift flag 16.
\<close>

record base_evidence =
  be_path :: string
  be_declares_dataset_root :: bool
  be_probed_dataset_root :: "bool option"
  be_probe_denied :: bool

record compaction_bases =
  cb_bases :: "base_evidence list"
  cb_data_resolves_through_a_base :: "bool option"

datatype base_clause =
    No_evidence | Fragments_unread | Data_through_a_base | No_base_parsed
  | Declared_root string | Probe_not_permitted string | Probe_unread string | Root_found string

record refusal =
  rf_named :: string
  rf_reader :: int
  rf_writer :: "int option"
  rf_clause :: "base_clause option"

definition describe_unsupported_flags :: "int \<Rightarrow> int \<Rightarrow> refusal option" where
  "describe_unsupported_flags reader writer =
     (let unknown = (reader OR writer) AND NOT SUPPORTED in
      if unknown = 0 then None
      else Some \<lparr>rf_named = named unknown, rf_reader = reader, rf_writer = Some writer, rf_clause = None\<rparr>)"

definition describe_read_unsupported_flags :: "int \<Rightarrow> refusal option" where
  "describe_read_unsupported_flags reader =
     (let unknown = reader AND NOT SUPPORTED in
      if unknown = 0 then None
      else Some \<lparr>rf_named = named unknown, rf_reader = reader, rf_writer = None, rf_clause = None\<rparr>)"

definition unsupported_read_flags :: "int \<Rightarrow> int \<Rightarrow> refusal option" where
  "unsupported_read_flags reader writer = describe_read_unsupported_flags reader"

definition unsupported_features :: "8 word list \<Rightarrow> refusal option" where
  "unsupported_features blob = (let (reader, writer) = manifest_feature_flags blob in unsupported_read_flags reader writer)"

definition describe_gc_unsupported_flags :: "int \<Rightarrow> int \<Rightarrow> refusal option" where
  "describe_gc_unsupported_flags reader writer =
     (let unknown = (reader OR writer) AND NOT SUPPORTED_FOR_GC in
      if unknown = 0 then None
      else Some \<lparr>rf_named = named unknown, rf_reader = reader, rf_writer = Some writer, rf_clause = None\<rparr>)"

definition mixes_data_file_versions :: "int \<Rightarrow> bool" where
  "mixes_data_file_versions reader = (reader AND FLAG_MIXED_DATA_FILE_VERSIONS \<noteq> 0)"

fun refusing_base :: "base_evidence list \<Rightarrow> base_clause option" where
  "refusing_base [] = None"
| "refusing_base (b # bs) =
     (if be_declares_dataset_root b then Some (Declared_root (be_path b))
      else case be_probed_dataset_root b of
          None \<Rightarrow> if be_probe_denied b then Some (Probe_not_permitted (be_path b)) else Some (Probe_unread (be_path b))
        | Some True \<Rightarrow> Some (Root_found (be_path b))
        | Some False \<Rightarrow> refusing_base bs)"

definition base_paths_compaction_refusal :: "compaction_bases option \<Rightarrow> base_clause option" where
  "base_paths_compaction_refusal bases = (case bases of
       None \<Rightarrow> Some No_evidence
     | Some cb \<Rightarrow>
         (case cb_data_resolves_through_a_base cb of
            None \<Rightarrow> Some Fragments_unread
          | Some True \<Rightarrow> Some Data_through_a_base
          | Some False \<Rightarrow>
              if cb_bases cb = [] then Some No_base_parsed else refusing_base (cb_bases cb)))"

definition describe_compaction_unsupported_flags :: "int \<Rightarrow> int \<Rightarrow> compaction_bases option \<Rightarrow> refusal option" where
  "describe_compaction_unsupported_flags reader writer bases =
     (let unknown = (reader OR writer) AND NOT SUPPORTED;
          clause = (if unknown AND FLAG_BASE_PATHS \<noteq> 0 then base_paths_compaction_refusal bases else None);
          unknown' = (if unknown AND FLAG_BASE_PATHS \<noteq> 0 \<and> clause = None
                      then unknown AND NOT FLAG_BASE_PATHS else unknown) in
      if unknown' = 0 then None
      else Some \<lparr>rf_named = named unknown', rf_reader = reader, rf_writer = Some writer, rf_clause = clause\<rparr>)"

section \<open>Gathering the evidence\<close>

text \<open>
  What one open dataset answers: its serialized manifest, its declared bases by id (the accessor may
  be missing, or raise), and its fragments with the base id of each data file (listing the fragments
  or a fragment's files may raise).
\<close>

record base_handle =
  bh_path :: string
  bh_is_dataset_root :: bool
  bh_name :: "string option"

record dataset_handle =
  dh_manifest :: "8 word list"
  dh_base_paths :: "(int \<times> base_handle) list result option"
  dh_fragments :: "int option list result list result"

definition manifest_base_path_refs :: "dataset_handle \<Rightarrow> base_path_ref list result" where
  "manifest_base_path_refs ds = (case dh_base_paths ds of
       None \<Rightarrow> Inr []
     | Some (Inl e) \<Rightarrow> Inl e
     | Some (Inr bases) \<Rightarrow>
         Inr (map (\<lambda>(_, b). \<lparr>bp_path = bh_path b, bp_is_root = bh_is_dataset_root b,
                bp_name = (if bh_name b = Some [] then None else bh_name b)\<rparr>)
              (filter (\<lambda>(_, b). bh_path b \<noteq> []) bases)))"

definition manifest_base_paths :: "dataset_handle \<Rightarrow> string list result" where
  "manifest_base_paths ds = (case manifest_base_path_refs ds of Inl e \<Rightarrow> Inl e | Inr refs \<Rightarrow> Inr (map bp_path refs))"

text \<open>\<^verbatim>\<open>any(file.base_id is not None ...)\<close>, which stops at the first such file.\<close>

fun any_base_id :: "int option list result list \<Rightarrow> bool result" where
  "any_base_id [] = Inr False"
| "any_base_id (Inl e # frags) = Inl e"
| "any_base_id (Inr files # frags) = (if list_ex (\<lambda>f. f \<noteq> None) files then Inr True else any_base_id frags)"

text \<open>What the gatherer and the compaction gate log, and the bases whose denial this process has reported already.\<close>

datatype warning = Probe_denied string | Probe_failed string | Base_paths_unreadable | Fragment_read_failed
  | Data_file_bases_unread string

record gate_log =
  gl_reported :: "string list"
  gl_warnings :: "warning list"

definition forget_reported_base_denials :: "gate_log \<Rightarrow> gate_log" where
  "forget_reported_base_denials gl = gl\<lparr>gl_reported := []\<rparr>"

definition denial_markers :: "string list" where
  "denial_markers = [''ACCESS_DENIED'', ''AccessDenied'', ''403 Forbidden'', ''InvalidAccessKeyId'', ''SignatureDoesNotMatch'']"

definition is_permission_denial :: "string \<Rightarrow> bool" where
  "is_permission_denial exc = list_ex (\<lambda>marker. sublist marker exc) denial_markers"

definition warn :: "warning \<Rightarrow> gate_log \<Rightarrow> gate_log" where
  "warn x gl = gl\<lparr>gl_warnings := gl_warnings gl @ [x]\<rparr>"

text \<open>One base: \<open>probe\<close> answers, or raises an exception with a text.\<close>

definition probe_base :: "(string \<Rightarrow> string + bool) \<Rightarrow> base_path_ref \<Rightarrow> gate_log \<Rightarrow> base_evidence \<times> gate_log" where
  "probe_base probe ref gl =
     (let evidence = (\<lambda>probed denied. \<lparr>be_path = bp_path ref, be_declares_dataset_root = bp_is_root ref,
            be_probed_dataset_root = probed, be_probe_denied = denied\<rparr>) in
      case probe (bp_path ref) of
        Inr found \<Rightarrow> (evidence (Some found) False, gl)
      | Inl exc \<Rightarrow>
          if is_permission_denial exc then
            (evidence None True,
             if bp_path ref \<notin> set (gl_reported gl)
             then warn (Probe_denied (bp_path ref)) (gl\<lparr>gl_reported := bp_path ref # gl_reported gl\<rparr>)
             else gl)
          else (evidence None False, warn (Probe_failed (bp_path ref)) gl))"

fun probe_bases :: "(string \<Rightarrow> string + bool) \<Rightarrow> base_path_ref list \<Rightarrow> gate_log \<Rightarrow> base_evidence list \<times> gate_log" where
  "probe_bases probe [] gl = ([], gl)"
| "probe_bases probe (ref # refs) gl =
     (let (e, gl1) = probe_base probe ref gl; (es, gl2) = probe_bases probe refs gl1 in (e # es, gl2))"

definition gather_compaction_bases ::
  "dataset_handle \<Rightarrow> (string \<Rightarrow> string + bool) \<Rightarrow> gate_log \<Rightarrow> compaction_bases \<times> gate_log" where
  "gather_compaction_bases ds probe gl =
     (let (refs, gl1) = (case manifest_base_path_refs ds of
            Inr refs \<Rightarrow> (refs, gl) | Inl _ \<Rightarrow> ([], warn Base_paths_unreadable gl));
          (bases, gl2) = probe_bases probe refs gl1;
          (resolves, gl3) = (case (case dh_fragments ds of Inl e \<Rightarrow> Inl e | Inr frags \<Rightarrow> any_base_id frags) of
            Inr b \<Rightarrow> (Some b, gl2) | Inl _ \<Rightarrow> (None, warn Fragment_read_failed gl2)) in
      (\<lparr>cb_bases = bases, cb_data_resolves_through_a_base = resolves\<rparr>, gl3))"

text \<open>\<^verbatim>\<open>data_file_base_paths\<close>: which bases, as paths; a base a file names must be declared.\<close>

fun base_ids :: "int option list result list \<Rightarrow> int list result" where
  "base_ids [] = Inr []"
| "base_ids (Inl e # frags) = Inl e"
| "base_ids (Inr files # frags) =
     (case base_ids frags of Inl e \<Rightarrow> Inl e | Inr ids \<Rightarrow> Inr (List.map_filter id files @ ids))"

definition data_file_base_paths :: "dataset_handle \<Rightarrow> string list result" where
  "data_file_base_paths ds = (case dh_fragments ds of
       Inl e \<Rightarrow> Inl e
     | Inr frags \<Rightarrow>
         (case base_ids frags of
            Inl e \<Rightarrow> Inl e
          | Inr through \<Rightarrow>
              if through = [] then Inr []
              else (case dh_base_paths ds of
                  None \<Rightarrow> Inl TypeError
                | Some (Inl e) \<Rightarrow> Inl e
                | Some (Inr declared) \<Rightarrow>
                    if \<exists>i\<in>set through. map_of declared i = None then Inl ValueError
                    else Inr (map (\<lambda>i. bh_path (the (map_of declared i))) through))))"

section \<open>Data file versions and refused opens\<close>

text \<open>
  \<^verbatim>\<open>describe_foreign_data_file_versions\<close>: a commit is refused with the versions that are not the
  table's, or with those that are no Lance file version at all.
\<close>

datatype version_refusal =
    Unreadable_table_version string | Unknown_file_versions "(int \<times> int) list" | Mixed_file_versions "(int \<times> int) list"

definition format_version :: "int \<times> int \<Rightarrow> int \<times> int" where
  "format_version v = (if v = (0, 3) then (2, 0) else v)"

definition lance_v2_file_versions :: "(int \<times> int) list" where
  "lance_v2_file_versions = [(2, 0), (2, 1), (2, 2), (2, 3)]"

text \<open>\<^verbatim>\<open>s.partition(".")\<close>, without its separator.\<close>

definition partition_dot :: "string \<Rightarrow> string \<times> string" where
  "partition_dot s = (takeWhile (\<lambda>c. c \<noteq> CHR ''.'') s, drop 1 (dropWhile (\<lambda>c. c \<noteq> CHR ''.'') s))"

definition pair_key :: "int \<times> int \<Rightarrow> int list" where
  "pair_key v = [fst v, snd v]"

definition describe_foreign_data_file_versions :: "string \<Rightarrow> (int \<times> int) list \<Rightarrow> version_refusal option" where
  "describe_foreign_data_file_versions table_version data_files =
     (let (major, minor) = partition_dot table_version in
      if \<not> (all_digits major \<and> all_digits minor) then Some (Unreadable_table_version table_version)
      else
        (let declared = (int (parse_nat major), int (parse_nat minor)) in
         if fst declared < 2 then None
         else
           (let versions = remdups (map format_version data_files);
                foreign = sort_key pair_key (filter (\<lambda>v. v \<noteq> declared) (filter (\<lambda>v. 2 \<le> fst v) versions)) in
            if foreign = [] then None
            else
              (let unknown = filter (\<lambda>v. v \<notin> set lance_v2_file_versions) foreign in
               if unknown \<noteq> [] then Some (Unknown_file_versions unknown) else Some (Mixed_file_versions foreign)))))"

text \<open>
  The flags pylance named when it refused an open: \<^verbatim>\<open>Flags:\s*(\d+)\<close> is searched for from the left.
\<close>

definition open_refusal_markers :: "string list" where
  "open_refusal_markers = [''cannot be read by this version of Lance'', ''Flags:'']"

definition match_flags :: "string \<Rightarrow> int option" where
  "match_flags s =
     (if prefix ''Flags:'' s then
        (let digits = takeWhile is_digit (dropWhile is_space (drop 6 s)) in
         if digits = [] then None else Some (int (parse_nat digits)))
      else None)"

fun search_flags :: "string \<Rightarrow> int option" where
  "search_flags [] = None"
| "search_flags (c # s) = (case match_flags (c # s) of Some n \<Rightarrow> Some n | None \<Rightarrow> search_flags s)"

definition flags_from_open_error :: "string \<Rightarrow> int option" where
  "flags_from_open_error exc =
     (if \<not> list_ex (\<lambda>marker. sublist marker exc) open_refusal_markers then None else search_flags exc)"

datatype open_refusal = Flags_not_named | Flags_named string int

definition unsupported_features_from_open_error :: "string \<Rightarrow> open_refusal option" where
  "unsupported_features_from_open_error exc =
     (if \<not> list_ex (\<lambda>marker. sublist marker exc) open_refusal_markers then None
      else case flags_from_open_error exc of
          None \<Rightarrow> Some Flags_not_named
        | Some flags \<Rightarrow>
            Some (Flags_named (named (if flags AND NOT SUPPORTED \<noteq> 0 then flags AND NOT SUPPORTED else flags)) flags))"

section \<open>The walk reads what a protobuf writer wrote\<close>

datatype wire_value = Varint nat | Bytes "8 word list" | Fixed32 "8 word list" | Fixed64 "8 word list"

fun encode_varint :: "nat \<Rightarrow> 8 word list" where
  "encode_varint n = (if n < 128 then [of_nat n] else of_nat (n mod 128 + 128) # encode_varint (n div 128))"

declare encode_varint.simps [simp del]

fun encode_field :: "nat \<times> wire_value \<Rightarrow> 8 word list" where
  "encode_field (f, Varint v) = encode_varint (8 * f) @ encode_varint v"
| "encode_field (f, Bytes bs) = encode_varint (8 * f + 2) @ encode_varint (length bs) @ bs"
| "encode_field (f, Fixed32 bs) = encode_varint (8 * f + 5) @ bs"
| "encode_field (f, Fixed64 bs) = encode_varint (8 * f + 1) @ bs"

definition encode_fields :: "(nat \<times> wire_value) list \<Rightarrow> 8 word list" where
  "encode_fields fs = concat (map encode_field fs)"

fun wire_ok :: "nat \<times> wire_value \<Rightarrow> bool" where
  "wire_ok (f, Fixed32 bs) = (length bs = 4)"
| "wire_ok (f, Fixed64 bs) = (length bs = 8)"
| "wire_ok _ = True"

text \<open>The last value of a varint field, zero when the writer omitted it: proto3's reading of a field.\<close>

fun varint_after :: "nat \<Rightarrow> nat \<times> wire_value \<Rightarrow> int \<Rightarrow> int" where
  "varint_after k (f, Varint v) acc = (if f = k then int v else acc)"
| "varint_after k _ acc = acc"

definition last_varint :: "nat \<Rightarrow> (nat \<times> wire_value) list \<Rightarrow> int" where
  "last_varint k fs = fold (varint_after k) fs 0"

lemma low_seven: "(x::int) AND 0x7F = x mod 128"
  using take_bit_eq_mask [of 7 x] by (simp add: mask_eq_exp_minus_1 take_bit_eq_mod)

lemma continuation_bit: "n < 256 \<Longrightarrow> int n AND 0x80 = 0 \<longleftrightarrow> n < 128"
proof -
  assume n: "n < 256"
  have "int n AND 0x80 = 0 \<longleftrightarrow> \<not> bit (int n) 7"
    using and_exp_eq_0_iff_not_bit [of "int n" 7] by simp
  also have "bit (int n) 7 \<longleftrightarrow> odd (n div 128)"
    unfolding bit_of_nat_iff_bit bit_iff_odd [of n] by simp
  also have "\<not> odd (n div 128) \<longleftrightarrow> n < 128"
  proof (cases "n < 128")
    case False
    with n have "n div 128 = 1" by (intro div_nat_eqI) auto
    with False show ?thesis by simp
  qed simp
  finally show ?thesis by simp
qed

lemma byte_value: "n < 256 \<Longrightarrow> uint (of_nat n :: 8 word) = int n"
  by (simp add: uint_word_of_int_eq unsigned_of_nat take_bit_nat_eq_self take_bit_eq_mod flip: of_nat_mod)

lemma join_septets: "(x::int) mod 128 OR push_bit 7 (x div 128) = x"
proof -
  have "x mod 128 = take_bit 7 x" "x div 128 = drop_bit 7 x"
    by (simp_all add: take_bit_eq_mod drop_bit_eq_div)
  then show ?thesis
    by (simp only:) (rule bit_eqI, use le_add_diff_inverse [of 7] in
      \<open>fastforce simp: bit_or_iff bit_take_bit_iff bit_push_bit_iff bit_drop_bit_eq not_less\<close>)
qed

lemma varint_loop_encode:
  "varint_loop (pre @ encode_varint n @ post) (length pre) v s =
     (v OR push_bit s (int n), length pre + length (encode_varint n))"
proof (induction n arbitrary: pre v s rule: encode_varint.induct)
  case (1 n)
  show ?case
  proof (cases "n < 128")
    case True
    then show ?thesis
      by (simp add: encode_varint.simps [of n] varint_loop.simps [of "pre @ _"] nth_append byte_value
          continuation_bit low_seven)
  next
    case False
    let ?b = "n mod 128 + 128"
    let ?blob = "pre @ encode_varint n @ post"
    have enc: "encode_varint n = of_nat ?b # encode_varint (n div 128)"
      using False by (simp add: encode_varint.simps [of n])
    have "?blob ! length pre = of_nat ?b" "length pre < length ?blob"
      by (simp_all add: enc nth_append)
    moreover have "uint (of_nat ?b :: 8 word) = int ?b"
      by (rule byte_value) (simp add: mod_less_divisor [THEN less_le_trans])
    ultimately have byte: "uint (?blob ! length pre) = int ?b" "length pre < length ?blob"
      by (simp_all only:)
    have low: "int ?b AND 0x7F = int n mod 128"
      by (simp add: low_seven zmod_int)
    have "\<not> int ?b AND 0x80 = 0" by (subst continuation_bit) auto
    then have "varint_loop ?blob (length pre) v s =
        varint_loop ?blob (length pre + 1) (v OR push_bit s (int n mod 128)) (s + 7)"
      using byte low by (subst varint_loop.simps) (simp add: Let_def del: push_bit_and)
    also have "\<dots> = varint_loop ((pre @ [of_nat ?b]) @ encode_varint (n div 128) @ post)
        (length (pre @ [of_nat ?b])) (v OR push_bit s (int n mod 128)) (s + 7)"
      by (simp add: enc)
    also have "\<dots> = ((v OR push_bit s (int n mod 128)) OR push_bit (s + 7) (int n div 128),
        length pre + length (encode_varint n))"
      using "1" [OF False, of "pre @ [of_nat ?b]"] by (simp add: enc zdiv_int)
    also have "(v OR push_bit s (int n mod 128)) OR push_bit (s + 7) (int n div 128) = v OR push_bit s (int n)"
      using arg_cong [OF join_septets [of "int n"], of "push_bit s"]
      by (simp add: or.assoc push_bit_or push_bit_push_bit)
    finally show ?thesis .
  qed
qed

lemma varint_encode:
  "varint (pre @ encode_varint n @ post) (length pre) = (int n, length pre + length (encode_varint n))"
  by (simp add: varint_def varint_loop_encode)

lemma encode_varint_not_Nil [simp]: "encode_varint n \<noteq> []"
  by (simp add: encode_varint.simps [of n])

lemma varint_encode':
  "i = length pre \<Longrightarrow> varint (pre @ encode_varint n @ post) i = (int n, length pre + length (encode_varint n))"
  by (simp add: varint_encode)

text \<open>A key splits into its field number and its wire type.\<close>

lemma key_parts: "w < 8 \<Longrightarrow> drop_bit 3 (int (8 * f + w)) = int f \<and> int (8 * f + w) AND 7 = int w"
  using take_bit_eq_mask [of 3 "int (8 * f + w)"]
  by (simp add: mask_eq_exp_minus_1 take_bit_eq_mod drop_bit_eq_div)

lemma walk_flags_key:
  assumes "w < 8"
  shows "walk_flags (pre @ encode_varint (8 * f + w) @ post) (length pre) reader writer =
    (let blob = pre @ encode_varint (8 * f + w) @ post; i1 = length pre + length (encode_varint (8 * f + w)) in
     if w = 0 then
       (let (value, i2) = varint blob i1 in
        walk_flags blob i2
          (if int f = MANIFEST_READER_FLAGS_FIELD then value else reader)
          (if int f \<noteq> MANIFEST_READER_FLAGS_FIELD \<and> int f = MANIFEST_WRITER_FLAGS_FIELD then value else writer))
     else if w = 2 then (let (size, i2) = varint blob i1 in walk_flags blob (i2 + nat size) reader writer)
     else if w = 5 then walk_flags blob (i1 + 4) reader writer
     else if w = 1 then walk_flags blob (i1 + 8) reader writer
     else (reader, writer))"
proof -
  let ?blob = "pre @ encode_varint (8 * f + w) @ post"
  have small: "length pre < length ?blob" by simp
  have wires: "int w = 0 \<longleftrightarrow> w = 0" "int w = 2 \<longleftrightarrow> w = 2" "int w = 5 \<longleftrightarrow> w = 5" "int w = 1 \<longleftrightarrow> w = 1"
    by simp_all
  show ?thesis
    unfolding walk_flags.simps [of ?blob "length pre" reader writer] if_P [OF small] varint_encode Let_def prod.case
      conjunct1 [OF key_parts [OF assms]] conjunct2 [OF key_parts [OF assms]] wires ..
qed

lemma walk_flags_field:
  assumes "wire_ok fv"
  shows "walk_flags (pre @ encode_field fv @ post) (length pre) reader writer =
    walk_flags (pre @ encode_field fv @ post) (length (pre @ encode_field fv))
      (varint_after 9 fv reader) (varint_after 10 fv writer)"
proof -
  obtain f v where fv: "fv = (f, v)" by force
  note defs = MANIFEST_READER_FLAGS_FIELD_def MANIFEST_WRITER_FLAGS_FIELD_def
  show ?thesis
  proof (cases v)
    case (Varint n)
    then show ?thesis
      using walk_flags_key [of 0 pre f "encode_varint n @ post" reader writer]
        varint_encode [of "pre @ encode_varint (8 * f)" n post]
      by (auto simp: fv defs Let_def add.assoc)
  next
    case (Bytes bs)
    then show ?thesis
      using walk_flags_key [of 2 pre f "encode_varint (length bs) @ bs @ post" reader writer]
        varint_encode [of "pre @ encode_varint (8 * f + 2)" "length bs" "bs @ post"]
      by (simp add: fv Let_def add.assoc)
  next
    case (Fixed32 bs)
    then show ?thesis
      using walk_flags_key [of 5 pre f "bs @ post" reader writer] assms by (simp add: fv Let_def add.assoc)
  next
    case (Fixed64 bs)
    then show ?thesis
      using walk_flags_key [of 1 pre f "bs @ post" reader writer] assms by (simp add: fv Let_def add.assoc)
  qed
qed

lemma walk_flags_fields:
  assumes "list_all wire_ok fs"
  shows "walk_flags (pre @ encode_fields fs) (length pre) reader writer =
    (fold (varint_after 9) fs reader, fold (varint_after 10) fs writer)"
  using assms
proof (induction fs arbitrary: pre reader writer)
  case Nil
  then show ?case by (subst walk_flags.simps) (simp add: encode_fields_def)
next
  case (Cons fv fs)
  then show ?case
    using walk_flags_field [of fv pre "encode_fields fs" reader writer]
      Cons.IH [of "pre @ encode_field fv" "varint_after 9 fv reader" "varint_after 10 fv writer"]
    by (simp add: encode_fields_def)
qed

text \<open>
  C33: The feature flags are read exactly as the manifest's writer wrote them. For every manifest made
  of protobuf fields in any order and of any wire type, the walk answers the last value of field 9
  and of field 10, zero for a field that was omitted, whatever the values' size and whatever bytes
  the other fields hold.
\<close>

theorem flags_are_read_from_the_wire:
  assumes "list_all wire_ok fs"
  shows "manifest_feature_flags (encode_fields fs) = (last_varint 9 fs, last_varint 10 fs)"
  using walk_flags_fields [OF assms, of "[]"] by (simp add: manifest_feature_flags_def last_varint_def)

theorem flags_are_read_from_the_wire_witness:
  "manifest_feature_flags (encode_fields [(1, Bytes [8, 9]), (9, Varint 300), (3, Fixed32 [1, 2, 3, 4]), (10, Varint 17)])
     = (300, 17)"
  using flags_are_read_from_the_wire [of "[(1, Bytes [8, 9]), (9, Varint 300), (3, Fixed32 [1, 2, 3, 4]), (10, Varint 17)]"]
  by (simp add: last_varint_def)

section \<open>What the gates admit\<close>

text \<open>A base is known to be a plain prefix when its manifest does not call it a root and the store found none.\<close>

definition plain_prefix :: "base_evidence \<Rightarrow> bool" where
  "plain_prefix b \<longleftrightarrow> \<not> be_declares_dataset_root b \<and> be_probed_dataset_root b = Some False"

lemma refusing_base_None: "refusing_base bs = None \<longleftrightarrow> (\<forall>b\<in>set bs. plain_prefix b)"
  by (induction bs) (auto simp: plain_prefix_def split: option.splits bool.splits)

definition provably_foreign :: "compaction_bases option \<Rightarrow> bool" where
  "provably_foreign bases \<longleftrightarrow> (\<exists>cb. bases = Some cb \<and> cb_data_resolves_through_a_base cb = Some False \<and>
     cb_bases cb \<noteq> [] \<and> (\<forall>b\<in>set (cb_bases cb). plain_prefix b))"

lemma base_clause_None: "base_paths_compaction_refusal bases = None \<longleftrightarrow> provably_foreign bases"
  by (auto simp: base_paths_compaction_refusal_def provably_foreign_def refusing_base_None
      split: option.splits bool.splits if_splits)

lemma mask_split: "(a :: int) AND NOT m = 0 \<longleftrightarrow> (a AND NOT (m OR f) = 0 \<and> (a AND NOT m) AND f = 0)"
proof
  assume a: "a AND NOT m = 0"
  have "a AND NOT (m OR f) = (a AND NOT m) AND NOT f" by (simp add: and.assoc)
  with a show "a AND NOT (m OR f) = 0 \<and> (a AND NOT m) AND f = 0" by simp
next
  assume "a AND NOT (m OR f) = 0 \<and> (a AND NOT m) AND f = 0"
  then have z: "(a AND NOT m) AND NOT f = 0" "(a AND NOT m) AND f = 0" by (simp_all add: and.assoc)
  have "a AND NOT m = ((a AND NOT m) AND f) OR ((a AND NOT m) AND NOT f)"
    by (rule bit_eqI) (auto simp: bit_and_iff bit_or_iff bit_not_iff)
  with z show "a AND NOT m = 0" by simp
qed

lemma supported_values: "SUPPORTED = 15" "FLAG_BASE_PATHS = 16" "SUPPORTED_FOR_GC = 31"
  by (simp_all add: SUPPORTED_def SUPPORTED_FOR_GC_def FLAG_DELETION_FILES_def FLAG_STABLE_ROW_IDS_def
      FLAG_USE_V2_FORMAT_DEPRECATED_def FLAG_TABLE_CONFIG_def FLAG_BASE_PATHS_def)

lemma base_flag_unsupported: "(a AND NOT SUPPORTED) AND FLAG_BASE_PATHS = a AND FLAG_BASE_PATHS"
  by (simp add: supported_values and.assoc)

lemma describe_None:
  "describe_unsupported_flags reader writer = None \<longleftrightarrow>
     describe_gc_unsupported_flags reader writer = None \<and> (reader OR writer) AND FLAG_BASE_PATHS = 0"
  using mask_split [of "reader OR writer" SUPPORTED FLAG_BASE_PATHS]
  by (auto simp: describe_unsupported_flags_def describe_gc_unsupported_flags_def SUPPORTED_FOR_GC_def
      base_flag_unsupported Let_def)

lemma compaction_None:
  "describe_compaction_unsupported_flags reader writer bases = None \<longleftrightarrow>
     describe_gc_unsupported_flags reader writer = None \<and>
     ((reader OR writer) AND FLAG_BASE_PATHS = 0 \<or> provably_foreign bases)"
proof -
  let ?a = "reader OR writer"
  have strip: "(?a AND NOT SUPPORTED) AND NOT FLAG_BASE_PATHS = ?a AND NOT SUPPORTED_FOR_GC"
    by (simp add: SUPPORTED_FOR_GC_def and.assoc)
  have gc: "describe_gc_unsupported_flags reader writer = None \<longleftrightarrow> ?a AND NOT SUPPORTED_FOR_GC = 0"
    by (simp add: describe_gc_unsupported_flags_def Let_def)
  note split = mask_split [of ?a SUPPORTED FLAG_BASE_PATHS, folded SUPPORTED_FOR_GC_def, unfolded base_flag_unsupported]
  show ?thesis
    unfolding describe_compaction_unsupported_flags_def Let_def base_flag_unsupported gc strip
    using split base_clause_None [of bases] by auto
qed

text \<open>
  Compaction fails closed. It is admitted exactly when every flag the manifest sets, in either
  word, is a supported one apart from the base-paths flag, and, where that flag is set, the evidence
  was gathered, the fragments were read and none of their files lives under a base, at least one base
  was parsed, and every base is neither declared a dataset root nor found to be one by a probe that
  answered. Any reading that is missing refuses.
\<close>

theorem compaction_gate_fails_closed:
  "describe_compaction_unsupported_flags reader writer bases = None \<longleftrightarrow>
     (reader OR writer) AND NOT (SUPPORTED OR FLAG_BASE_PATHS) = 0 \<and>
     ((reader OR writer) AND FLAG_BASE_PATHS = 0 \<or>
      (\<exists>cb. bases = Some cb \<and> cb_data_resolves_through_a_base cb = Some False \<and> cb_bases cb \<noteq> [] \<and>
        (\<forall>b\<in>set (cb_bases cb). \<not> be_declares_dataset_root b \<and> be_probed_dataset_root b = Some False)))"
  unfolding compaction_None
  by (simp add: describe_gc_unsupported_flags_def SUPPORTED_FOR_GC_def Let_def provably_foreign_def plain_prefix_def)

theorem compaction_gate_fails_closed_witness:
  "let plain = \<lparr>be_path = ''s3://blobs/'', be_declares_dataset_root = False, be_probed_dataset_root = Some False, be_probe_denied = False\<rparr>;
       denied = plain\<lparr>be_probed_dataset_root := None, be_probe_denied := True\<rparr> in
   describe_compaction_unsupported_flags 17 17 (Some \<lparr>cb_bases = [plain], cb_data_resolves_through_a_base = Some False\<rparr>) = None \<and>
   describe_compaction_unsupported_flags 17 17 (Some \<lparr>cb_bases = [plain, denied], cb_data_resolves_through_a_base = Some False\<rparr>) \<noteq> None"
  unfolding Let_def compaction_gate_fails_closed supported_values by simp

text \<open>
  The gates are nested in strictness. Whatever the strictest gate passes, compaction passes with
  any evidence; whatever compaction passes with some evidence, the root-scoped verbs pass; and what
  the strictest gate passes a read-only pass may scan. So no verb that rewrites is laxer than one that
  only reclaims inside the table's own root.
\<close>

theorem gates_are_nested:
  "(describe_unsupported_flags reader writer = None \<longrightarrow>
      describe_compaction_unsupported_flags reader writer bases = None \<and> unsupported_read_flags reader writer = None) \<and>
   (describe_compaction_unsupported_flags reader writer bases = None \<longrightarrow>
      describe_gc_unsupported_flags reader writer = None)"
proof -
  have "reader AND NOT SUPPORTED = 0" if "(reader OR writer) AND NOT SUPPORTED = 0"
  proof (rule bit_eqI)
    fix n
    have "\<not> bit ((reader OR writer) AND NOT SUPPORTED) n" using that by simp
    then show "bit (reader AND NOT SUPPORTED) n = bit 0 n" by (auto simp: bit_and_iff bit_or_iff)
  qed
  then have "unsupported_read_flags reader writer = None" if "describe_unsupported_flags reader writer = None"
    using that by (simp add: unsupported_read_flags_def describe_read_unsupported_flags_def
        describe_unsupported_flags_def Let_def split: if_splits)
  then show ?thesis
    by (simp add: compaction_None describe_None)
qed

theorem gates_are_nested_witness:
  "describe_unsupported_flags 3 9 = None \<and> describe_compaction_unsupported_flags 3 9 None = None \<and>
   describe_gc_unsupported_flags 3 9 = None"
proof -
  have "describe_unsupported_flags 3 9 = None"
    by (simp add: describe_unsupported_flags_def supported_values)
  then show ?thesis using gates_are_nested [of 3 9 None] by simp
qed

text \<open>
  A commit is refused for its data files' versions exactly when it would mix them. For a table
  whose declared version is \<^verbatim>\<open>a.b\<close>, the check passes when the table is a legacy one or every V2 data
  file, read as Lance reads it (0.3 is 2.0), is at exactly the declared version.
\<close>

theorem data_file_versions_are_not_mixed:
  "describe_foreign_data_file_versions (show_nat a @ ''.'' @ show_nat b) files = None \<longleftrightarrow>
     a < 2 \<or> (\<forall>v\<in>set files. fst (format_version v) < 2 \<or> format_version v = (int a, int b))"
proof -
  have dot: "CHR ''.'' \<notin> set (show_nat a)"
  proof
    assume "CHR ''.'' \<in> set (show_nat a)"
    then have "is_digit (CHR ''.'')" using all_digits_show_nat [of a] by (auto simp: all_digits_def list_all_iff)
    moreover have "\<not> is_digit (CHR ''.'')" by code_simp
    ultimately show False by simp
  qed
  then have part: "partition_dot (show_nat a @ ''.'' @ show_nat b) = (show_nat a, show_nat b)"
    by (auto simp: partition_dot_def takeWhile_append dropWhile_append takeWhile_eq_all_conv dropWhile_eq_Nil_conv)
  have sort: "sort_key pair_key xs = [] \<longleftrightarrow> xs = []" for xs
    by (metis set_sort set_empty)
  show ?thesis
    unfolding describe_foreign_data_file_versions_def part Let_def prod.case sort
    by (auto simp: filter_empty_conv not_le)
qed

theorem data_file_versions_are_not_mixed_witness:
  "describe_foreign_data_file_versions (show_nat 2 @ ''.'' @ show_nat 0) [(0, 3), (2, 0)] = None \<and>
   describe_foreign_data_file_versions (show_nat 2 @ ''.'' @ show_nat 1) [(0, 3)] \<noteq> None"
  unfolding data_file_versions_are_not_mixed by (simp add: format_version_def)

section \<open>What the evidence says\<close>

definition evidence_of :: "(string \<Rightarrow> string + bool) \<Rightarrow> base_path_ref \<Rightarrow> base_evidence" where
  "evidence_of probe ref = \<lparr>be_path = bp_path ref, be_declares_dataset_root = bp_is_root ref,
     be_probed_dataset_root = (case probe (bp_path ref) of Inr found \<Rightarrow> Some found | Inl _ \<Rightarrow> None),
     be_probe_denied = (case probe (bp_path ref) of Inr _ \<Rightarrow> False | Inl exc \<Rightarrow> is_permission_denial exc)\<rparr>"

lemma probe_bases_evidence: "fst (probe_bases probe refs gl) = map (evidence_of probe) refs"
proof (induction refs arbitrary: gl)
  case (Cons ref refs)
  have "fst (probe_base probe ref gl) = evidence_of probe ref"
    by (simp add: probe_base_def evidence_of_def Let_def split: sum.splits)
  with Cons show ?case by (simp add: split_def Let_def)
qed simp

lemma gather_evidence:
  "cb_bases (fst (gather_compaction_bases ds probe gl)) =
     (case manifest_base_path_refs ds of Inr refs \<Rightarrow> map (evidence_of probe) refs | Inl _ \<Rightarrow> [])"
  by (simp add: gather_compaction_bases_def Let_def split_def probe_bases_evidence split: sum.splits)

lemma gather_resolves:
  "cb_data_resolves_through_a_base (fst (gather_compaction_bases ds probe gl)) =
     (case (case dh_fragments ds of Inl e \<Rightarrow> Inl e | Inr frags \<Rightarrow> any_base_id frags) of Inr b \<Rightarrow> Some b | Inl _ \<Rightarrow> None)"
  by (simp add: gather_compaction_bases_def Let_def split_def split: sum.splits)

lemma no_base_id: "any_base_id frags = Inr False \<Longrightarrow> base_ids frags = Inr []"
  by (induction frags rule: any_base_id.induct) (auto simp: List.map_filter_def list_ex_iff split: if_splits)

lemma gather_resolves_nowhere:
  "cb_data_resolves_through_a_base (fst (gather_compaction_bases ds probe gl)) = Some False \<Longrightarrow>
    data_file_base_paths ds = Inr []"
  by (auto simp: gather_resolves data_file_base_paths_def no_base_id split: sum.splits)

section \<open>A denied base is announced once\<close>

definition denials :: "gate_log \<Rightarrow> string list" where
  "denials gl = List.map_filter (\<lambda>x. case x of Probe_denied p \<Rightarrow> Some p | _ \<Rightarrow> None) (gl_warnings gl)"

definition log_inv :: "gate_log \<Rightarrow> bool" where
  "log_inv gl \<longleftrightarrow> distinct (denials gl) \<and> set (denials gl) = set (gl_reported gl)"

lemma denials_warn [simp]:
  "denials (warn x gl) = denials gl @ (case x of Probe_denied p \<Rightarrow> [p] | _ \<Rightarrow> [])"
  by (simp add: denials_def warn_def List.map_filter_def split: warning.splits)

lemma reported_warn [simp]: "gl_reported (warn x gl) = gl_reported gl"
  by (simp add: warn_def)

lemma denials_report [simp]: "denials (gl\<lparr>gl_reported := ps\<rparr>) = denials gl"
  by (simp add: denials_def)

lemma probe_base_inv: "log_inv gl \<Longrightarrow> log_inv (snd (probe_base probe ref gl))"
  by (auto simp: probe_base_def log_inv_def Let_def split: sum.splits)

lemma probe_bases_inv: "log_inv gl \<Longrightarrow> log_inv (snd (probe_bases probe refs gl))"
proof (induction refs arbitrary: gl)
  case (Cons ref refs)
  then show ?case
    using probe_base_inv [OF Cons.prems, of probe ref] by (simp add: split_def Let_def)
qed simp

lemma gather_inv:
  assumes "log_inv gl" shows "log_inv (snd (gather_compaction_bases ds probe gl))"
proof -
  have quiet: "log_inv gl \<Longrightarrow> log_inv (warn Base_paths_unreadable gl)"
    "log_inv gl \<Longrightarrow> log_inv (warn Fragment_read_failed gl)" for gl
    by (simp_all add: log_inv_def)
  show ?thesis
    using assms probe_bases_inv
    by (auto simp: gather_compaction_bases_def Let_def split_def quiet split: sum.splits)
qed

text \<open>
  A permanent denial is reported once per base and process: however many datasets are gathered,
  with whatever answers, no base's denial is logged twice, and every base reported is one logged.
\<close>

theorem denied_base_is_announced_once:
  "let gl = fold (\<lambda>(ds, probe) gl. snd (gather_compaction_bases ds probe gl)) runs \<lparr>gl_reported = [], gl_warnings = []\<rparr> in
   distinct (denials gl) \<and> set (denials gl) = set (gl_reported gl)"
proof -
  have "log_inv (fold (\<lambda>(ds, probe) gl. snd (gather_compaction_bases ds probe gl)) runs gl)" if "log_inv gl" for gl
    using that by (induction runs arbitrary: gl) (auto simp: gather_inv)
  moreover have "log_inv \<lparr>gl_reported = [], gl_warnings = []\<rparr>"
    by (simp add: log_inv_def denials_def List.map_filter_def)
  ultimately show ?thesis by (simp add: log_inv_def Let_def)
qed

end
