(* ===== verification/Orphans.thy ===== *)
theory Orphans
  imports Discovery Features
begin

text \<open>
  \<^verbatim>\<open>maintenance/services/orphans.py\<close>: the files of a dataset that no version of it references, reported
  and never deleted here. What pylance answers of a dataset (its versions, their fragments and index
  segments, its transactions, its manifest bytes) and what pyarrow lists are records of answers, each
  of which may be a raise.

  A time is an epoch in whole microseconds, the resolution of Python's \<^verbatim>\<open>datetime\<close>: at the magnitude of
  a present epoch a double tells two microseconds apart, so \<^verbatim>\<open>is_integer\<close> is divisibility by a million.
\<close>

record data_file =
  df_path :: string
  df_base_id :: "int option"

text \<open>A deletion vector, with the path Lance renders for it.\<close>

record deletion_file =
  del_path :: string
  del_base_id :: "int option"

record fragment =
  fr_data_files :: "data_file list"
  fr_overlays :: bool
  fr_deletion :: "deletion_file option"

record lance_version =
  lv_fragments :: "fragment list"
  lv_segments :: "string list"

record transaction =
  tx_read_version :: int
  tx_uuid :: string

text \<open>A raise of pylance carries its message; \<open>None\<close> where the source discards what was raised.\<close>

record lance_ds =
  ld_versions :: "string + int list"
  ld_at :: "int \<Rightarrow> string + lance_version"
  ld_transactions :: "nat \<Rightarrow> transaction option list option"
  ld_manifest :: "8 word list"
  ld_commit_times :: "int list option"

record stat = entry +
  st_size :: "nat option"
  st_mtime :: "int option"

datatype tree_listing = Tree "stat list" | TreeFailed string

datatype scan_exc = Overlays_present | History_past_the_ceiling nat | Raised string

datatype scan_reason =
    Walk_excluded string scan_exc
  | Open_refused string open_refusal
  | Open_failed string
  | Unsupported_flags string refusal
  | Layout_present string string
  | Layout_probe_failed string string
  | Presence_probe_failed string
  | Files_elsewhere string nat string
  | Transactions_unreadable string
  | Listing_failed string

definition data_dir :: string where "data_dir = ''data''"
definition deletions_dir :: string where "deletions_dir = ''_deletions''"
definition indices_dir :: string where "indices_dir = ''_indices''"
definition transactions_dir :: string where "transactions_dir = ''_transactions''"
definition versions_dir :: string where "versions_dir = ''_versions''"
definition refs_dir :: string where "refs_dir = ''_refs''"
definition tree_dir :: string where "tree_dir = ''tree''"
definition mem_wal_dir :: string where "mem_wal_dir = ''_mem_wal''"
definition reserved_marker :: string where "reserved_marker = ''.lance-reserved''"
definition max_versions :: nat where "max_versions = 500"

datatype kind = Data | Deletions | Indices | Transactions | Versions | Refs | Other

definition listed_past_the_floor :: "kind list" where
  "listed_past_the_floor = [Data, Indices]"

record orphan_file =
  of_dataset :: string
  of_path :: string
  of_kind :: kind
  of_size_bytes :: nat
  of_reclaimable_by_lance :: "bool option"
  of_mtime_epoch :: int

record dataset_orphan_scan =
  ds_dataset :: string
  ds_checked :: bool
  ds_orphans :: "orphan_file list"
  ds_versions_scanned :: nat
  ds_reason :: "scan_reason option"
  ds_total_bytes :: nat
  ds_total_files :: nat
  ds_excluded :: bool

definition not_checked :: "string \<Rightarrow> nat \<Rightarrow> scan_reason \<Rightarrow> bool \<Rightarrow> dataset_orphan_scan" where
  "not_checked uri n reason excluded = \<lparr>ds_dataset = uri, ds_checked = False, ds_orphans = [],
     ds_versions_scanned = n, ds_reason = Some reason, ds_total_bytes = 0, ds_total_files = 0, ds_excluded = excluded\<rparr>"

definition kind_of :: "string \<Rightarrow> kind" where
  "kind_of rel_path = (let head = before_slash rel_path in
     if head = data_dir then Data else if head = deletions_dir then Deletions
     else if head = indices_dir then Indices else if head = transactions_dir then Transactions
     else if head = versions_dir then Versions else if head = refs_dir then Refs else Other)"

section \<open>What the live versions reference\<close>

definition show_int :: "int \<Rightarrow> string" where
  "show_int i = (if i < 0 then CHR ''-'' # show_nat (nat (- i)) else show_nat (nat i))"

definition data_path :: "data_file \<Rightarrow> string" where
  "data_path f = data_dir @ ''/'' @ df_path f"

definition sidecar_dir :: "data_file \<Rightarrow> string" where
  "sidecar_dir f = data_dir @ ''/'' @ remove_suffix ''.lance'' (df_path f)"

definition segment_dir :: "string \<Rightarrow> string" where
  "segment_dir uuid = indices_dir @ ''/'' @ uuid"

definition txn_path :: "transaction \<Rightarrow> string" where
  "txn_path t = transactions_dir @ ''/'' @ show_int (tx_read_version t) @ ''-'' @ tx_uuid t @ ''.txn''"

text \<open>The exact paths and the directories a fragment references, added to what was found so far.\<close>

fun add_fragments :: "fragment list \<Rightarrow> string list \<times> string list \<Rightarrow> scan_exc + (string list \<times> string list)" where
  "add_fragments [] acc = Inr acc"
| "add_fragments (f # fs) (files, dirs) =
     (if fr_overlays f then Inl Overlays_present
      else add_fragments fs
        (files @ map data_path (fr_data_files f) @
           (case fr_deletion f of None \<Rightarrow> [] | Some d \<Rightarrow> [del_path d]),
         dirs @ map sidecar_dir (fr_data_files f)))"

fun add_versions ::
    "lance_ds \<Rightarrow> int list \<Rightarrow> string list \<times> string list \<Rightarrow> scan_exc + (string list \<times> string list)" where
  "add_versions ds [] acc = Inr acc"
| "add_versions ds (v # vs) acc = (case ld_at ds v of
       Inl message \<Rightarrow> Inl (Raised message)
     | Inr at_v \<Rightarrow> (case add_fragments (lv_fragments at_v) acc of
         Inl e \<Rightarrow> Inl e
       | Inr (files, dirs) \<Rightarrow> add_versions ds vs (files, dirs @ map segment_dir (lv_segments at_v))))"

text \<open>
  \<^verbatim>\<open>referenced_paths_of\<close>: the paths, the number of versions, and whether the transactions could not be
  read. A directory is an entry that ends in a slash.
\<close>

definition referenced_paths_of :: "lance_ds \<Rightarrow> scan_exc + (string list \<times> nat \<times> bool)" where
  "referenced_paths_of ds = (case ld_versions ds of
       Inl message \<Rightarrow> Inl (Raised message)
     | Inr versions \<Rightarrow>
        (if length versions > max_versions then Inl (History_past_the_ceiling (length versions))
         else (case add_versions ds versions ([], []) of
             Inl e \<Rightarrow> Inl e
           | Inr (files, dirs) \<Rightarrow>
              (let (txns, note) = (case ld_transactions ds (max (length versions) 1) of
                     None \<Rightarrow> ([], True)
                   | Some ts \<Rightarrow> (map txn_path (List.map_filter id ts), False))
               in Inr (files @ txns @ map (\<lambda>d. d @ ''/'') dirs, length versions, note)))))"

section \<open>The scan\<close>

definition names_dir :: "string \<Rightarrow> bool" where
  "names_dir rel = suffix ''/'' rel"

definition layout_reason :: "filesystem \<Rightarrow> string \<Rightarrow> string \<Rightarrow> scan_reason option" where
  "layout_reason fs p dir = (case fs_info fs (p @ ''/'' @ dir) of
       Inl _ \<Rightarrow> Some (Layout_probe_failed p dir)
     | Inr t \<Rightarrow> if t = Directory then Some (Layout_present p dir) else None)"

definition unscannable_reason :: "lance_ds \<Rightarrow> filesystem \<Rightarrow> string \<Rightarrow> string list \<Rightarrow> scan_reason option" where
  "unscannable_reason ds fs p referenced = (case unsupported_features (ld_manifest ds) of
       Some refusal \<Rightarrow> Some (Unsupported_flags p refusal)
     | None \<Rightarrow> (case layout_reason fs p tree_dir of
         Some r \<Rightarrow> Some r
       | None \<Rightarrow> (case layout_reason fs p mem_wal_dir of
           Some r \<Rightarrow> Some r
         | None \<Rightarrow>
            (let exact = filter (\<lambda>rel. \<not> names_dir rel) (sort (remdups referenced)) in
             case each (fs_info fs) (map (\<lambda>rel. p @ ''/'' @ rel) exact) of
               Inl _ \<Rightarrow> Some (Presence_probe_failed p)
             | Inr present \<Rightarrow>
                (let missing = map fst (filter (\<lambda>(rel, t). t \<noteq> File) (zip exact present)) in
                 if missing = [] then None else Some (Files_elsewhere p (length missing) (hd missing)))))))"

definition million :: int where "million = 1000000"

definition listed_at_or_below :: "int \<Rightarrow> int \<Rightarrow> bool" where
  "listed_at_or_below mtime_epoch floor_time =
     (let latest = if mtime_epoch mod million = 0 then mtime_epoch + million else mtime_epoch in latest \<le> floor_time)"

definition classify_against_floor :: "lance_ds \<Rightarrow> orphan_file list \<Rightarrow> orphan_file list" where
  "classify_against_floor ds orphans =
     map (\<lambda>o'. if of_kind o' \<in> set listed_past_the_floor then o'\<lparr>of_reclaimable_by_lance := Some True\<rparr>
       else (case ld_commit_times ds of
           None \<Rightarrow> o'
         | Some stamps \<Rightarrow> if stamps = [] then o'
             else o'\<lparr>of_reclaimable_by_lance := Some (listed_at_or_below (of_mtime_epoch o') (Min (set stamps)))\<rparr>)) orphans"

definition relpath :: "string \<Rightarrow> string \<Rightarrow> string" where
  "relpath path p = remove_prefix (p @ ''/'') path"

definition skips :: "string list \<Rightarrow> string \<Rightarrow> bool" where
  "skips referenced rel =
     (rel \<in> set referenced \<or> list_ex (\<lambda>d. names_dir d \<and> prefix d rel) referenced \<or>
      prefix (versions_dir @ ''/'') rel \<or> prefix (refs_dir @ ''/'') rel \<or> rel = reserved_marker)"

definition orphan_of :: "string \<Rightarrow> string \<Rightarrow> stat \<Rightarrow> orphan_file" where
  "orphan_of uri p i = (let rel = relpath (e_path i) p in
     \<lparr>of_dataset = uri, of_path = rel, of_kind = kind_of rel,
      of_size_bytes = (case st_size i of None \<Rightarrow> 0 | Some n \<Rightarrow> n), of_reclaimable_by_lance = None,
      of_mtime_epoch = (case st_mtime i of None \<Rightarrow> 0 | Some t \<Rightarrow> t)\<rparr>)"

definition scan_dataset ::
    "filesystem \<Rightarrow> (string \<Rightarrow> tree_listing) \<Rightarrow> (string \<Rightarrow> string + lance_ds) \<Rightarrow> string \<Rightarrow> string \<Rightarrow> dataset_orphan_scan" where
  "scan_dataset fs list_tree open_dataset uri p =
     (let failed = (\<lambda>message. case unsupported_features_from_open_error message of
            Some refusal \<Rightarrow> not_checked uri 0 (Open_refused p refusal) True
          | None \<Rightarrow> not_checked uri 0 (Open_failed message) False) in
      case open_dataset uri of
        Inl message \<Rightarrow> failed message
      | Inr ds \<Rightarrow> (case referenced_paths_of ds of
          Inl (Raised message) \<Rightarrow> failed message
        | Inl e \<Rightarrow> not_checked uri 0 (Walk_excluded uri e) True
        | Inr (referenced, versions, note) \<Rightarrow>
           (case unscannable_reason ds fs p referenced of
              Some r \<Rightarrow> not_checked uri versions r True
            | None \<Rightarrow>
               (if note then not_checked uri versions (Transactions_unreadable uri) False
                else (case list_tree p of
                    TreeFailed message \<Rightarrow> not_checked uri versions (Listing_failed message) False
                  | Tree entries \<Rightarrow>
                     (let files = filter (\<lambda>i. e_type i = File) entries;
                          orphans = map (orphan_of uri p)
                            (filter (\<lambda>i. \<not> skips referenced (relpath (e_path i) p)) files) in
                      \<lparr>ds_dataset = uri, ds_checked = True,
                       ds_orphans = classify_against_floor ds orphans, ds_versions_scanned = versions,
                       ds_reason = None,
                       ds_total_bytes = sum_list (map (\<lambda>i. case st_size i of None \<Rightarrow> 0 | Some n \<Rightarrow> n) files),
                       ds_total_files = length files, ds_excluded = False\<rparr>))))))"

record orphan_report =
  or_datasets_scanned :: nat
  or_datasets_unreadable :: nat
  or_datasets_excluded :: nat
  or_orphans :: "orphan_file list"
  or_bytes_by_dataset :: "(string \<times> nat) list"
  or_files_by_dataset :: "(string \<times> nat) list"
  or_incomplete :: "scan_reason option list"
  or_excluded :: "scan_reason option list"
  or_total :: nat

definition empty_orphan_report :: orphan_report where
  "empty_orphan_report = \<lparr>or_datasets_scanned = 0, or_datasets_unreadable = 0, or_datasets_excluded = 0,
     or_orphans = [], or_bytes_by_dataset = [], or_files_by_dataset = [], or_incomplete = [],
     or_excluded = [], or_total = 0\<rparr>"

definition add_scan :: "dataset_orphan_scan \<Rightarrow> orphan_report \<Rightarrow> orphan_report" where
  "add_scan result report =
     (if ds_checked result then
        report\<lparr>or_datasets_scanned := or_datasets_scanned report + 1,
          or_orphans := or_orphans report @ ds_orphans result,
          or_bytes_by_dataset := AList.update (ds_dataset result) (ds_total_bytes result) (or_bytes_by_dataset report),
          or_files_by_dataset := AList.update (ds_dataset result) (ds_total_files result) (or_files_by_dataset report)\<rparr>
      else if ds_excluded result then
        report\<lparr>or_datasets_excluded := or_datasets_excluded report + 1,
          or_excluded := or_excluded report @ [ds_reason result]\<rparr>
      else
        report\<lparr>or_datasets_unreadable := or_datasets_unreadable report + 1,
          or_incomplete := or_incomplete report @ [ds_reason result]\<rparr>)"

definition scan_datasets ::
    "filesystem \<Rightarrow> (string \<Rightarrow> tree_listing) \<Rightarrow> (string \<Rightarrow> string + lance_ds) \<Rightarrow> (string \<times> string) list \<Rightarrow> orphan_report" where
  "scan_datasets fs list_tree open_dataset datasets =
     (let report = fold (\<lambda>(uri, p). add_scan (scan_dataset fs list_tree open_dataset uri p)) datasets empty_orphan_report
      in report\<lparr>or_total := length (or_orphans report)\<rparr>)"

section \<open>What it reports\<close>

text \<open>
  The reference definition: a path is live when a version that can still be read names it, itself or
  through a directory, when a live transaction wrote it, or when it is the version index.
\<close>

definition names_path :: "string \<Rightarrow> string \<Rightarrow> bool" where
  "names_path x rel \<longleftrightarrow> rel = x \<or> names_dir x \<and> prefix x rel"

definition fragment_names :: "fragment \<Rightarrow> string \<Rightarrow> bool" where
  "fragment_names f rel \<longleftrightarrow>
     (\<exists>d\<in>set (fr_data_files f). names_path (data_path d) rel \<or> prefix (sidecar_dir d @ ''/'') rel) \<or>
     (\<exists>d. fr_deletion f = Some d \<and> names_path (del_path d) rel)"

definition version_names :: "lance_version \<Rightarrow> string \<Rightarrow> bool" where
  "version_names at_v rel \<longleftrightarrow>
     (\<exists>f\<in>set (lv_fragments at_v). fragment_names f rel) \<or> (\<exists>s\<in>set (lv_segments at_v). prefix (segment_dir s @ ''/'') rel)"

definition live_path :: "lance_ds \<Rightarrow> string \<Rightarrow> bool" where
  "live_path ds rel \<longleftrightarrow>
     (\<exists>vs v at_v. ld_versions ds = Inr vs \<and> v \<in> set vs \<and> ld_at ds v = Inr at_v \<and> version_names at_v rel) \<or>
     (\<exists>vs ts t. ld_versions ds = Inr vs \<and> ld_transactions ds (max (length vs) 1) = Some ts \<and>
        Some t \<in> set ts \<and> names_path (txn_path t) rel) \<or>
     prefix (versions_dir @ ''/'') rel \<or> prefix (refs_dir @ ''/'') rel \<or> rel = reserved_marker"

definition found_names :: "string list \<times> string list \<Rightarrow> string \<Rightarrow> bool" where
  "found_names acc rel \<longleftrightarrow> (\<exists>x\<in>set (fst acc). names_path x rel) \<or> (\<exists>d\<in>set (snd acc). prefix (d @ ''/'') rel)"

lemma names_dir_slash [simp]: "names_dir (d @ ''/'')"
  by (simp add: names_dir_def)

lemma names_path_dir [simp]: "names_path (d @ ''/'') rel \<longleftrightarrow> prefix (d @ ''/'') rel"
  by (auto simp: names_path_def)

lemma add_fragments_names:
  "add_fragments fs acc = Inr acc' \<Longrightarrow>
   found_names acc' rel \<longleftrightarrow> found_names acc rel \<or> (\<exists>f\<in>set fs. fragment_names f rel)"
proof (induction fs acc rule: add_fragments.induct)
  case (2 f fs files dirs)
  then show ?case
    by (auto simp: found_names_def fragment_names_def split: if_splits option.splits)
qed simp

lemma add_versions_names:
  "add_versions ds vs acc = Inr acc' \<Longrightarrow>
   found_names acc' rel \<longleftrightarrow> found_names acc rel \<or>
     (\<exists>v\<in>set vs. \<exists>at_v. ld_at ds v = Inr at_v \<and> version_names at_v rel)"
proof (induction ds vs acc rule: add_versions.induct)
  case (2 ds v vs acc)
  then obtain at_v files dirs where at: "ld_at ds v = Inr at_v" "add_fragments (lv_fragments at_v) acc = Inr (files, dirs)"
    and rest: "add_versions ds vs (files, dirs @ map segment_dir (lv_segments at_v)) = Inr acc'"
    by (auto split: sum.splits)
  have "found_names (files, dirs @ map segment_dir (lv_segments at_v)) rel \<longleftrightarrow>
      found_names (files, dirs) rel \<or> (\<exists>s\<in>set (lv_segments at_v). prefix (segment_dir s @ ''/'') rel)"
    by (auto simp: found_names_def)
  with 2 at rest add_fragments_names [OF at(2), of rel] show ?case
    by (auto simp: version_names_def)
qed simp

lemma skips_iff:
  "skips referenced rel \<longleftrightarrow> (\<exists>x\<in>set referenced. names_path x rel) \<or>
     prefix (versions_dir @ ''/'') rel \<or> prefix (refs_dir @ ''/'') rel \<or> rel = reserved_marker"
  by (auto simp: skips_def names_path_def list_ex_iff)

lemma skips_is_live:
  assumes "referenced_paths_of ds = Inr (referenced, n, False)"
  shows "skips referenced rel \<longleftrightarrow> live_path ds rel"
proof -
  obtain vs files dirs ts where vs: "ld_versions ds = Inr vs"
      "add_versions ds vs ([], []) = Inr (files, dirs)" "ld_transactions ds (max (length vs) 1) = Some ts"
    and referenced: "referenced = files @ map txn_path (List.map_filter id ts) @ map (\<lambda>d. d @ ''/'') dirs"
    using assms by (auto simp: referenced_paths_of_def split: sum.splits if_splits option.splits)
  have "(\<exists>x\<in>set referenced. names_path x rel) \<longleftrightarrow> found_names (files, dirs) rel \<or>
      (\<exists>t. Some t \<in> set ts \<and> names_path (txn_path t) rel)"
    by (auto simp: referenced found_names_def in_map_filter bex_Un)
  then show ?thesis
    using vs add_versions_names [OF vs(2), of rel] by (auto simp: skips_iff live_path_def found_names_def)
qed

lemma scannable_files_present:
  assumes "unscannable_reason ds fs p referenced = None" "rel \<in> set referenced" "\<not> names_dir rel"
  shows "fs_info fs (p @ ''/'' @ rel) = Inr File"
proof -
  let ?exact = "filter (\<lambda>rel. \<not> names_dir rel) (sort (remdups referenced))"
  obtain ts where ts: "each (fs_info fs) (map (\<lambda>rel. p @ ''/'' @ rel) ?exact) = Inr ts"
      "\<forall>(rel, t)\<in>set (zip ?exact ts). t = File"
    using assms(1)
    by (auto simp: unscannable_reason_def Let_def filter_empty_conv split: option.splits sum.splits if_splits)
  then have answers: "map (\<lambda>rel. fs_info fs (p @ ''/'' @ rel)) ?exact = map Inr ts"
    by (auto dest!: each_answers simp: comp_def)
  then have "length ?exact = length ts"
    by (metis length_map)
  then have "set ts = snd ` set (zip ?exact ts)"
    by (metis map_snd_zip set_map)
  then have "set ts \<subseteq> {File}"
    using ts(2) by auto
  moreover have "fs_info fs (p @ ''/'' @ rel) \<in> set (map (\<lambda>rel. fs_info fs (p @ ''/'' @ rel)) ?exact)"
    using assms(2,3) by simp
  ultimately show ?thesis
    unfolding answers by auto
qed

lemma add_fragments_files:
  "add_fragments fs acc = Inr acc' \<Longrightarrow> set (fst acc) \<subseteq> set (fst acc') \<and>
   (\<forall>f\<in>set fs. data_path ` set (fr_data_files f) \<subseteq> set (fst acc'))"
proof (induction fs acc rule: add_fragments.induct)
  case (2 f fs files dirs)
  then show ?case by (auto split: if_splits)
qed simp

definition within_files :: "lance_version \<Rightarrow> string set \<Rightarrow> bool" where
  "within_files at_v F \<longleftrightarrow> (\<forall>f\<in>set (lv_fragments at_v). data_path ` set (fr_data_files f) \<subseteq> F)"

lemma within_files_mono: "within_files at_v F \<Longrightarrow> F \<subseteq> G \<Longrightarrow> within_files at_v G"
  unfolding within_files_def by blast

lemma add_versions_files:
  "add_versions ds vs acc = Inr acc' \<Longrightarrow> set (fst acc) \<subseteq> set (fst acc') \<and>
   (\<forall>v\<in>set vs. \<exists>at_v. ld_at ds v = Inr at_v \<and> within_files at_v (set (fst acc')))"
proof (induction ds vs acc rule: add_versions.induct)
  case (2 ds v vs acc)
  then obtain at_v files dirs where at_v: "ld_at ds v = Inr at_v" "add_fragments (lv_fragments at_v) acc = Inr (files, dirs)"
    and rest: "add_versions ds vs (files, dirs @ map segment_dir (lv_segments at_v)) = Inr acc'"
    by (auto split: sum.splits)
  from 2(1) [OF at_v refl rest] have later: "set files \<subseteq> set (fst acc')"
      "\<forall>v\<in>set vs. \<exists>at_v. ld_at ds v = Inr at_v \<and> within_files at_v (set (fst acc'))"
    by simp_all
  have "set (fst acc) \<subseteq> set files" "within_files at_v (set files)"
    using add_fragments_files [OF at_v(2)] by (simp_all add: within_files_def)
  with later at_v(1) show ?case
    by (auto intro: within_files_mono)
qed simp

text \<open>A dataset the scan answers for holds every data file its versions name under its own prefix.\<close>

definition holds_its_files :: "filesystem \<Rightarrow> string \<Rightarrow> lance_ds \<Rightarrow> bool" where
  "holds_its_files fs p ds \<longleftrightarrow> (\<exists>vs. ld_versions ds = Inr vs \<and> length vs \<le> max_versions \<and>
     (\<forall>v\<in>set vs. \<exists>at_v. ld_at ds v = Inr at_v \<and> (\<forall>f\<in>set (lv_fragments at_v). \<forall>d\<in>set (fr_data_files f).
        names_dir (data_path d) \<or> fs_info fs (p @ ''/'' @ data_path d) = Inr File)))"

lemma scannable_holds_its_files:
  assumes "referenced_paths_of ds = Inr (referenced, n, False)" "unscannable_reason ds fs p referenced = None"
  shows "holds_its_files fs p ds"
proof -
  obtain vs files dirs where vs: "ld_versions ds = Inr vs" "length vs \<le> max_versions"
      "add_versions ds vs ([], []) = Inr (files, dirs)" "set files \<subseteq> set referenced"
    using assms(1) by (auto simp: referenced_paths_of_def not_less split: sum.splits if_splits option.splits)
  have "\<exists>at_v. ld_at ds v = Inr at_v \<and> within_files at_v (set referenced)" if "v \<in> set vs" for v
    using add_versions_files [OF vs(3)] within_files_mono [OF _ vs(4)] that by fastforce
  moreover have "names_dir (data_path d) \<or> fs_info fs (p @ ''/'' @ data_path d) = Inr File"
    if "within_files at_v (set referenced)" "f \<in> set (lv_fragments at_v)" "d \<in> set (fr_data_files f)" for at_v f d
    using scannable_files_present [OF assms(2), of "data_path d"] that by (auto simp: within_files_def)
  ultimately show ?thesis
    using vs(1,2) unfolding holds_its_files_def by blast
qed

lemma classify_keeps:
  "map of_path (classify_against_floor ds os) = map of_path os"
  "map of_dataset (classify_against_floor ds os) = map of_dataset os"
  by (auto simp: classify_against_floor_def split: option.splits)

lemma scan_cases:
  assumes "scan_dataset fs list_tree open_dataset uri p = r" "ds_checked r"
  obtains ds referenced versions entries where
    "open_dataset uri = Inr ds" "referenced_paths_of ds = Inr (referenced, versions, False)"
    "unscannable_reason ds fs p referenced = None" "list_tree p = Tree entries"
    "ds_orphans r = classify_against_floor ds (map (orphan_of uri p)
       (filter (\<lambda>i. \<not> skips referenced (relpath (e_path i) p)) (filter (\<lambda>i. e_type i = File) entries)))"
  using assms
  by (auto simp: scan_dataset_def not_checked_def Let_def
      split: sum.splits scan_exc.splits option.splits if_splits tree_listing.splits)


definition one_file_dataset :: lance_ds where
  "one_file_dataset = \<lparr>ld_versions = Inr [1],
     ld_at = (\<lambda>v. Inr \<lparr>lv_fragments = [\<lparr>fr_data_files = [\<lparr>df_path = ''a.lance'', df_base_id = None\<rparr>],
        fr_overlays = False, fr_deletion = None\<rparr>], lv_segments = []\<rparr>),
     ld_transactions = (\<lambda>n. Some [Some \<lparr>tx_read_version = 0, tx_uuid = ''u''\<rparr>]),
     ld_manifest = [], ld_commit_times = Some [5000000]\<rparr>"

definition one_file_tree :: "stat list" where
  "one_file_tree =
    [\<lparr>e_path = ''b/t/data/a.lance'', e_type = File, st_size = Some 10, st_mtime = Some 1\<rparr>,
     \<lparr>e_path = ''b/t/data/a/x.blob'', e_type = File, st_size = Some 10, st_mtime = Some 1\<rparr>,
     \<lparr>e_path = ''b/t/_transactions/0-u.txn'', e_type = File, st_size = Some 1, st_mtime = Some 1\<rparr>,
     \<lparr>e_path = ''b/t/_transactions/0-w.txn'', e_type = File, st_size = Some 1, st_mtime = Some 5000000\<rparr>]"

definition one_file_fs :: filesystem where
  "one_file_fs = \<lparr>fs_list = (\<lambda>_. Absent),
     fs_info = (\<lambda>p. Inr (if p = ''b/t/data/a.lance'' \<or> p = ''b/t/_transactions/0-u.txn'' then File else NotFound)),
     fs_is_s3 = True\<rparr>"


text \<open>
  an orphan classed as one Lance will reclaim is one its cleanup can still list. For a class
  the listing floor binds, every instant the listed time can stand for (the listed microsecond, or any
  microsecond of the listed whole second) is at or before the earliest commit the dataset keeps.
\<close>

theorem reclaimable_orphan_is_below_the_floor:
  assumes "o' \<in> set (classify_against_floor ds os)" "of_reclaimable_by_lance o' = Some True"
    "\<forall>x\<in>set os. of_reclaimable_by_lance x = None"
    "modified = of_mtime_epoch o' \<or> of_mtime_epoch o' = modified div million * million"
  shows "of_kind o' \<in> {Data, Indices} \<or>
    (\<exists>stamps. ld_commit_times ds = Some stamps \<and> stamps \<noteq> [] \<and> (\<forall>t\<in>set stamps. modified \<le> t))"
proof -
  obtain x where x: "x \<in> set os" "o' = (if of_kind x \<in> set listed_past_the_floor then x\<lparr>of_reclaimable_by_lance := Some True\<rparr>
       else (case ld_commit_times ds of None \<Rightarrow> x
         | Some stamps \<Rightarrow> if stamps = [] then x
             else x\<lparr>of_reclaimable_by_lance := Some (listed_at_or_below (of_mtime_epoch x) (Min (set stamps)))\<rparr>))"
    using assms(1) by (auto simp: classify_against_floor_def)
  show ?thesis
  proof (cases "of_kind x \<in> set listed_past_the_floor")
    case True
    with x(2) show ?thesis by (auto simp: listed_past_the_floor_def)
  next
    case False
    with x assms(2,3) obtain stamps where stamps: "ld_commit_times ds = Some stamps" "stamps \<noteq> []"
        "listed_at_or_below (of_mtime_epoch o') (Min (set stamps))"
      by (auto split: option.splits if_splits)
    then have "modified \<le> Min (set stamps)"
      using assms(4)
      by (auto simp: listed_at_or_below_def Let_def million_def split: if_splits)
    with stamps show ?thesis by force
  qed
qed

theorem reclaimable_orphan_is_below_the_floor_witness:
  "\<forall>t\<in>{5000000}. 4000000 \<le> (t::int)"
proof -
  let ?o = "\<lparr>of_dataset = ''s3://b/t'', of_path = ''_transactions/0-w.txn'', of_kind = Transactions,
    of_size_bytes = 1, of_reclaimable_by_lance = None, of_mtime_epoch = 4000000\<rparr>"
  have run: "classify_against_floor one_file_dataset [?o] = [?o\<lparr>of_reclaimable_by_lance := Some True\<rparr>]"
    by code_simp
  have "ld_commit_times one_file_dataset = Some [5000000]"
    by (simp add: one_file_dataset_def)
  then show ?thesis
    using reclaimable_orphan_is_below_the_floor [of "?o\<lparr>of_reclaimable_by_lance := Some True\<rparr>" one_file_dataset "[?o]" 4000000]
    by (simp add: run)
qed

end
