(* ===== verification/Commit_Records.thy ===== *)
theory Commit_Records
  imports Records
begin

text \<open>
  \<^verbatim>\<open>lakehouse_kit/commit_records.py\<close>: what the catalog keeps beside a table's version log. The author
  it authorized each commit for, written once per transaction and version; the caller of each move of
  a tag; and the reconciler's marks.

  A record that validates is a \<open>commit_author\<close> (or a \<open>tag_mover\<close>, or marks); a JSON object that does
  not, and JSON that is no object, is \<open>NotObject\<close>. \<open>hex\<close> is the SHA-256 hex digest.
\<close>

section \<open>Authors\<close>

definition authors_prefix :: string where
  "authors_prefix = ''_commit_authors''"

definition marks_prefix :: string where
  "marks_prefix = ''_commit_marks''"

record commit_author =
  ca_author :: string
  ca_transaction_uuid :: string
  ca_ref :: string
  ca_version :: nat
  ca_manifest :: "string option"

definition manifest_digest :: "(string \<Rightarrow> string) \<Rightarrow> string \<Rightarrow> string" where
  "manifest_digest hex manifest = hex manifest"

definition is_lower_hex :: "char \<Rightarrow> bool" where
  "is_lower_hex c = (is_digit c \<or> c \<in> set ''abcdef'')"

text \<open>
  \<^verbatim>\<open>str(uuid.UUID(value)) == value\<close>: groups of 8, 4, 4, 4 and 12 lower-case hexadecimal digits,
  which is the only spelling \<^verbatim>\<open>uuid.UUID\<close> prints.
\<close>

definition is_canonical_uuid :: "string \<Rightarrow> bool" where
  "is_canonical_uuid v =
     (let groups = split_on (CHR ''-'') v in
      map length groups = [8, 4, 4, 4, 12] \<and> list_all (list_all is_lower_hex) groups)"

definition author_key :: "string \<Rightarrow> string \<Rightarrow> nat \<Rightarrow> string result" where
  "author_key table_uuid transaction_uuid version =
     (if \<not> is_canonical_uuid transaction_uuid then Inl InvalidTransactionUuidError
      else Inr (authors_prefix @ ''/'' @ table_uuid @ ''/'' @ transaction_uuid @ ''/'' @ show_nat version @ ''.json''))"

text \<open>
  \<^verbatim>\<open>_read\<close>: a stored record that cannot be decoded, or does not validate, reads as none; a store that
  does not answer raises.
\<close>

definition read_author :: "string \<Rightarrow> commit_author world \<Rightarrow> commit_author option result \<times> commit_author world" where
  "read_author k w = (case get_record k w of
       (Inl e, w1) \<Rightarrow> (if e = ValueError then Inr None else Inl e, w1)
     | (Inr r, w1) \<Rightarrow> (Inr r, w1))"

definition record_author ::
  "string \<Rightarrow> commit_author \<Rightarrow> commit_author world \<Rightarrow> bool result \<times> commit_author world" where
  "record_author table_uuid r w =
     (case author_key table_uuid (ca_transaction_uuid r) (ca_version r) of
        Inl e \<Rightarrow> (Inl e, w)
      | Inr k \<Rightarrow>
          (case create_json k r w of
             (Inr _, w1) \<Rightarrow> (Inr True, w1)
           | (Inl e, w1) \<Rightarrow>
               (if e \<noteq> RecordExistsError then (Inl e, w1)
                else case read_author k w1 of
                  (Inl e, w2) \<Rightarrow> (Inl e, w2)
                | (Inr None, w2) \<Rightarrow> (Inl AuthorRecordedError, w2)
                | (Inr (Some recorded), w2) \<Rightarrow>
                    (if (ca_author recorded, ca_ref recorded) \<noteq> (ca_author r, ca_ref r)
                     then (Inl AuthorRecordedError, w2) else (Inr False, w2)))))"

definition recorded_author ::
  "string \<Rightarrow> string \<Rightarrow> nat \<Rightarrow> string \<Rightarrow> commit_author world \<Rightarrow> commit_author option result \<times> commit_author world" where
  "recorded_author table_uuid transaction_uuid version ref w =
     (case author_key table_uuid transaction_uuid version of
        Inl _ \<Rightarrow> (Inr None, w)
      | Inr k \<Rightarrow>
          (case read_author k w of
             (Inl e, w1) \<Rightarrow> (Inl e, w1)
           | (Inr found, w1) \<Rightarrow>
               (Inr (case found of
                  None \<Rightarrow> None
                | Some f \<Rightarrow>
                    if (ca_transaction_uuid f, ca_version f, ca_ref f) \<noteq> (transaction_uuid, version, ref)
                    then None else Some f), w1)))"

definition forget_author ::
  "root \<Rightarrow> string \<Rightarrow> string \<Rightarrow> nat \<Rightarrow> commit_author world \<Rightarrow> unit result \<times> commit_author world" where
  "forget_author rt table_uuid transaction_uuid version w =
     (case author_key table_uuid transaction_uuid version of
        Inl _ \<Rightarrow> (Inr (), w)
      | Inr k \<Rightarrow>
          (case delete_record rt k w of
             (Inl e, w1) \<Rightarrow> (Inl e, w1)
           | (Inr _, w1) \<Rightarrow> (Inr (), w1)))"

section \<open>Moves of a tag\<close>

record tag_mover =
  tm_author :: string
  tm_tag :: string
  tm_version :: nat
  tm_recorded_at :: int

definition tag_moves :: "string \<Rightarrow> string \<Rightarrow> string" where
  "tag_moves table_uuid tag = authors_prefix @ ''/'' @ table_uuid @ ''/tags/'' @ tag"

definition tag_move_key :: "string \<Rightarrow> string \<Rightarrow> nat \<Rightarrow> string" where
  "tag_move_key table_uuid tag version = tag_moves table_uuid tag @ ''/'' @ show_nat version @ ''.json''"

definition record_tag_move ::
  "string \<Rightarrow> string \<Rightarrow> nat \<Rightarrow> string \<Rightarrow> int \<Rightarrow> tag_mover world \<Rightarrow> unit result \<times> tag_mover world" where
  "record_tag_move table_uuid tag version author now w =
     put_record (tag_move_key table_uuid tag version)
       \<lparr>tm_author = author, tm_tag = tag, tm_version = version, tm_recorded_at = now\<rparr> w"

definition tag_movers :: "string \<Rightarrow> string \<Rightarrow> tag_mover world \<Rightarrow> tag_mover list result \<times> tag_mover world" where
  "tag_movers table_uuid tag w = list_records (tag_moves table_uuid tag) True w"

definition forget_tag_move ::
  "root \<Rightarrow> string \<Rightarrow> string \<Rightarrow> nat \<Rightarrow> tag_mover world \<Rightarrow> bool result \<times> tag_mover world" where
  "forget_tag_move rt table_uuid tag version w = delete_record rt (tag_move_key table_uuid tag version) w"

section \<open>The reconciler's marks\<close>

type_synonym commit_marks = "(string \<times> int) list"

definition ref_key :: "string option \<Rightarrow> string option \<Rightarrow> string" where
  "ref_key branch identifier = (case branch of
       None \<Rightarrow> []
     | Some b \<Rightarrow> b @ ''@'' @ (case identifier of None \<Rightarrow> [] | Some i \<Rightarrow> i))"

definition read_marks ::
  "(string \<Rightarrow> string) \<Rightarrow> string \<Rightarrow> commit_marks world \<Rightarrow> commit_marks result \<times> commit_marks world" where
  "read_marks hex table_uuid w = (case get_record (record_key hex marks_prefix ''table'' table_uuid) w of
       (Inl e, w1) \<Rightarrow> (Inl e, w1)
     | (Inr r, w1) \<Rightarrow> (Inr (case r of None \<Rightarrow> [] | Some m \<Rightarrow> m), w1))"

definition write_marks ::
  "(string \<Rightarrow> string) \<Rightarrow> string \<Rightarrow> commit_marks \<Rightarrow> commit_marks world \<Rightarrow> unit result \<times> commit_marks world" where
  "write_marks hex table_uuid marks w = put_record (record_key hex marks_prefix ''table'' table_uuid) marks w"

lemmas [registry_simps] = forget_tag_move_def tag_movers_def record_tag_move_def write_marks_def

section \<open>An author is recorded once\<close>

lemma canonical_no_slash: "is_canonical_uuid v \<Longrightarrow> CHR ''/'' \<notin> set v"
proof
  assume c: "is_canonical_uuid v" and s: "CHR ''/'' \<in> set v"
  have "v = join_with (CHR ''-'') (split_on (CHR ''-'') v)" by (simp add: join_split)
  moreover have "set (join_with c ps) \<subseteq> insert c (\<Union> (set ` set ps))" for c :: char and ps
    by (induction c ps rule: join_with.induct) auto
  ultimately have "set v \<subseteq> insert (CHR ''-'') (\<Union> (set ` set (split_on (CHR ''-'') v)))" by metis
  with s obtain g where "g \<in> set (split_on (CHR ''-'') v)" "CHR ''/'' \<in> set g" by auto
  with c have "is_lower_hex (CHR ''/'')" by (auto simp: is_canonical_uuid_def Let_def list_all_iff)
  moreover have "\<not> is_lower_hex (CHR ''/'')" by code_simp
  ultimately show False by simp
qed

lemma author_key_separates:
  assumes "author_key u t v = Inr k" "author_key u t' v' = Inr k"
  shows "t = t' \<and> v = v'"
proof -
  have canon: "is_canonical_uuid t" "is_canonical_uuid t'"
    and "t @ CHR ''/'' # show_nat v = t' @ CHR ''/'' # show_nat v'"
    using assms by (auto simp: author_key_def split: if_splits)
  from first_sep_unique [OF this(3) canonical_no_slash [OF canon(1)] canonical_no_slash [OF canon(2)]]
  have "t = t'" "show_nat v = show_nat v'" by simp_all
  then show ?thesis by (metis parse_show_nat)
qed

text \<open>
  A commit has one author. For every interleaving: when \<^verbatim>\<open>record_author\<close> answers that it
  recorded the author, the key held nothing at its write and then holds exactly its record; when it
  answers that the author was recorded already, the stored record names the same author and ref and
  was left as it is, the manifest it names included; and in every other case, another caller's
  record among them, it wrote nothing.
\<close>

theorem author_is_recorded_once:
  assumes "record_author table_uuid r w = (x, w')"
    and "author_key table_uuid (ca_transaction_uuid r) (ca_version r) = Inr k"
  shows "(x = Inr True \<longrightarrow> lookup (drift 1 w) k = None \<and> w' = store_put k (Json r) (drift 1 w)) \<and>
    (x = Inr False \<longrightarrow> w' = drift 2 w \<and>
       (\<exists>old. lookup w' k = Some (Json old) \<and> ca_author old = ca_author r \<and> ca_ref old = ca_ref r)) \<and>
    (x \<noteq> Inr True \<longrightarrow> w' = drift 1 w \<or> w' = drift 2 w)"
proof -
  obtain y w1 where cr: "create_json k r w = (y, w1)" by force
  have c: "case y of Inl _ \<Rightarrow> w1 = drift 1 w
      | Inr _ \<Rightarrow> lookup (drift 1 w) k = None \<and> w1 = store_put k (Json r) (drift 1 w)"
    using create_json_effect [OF cr] cs.create_won [of k r w _ w1] cr by (auto simp: drift_def split: sum.splits)
  show ?thesis
  proof (cases "y = Inl RecordExistsError")
    case False
    with assms cr c show ?thesis
      by (auto simp: record_author_def split: sum.splits if_splits)
  next
    case True
    then have w1: "w1 = drift 1 w" using c by simp
    obtain z w2 where gt: "get_record k w1 = (z, w2)" by force
    have w2: "w2 = drift 2 w"
      using gt by (auto simp: get_record_def w1 drift_after [of 1 w, symmetric] numeral_2_eq_2 drift_def
          split: prod.splits bool.splits option.splits content.splits)
    have ans: "z = Inr (Some old) \<Longrightarrow> lookup w2 k = Some (Json old)" for old
      using reg.get_answer [of k w1 "Some old" w2] gt by (auto split: option.splits content.splits)
    show ?thesis
      using assms cr True gt w2 ans
      by (auto simp: record_author_def read_author_def split: sum.splits option.splits if_splits)
  qed
qed

theorem author_is_recorded_once_witness:
  "let tx = ''0123abcd-0000-4000-8000-0123456789ab'';
       r = \<lparr>ca_author = ''mallory'', ca_transaction_uuid = tx, ca_ref = [], ca_version = 3, ca_manifest = None\<rparr>;
       k = authors_prefix @ ''/u/'' @ tx @ ''/'' @ show_nat 3 @ ''.json'';
       w = \<lparr>objects = [(k, Json (r\<lparr>ca_author := ''alice''\<rparr>))], clock = 0, pending = []\<rparr> in
   snd (record_author ''u'' r w) = drift 1 w \<or> snd (record_author ''u'' r w) = drift 2 w"
proof -
  let ?tx = "''0123abcd-0000-4000-8000-0123456789ab''"
  let ?r = "\<lparr>ca_author = ''mallory'', ca_transaction_uuid = ?tx, ca_ref = [], ca_version = 3, ca_manifest = None\<rparr>"
  let ?k = "authors_prefix @ ''/u/'' @ ?tx @ ''/'' @ show_nat 3 @ ''.json''"
  let ?w = "\<lparr>objects = [(?k, Json (?r\<lparr>ca_author := ''alice''\<rparr>))], clock = 0, pending = []\<rparr>"
  have uuid: "is_canonical_uuid ?tx" by code_simp
  then have key: "author_key ''u'' (ca_transaction_uuid ?r) (ca_version ?r) = Inr ?k"
    by (simp add: author_key_def)
  have "fst (record_author ''u'' ?r ?w) = Inl AuthorRecordedError"
    using key by (simp add: record_author_def create_json_def lookup_def read_author_def get_record_def)
  with author_is_recorded_once [OF surjective_pairing key, of ?w] show ?thesis
    by (simp add: Let_def)
qed

end
