(* ===== verification/Maintenance_Policies.thy ===== *)
theory Maintenance_Policies
  imports Records
begin

text \<open>
  \<^verbatim>\<open>lakehouse_kit/maintenance_policies.py\<close>: the maintenance policies the catalog writes and the
  sweep enforces, one JSON record per table, namespace or project, and the stamps the sweep keeps
  beside them. \<open>repr\<close> is \<^verbatim>\<open>str()\<close> of a JSON array or object.
\<close>

section \<open>The registry\<close>

definition policies_prefix :: string where
  "policies_prefix = ''_policies''"

text \<open>\<^verbatim>\<open>record[k]\<close> as a string, or \<^verbatim>\<open>KeyError\<close>.\<close>

definition item_str :: "(json \<Rightarrow> string) \<Rightarrow> dict \<Rightarrow> string \<Rightarrow> string result" where
  "item_str repr r k = (case dict_get r k of None \<Rightarrow> Inl KeyError | Some v \<Rightarrow> Inr (py_str repr v))"

definition policy_key :: "(json \<Rightarrow> string) \<Rightarrow> dict \<Rightarrow> string result" where
  "policy_key repr r =
     item_str repr r (if dict_get r ''kind'' \<in> {Some (JStr ''table''), Some (JStr ''namespace'')}
       then ''uuid'' else ''id'')"

definition put_policy ::
  "(string \<Rightarrow> string) \<Rightarrow> (json \<Rightarrow> string) \<Rightarrow> dict \<Rightarrow> dict world \<Rightarrow> unit result \<times> dict world" where
  "put_policy hex repr r w = (case (item_str repr r ''kind'', policy_key repr r) of
       (Inl e, _) \<Rightarrow> (Inl e, w)
     | (_, Inl e) \<Rightarrow> (Inl e, w)
     | (Inr kind, Inr key) \<Rightarrow> put_record (record_key hex policies_prefix kind key) r w)"

definition get_policy :: "(string \<Rightarrow> string) \<Rightarrow> string \<Rightarrow> string \<Rightarrow> dict world \<Rightarrow> dict option result \<times> dict world" where
  "get_policy hex kind key w = get_record (record_key hex policies_prefix kind key) w"

definition delete_policy ::
  "root \<Rightarrow> (string \<Rightarrow> string) \<Rightarrow> string \<Rightarrow> string \<Rightarrow> dict world \<Rightarrow> bool result \<times> dict world" where
  "delete_policy rt hex kind key w = delete_record rt (record_key hex policies_prefix kind key) w"

definition record_is_well_formed :: "dict \<Rightarrow> bool" where
  "record_is_well_formed r =
     (if \<not> truthy (dict_get r ''kind'') then False
      else if dict_get r ''kind'' = Some (JStr ''project'') then
        truthy (dict_get r ''id'') \<and>
        (case dict_get r ''buckets'' of Some (JList bs) \<Rightarrow> bs \<noteq> [] | _ \<Rightarrow> False)
      else truthy (dict_get r ''uuid''))"

definition list_policies :: "dict world \<Rightarrow> dict list result \<times> dict world" where
  "list_policies w = (case list_records policies_prefix False w of
       (Inl e, w1) \<Rightarrow> (Inl e, w1)
     | (Inr rs, w1) \<Rightarrow> (Inr (filter record_is_well_formed rs), w1))"

section \<open>Which policy governs\<close>

text \<open>\<^verbatim>\<open>_by_uuid\<close>: a later record of the same uuid replaces an earlier one.\<close>

definition by_uuid :: "(json \<Rightarrow> string) \<Rightarrow> dict list \<Rightarrow> string \<Rightarrow> (string \<times> dict) list" where
  "by_uuid repr records kind =
     foldl (\<lambda>d r. AList.update (py_str repr (the (dict_get r ''uuid''))) r d) []
       (filter (\<lambda>r. dict_get r ''kind'' = Some (JStr kind) \<and> truthy (dict_get r ''uuid'')) records)"

text \<open>\<^verbatim>\<open>uri.removeprefix("s3://").split("/", 1)[0]\<close>.\<close>

definition bucket_of :: "string \<Rightarrow> string" where
  "bucket_of uri = hd (split_on (CHR ''/'') (remove_prefix ''s3://'' uri))"

text \<open>\<^verbatim>\<open>bucket in (record.get("buckets") or [])\<close>, for the shapes JSON gives: a list, or an object by its keys.\<close>

definition claims_bucket :: "string \<Rightarrow> dict \<Rightarrow> bool" where
  "claims_bucket bucket r = (case dict_get r ''buckets'' of
       Some (JList bs) \<Rightarrow> JStr bucket \<in> set bs
     | Some (JObj kv) \<Rightarrow> bucket \<in> fst ` set kv
     | Some (JStr s) \<Rightarrow> s \<noteq> [] \<and> sublist bucket s
     | _ \<Rightarrow> False)"

definition project_policy :: "dict list \<Rightarrow> string \<Rightarrow> dict option" where
  "project_policy records uri =
     (let hits = filter (\<lambda>r. dict_get r ''kind'' = Some (JStr ''project'') \<and> claims_bucket (bucket_of uri) r) records in
      if length hits > 1 then None else if hits = [] then None else Some (hd hits))"

definition resolve_policy ::
  "(json \<Rightarrow> string) \<Rightarrow> dict list \<Rightarrow> string \<Rightarrow> string \<Rightarrow> string list \<Rightarrow> dict option" where
  "resolve_policy repr records uri table_uuid namespace_uuids =
     (case map_of (by_uuid repr records ''table'') table_uuid of
        Some r \<Rightarrow> Some r
      | None \<Rightarrow>
          (case List.find (\<lambda>u. map_of (by_uuid repr records ''namespace'') u \<noteq> None) (rev namespace_uuids) of
             Some u \<Rightarrow> map_of (by_uuid repr records ''namespace'') u
           | None \<Rightarrow> project_policy records uri))"

section \<open>The sweep's stamps\<close>

definition state_prefix :: string where
  "state_prefix = policies_prefix @ ''/state''"

definition table_state :: "string \<Rightarrow> string" where
  "table_state table_uuid = state_prefix @ ''/'' @ table_uuid"

definition cadence_key :: "(string \<Rightarrow> string) \<Rightarrow> string \<Rightarrow> string \<Rightarrow> string" where
  "cadence_key hex table_uuid uri = record_key hex (table_state table_uuid) ''cadence'' uri"

definition policy_of :: "(json \<Rightarrow> string) \<Rightarrow> dict \<Rightarrow> string result" where
  "policy_of repr r = (case (item_str repr r ''kind'', policy_key repr r) of
       (Inl e, _) \<Rightarrow> Inl e
     | (_, Inl e) \<Rightarrow> Inl e
     | (Inr kind, Inr key) \<Rightarrow> Inr (kind @ '':'' @ key))"

definition stamp_under :: "string \<Rightarrow> dict option \<Rightarrow> string option" where
  "stamp_under policy stamped = (case stamped of
       None \<Rightarrow> None
     | Some s \<Rightarrow>
         (if dict_get s ''policy'' \<noteq> Some (JStr policy) then None
          else (case dict_get s ''last_maintained_at'' of Some (JStr v) \<Rightarrow> Some v | _ \<Rightarrow> None)))"

text \<open>
  \<^verbatim>\<open>read_state\<close>: an absent stamp answers before the policy's name is formed, so only a present one
  can raise for a record without its keys.
\<close>

definition read_state ::
  "(string \<Rightarrow> string) \<Rightarrow> (json \<Rightarrow> string) \<Rightarrow> dict \<Rightarrow> string \<Rightarrow> string \<Rightarrow> dict world
    \<Rightarrow> string option result \<times> dict world" where
  "read_state hex repr r table_uuid uri w = (case get_record (cadence_key hex table_uuid uri) w of
       (Inl e, w1) \<Rightarrow> (Inl e, w1)
     | (Inr None, w1) \<Rightarrow> (Inr None, w1)
     | (Inr (Some s), w1) \<Rightarrow>
         (case policy_of repr r of Inl e \<Rightarrow> (Inl e, w1) | Inr policy \<Rightarrow> (Inr (stamp_under policy (Some s)), w1)))"

definition write_state ::
  "(string \<Rightarrow> string) \<Rightarrow> (json \<Rightarrow> string) \<Rightarrow> dict \<Rightarrow> string \<Rightarrow> string \<Rightarrow> string \<Rightarrow> dict world
    \<Rightarrow> unit result \<times> dict world" where
  "write_state hex repr r table_uuid uri stamp w = (case policy_of repr r of
       Inl e \<Rightarrow> (Inl e, w)
     | Inr policy \<Rightarrow> put_record (cadence_key hex table_uuid uri)
         [(''policy'', JStr policy), (''last_maintained_at'', JStr stamp)] w)"

definition planned_key :: "string \<Rightarrow> string" where
  "planned_key table_uuid = table_state table_uuid @ ''/planned.json''"

definition planned_version :: "dict option \<Rightarrow> int option" where
  "planned_version r = (case r of
       None \<Rightarrow> None
     | Some s \<Rightarrow> (case dict_get s ''last_planned_version'' of
           Some (JInt n) \<Rightarrow> Some n | Some (JBool b) \<Rightarrow> Some (if b then 1 else 0) | _ \<Rightarrow> None))"

definition read_planned_version :: "string \<Rightarrow> dict world \<Rightarrow> int option result \<times> dict world" where
  "read_planned_version table_uuid w = (case get_record (planned_key table_uuid) w of
       (Inl e, w1) \<Rightarrow> (Inl e, w1)
     | (Inr r, w1) \<Rightarrow> (Inr (planned_version r), w1))"

definition write_planned_version :: "string \<Rightarrow> int \<Rightarrow> dict world \<Rightarrow> unit result \<times> dict world" where
  "write_planned_version table_uuid version w =
     put_record (planned_key table_uuid) [(''last_planned_version'', JInt version)] w"

lemmas [registry_simps] = get_policy_def delete_policy_def read_planned_version_def write_planned_version_def

section \<open>Precedence\<close>

lemma map_of_by_uuid_fold:
  "map_of (foldl (\<lambda>d r. AList.update (f r) r d) d rs) u =
   (case List.find (\<lambda>r. f r = u) (rev rs) of Some r \<Rightarrow> Some r | None \<Rightarrow> map_of d u)"
  by (induction rs rule: rev_induct) (auto split: option.splits)

definition governs :: "(json \<Rightarrow> string) \<Rightarrow> string \<Rightarrow> string \<Rightarrow> dict \<Rightarrow> bool" where
  "governs repr kind u r \<longleftrightarrow> dict_get r ''kind'' = Some (JStr kind) \<and> truthy (dict_get r ''uuid'') \<and>
     py_str repr (the (dict_get r ''uuid'')) = u"

lemma find_filter: "List.find P (filter Q xs) = List.find (\<lambda>x. Q x \<and> P x) xs"
  by (induction xs) auto

lemma map_of_by_uuid: "map_of (by_uuid repr records kind) u = List.find (governs repr kind u) (rev records)"
  by (simp add: by_uuid_def map_of_by_uuid_fold rev_filter find_filter governs_def [abs_def] conj_assoc
      split: option.splits)

lemma find_rev_Some:
  "List.find P (rev xs) = Some x \<Longrightarrow> \<exists>before after. xs = before @ x # after \<and> P x \<and> (\<forall>y\<in>set after. \<not> P y)"
proof (induction xs rule: rev_induct)
  case (snoc y xs)
  show ?case
  proof (cases "P y")
    case True
    with snoc.prems show ?thesis by (intro exI [of _ xs] exI [of _ "[]"]) auto
  next
    case False
    with snoc obtain before after where "xs = before @ x # after" "P x" "\<forall>y\<in>set after. \<not> P y" by auto
    with False show ?thesis by (intro exI [of _ before] exI [of _ "after @ [y]"]) auto
  qed
qed simp

lemma find_rev_None: "List.find P (rev xs) = None \<longleftrightarrow> (\<forall>x\<in>set xs. \<not> P x)"
  by (simp add: find_None_ball)

lemma find_rev_member: "List.find P (rev xs) = Some x \<Longrightarrow> x \<in> set xs \<and> P x"
  by (auto dest: find_rev_Some)

definition ungoverned :: "(json \<Rightarrow> string) \<Rightarrow> dict list \<Rightarrow> string \<Rightarrow> string \<Rightarrow> bool" where
  "ungoverned repr records kind u = (\<forall>r\<in>set records. \<not> governs repr kind u r)"

definition bucket_claims :: "dict list \<Rightarrow> string \<Rightarrow> dict list" where
  "bucket_claims records uri =
     filter (\<lambda>r. dict_get r ''kind'' = Some (JStr ''project'') \<and> claims_bucket (bucket_of uri) r) records"

text \<open>
  The policy that governs a table is found by precedence, and ambiguity governs nothing. A
  policy answered is a record of the table itself; or, no record being the table's, a record of an
  enclosing namespace with no record for any nearer one; or, with neither, the one project record
  that claims the dataset's bucket. None is answered exactly when the table has no record, no
  enclosing namespace has one, and not exactly one project claims the bucket.
\<close>

theorem policy_precedence:
  "case resolve_policy repr records uri table_uuid namespaces of
     Some r \<Rightarrow>
       r \<in> set records \<and>
       (governs repr ''table'' table_uuid r \<or>
        ungoverned repr records ''table'' table_uuid \<and>
          (\<exists>outer u inner. namespaces = outer @ u # inner \<and> governs repr ''namespace'' u r \<and>
             list_all (ungoverned repr records ''namespace'') inner) \<or>
        ungoverned repr records ''table'' table_uuid \<and>
          list_all (ungoverned repr records ''namespace'') namespaces \<and> bucket_claims records uri = [r])
   | None \<Rightarrow>
       ungoverned repr records ''table'' table_uuid \<and>
       list_all (ungoverned repr records ''namespace'') namespaces \<and> length (bucket_claims records uri) \<noteq> 1"
proof -
  have table: "map_of (by_uuid repr records ''table'') table_uuid = None \<longleftrightarrow> ungoverned repr records ''table'' table_uuid"
    by (simp add: map_of_by_uuid find_rev_None ungoverned_def)
  have ungov: "map_of (by_uuid repr records ''namespace'') u = None \<longleftrightarrow> ungoverned repr records ''namespace'' u" for u
    by (simp add: map_of_by_uuid find_rev_None ungoverned_def)
  consider (table) r where "map_of (by_uuid repr records ''table'') table_uuid = Some r"
    | (ns) u where "map_of (by_uuid repr records ''table'') table_uuid = None"
        "List.find (\<lambda>u. map_of (by_uuid repr records ''namespace'') u \<noteq> None) (rev namespaces) = Some u"
    | (project) "map_of (by_uuid repr records ''table'') table_uuid = None"
        "List.find (\<lambda>u. map_of (by_uuid repr records ''namespace'') u \<noteq> None) (rev namespaces) = None"
    by (meson not_None_eq)
  then show ?thesis
  proof cases
    case table
    then show ?thesis
      using find_rev_member [of "governs repr ''table'' table_uuid" records r]
      by (simp add: resolve_policy_def map_of_by_uuid)
  next
    case ns
    obtain outer inner where split: "namespaces = outer @ u # inner"
      "map_of (by_uuid repr records ''namespace'') u \<noteq> None"
      "\<forall>v\<in>set inner. map_of (by_uuid repr records ''namespace'') v = None"
      using find_rev_Some [OF ns(2)] by auto
    then obtain r where n: "map_of (by_uuid repr records ''namespace'') u = Some r" by blast
    have "r \<in> set records \<and> governs repr ''namespace'' u r"
      using find_rev_member [of "governs repr ''namespace'' u" records r] n by (simp add: map_of_by_uuid)
    moreover have "list_all (ungoverned repr records ''namespace'') inner"
      using split(3) ungov by (simp add: list_all_iff)
    ultimately show ?thesis
      using ns n table split(1) by (auto simp: resolve_policy_def)
  next
    case project
    have "list_all (ungoverned repr records ''namespace'') namespaces"
      using project(2) ungov by (simp add: find_None_ball list_all_iff)
    moreover have "set (bucket_claims records uri) \<subseteq> set records" by (auto simp: bucket_claims_def)
    ultimately show ?thesis
      using project table
      by (auto simp: resolve_policy_def project_policy_def bucket_claims_def [symmetric] Let_def
          length_Suc_conv neq_Nil_conv not_less)
  qed
qed

theorem policy_precedence_witness:
  "let project = (\<lambda>i. [(''kind'', JStr ''project''), (''id'', JStr i), (''buckets'', JList [JStr ''lake''])]) in
   resolve_policy (\<lambda>_. []) [project ''a'', project ''b''] ''s3://lake/t'' ''u'' [] = None \<and>
   length (bucket_claims [project ''a'', project ''b''] ''s3://lake/t'') \<noteq> 1"
proof -
  let ?project = "\<lambda>i. [(''kind'', JStr ''project''), (''id'', JStr i), (''buckets'', JList [JStr ''lake''])]"
  have "resolve_policy (\<lambda>_. []) [?project ''a'', ?project ''b''] ''s3://lake/t'' ''u'' [] = None" by code_simp
  then show ?thesis
    using policy_precedence [where repr = "\<lambda>_. []" and records = "[?project ''a'', ?project ''b'']"
        and uri = "''s3://lake/t''" and table_uuid = "''u''" and namespaces = "[]"]
    by (simp only: Let_def option.case) blast
qed

end
