(* ===== verification/Leases.thy ===== *)
theory Leases
  imports Records
begin

text \<open>
  What the two lease registries of the control root have in common. A history fence
  (\<^verbatim>\<open>history_fences.py\<close>) and a table's commit turns (\<^verbatim>\<open>commit_turns.py\<close>) are each one record
  listing leases: a lease names its token and when it lapses, a take keeps the leases that were
  live at its read and appends its own unless a live one conflicts with it, and a release drops
  the leases of its token together with the lapsed ones. The contract is the locale
  \<open>lease_protocol\<close>; the exclusion every holder relies on is proved once inside it, and each
  registry interprets it on its own step relation.
\<close>

text \<open>
  The record's leases, the store's clock, and the leases that were granted and not yet released
  by their holders. The last is what the clients believe they hold; no store keeps it.
\<close>

record 'h lease_sys =
  entries :: "'h list"
  now :: int
  granted :: "'h list"

locale lease_protocol =
  fixes token_of :: "'h \<Rightarrow> string"
    and expires :: "'h \<Rightarrow> int"
    and conflict :: "'h \<Rightarrow> 'h \<Rightarrow> bool"
    and step :: "'h lease_sys \<Rightarrow> 'h lease_sys \<Rightarrow> bool"
  assumes conflict_sym: "conflict a b \<Longrightarrow> conflict b a"
    and step_cases: "step s s' \<Longrightarrow>
      (now s \<le> now s' \<and> entries s' = entries s \<and> granted s' = granted s)
      \<or> (\<exists>t m. t \<le> now s \<and> now s' = now s
            \<and> (\<forall>h\<in>set (entries s). t < expires h \<longrightarrow> \<not> conflict h m)
            \<and> entries s' = filter (\<lambda>h. t < expires h) (entries s) @ [m] \<and> granted s' = m # granted s)
      \<or> (\<exists>t k. t \<le> now s \<and> now s' = now s
            \<and> entries s' = filter (\<lambda>h. token_of h \<noteq> k \<and> t < expires h) (entries s)
            \<and> granted s' = filter (\<lambda>h. token_of h \<noteq> k) (granted s))"
begin

text \<open>No two leases of the record conflict, lapsed ones included.\<close>

definition compatible :: "'h list \<Rightarrow> bool" where
  "compatible hs = sorted_wrt (\<lambda>a b. \<not> conflict a b) hs"

text \<open>Every lease its holder still relies on is in the record.\<close>

definition covered :: "'h lease_sys \<Rightarrow> bool" where
  "covered s = (\<forall>h\<in>set (granted s). now s < expires h \<longrightarrow> h \<in> set (entries s))"

definition lease_inv :: "'h lease_sys \<Rightarrow> bool" where
  "lease_inv s = (compatible (entries s) \<and> covered s)"

lemma compatible_apart:
  "compatible hs \<Longrightarrow> a \<in> set hs \<Longrightarrow> b \<in> set hs \<Longrightarrow> a \<noteq> b \<Longrightarrow> \<not> conflict a b"
  unfolding compatible_def
  by (rule sorted_wrt_pair [where R = "\<lambda>a b. \<not> conflict a b"]) (auto intro: sympI dest: conflict_sym)

lemma compatible_filter: "compatible hs \<Longrightarrow> compatible (filter P hs)"
  unfolding compatible_def by (rule sorted_wrt_filter)

lemma compatible_snoc:
  "compatible hs \<Longrightarrow> (\<forall>h\<in>set hs. \<not> conflict h m) \<Longrightarrow> compatible (hs @ [m])"
  unfolding compatible_def by (simp add: sorted_wrt_append)

lemma step_keeps_inv:
  assumes "step s s'" "lease_inv s"
  shows "lease_inv s'"
proof -
  have comp: "compatible (entries s)" and cov: "covered s"
    using assms(2) by (simp_all add: lease_inv_def)
  consider (tick) "now s \<le> now s'" "entries s' = entries s" "granted s' = granted s"
    | (take) t m where "t \<le> now s" "now s' = now s"
        "\<forall>h\<in>set (entries s). t < expires h \<longrightarrow> \<not> conflict h m"
        "entries s' = filter (\<lambda>h. t < expires h) (entries s) @ [m]" "granted s' = m # granted s"
    | (release) t k where "t \<le> now s" "now s' = now s"
        "entries s' = filter (\<lambda>h. token_of h \<noteq> k \<and> t < expires h) (entries s)"
        "granted s' = filter (\<lambda>h. token_of h \<noteq> k) (granted s)"
    using step_cases [OF assms(1)] by blast
  then show ?thesis
  proof cases
    case tick
    with comp cov show ?thesis by (force simp: lease_inv_def covered_def)
  next
    case take
    then have "compatible (entries s')"
      using comp by (auto intro: compatible_snoc compatible_filter)
    moreover have "covered s'"
      using take cov by (auto simp: covered_def)
    ultimately show ?thesis by (simp add: lease_inv_def)
  next
    case release
    then have "compatible (entries s')"
      using comp by (simp add: compatible_filter)
    moreover have "covered s'"
      using release cov by (auto simp: covered_def)
    ultimately show ?thesis by (simp add: lease_inv_def)
  qed
qed

lemma run_keeps_inv: "step\<^sup>*\<^sup>* s s' \<Longrightarrow> lease_inv s \<Longrightarrow> lease_inv s'"
  by (induction rule: rtranclp_induct) (auto intro: step_keeps_inv)

lemma inv_start: "lease_inv \<lparr>entries = [], now = t, granted = []\<rparr>"
  by (simp add: lease_inv_def covered_def compatible_def)

text \<open>Two holders that both still rely on their leases never conflict.\<close>

lemma exclusion:
  assumes "lease_inv s" "a \<in> set (granted s)" "b \<in> set (granted s)" "a \<noteq> b"
    and "now s < expires a" "now s < expires b"
  shows "\<not> conflict a b"
proof -
  have "a \<in> set (entries s)" "b \<in> set (entries s)" "compatible (entries s)"
    using assms by (simp_all add: lease_inv_def covered_def)
  with assms(4) show ?thesis by (simp add: compatible_apart)
qed

text \<open>A step that grants a lease is a take of that lease.\<close>

lemma grant_is_take:
  assumes "step s s'" "granted s' = m # granted s"
  obtains t where "t \<le> now s" "now s' = now s" "\<forall>h\<in>set (entries s). t < expires h \<longrightarrow> \<not> conflict h m"
    "entries s' = filter (\<lambda>h. t < expires h) (entries s) @ [m]"
proof -
  have "granted s' \<noteq> filter P (granted s)" for P
    using assms(2) impossible_Cons [OF length_filter_le] by metis
  then show thesis
    using step_cases [OF assms(1)] assms(2) that by auto
qed

lemma granted_is_kept: "step s s' \<Longrightarrow> granted s' = m # granted s \<Longrightarrow> m \<in> set (entries s')"
  by (erule (1) grant_is_take) simp

text \<open>A step that grants a lease grants none that conflicts with a lease still relied on.\<close>

lemma grant_exclusion:
  assumes "lease_inv s" "step s s'" "granted s' = m # granted s" "b \<in> set (granted s)" "now s' < expires b"
  shows "\<not> conflict b m"
proof -
  obtain t where t: "t \<le> now s" "now s' = now s" "\<forall>h\<in>set (entries s). t < expires h \<longrightarrow> \<not> conflict h m"
    using assms(2,3) by (rule grant_is_take)
  have "b \<in> set (entries s)"
    using assms(1,4,5) t(2) by (simp add: lease_inv_def covered_def)
  with t assms(5) show ?thesis by auto
qed

lemma run_exclusion:
  assumes "step\<^sup>*\<^sup>* \<lparr>entries = [], now = t, granted = []\<rparr> s"
    and "a \<in> set (granted s)" "b \<in> set (granted s)" "a \<noteq> b"
    and "now s < expires a" "now s < expires b"
  shows "\<not> conflict a b"
  using exclusion [OF run_keeps_inv [OF assms(1) inv_start]] assms(2-) .

end

end
