(* ===== verification/History_Fences.thy ===== *)
theory History_Fences
  imports Leases
begin

text \<open>
  \<^verbatim>\<open>lakehouse_kit/history_fences.py\<close>: the record that keeps a table's reclaims and its tag and
  branch writes from overlapping. The operations are the class \<^verbatim>\<open>TableHistory\<close>'s, over the
  store of \<open>Records\<close>; \<open>fence_step\<close> is the record's own state machine, and the refinement lemmas
  say that every operation is one step of it or none.
\<close>

section \<open>Data\<close>

datatype history_work = RECLAIM | REFS | BRANCH

definition excludes :: "history_work \<Rightarrow> history_work \<Rightarrow> bool" where
  "excludes held wk = (if held = wk then wk = BRANCH else held = RECLAIM \<or> wk = RECLAIM)"

record holder =
  h_token :: string
  h_work :: history_work
  h_taken_at :: int
  h_expires_at :: int

record history_fence =
  f_uuid :: string
  f_holders :: "holder list"

text \<open>Times are microseconds: \<^verbatim>\<open>HOLD\<close> is 15 minutes, and a take runs at most 8 rounds.\<close>

definition fence_hold :: int where
  "fence_hold = 15 * 60 * 1000000"

definition fence_attempts :: nat where
  "fence_attempts = 8"

definition fence_prefix :: string where
  "fence_prefix = ''_history_fences''"

definition fence_live :: "history_fence option \<Rightarrow> int \<Rightarrow> holder list" where
  "fence_live f t = (case f of None \<Rightarrow> [] | Some f \<Rightarrow> filter (\<lambda>h. t < h_expires_at h) (f_holders f))"

record table_history =
  th_root :: root
  th_uuid :: string

definition fence_key :: "(string \<Rightarrow> string) \<Rightarrow> table_history \<Rightarrow> string" where
  "fence_key hex th = record_key hex fence_prefix ''table'' (th_uuid th)"

section \<open>Operations\<close>

text \<open>
  \<^verbatim>\<open>TableHistory.take\<close>: \<open>mint n\<close> is the token \<^verbatim>\<open>uuid.uuid4()\<close> gives the round with \<open>n\<close> rounds left.
\<close>

fun fence_take_rounds ::
  "table_history \<Rightarrow> (history_fence content \<Rightarrow> 'e) \<Rightarrow> string \<Rightarrow> (nat \<Rightarrow> string) \<Rightarrow> history_work \<Rightarrow> nat
    \<Rightarrow> history_fence world \<Rightarrow> string result \<times> history_fence world" where
  "fence_take_rounds th dg k mint wk 0 w = (Inl HistoryFencedError, w)"
| "fence_take_rounds th dg k mint wk (Suc n) w = (case read_json_at dg k w of
       (Inl e, w1) \<Rightarrow> (Inl e, w1)
     | (Inr rd, w1) \<Rightarrow>
         (let t = at rd; holders = fence_live (map_option body (stored rd)) t in
          case List.find (\<lambda>h. excludes (h_work h) wk) holders of
            Some _ \<Rightarrow> (Inl HistoryFencedError, w1)
          | None \<Rightarrow>
              (let mine = \<lparr>h_token = mint n, h_work = wk, h_taken_at = t, h_expires_at = t + fence_hold\<rparr>;
                   fence = \<lparr>f_uuid = th_uuid th, f_holders = holders @ [mine]\<rparr> in
               case write_over (th_root th) dg k (stored rd) fence w1 of
                 (Inr _, w2) \<Rightarrow> (Inr (h_token mine), w2)
               | (Inl e, w2) \<Rightarrow>
                   (if e = RecordExistsError \<or> e = RecordChangedError
                    then fence_take_rounds th dg k mint wk n w2 else (Inl e, w2)))))"

definition fence_take ::
  "(string \<Rightarrow> string) \<Rightarrow> (history_fence content \<Rightarrow> 'e) \<Rightarrow> (nat \<Rightarrow> string) \<Rightarrow> table_history \<Rightarrow> history_work
    \<Rightarrow> history_fence world \<Rightarrow> string result \<times> history_fence world" where
  "fence_take hex dg mint th wk w = fence_take_rounds th dg (fence_key hex th) mint wk fence_attempts w"

text \<open>
  \<^verbatim>\<open>TableHistory.release\<close> never raises: every way it can end is one of these, with whether the
  hold it ended had already lapsed (\<^verbatim>\<open>history_fence_outlived\<close>).
\<close>

datatype release_log = NoRecord | HoldGone | Ended bool | NotReleased

fun fence_release_rounds ::
  "table_history \<Rightarrow> (history_fence content \<Rightarrow> 'e) \<Rightarrow> string \<Rightarrow> string \<Rightarrow> nat
    \<Rightarrow> history_fence world \<Rightarrow> release_log \<times> history_fence world" where
  "fence_release_rounds th dg k tok 0 w = (NotReleased, w)"
| "fence_release_rounds th dg k tok (Suc n) w = (case read_json_at dg k w of
       (Inl e, w1) \<Rightarrow> (NotReleased, w1)
     | (Inr rd, w1) \<Rightarrow>
         (case stored rd of
            None \<Rightarrow> (NoRecord, w1)
          | Some s \<Rightarrow>
              (case List.find (\<lambda>h. h_token h = tok) (f_holders (body s)) of
                 None \<Rightarrow> (HoldGone, w1)
               | Some mine \<Rightarrow>
                   (let kept = (body s)\<lparr>f_holders :=
                          filter (\<lambda>h. h_token h \<noteq> tok \<and> at rd < h_expires_at h) (f_holders (body s))\<rparr> in
                    case replace_json (th_root th) dg k kept (etag s) w1 of
                      (Inr _, w2) \<Rightarrow> (Ended (h_expires_at mine \<le> at rd), w2)
                    | (Inl e, w2) \<Rightarrow>
                        (if e = RecordChangedError then fence_release_rounds th dg k tok n w2
                         else (NotReleased, w2))))))"

definition fence_release ::
  "(string \<Rightarrow> string) \<Rightarrow> (history_fence content \<Rightarrow> 'e) \<Rightarrow> table_history \<Rightarrow> string
    \<Rightarrow> history_fence world \<Rightarrow> release_log \<times> history_fence world" where
  "fence_release hex dg th tok w = fence_release_rounds th dg (fence_key hex th) tok fence_attempts w"

text \<open>\<^verbatim>\<open>TableHistory.held\<close>: the block runs between a take and its release, whatever it raises.\<close>

definition fence_held ::
  "(string \<Rightarrow> string) \<Rightarrow> (history_fence content \<Rightarrow> 'e) \<Rightarrow> (nat \<Rightarrow> string) \<Rightarrow> table_history \<Rightarrow> history_work
    \<Rightarrow> (history_fence world \<Rightarrow> 'a result \<times> history_fence world)
    \<Rightarrow> history_fence world \<Rightarrow> 'a result \<times> history_fence world" where
  "fence_held hex dg mint th wk block w = (case fence_take hex dg mint th wk w of
       (Inl e, w1) \<Rightarrow> (Inl e, w1)
     | (Inr tok, w1) \<Rightarrow>
         (case block w1 of (x, w2) \<Rightarrow> (x, snd (fence_release hex dg th tok w2))))"

section \<open>The fence as a state machine\<close>

inductive fence_step :: "holder lease_sys \<Rightarrow> holder lease_sys \<Rightarrow> bool" where
  time_passes: "now s \<le> t \<Longrightarrow> fence_step s (s\<lparr>now := t\<rparr>)"
| taken: "t \<le> now s \<Longrightarrow> holders = filter (\<lambda>h. t < h_expires_at h) (entries s) \<Longrightarrow>
    List.find (\<lambda>h. excludes (h_work h) (h_work m)) holders = None \<Longrightarrow>
    h_taken_at m = t \<Longrightarrow> h_expires_at m = t + fence_hold \<Longrightarrow>
    fence_step s (s\<lparr>entries := holders @ [m], granted := m # granted s\<rparr>)"
| released: "t \<le> now s \<Longrightarrow>
    fence_step s (s\<lparr>entries := filter (\<lambda>h. h_token h \<noteq> tok \<and> t < h_expires_at h) (entries s),
                    granted := filter (\<lambda>h. h_token h \<noteq> tok) (granted s)\<rparr>)"

lemma excludes_sym: "excludes a b \<Longrightarrow> excludes b a"
  by (auto simp: excludes_def split: if_splits)

interpretation fence: lease_protocol h_token h_expires_at "\<lambda>a b. excludes (h_work a) (h_work b)" fence_step
proof
  fix s s' :: "holder lease_sys"
  assume "fence_step s s'"
  then show "(now s \<le> now s' \<and> entries s' = entries s \<and> granted s' = granted s)
      \<or> (\<exists>t m. t \<le> now s \<and> now s' = now s
            \<and> (\<forall>h\<in>set (entries s). t < h_expires_at h \<longrightarrow> \<not> excludes (h_work h) (h_work m))
            \<and> entries s' = filter (\<lambda>h. t < h_expires_at h) (entries s) @ [m] \<and> granted s' = m # granted s)
      \<or> (\<exists>t k. t \<le> now s \<and> now s' = now s
            \<and> entries s' = filter (\<lambda>h. h_token h \<noteq> k \<and> t < h_expires_at h) (entries s)
            \<and> granted s' = filter (\<lambda>h. h_token h \<noteq> k) (granted s))"
    by (cases rule: fence_step.cases) (auto simp: find_None_ball)
qed (rule excludes_sym)

text \<open>The record at a key as that machine's state.\<close>

definition fence_entries :: "history_fence content option \<Rightarrow> holder list" where
  "fence_entries c = (case c of Some (Json f) \<Rightarrow> f_holders f | _ \<Rightarrow> [])"

definition fence_sys :: "string \<Rightarrow> history_fence world \<Rightarrow> holder list \<Rightarrow> holder lease_sys" where
  "fence_sys k w g = \<lparr>entries = fence_entries (lookup w k), now = clock w, granted = g\<rparr>"

lemma fence_live_entries:
  "fence_live (map_option body st) t = filter (\<lambda>h. t < h_expires_at h)
     (fence_entries (map_option (\<lambda>s. Json (body s)) st))"
  by (cases st) (auto simp: fence_live_def fence_entries_def)

text \<open>Putting a fence record at the key changes nothing else of the state.\<close>

lemma fence_sys_put:
  "fence_sys k (store_put k (Json f) w) g = (fence_sys k w h)\<lparr>entries := f_holders f, granted := g\<rparr>"
  by (simp add: fence_sys_def fence_entries_def)

lemma fence_take_rounds_effect:
  assumes "inj dg" "th_root th = S3" and "fence_take_rounds th dg k mint wk n w = (x, w')"
  shows "\<exists>m. case x of Inl _ \<Rightarrow> w' = drift m w
    | Inr tok \<Rightarrow> \<exists>f h. h_token h = tok \<and> h_work h = wk \<and> w' = store_put k (Json f) (drift m w)
        \<and> (\<forall>g. fence_step (fence_sys k (drift m w) g) (fence_sys k w' (h # g)))"
  using assms(3)
proof (induction n arbitrary: w)
  case 0
  then show ?case by (auto intro: exI [of _ 0])
next
  case (Suc n)
  obtain y w1 where rd0: "read_json_at dg k w = (y, w1)" by force
  note w1 = read_json_at_drift [OF rd0]
  show ?case
  proof (cases y)
    case (Inl e)
    with Suc.prems rd0 w1 show ?thesis by auto
  next
    case (Inr rd)
    note rd = rd0 [unfolded Inr]
    define holders where "holders = fence_live (map_option body (stored rd)) (at rd)"
    define mine where "mine = \<lparr>h_token = mint n, h_work = wk, h_taken_at = at rd, h_expires_at = at rd + fence_hold\<rparr>"
    define f where "f = \<lparr>f_uuid = th_uuid th, f_holders = holders @ [mine]\<rparr>"
    obtain z w2 where wr: "write_over S3 dg k (stored rd) f w1 = (z, w2)" by force
    note round = cas_round_s3 [OF assms(1) rd wr]
    show ?thesis
    proof (cases "List.find (\<lambda>h. excludes (h_work h) wk) holders")
      case (Some h)
      with Suc.prems rd w1 show ?thesis by (auto simp: holders_def Let_def)
    next
      case None
      have unfolded: "(x, w') = (case z of Inr _ \<Rightarrow> (Inr (h_token mine), w2)
          | Inl e \<Rightarrow> (if e = RecordExistsError \<or> e = RecordChangedError
                      then fence_take_rounds th dg k mint wk n w2 else (Inl e, w2)))"
        using Suc.prems rd None wr assms(2)
        by (simp add: Let_def holders_def [symmetric] mine_def [symmetric] f_def [symmetric] split: sum.splits)
      show ?thesis
      proof (cases z)
        case (Inr u)
        with round have before: "lookup (drift 2 w) k = map_option (\<lambda>s. Json (body s)) (stored rd)"
          "at rd \<le> clock (drift 2 w)" "w2 = store_put k (Json f) (drift 2 w)" by auto
        have hs: "holders = filter (\<lambda>h. at rd < h_expires_at h) (fence_entries (lookup (drift 2 w) k))"
          by (simp add: holders_def fence_live_entries before(1))
        have "fence_step (fence_sys k (drift 2 w) g) (fence_sys k w2 (mine # g))" for g
        proof -
          let ?s = "fence_sys k (drift 2 w) g"
          have "fence_step ?s (?s\<lparr>entries := holders @ [mine], granted := mine # granted ?s\<rparr>)"
            using None before(2) hs by (intro fence_step.taken) (simp_all add: mine_def fence_sys_def)
          then show ?thesis
            by (simp add: before(3) f_def fence_sys_def fence_entries_def)
        qed
        moreover have "h_token mine = mint n" "h_work mine = wk"
          by (simp_all add: mine_def)
        ultimately show ?thesis
          using unfolded Inr before(3) by (intro exI [of _ 2]) (auto intro!: exI [of _ f] exI [of _ mine])
      next
        case (Inl e)
        with round have w2: "w2 = drift 2 w" by simp
        show ?thesis
        proof (cases "e = RecordExistsError \<or> e = RecordChangedError")
          case True
          with unfolded Inl have "fence_take_rounds th dg k mint wk n w2 = (x, w')" by simp
          from Suc.IH [OF this] show ?thesis
            unfolding w2 drift_add by blast
        next
          case False
          with unfolded Inl w2 show ?thesis by auto
        qed
      qed
    qed
  qed
qed

lemma fence_release_rounds_effect:
  assumes "inj dg" "th_root th = S3" and "fence_release_rounds th dg k tok n w = (x, w')"
  shows "\<exists>m. if (\<exists>b. x = Ended b) then
      (\<exists>f. w' = store_put k (Json f) (drift m w) \<and> tok \<notin> h_token ` set (f_holders f))
      \<and> (\<forall>g. fence_step (fence_sys k (drift m w) g) (fence_sys k w' (filter (\<lambda>h. h_token h \<noteq> tok) g)))
    else w' = drift m w"
  using assms(3)
proof (induction n arbitrary: w)
  case 0
  then show ?case by (auto intro: exI [of _ 0])
next
  case (Suc n)
  obtain y w1 where rd0: "read_json_at dg k w = (y, w1)" by force
  note w1 = read_json_at_drift [OF rd0]
  show ?case
  proof (cases "\<exists>rd s mine. y = Inr rd \<and> stored rd = Some s
      \<and> List.find (\<lambda>h. h_token h = tok) (f_holders (body s)) = Some mine")
    case False
    with Suc.prems rd0 w1 have "w' = drift 1 w \<and> (\<forall>b. x \<noteq> Ended b)"
      by (auto split: sum.splits option.splits)
    then show ?thesis by auto
  next
    case True
    then obtain rd s mine where y: "y = Inr rd" and s: "stored rd = Some s"
      and mine: "List.find (\<lambda>h. h_token h = tok) (f_holders (body s)) = Some mine" by blast
    define kept where "kept = (body s)\<lparr>f_holders :=
      filter (\<lambda>h. h_token h \<noteq> tok \<and> at rd < h_expires_at h) (f_holders (body s))\<rparr>"
    obtain z w2 where wr: "replace_json S3 dg k kept (etag s) w1 = (z, w2)" by force
    then have wr': "write_over S3 dg k (stored rd) kept w1 = (z, w2)"
      by (simp add: write_over_def s)
    note round = cas_round_s3 [OF assms(1) rd0 [unfolded y] wr']
    have unfolded: "(x, w') = (case z of Inr _ \<Rightarrow> (Ended (h_expires_at mine \<le> at rd), w2)
        | Inl e \<Rightarrow> (if e = RecordChangedError then fence_release_rounds th dg k tok n w2 else (NotReleased, w2)))"
      using Suc.prems rd0 y s mine wr assms(2)
      by (simp add: Let_def kept_def [symmetric] split: sum.splits)
    show ?thesis
    proof (cases z)
      case (Inr u)
      with round s have before: "lookup (drift 2 w) k = Some (Json (body s))"
        "at rd \<le> clock (drift 2 w)" "w2 = store_put k (Json kept) (drift 2 w)" by auto
      have "fence_step (fence_sys k (drift 2 w) g) (fence_sys k w2 (filter (\<lambda>h. h_token h \<noteq> tok) g))" for g
        using fence_step.released [of "at rd" "fence_sys k (drift 2 w) g" tok] before
        by (simp add: fence_sys_put [where h = g] kept_def fence_sys_def fence_entries_def)
      with unfolded Inr before(3) show ?thesis
        by (intro exI [of _ 2]) (auto simp: kept_def)
    next
      case (Inl e)
      with round have w2: "w2 = drift 2 w" by simp
      show ?thesis
      proof (cases "e = RecordChangedError")
        case True
        with unfolded Inl have "fence_release_rounds th dg k tok n w2 = (x, w')" by simp
        from Suc.IH [OF this] show ?thesis
          unfolding w2 drift_add by blast
      next
        case False
        with unfolded Inl w2 show ?thesis by auto
      qed
    qed
  qed
qed

text \<open>The first of the eight rounds.\<close>

lemmas fence_take_first = fence_take_rounds.simps(2) [where n = 7, unfolded Suc_numeral semiring_norm]
lemmas fence_release_first = fence_release_rounds.simps(2) [where n = 7, unfolded Suc_numeral semiring_norm]
lemmas fence_evaluate = fence_take_def fence_release_def fence_attempts_def fence_take_first
  fence_release_first read_json_at_def Let_def

section \<open>Properties\<close>

text \<open>In every state of the fence's machine, two unlapsed grants never do work that excludes each other.\<close>

lemma granted_work_is_compatible:
  assumes "fence_step\<^sup>*\<^sup>* \<lparr>entries = [], now = t, granted = []\<rparr> s"
    and "a \<in> set (granted s)" "b \<in> set (granted s)" "a \<noteq> b"
    and "now s < h_expires_at a" "now s < h_expires_at b"
  shows "(h_work a = RECLAIM \<longleftrightarrow> h_work b = RECLAIM) \<and> \<not> (h_work a = BRANCH \<and> h_work b = BRANCH)"
  using fence.run_exclusion [OF assms] by (auto simp: excludes_def split: if_splits)

text \<open>C1: Work that a table's history cannot take at once is never granted at once. While other clients
  act on the fence record only by takes, releases and the passing of time (\<open>gr m\<close> being the holds they
  have been granted and not released when this client's access number \<open>m\<close> is made), a
  \<^verbatim>\<open>TableHistory.take\<close> that returns a token did so at an access where no other unlapsed hold does
  conflicting work: a reclaim meets only reclaims, a tag or branch write meets no reclaim, and a branch
  create meets no other branch create. The record it leaves is again one the protocol can reach.\<close>

theorem history_fence_exclusion:
  assumes "inj dg" "th_root th = S3"
    and others: "\<And>m. fence_step\<^sup>*\<^sup>* \<lparr>entries = [], now = t, granted = []\<rparr> (fence_sys (fence_key hex th) (drift m w) (gr m))"
    and run: "fence_take hex dg mint th wk w = (Inr tok, w')"
  shows "\<exists>m h. h_token h = tok \<and> h_work h = wk \<and> h \<in> set (fence_entries (lookup w' (fence_key hex th)))
    \<and> fence_step\<^sup>*\<^sup>* \<lparr>entries = [], now = t, granted = []\<rparr> (fence_sys (fence_key hex th) w' (h # gr m))
    \<and> (\<forall>b\<in>set (gr m). clock w' < h_expires_at b \<longrightarrow>
          (h_work b = RECLAIM \<longleftrightarrow> wk = RECLAIM) \<and> \<not> (h_work b = BRANCH \<and> wk = BRANCH))"
proof -
  let ?k = "fence_key hex th"
  obtain m f h where h: "h_token h = tok" "h_work h = wk" "w' = store_put ?k (Json f) (drift m w)"
    and step: "fence_step (fence_sys ?k (drift m w) (gr m)) (fence_sys ?k w' (h # gr m))"
    using fence_take_rounds_effect [OF assms(1,2) run [unfolded fence_take_def]] by auto
  have inv: "fence.lease_inv (fence_sys ?k (drift m w) (gr m))"
    using fence.run_keeps_inv [OF others fence.inv_start] .
  have reach: "fence_step\<^sup>*\<^sup>* \<lparr>entries = [], now = t, granted = []\<rparr> (fence_sys ?k w' (h # gr m))"
    using others [of m] step by (rule rtranclp.rtrancl_into_rtrancl)
  have held: "h \<in> set (fence_entries (lookup w' ?k))"
    using fence.granted_is_kept [OF step] by (simp add: fence_sys_def)
  have apart: "(h_work b = RECLAIM \<longleftrightarrow> wk = RECLAIM) \<and> \<not> (h_work b = BRANCH \<and> wk = BRANCH)"
    if "b \<in> set (gr m)" "clock w' < h_expires_at b" for b
    using fence.grant_exclusion [OF inv step, of h b] that h(2)
    by (auto simp: fence_sys_def excludes_def split: if_splits)
  show ?thesis using h(1,2) held reach apart by blast
qed

theorem history_fence_exclusion_witness:
  "let th = \<lparr>th_root = S3, th_uuid = ''u''\<rparr>; k = fence_key id th;
       b = \<lparr>h_token = ''b'', h_work = REFS, h_taken_at = 5, h_expires_at = 5 + fence_hold\<rparr>;
       w = \<lparr>objects = [], clock = 5, pending = [\<lparr>others = \<lambda>_. [(k, Json \<lparr>f_uuid = ''u'', f_holders = [b]\<rparr>)], elapsed = 0, answers = True\<rparr>]\<rparr>
   in fst (fence_take id id (\<lambda>_. ''t'') th BRANCH w) = Inr ''t'' \<and>
      (\<exists>h. h_token h = ''t'' \<and> h_work h = BRANCH \<and>
        h \<in> set (fence_entries (lookup (snd (fence_take id id (\<lambda>_. ''t'') th BRANCH w)) k)))"
proof -
  let ?th = "\<lparr>th_root = S3, th_uuid = ''u''\<rparr>" let ?k = "fence_key id ?th"
  let ?b = "\<lparr>h_token = ''b'', h_work = REFS, h_taken_at = 5, h_expires_at = 5 + fence_hold\<rparr>"
  let ?w = "\<lparr>objects = [], clock = 5, pending = [\<lparr>others = \<lambda>_. [(?k, Json \<lparr>f_uuid = ''u'', f_holders = [?b]\<rparr>)], elapsed = 0,
    answers = True\<rparr>]\<rparr> :: history_fence world"
  let ?gr = "\<lambda>m::nat. if m = 0 then [] else [?b]"
  let ?s0 = "\<lparr>entries = [], now = 5, granted = []\<rparr>"
  have one: "fence_step ?s0 \<lparr>entries = [?b], now = 5, granted = [?b]\<rparr>"
    using fence_step.taken [of 5 ?s0 "[]" ?b] by simp
  have moved: "drift (Suc m) ?w = \<lparr>objects = [(?k, Json \<lparr>f_uuid = ''u'', f_holders = [?b]\<rparr>)], clock = 5, pending = []\<rparr>" for m
    by (induction m) (simp_all add: drift_after [symmetric] access_def)
  have others: "fence_step\<^sup>*\<^sup>* ?s0 (fence_sys ?k (drift m ?w) (?gr m))" for m
    using one by (cases m) (auto simp: moved fence_sys_def fence_entries_def lookup_def)
  have run: "fst (fence_take id id (\<lambda>_. ''t'') ?th BRANCH ?w) = Inr ''t''"
    by (simp add: fence_evaluate lookup_def fence_live_def write_over_def replace_json_def access_def excludes_def fence_hold_def)
  then have "fence_take id id (\<lambda>_. ''t'') ?th BRANCH ?w = (Inr ''t'', snd (fence_take id id (\<lambda>_. ''t'') ?th BRANCH ?w))"
    by (simp add: prod_eq_iff)
  from history_fence_exclusion [OF inj_on_id _ others this] run show ?thesis
    by (simp add: Let_def) blast
qed

text \<open>C36: The operation \<^verbatim>\<open>TableHistory.take\<close> refines that machine on S3 for every
  interleaving of other clients and every outage: if it returns a token, then some number of
  accesses into its run it replaced the fence record, and nothing else, by one step that grants
  a hold under that token for the work asked; if it raises, it changed nothing itself.\<close>

theorem fence_take_refines_step:
  assumes "inj dg" "th_root th = S3" and "fence_take hex dg mint th wk w = (x, w')"
  shows "\<exists>m. case x of Inl _ \<Rightarrow> w' = drift m w
    | Inr tok \<Rightarrow> \<exists>f h. h_token h = tok \<and> h_work h = wk
        \<and> w' = store_put (fence_key hex th) (Json f) (drift m w)
        \<and> (\<forall>g. fence_step (fence_sys (fence_key hex th) (drift m w) g) (fence_sys (fence_key hex th) w' (h # g)))"
  using assms unfolding fence_take_def by (rule fence_take_rounds_effect)

theorem fence_take_refines_step_witness:
  "let k = fence_key id \<lparr>th_root = S3, th_uuid = ''u''\<rparr>;
       w = \<lparr>objects = [], clock = 5, pending = []\<rparr>;
       mine = \<lparr>h_token = ''t'', h_work = REFS, h_taken_at = 5, h_expires_at = 5 + fence_hold\<rparr>;
       w' = store_put k (Json \<lparr>f_uuid = ''u'', f_holders = [mine]\<rparr>) w in
   \<exists>m (h::holder). h_token h = ''t'' \<and> fence_step (fence_sys k (drift m w) []) (fence_sys k w' [h])"
proof -
  let ?th = "\<lparr>th_root = S3, th_uuid = ''u''\<rparr>"
  let ?w = "\<lparr>objects = [], clock = 5, pending = []\<rparr> :: history_fence world"
  let ?mine = "\<lparr>h_token = ''t'', h_work = REFS, h_taken_at = 5, h_expires_at = 5 + fence_hold\<rparr>"
  have run: "fence_take id id (\<lambda>_. ''t'') ?th REFS ?w = (Inr ''t'',
      store_put (fence_key id ?th) (Json \<lparr>f_uuid = ''u'', f_holders = [?mine]\<rparr>) ?w)"
    by (simp add: fence_evaluate lookup_def fence_live_def write_over_def create_json_def)
  from fence_take_refines_step [OF inj_on_id _ run] show ?thesis
    by (simp add: Let_def) blast
qed

text \<open>\<^verbatim>\<open>TableHistory.release\<close> ends exactly its own hold: it never raises, and on S3, under
  every interleaving, either it leaves the store as the others made it, or it replaced the fence
  record by one release step, after which no hold of its token is left in the record.\<close>

theorem fence_release_refines_step:
  assumes "inj dg" "th_root th = S3" and "fence_release hex dg th tok w = (x, w')"
  shows "\<exists>m. if (\<exists>b. x = Ended b) then
      (\<exists>f. w' = store_put (fence_key hex th) (Json f) (drift m w) \<and> tok \<notin> h_token ` set (f_holders f))
      \<and> (\<forall>g. fence_step (fence_sys (fence_key hex th) (drift m w) g)
              (fence_sys (fence_key hex th) w' (filter (\<lambda>h. h_token h \<noteq> tok) g)))
    else w' = drift m w"
  using assms unfolding fence_release_def by (rule fence_release_rounds_effect)

theorem fence_release_refines_step_witness:
  "let w = \<lparr>objects = [], clock = 5, pending = [\<lparr>others = id, elapsed = 3, answers = True\<rparr>]\<rparr> in
   \<exists>m. \<lparr>objects = [], clock = 8, pending = []\<rparr> = (drift m w :: history_fence world)"
proof -
  let ?w = "\<lparr>objects = [], clock = 5, pending = [\<lparr>others = id, elapsed = 3, answers = True\<rparr>]\<rparr> :: history_fence world"
  have run: "fence_release id id \<lparr>th_root = S3, th_uuid = ''u''\<rparr> ''t'' ?w
      = (NoRecord, \<lparr>objects = [], clock = 8, pending = []\<rparr>)"
    by (simp add: fence_evaluate access_def lookup_def)
  from fence_release_refines_step [OF inj_on_id _ run] show ?thesis
    by (simp add: Let_def)
qed

text \<open>With no other client in the way, \<^verbatim>\<open>held\<close> runs its block exactly when no live holder
  does excluding work, and otherwise raises \<^verbatim>\<open>HistoryFencedError\<close> without running it or writing
  anything.\<close>

theorem fence_held_runs_block:
  assumes quiet: "pending w = []" and rec: "lookup w (fence_key hex th) = None \<or> lookup w (fence_key hex th) = Some (Json f0)"
    and hs: "hs = fence_live (case lookup w (fence_key hex th) of Some (Json f) \<Rightarrow> Some f | _ \<Rightarrow> None) (clock w)"
  shows "fence_held hex dg mint th wk block w =
    (if \<exists>h\<in>set hs. excludes (h_work h) wk then (Inl HistoryFencedError, w)
     else let mine = \<lparr>h_token = mint 7, h_work = wk, h_taken_at = clock w, h_expires_at = clock w + fence_hold\<rparr>;
              (x, w2) = block (store_put (fence_key hex th) (Json \<lparr>f_uuid = th_uuid th, f_holders = hs @ [mine]\<rparr>) w)
          in (x, snd (fence_release hex dg th (mint 7) w2)))"
proof (cases "\<exists>h\<in>set hs. excludes (h_work h) wk")
  case True
  then obtain h where "List.find (\<lambda>h. excludes (h_work h) wk) hs = Some h"
    by (cases "List.find (\<lambda>h. excludes (h_work h) wk) hs") (auto simp: find_None_ball)
  then show ?thesis
    using quiet rec hs True
    by (auto simp: fence_held_def fence_evaluate)
next
  case False
  then have "List.find (\<lambda>h. excludes (h_work h) wk) hs = None"
    by (simp add: find_None_ball)
  then show ?thesis
    using quiet rec hs False
    by (auto simp: fence_held_def fence_take_def fence_attempts_def fence_take_first read_json_at_def Let_def
        write_over_def create_json_def replace_json_def)
qed

theorem fence_held_runs_block_witness:
  "fst (fence_held id id (\<lambda>_. ''t'') \<lparr>th_root = S3, th_uuid = ''u''\<rparr> REFS (\<lambda>w. (Inr (1::int), w))
     \<lparr>objects = [], clock = 5, pending = []\<rparr>) = Inr 1"
  using fence_held_runs_block
    [of "\<lparr>objects = [], clock = 5, pending = []\<rparr>" id "\<lparr>th_root = S3, th_uuid = ''u''\<rparr>" undefined "[]"
      id "\<lambda>_. ''t''" REFS "\<lambda>w. (Inr (1::int), w)"]
  by (simp add: lookup_def fence_live_def Let_def)

end
