(* ===== verification/Shared_Reads.thy ===== *)
theory Shared_Reads
  imports Leases
begin

text \<open>
  The first half of \<^verbatim>\<open>lakehouse_kit/commit_turns.py\<close>: a table's turns as data, and
  \<^verbatim>\<open>_SharedReads\<close>, the view of them every waiter of one process shares. A load of the view is not
  atomic: other threads take locks, write records and clear views while it runs, so it is split
  into its begin and its finish and what the other threads do in between is a list of events.
\<close>

section \<open>Turns\<close>

record turn =
  t_token :: string
  t_ref :: "string option"
  t_taken_at :: int
  t_expires_at :: int
  t_handed_to :: "string option"

record commit_turns =
  ct_uuid :: string
  ct_turns :: "turn list"

record writer =
  wr_caller :: string
  wr_transaction :: string

definition writer_token :: "writer \<Rightarrow> string" where
  "writer_token wr = wr_caller wr @ ''#'' @ wr_transaction wr"

text \<open>Microseconds throughout: \<^verbatim>\<open>HOLD\<close> is 30 s, a shared read serves for 100 ms.\<close>

definition turn_hold :: int where
  "turn_hold = 30 * 1000000"

definition shared_read_us :: int where
  "shared_read_us = 100000"

definition shared_read_tables :: nat where
  "shared_read_tables = 1024"

text \<open>\<^verbatim>\<open>_kept\<close>: the turns live at a clock; \<^verbatim>\<open>_holds\<close>: whether another commit holds the ref's.\<close>

definition kept :: "commit_turns option \<Rightarrow> int \<Rightarrow> turn list" where
  "kept r t = (case r of None \<Rightarrow> [] | Some c \<Rightarrow> filter (\<lambda>u. t < t_expires_at u) (ct_turns c))"

definition holds :: "turn list \<Rightarrow> string option \<Rightarrow> string option \<Rightarrow> bool \<Rightarrow> bool" where
  "holds turns ref mine handed =
     list_ex (\<lambda>u. t_ref u = ref \<and> Some (t_token u) \<noteq> mine \<and> (handed \<or> t_handed_to u = None)) turns"

section \<open>The shared view\<close>

record shared_read =
  sr_root :: string
  sr_uuid :: string
  sr_options :: "(string \<times> string) list"
  sr_signer :: "string option"

record answer =
  a_turns :: "turn list"
  a_answered_at :: int

record shared_reads =
  held :: "(shared_read \<times> answer) list"
  locks :: "shared_read list"
  clearings :: "(shared_read \<times> nat) list"
  starts :: nat

definition no_shared_reads :: shared_reads where
  "no_shared_reads = \<lparr>held = [], locks = [], clearings = [], starts = 0\<rparr>"

definition peek :: "shared_reads \<Rightarrow> shared_read \<Rightarrow> int \<Rightarrow> turn list option" where
  "peek s r tm = (case map_of (held s) r of
       None \<Rightarrow> None
     | Some a \<Rightarrow> (if shared_read_us \<le> tm - a_answered_at a then None else Some (a_turns a)))"

definition cleared :: "shared_reads \<Rightarrow> shared_read \<Rightarrow> nat \<times> nat" where
  "cleared s r = (starts s, case map_of (clearings s) r of None \<Rightarrow> 0 | Some n \<Rightarrow> n)"

definition lock_for :: "shared_read \<Rightarrow> shared_reads \<Rightarrow> shared_reads" where
  "lock_for r s =
     (let s1 = (if r \<notin> set (locks s) \<and> shared_read_tables \<le> length (locks s)
                then \<lparr>held = [], locks = [], clearings = [], starts = Suc (starts s)\<rparr> else s)
      in if r \<in> set (locks s1) then s1 else s1\<lparr>locks := r # locks s1\<rparr>)"

definition forget :: "shared_read \<Rightarrow> shared_reads \<Rightarrow> shared_reads" where
  "forget r s =
     (let s1 = (if r \<in> set (locks s)
                then s\<lparr>clearings := AList.update r (Suc (snd (cleared s r))) (clearings s)\<rparr> else s)
      in s1\<lparr>held := AList.delete r (held s1)\<rparr>)"

text \<open>\<^verbatim>\<open>_SharedReads.get\<close> around its load: what is noted before it, and what is kept after it.\<close>

definition begin_load :: "shared_read \<Rightarrow> shared_reads \<Rightarrow> (nat \<times> nat) \<times> shared_reads" where
  "begin_load r s = (let s1 = lock_for r s in (cleared s1 r, s1))"

definition finish_load :: "shared_read \<Rightarrow> nat \<times> nat \<Rightarrow> turn list \<Rightarrow> int \<Rightarrow> shared_reads \<Rightarrow> shared_reads" where
  "finish_load r before turns tm s =
     (if cleared s r = before
      then s\<lparr>held := AList.update r \<lparr>a_turns = turns, a_answered_at = tm\<rparr> (held s)\<rparr> else s)"

text \<open>What other threads of the process do to the view meanwhile.\<close>

datatype shared_event =
    Locked shared_read
  | Forgot shared_read
  | Loaded shared_read "nat \<times> nat" "turn list" int

fun shared_apply :: "shared_event \<Rightarrow> shared_reads \<Rightarrow> shared_reads" where
  "shared_apply (Locked r) s = lock_for r s"
| "shared_apply (Forgot r) s = forget r s"
| "shared_apply (Loaded r before turns tm) s = finish_load r before turns tm s"

definition shared_run :: "shared_event list \<Rightarrow> shared_reads \<Rightarrow> shared_reads" where
  "shared_run es s = fold shared_apply es s"

text \<open>
  Where a read's clearings stand only ever moves up, in the lexicographic order of the starts and
  the read's own count, and a read loses its lock only to a new start.
\<close>

definition moved :: "shared_read \<Rightarrow> nat \<times> nat \<Rightarrow> shared_reads \<Rightarrow> bool" where
  "moved r b s = (fst b < starts s \<or> fst b = starts s \<and> snd b < snd (cleared s r))"

definition since :: "shared_read \<Rightarrow> nat \<times> nat \<Rightarrow> shared_reads \<Rightarrow> bool" where
  "since r b s = (fst b < starts s \<or> fst b = starts s \<and> snd b \<le> snd (cleared s r) \<and> r \<in> set (locks s))"

lemma begin_load_since: "begin_load r s = (b, s') \<Longrightarrow> since r b s'"
  by (auto simp: begin_load_def since_def cleared_def lock_for_def Let_def split: option.splits if_splits)

lemma event_since: "since r b s \<Longrightarrow> since r b (shared_apply e s)"
  by (cases e) (auto simp: since_def cleared_def lock_for_def forget_def finish_load_def Let_def split: option.splits)

lemma event_moved: "since r b s \<Longrightarrow> moved r b s \<Longrightarrow> moved r b (shared_apply e s)"
  by (cases e) (auto simp: since_def moved_def cleared_def lock_for_def forget_def finish_load_def Let_def
      split: option.splits)

lemma forget_moves: "since r b s \<Longrightarrow> moved r b (shared_apply (Forgot r) s)"
  by (auto simp: since_def moved_def cleared_def forget_def Let_def split: option.splits)

lemma run_since: "since r b s \<Longrightarrow> since r b (shared_run es s)"
  unfolding shared_run_def by (induction es arbitrary: s) (auto intro: event_since)

lemma run_moved: "since r b s \<Longrightarrow> moved r b s \<Longrightarrow> moved r b (shared_run es s)"
  unfolding shared_run_def by (induction es arbitrary: s) (auto intro: event_since event_moved)

lemma run_forgot:
  "since r b s \<Longrightarrow> Forgot r \<in> set es \<Longrightarrow> moved r b (shared_run es s)"
proof (induction es arbitrary: s)
  case (Cons e es)
  note keep = event_since [OF Cons.prems(1), of e]
  show ?case
  proof (cases "e = Forgot r")
    case True
    with Cons.prems(1) have "moved r b (shared_apply e s)" by (simp only: forget_moves)
    from run_moved [OF keep this] show ?thesis by (simp add: shared_run_def)
  next
    case False
    with Cons.prems(2) have "Forgot r \<in> set es" by auto
    from Cons.IH [OF keep this] show ?thesis by (simp add: shared_run_def)
  qed
qed simp

lemma moved_not_before: "moved r b s \<Longrightarrow> cleared s r \<noteq> b"
  by (cases b) (auto simp: moved_def cleared_def)

section \<open>Properties\<close>

text \<open>No waiter of a process acts on a view from before the process's own write. Whatever
  other threads do to the shared view while a read of a table's record is in flight, if the view
  of that read is cleared at any point in between, the load keeps nothing: the view after its
  finish is the view before it, past the restart of the locks included.\<close>

theorem load_across_a_clearing_keeps_nothing:
  assumes "begin_load r s = (b, s1)" and "Forgot r \<in> set es"
  shows "finish_load r b turns tm (shared_run es s1) = shared_run es s1"
  using moved_not_before [OF run_forgot [OF begin_load_since [OF assms(1)] assms(2)]]
  by (simp add: finish_load_def)

theorem load_across_a_clearing_keeps_nothing_witness:
  "let r = \<lparr>sr_root = ''c'', sr_uuid = ''u'', sr_options = [], sr_signer = None\<rparr>;
       s1 = no_shared_reads\<lparr>locks := [r]\<rparr> in
   finish_load r (0, 0) [] 7 (shared_run [Forgot r] s1) = shared_run [Forgot r] s1"
  using load_across_a_clearing_keeps_nothing
    [of "\<lparr>sr_root = ''c'', sr_uuid = ''u'', sr_options = [], sr_signer = None\<rparr>" no_shared_reads "(0, 0)"
      "no_shared_reads\<lparr>locks := [\<lparr>sr_root = ''c'', sr_uuid = ''u'', sr_options = [], sr_signer = None\<rparr>]\<rparr>"
      "[Forgot \<lparr>sr_root = ''c'', sr_uuid = ''u'', sr_options = [], sr_signer = None\<rparr>]" "[]" 7]
  by (simp add: begin_load_def lock_for_def cleared_def no_shared_reads_def shared_read_tables_def Let_def)

text \<open>A load nothing cleared is what the next waiter is answered with, for less than 100 ms
  and never after: after an undisturbed load the view answers exactly its turns while the monotonic
  clock is under 100 ms past the answer, and answers nothing from then on.\<close>

theorem undisturbed_load_serves_until_stale:
  assumes "begin_load r s = (b, s1)"
  shows "peek (finish_load r b turns t s1) r tm = (if tm < t + shared_read_us then Some turns else None)"
  using assms by (auto simp: begin_load_def finish_load_def peek_def Let_def)

theorem undisturbed_load_serves_until_stale_witness:
  "let r = \<lparr>sr_root = ''c'', sr_uuid = ''u'', sr_options = [], sr_signer = None\<rparr> in
   peek (finish_load r (0, 0) [] 7 (no_shared_reads\<lparr>locks := [r]\<rparr>)) r 8 = Some []"
  using undisturbed_load_serves_until_stale
    [of "\<lparr>sr_root = ''c'', sr_uuid = ''u'', sr_options = [], sr_signer = None\<rparr>" no_shared_reads "(0, 0)"
      "no_shared_reads\<lparr>locks := [\<lparr>sr_root = ''c'', sr_uuid = ''u'', sr_options = [], sr_signer = None\<rparr>]\<rparr>" "[]" 7 8]
  by (simp add: begin_load_def lock_for_def cleared_def no_shared_reads_def shared_read_tables_def shared_read_us_def Let_def)

end
