(* ===== verification/Commit_Turns.thy ===== *)
theory Commit_Turns
  imports Shared_Reads
begin

text \<open>
  The second half of \<^verbatim>\<open>lakehouse_kit/commit_turns.py\<close>: the class \<^verbatim>\<open>TableTurns\<close>, run by one thread
  of a process. The process has the store, its own monotonic clock, the seats its sleeping waiters
  take, and the shared view; time spent in an access or a sleep passes on both clocks. Every
  operation is total, so its waiting ends; the properties say by when, and what it did to the
  record.
\<close>

section \<open>The process and the table\<close>

record proc =
  store :: "commit_turns world"
  monotonic :: int
  free_seats :: nat
  views :: shared_reads

record table_turns =
  tt_root :: root
  tt_control_root :: string
  tt_uuid :: string
  tt_options :: "(string \<times> string) list"
  tt_signer :: "string option"

definition turns_prefix :: string where
  "turns_prefix = ''_commit_turns''"

definition turn_attempts :: nat where
  "turn_attempts = 8"

definition poll_us :: int where
  "poll_us = 20000"

definition poll_cap_us :: int where
  "poll_cap_us = 250000"

definition turns_key :: "(string \<Rightarrow> string) \<Rightarrow> table_turns \<Rightarrow> string" where
  "turns_key hex tt = record_key hex turns_prefix ''table'' (tt_uuid tt)"

text \<open>\<^verbatim>\<open>TableTurns._shared\<close>: the options are sorted, so equal options are one read.\<close>

definition shared_of :: "table_turns \<Rightarrow> shared_read" where
  "shared_of tt = \<lparr>sr_root = tt_control_root tt, sr_uuid = tt_uuid tt,
     sr_options = sort_key fst (tt_options tt), sr_signer = tt_signer tt\<rparr>"

text \<open>
  \<^verbatim>\<open>backoff\<close>: \<open>jitter\<close> is what \<^verbatim>\<open>random.uniform(0, wait / 2)\<close> adds, cut to its range.
\<close>

definition backoff :: "nat \<Rightarrow> int \<Rightarrow> int \<Rightarrow> nat \<Rightarrow> int" where
  "backoff attempt first cap jitter =
     (let wait = min (first * 2 ^ attempt) cap in wait + min (int jitter) (wait div 2))"

definition on_store ::
  "(commit_turns world \<Rightarrow> 'a \<times> commit_turns world) \<Rightarrow> proc \<Rightarrow> 'a \<times> proc" where
  "on_store f p = (case f (store p) of (x, w) \<Rightarrow>
     (x, p\<lparr>store := w, monotonic := monotonic p + (clock w - clock (store p))\<rparr>))"

definition sleep :: "int \<Rightarrow> proc \<Rightarrow> proc" where
  "sleep d p = p\<lparr>store := (store p)\<lparr>clock := clock (store p) + d\<rparr>, monotonic := monotonic p + d\<rparr>"

definition forget_view :: "table_turns \<Rightarrow> proc \<Rightarrow> proc" where
  "forget_view tt p = p\<lparr>views := forget (shared_of tt) (views p)\<rparr>"

section \<open>Reading\<close>

definition read_turns ::
  "(string \<Rightarrow> string) \<Rightarrow> (commit_turns content \<Rightarrow> 'e) \<Rightarrow> table_turns \<Rightarrow> proc
    \<Rightarrow> ((commit_turns, 'e) store_read \<times> turn list) result \<times> proc" where
  "read_turns hex dg tt p = (case on_store (read_json_at dg (turns_key hex tt)) p of
       (Inl e, p1) \<Rightarrow> (Inl e, p1)
     | (Inr rd, p1) \<Rightarrow> (Inr (rd, kept (map_option body (stored rd)) (at rd)), p1))"

definition live_turns ::
  "(string \<Rightarrow> string) \<Rightarrow> (commit_turns content \<Rightarrow> 'e) \<Rightarrow> table_turns \<Rightarrow> proc \<Rightarrow> turn list result \<times> proc" where
  "live_turns hex dg tt p = (case read_turns hex dg tt p of
       (Inl e, p1) \<Rightarrow> (Inl e, p1) | (Inr (_, us), p1) \<Rightarrow> (Inr us, p1))"

text \<open>\<^verbatim>\<open>_SharedReads.get\<close> by this thread, with no other thread of the process in between.\<close>

definition shared_get ::
  "(string \<Rightarrow> string) \<Rightarrow> (commit_turns content \<Rightarrow> 'e) \<Rightarrow> table_turns \<Rightarrow> proc \<Rightarrow> turn list result \<times> proc" where
  "shared_get hex dg tt p = (case peek (views p) (shared_of tt) (monotonic p) of
       Some us \<Rightarrow> (Inr us, p)
     | None \<Rightarrow>
         (let (before, v1) = begin_load (shared_of tt) (views p) in
          case live_turns hex dg tt (p\<lparr>views := v1\<rparr>) of
            (Inl e, p2) \<Rightarrow> (Inl e, p2)
          | (Inr us, p2) \<Rightarrow>
              (Inr us, p2\<lparr>views := finish_load (shared_of tt) before us (monotonic p2) (views p2)\<rparr>)))"

definition poll ::
  "(string \<Rightarrow> string) \<Rightarrow> (commit_turns content \<Rightarrow> 'e) \<Rightarrow> table_turns \<Rightarrow> string option \<Rightarrow> string option \<Rightarrow> bool
    \<Rightarrow> proc \<Rightarrow> bool result \<times> proc" where
  "poll hex dg tt ref mine handed p = (case shared_get hex dg tt p of
       (Inl e, p1) \<Rightarrow> (Inl e, p1) | (Inr us, p1) \<Rightarrow> (Inr (holds us ref mine handed), p1))"

definition keeps ::
  "(string \<Rightarrow> string) \<Rightarrow> (commit_turns content \<Rightarrow> 'e) \<Rightarrow> table_turns \<Rightarrow> string \<Rightarrow> proc \<Rightarrow> bool result \<times> proc" where
  "keeps hex dg tt tok p = (case live_turns hex dg tt p of
       (Inl e, p1) \<Rightarrow> (Inl e, p1) | (Inr us, p1) \<Rightarrow> (Inr (list_ex (\<lambda>u. t_token u = tok) us), p1))"

text \<open>
  Reading never writes and takes no seat: the store drifts by at most one access, and the time
  that took passed on the process's clock.
\<close>

definition idle_to :: "proc \<Rightarrow> proc \<Rightarrow> bool" where
  "idle_to p p1 = (free_seats p1 = free_seats p \<and> (store p1 = store p \<or> store p1 = drift 1 (store p))
     \<and> monotonic p1 - monotonic p = clock (store p1) - clock (store p))"

lemma read_turns_idle: "read_turns hex dg tt p = (x, p1) \<Longrightarrow> idle_to p p1"
  by (auto simp: read_turns_def on_store_def idle_to_def split: prod.splits sum.splits dest!: read_json_at_drift)

lemma live_turns_idle: "live_turns hex dg tt p = (x, p1) \<Longrightarrow> idle_to p p1"
  by (auto simp: live_turns_def split: prod.splits sum.splits dest: read_turns_idle)

lemma idle_to_views: "idle_to (p\<lparr>views := v\<rparr>) p1 \<Longrightarrow> idle_to p (p1\<lparr>views := v'\<rparr>)"
  "idle_to (p\<lparr>views := v\<rparr>) p1 \<Longrightarrow> idle_to p p1"
  by (simp_all add: idle_to_def)

lemma shared_get_idle: "shared_get hex dg tt p = (x, p1) \<Longrightarrow> idle_to p p1"
  by (auto simp: shared_get_def Let_def split: prod.splits sum.splits option.splits
      dest!: live_turns_idle intro: idle_to_views) (simp add: idle_to_def)

lemma poll_idle: "poll hex dg tt ref mine handed p = (x, p1) \<Longrightarrow> idle_to p p1"
  by (auto simp: poll_def split: prod.splits sum.splits dest: shared_get_idle)

lemma idle_to_time: "idle_to p p1 \<Longrightarrow> monotonic p \<le> monotonic p1"
  using access_clock [of "store p"] by (auto simp: idle_to_def drift_def)

section \<open>Waiting\<close>

text \<open>
  \<^verbatim>\<open>TableTurns.wait\<close>, from its \<^verbatim>\<open>while\<close> on: \<open>jitter\<close> gives each attempt's random part. A wait
  that would sleep takes a seat first and gives it back however it ends.
\<close>

lemma sleep_positive: "0 < left \<Longrightarrow> 0 < min (backoff attempt poll_us poll_cap_us j) left"
proof -
  have "0 < (20000::int) * 2 ^ attempt" by simp
  then have "0 < min (20000 * 2 ^ attempt) (250000::int)" by simp
  then show "0 < left \<Longrightarrow> ?thesis"
    by (simp add: backoff_def poll_us_def poll_cap_us_def Let_def del: min_less_iff_conj)
qed

lemma wait_decreases:
  assumes "(x, p1) = poll hex dg tt ref mine handed p" "0 < deadline - monotonic p1" "monotonic p2 = monotonic p1"
  shows "nat (deadline - monotonic (sleep (min (backoff attempt poll_us poll_cap_us j) (deadline - monotonic p1)) p2))
    < nat (deadline - monotonic p)"
  using idle_to_time [OF poll_idle [OF assms(1) [symmetric]]] assms(2,3)
    sleep_positive [OF assms(2), of attempt j]
  unfolding sleep_def by simp

function wait_loop ::
  "(string \<Rightarrow> string) \<Rightarrow> (commit_turns content \<Rightarrow> 'e) \<Rightarrow> table_turns \<Rightarrow> string option \<Rightarrow> string option \<Rightarrow> bool
    \<Rightarrow> int \<Rightarrow> (nat \<Rightarrow> nat) \<Rightarrow> nat \<Rightarrow> bool \<Rightarrow> proc \<Rightarrow> unit result \<times> bool \<times> proc" where
  "wait_loop hex dg tt ref mine handed deadline jitter attempt seated p =
     (case poll hex dg tt ref mine handed p of
        (Inl e, p1) \<Rightarrow> (Inl e, seated, p1)
      | (Inr False, p1) \<Rightarrow> (Inr (), seated, p1)
      | (Inr True, p1) \<Rightarrow>
          (let left = deadline - monotonic p1 in
           if left \<le> 0 then (Inr (), seated, p1)
           else if \<not> seated \<and> free_seats p1 = 0 then (Inl CommitTurnBusyError, False, p1)
           else
             (let p2 = (if seated then p1 else p1\<lparr>free_seats := free_seats p1 - 1\<rparr>);
                  p3 = sleep (min (backoff attempt poll_us poll_cap_us (jitter attempt)) left) p2
              in wait_loop hex dg tt ref mine handed deadline jitter (Suc attempt) True p3)))"
  by pat_completeness auto
termination
  by (relation "measure (\<lambda>(hex, dg, tt, ref, mine, handed, deadline, jitter, attempt, seated, p).
        nat (deadline - monotonic p))")
    (simp, simp only: in_measure prod.case, rule wait_decreases, assumption, auto)

declare wait_loop.simps [simp del]

definition wait ::
  "(string \<Rightarrow> string) \<Rightarrow> (commit_turns content \<Rightarrow> 'e) \<Rightarrow> table_turns \<Rightarrow> string option \<Rightarrow> string option \<Rightarrow> int option
    \<Rightarrow> bool \<Rightarrow> (nat \<Rightarrow> nat) \<Rightarrow> proc \<Rightarrow> unit result \<times> proc" where
  "wait hex dg tt ref mine until handed jitter p =
     (let deadline = (case until of None \<Rightarrow> monotonic p + turn_hold | Some d \<Rightarrow> d) in
      case wait_loop hex dg tt ref mine handed deadline jitter 0 False p of
        (x, seated, p1) \<Rightarrow> (x, if seated then p1\<lparr>free_seats := Suc (free_seats p1)\<rparr> else p1))"

text \<open>\<^verbatim>\<open>TableTurns.wait_in_loop\<close>: the same wait from the event loop, which takes no seat.\<close>

function loop_wait ::
  "(string \<Rightarrow> string) \<Rightarrow> (commit_turns content \<Rightarrow> 'e) \<Rightarrow> table_turns \<Rightarrow> string option \<Rightarrow> string option \<Rightarrow> bool
    \<Rightarrow> int \<Rightarrow> (nat \<Rightarrow> nat) \<Rightarrow> nat \<Rightarrow> proc \<Rightarrow> unit result \<times> proc" where
  "loop_wait hex dg tt ref mine handed deadline jitter attempt p =
     (case poll hex dg tt ref mine handed p of
        (Inl e, p1) \<Rightarrow> (Inl e, p1)
      | (Inr False, p1) \<Rightarrow> (Inr (), p1)
      | (Inr True, p1) \<Rightarrow>
          (let left = deadline - monotonic p1 in
           if left \<le> 0 then (Inr (), p1)
           else
             (let p3 = sleep (min (backoff attempt poll_us poll_cap_us (jitter attempt)) left) p1
              in loop_wait hex dg tt ref mine handed deadline jitter (Suc attempt) p3)))"
  by pat_completeness auto
termination
  by (relation "measure (\<lambda>(hex, dg, tt, ref, mine, handed, deadline, jitter, attempt, p).
        nat (deadline - monotonic p))")
    (simp, simp only: in_measure prod.case, rule wait_decreases, assumption, auto)

declare loop_wait.simps [simp del]

definition wait_in_loop ::
  "(string \<Rightarrow> string) \<Rightarrow> (commit_turns content \<Rightarrow> 'e) \<Rightarrow> table_turns \<Rightarrow> string option \<Rightarrow> string option \<Rightarrow> bool
    \<Rightarrow> (nat \<Rightarrow> nat) \<Rightarrow> proc \<Rightarrow> bool result \<times> proc" where
  "wait_in_loop hex dg tt ref mine handed jitter p =
     (case loop_wait hex dg tt ref mine handed (monotonic p + turn_hold) jitter 0 p of
        (Inl e, p1) \<Rightarrow> (Inl e, p1)
      | (Inr _, p1) \<Rightarrow> (case mine of None \<Rightarrow> (Inr False, p1) | Some tok \<Rightarrow> keeps hex dg tt tok p1))"

section \<open>Taking, handing and releasing\<close>

fun turn_take_rounds ::
  "(string \<Rightarrow> string) \<Rightarrow> (commit_turns content \<Rightarrow> 'e) \<Rightarrow> table_turns \<Rightarrow> string option \<Rightarrow> string \<Rightarrow> int
    \<Rightarrow> string option \<Rightarrow> (nat \<Rightarrow> nat) \<Rightarrow> nat \<Rightarrow> proc \<Rightarrow> string result \<times> proc" where
  "turn_take_rounds hex dg tt ref tok deadline handed_to jitter 0 p = (Inl CommitTurnBusyError, p)"
| "turn_take_rounds hex dg tt ref tok deadline handed_to jitter (Suc n) p =
     (case (if monotonic p < deadline then wait hex dg tt ref (Some tok) (Some deadline) True jitter p
            else (Inr (), p)) of
        (Inl e, p1) \<Rightarrow> (Inl e, p1)
      | (Inr _, p1) \<Rightarrow>
          (case read_turns hex dg tt p1 of
             (Inl e, p2) \<Rightarrow> (Inl e, p2)
           | (Inr (rd, turns), p2) \<Rightarrow>
               (let live = filter (\<lambda>u. t_ref u = ref \<and> at rd < t_expires_at u) turns in
                if list_ex (\<lambda>u. t_token u = tok) live then (Inr tok, p2)
                else if live \<noteq> [] then
                  (if deadline \<le> monotonic p2 then (Inl CommitTurnBusyError, p2)
                   else turn_take_rounds hex dg tt ref tok deadline handed_to jitter n (forget_view tt p2))
                else
                  (let mine = \<lparr>t_token = tok, t_ref = ref, t_taken_at = at rd, t_expires_at = at rd + turn_hold,
                               t_handed_to = handed_to\<rparr>;
                       rec = \<lparr>ct_uuid = tt_uuid tt, ct_turns = turns @ [mine]\<rparr> in
                   case on_store (write_over (tt_root tt) dg (turns_key hex tt) (stored rd) rec) p2 of
                     (Inr _, p3) \<Rightarrow> (Inr tok, forget_view tt p3)
                   | (Inl e, p3) \<Rightarrow>
                       (if e = RecordExistsError \<or> e = RecordChangedError
                        then turn_take_rounds hex dg tt ref tok deadline handed_to jitter n p3
                        else (Inl e, p3))))))"

text \<open>
  \<^verbatim>\<open>take\<close> waits up to \<^verbatim>\<open>HOLD\<close> under a fresh token; \<^verbatim>\<open>hand\<close>'s deadline is now, so it waits for none.
\<close>

definition turn_take ::
  "(string \<Rightarrow> string) \<Rightarrow> (commit_turns content \<Rightarrow> 'e) \<Rightarrow> table_turns \<Rightarrow> string option \<Rightarrow> string \<Rightarrow> (nat \<Rightarrow> nat)
    \<Rightarrow> proc \<Rightarrow> string result \<times> proc" where
  "turn_take hex dg tt ref fresh jitter p =
     turn_take_rounds hex dg tt ref fresh (monotonic p + turn_hold) None jitter turn_attempts p"

definition turn_hand ::
  "(string \<Rightarrow> string) \<Rightarrow> (commit_turns content \<Rightarrow> 'e) \<Rightarrow> table_turns \<Rightarrow> string option \<Rightarrow> writer \<Rightarrow> (nat \<Rightarrow> nat)
    \<Rightarrow> proc \<Rightarrow> unit result \<times> proc" where
  "turn_hand hex dg tt ref wr jitter p =
     (case turn_take_rounds hex dg tt ref (writer_token wr) (monotonic p) (Some (wr_caller wr)) jitter turn_attempts p of
        (Inl e, p1) \<Rightarrow> (Inl e, p1) | (Inr _, p1) \<Rightarrow> (Inr (), p1))"

text \<open>\<^verbatim>\<open>TableTurns.release\<close> never raises: how it can end.\<close>

datatype turn_release_log = TurnGone | TurnEnded | TurnNotReleased

fun turn_release_rounds ::
  "(string \<Rightarrow> string) \<Rightarrow> (commit_turns content \<Rightarrow> 'e) \<Rightarrow> table_turns \<Rightarrow> string \<Rightarrow> nat \<Rightarrow> proc \<Rightarrow> turn_release_log \<times> proc" where
  "turn_release_rounds hex dg tt tok 0 p = (TurnNotReleased, p)"
| "turn_release_rounds hex dg tt tok (Suc n) p = (case read_turns hex dg tt p of
       (Inl e, p1) \<Rightarrow> (TurnNotReleased, p1)
     | (Inr (rd, turns), p1) \<Rightarrow>
         (case stored rd of
            None \<Rightarrow> (TurnGone, p1)
          | Some s \<Rightarrow>
              (if \<not> list_ex (\<lambda>u. t_token u = tok) turns then (TurnGone, p1)
               else
                 (let rec = \<lparr>ct_uuid = tt_uuid tt, ct_turns = filter (\<lambda>u. t_token u \<noteq> tok) turns\<rparr> in
                  case on_store (replace_json (tt_root tt) dg (turns_key hex tt) rec (etag s)) p1 of
                    (Inr _, p2) \<Rightarrow> (TurnEnded, forget_view tt p2)
                  | (Inl e, p2) \<Rightarrow>
                      (if e = RecordChangedError then turn_release_rounds hex dg tt tok n p2
                       else (TurnNotReleased, p2))))))"

definition turn_release ::
  "(string \<Rightarrow> string) \<Rightarrow> (commit_turns content \<Rightarrow> 'e) \<Rightarrow> table_turns \<Rightarrow> string \<Rightarrow> proc \<Rightarrow> turn_release_log \<times> proc" where
  "turn_release hex dg tt tok p = turn_release_rounds hex dg tt tok turn_attempts p"

definition turn_held ::
  "(string \<Rightarrow> string) \<Rightarrow> (commit_turns content \<Rightarrow> 'e) \<Rightarrow> table_turns \<Rightarrow> string option \<Rightarrow> string \<Rightarrow> (nat \<Rightarrow> nat)
    \<Rightarrow> (string \<Rightarrow> proc \<Rightarrow> 'a result \<times> proc) \<Rightarrow> proc \<Rightarrow> 'a result \<times> proc" where
  "turn_held hex dg tt ref fresh jitter block p = (case turn_take hex dg tt ref fresh jitter p of
       (Inl e, p1) \<Rightarrow> (Inl e, p1)
     | (Inr tok, p1) \<Rightarrow> (case block tok p1 of (x, p2) \<Rightarrow> (x, snd (turn_release hex dg tt tok p2))))"

section \<open>The turns as a state machine\<close>

inductive turn_step :: "turn lease_sys \<Rightarrow> turn lease_sys \<Rightarrow> bool" where
  turn_time: "now s \<le> t \<Longrightarrow> turn_step s (s\<lparr>now := t\<rparr>)"
| turn_taken: "t \<le> now s \<Longrightarrow> turns = filter (\<lambda>u. t < t_expires_at u) (entries s) \<Longrightarrow>
    \<forall>u\<in>set turns. t_ref u \<noteq> t_ref m \<Longrightarrow>
    t_taken_at m = t \<Longrightarrow> t_expires_at m = t + turn_hold \<Longrightarrow>
    turn_step s (s\<lparr>entries := turns @ [m], granted := m # granted s\<rparr>)"
| turn_released: "t \<le> now s \<Longrightarrow>
    turn_step s (s\<lparr>entries := filter (\<lambda>u. t_token u \<noteq> tok \<and> t < t_expires_at u) (entries s),
                   granted := filter (\<lambda>u. t_token u \<noteq> tok) (granted s)\<rparr>)"

interpretation turns: lease_protocol t_token t_expires_at "\<lambda>a b. t_ref a = t_ref b" turn_step
proof
  fix s s' :: "turn lease_sys"
  assume "turn_step s s'"
  then show "(now s \<le> now s' \<and> entries s' = entries s \<and> granted s' = granted s)
      \<or> (\<exists>t m. t \<le> now s \<and> now s' = now s
            \<and> (\<forall>h\<in>set (entries s). t < t_expires_at h \<longrightarrow> t_ref h \<noteq> t_ref m)
            \<and> entries s' = filter (\<lambda>h. t < t_expires_at h) (entries s) @ [m] \<and> granted s' = m # granted s)
      \<or> (\<exists>t k. t \<le> now s \<and> now s' = now s
            \<and> entries s' = filter (\<lambda>h. t_token h \<noteq> k \<and> t < t_expires_at h) (entries s)
            \<and> granted s' = filter (\<lambda>h. t_token h \<noteq> k) (granted s))"
    by (cases rule: turn_step.cases) auto
qed simp

definition turn_entries :: "commit_turns content option \<Rightarrow> turn list" where
  "turn_entries c = (case c of Some (Json r) \<Rightarrow> ct_turns r | _ \<Rightarrow> [])"

definition turn_sys :: "string \<Rightarrow> commit_turns world \<Rightarrow> turn list \<Rightarrow> turn lease_sys" where
  "turn_sys k w g = \<lparr>entries = turn_entries (lookup w k), now = clock w, granted = g\<rparr>"

lemma kept_entries:
  "kept (map_option body st) t = filter (\<lambda>u. t < t_expires_at u) (turn_entries (map_option (\<lambda>s. Json (body s)) st))"
  by (cases st) (auto simp: kept_def turn_entries_def)

text \<open>What the store becomes by others' writes and the passing of time alone.\<close>

inductive idles :: "'j world \<Rightarrow> 'j world \<Rightarrow> bool" where
  idle_now: "idles w w"
| idle_access: "idles w w1 \<Longrightarrow> idles w (snd (access w1))"
| idle_time: "idles w w1 \<Longrightarrow> 0 \<le> d \<Longrightarrow> idles w (w1\<lparr>clock := clock w1 + d\<rparr>)"

lemma idles_trans: "idles w1 w2 \<Longrightarrow> idles w0 w1 \<Longrightarrow> idles w0 w2"
  by (induction rule: idles.induct) (auto intro: idles.intros)

lemma idles_drift: "idles w (drift m w)"
  by (induction m) (auto simp: drift_def intro: idles.intros)

lemma idle_to_idles: "idle_to p p1 \<Longrightarrow> idles (store p) (store p1)"
  by (auto simp: idle_to_def intro: idles_drift idle_now)

lemma sleep_idles: "0 \<le> d \<Longrightarrow> idles (store p) (store (sleep d p))"
  by (auto simp: sleep_def intro: idles.intros)

lemma store_fields [simp]:
  "store (p\<lparr>free_seats := x\<rparr>) = store p" "store (forget_view tt p) = store p"
  "free_seats (sleep d p) = free_seats p" "free_seats (forget_view tt p) = free_seats p"
  by (simp_all add: sleep_def forget_view_def)

text \<open>
  A wait writes nothing, whatever it ends with, and the seats it holds are the seats it took.
\<close>

lemma wait_loop_effect:
  "wait_loop hex dg tt ref mine handed deadline jitter attempt seated p = (x, seated', p') \<Longrightarrow>
    idles (store p) (store p') \<and> free_seats p' + of_bool seated' = free_seats p + of_bool seated"
proof (induction hex dg tt ref mine handed deadline jitter attempt seated p rule: wait_loop.induct)
  case (1 hex dg tt ref mine handed deadline jitter attempt seated p)
  obtain y p1 where po: "poll hex dg tt ref mine handed p = (y, p1)" by force
  have idle: "idles (store p) (store p1)" "free_seats p1 = free_seats p"
    using poll_idle [OF po] by (auto intro: idle_to_idles simp: idle_to_def)
  define left where "left = deadline - monotonic p1"
  define p2 where "p2 = (if seated then p1 else p1\<lparr>free_seats := free_seats p1 - 1\<rparr>)"
  define p3 where "p3 = sleep (min (backoff attempt poll_us poll_cap_us (jitter attempt)) left) p2"
  show ?case
  proof (cases "y = Inr True \<and> \<not> left \<le> 0 \<and> (seated \<or> free_seats p1 \<noteq> 0)")
    case False
    then have "p' = p1 \<and> seated' = seated"
      using "1.prems" by (subst (asm) wait_loop.simps)
        (auto simp: po Let_def left_def split: sum.splits bool.splits if_splits)
    with idle show ?thesis by simp
  next
    case True
    then have run: "wait_loop hex dg tt ref mine handed deadline jitter (Suc attempt) True p3 = (x, seated', p')"
      using "1.prems" by (subst (asm) wait_loop.simps)
        (auto simp: po Let_def left_def p2_def p3_def split: if_splits)
    have "idles (store p3) (store p') \<and> free_seats p' + of_bool seated' = free_seats p3 + of_bool True"
      by (rule "1.IH" [OF po [symmetric] _ _ left_def _ _ p2_def p3_def run]) (use True in auto)
    moreover have "idles (store p1) (store p3)" "free_seats p3 + 1 = free_seats p1 + of_bool seated"
      using True sleep_positive [of left attempt "jitter attempt"] sleep_idles [of _ p2]
      by (auto simp: p3_def p2_def less_imp_le)
    ultimately show ?thesis
      using idle by (auto intro: idles_trans)
  qed
qed

lemma wait_effect:
  "wait hex dg tt ref mine until handed jitter p = (x, p') \<Longrightarrow> idles (store p) (store p') \<and> free_seats p' = free_seats p"
  by (auto simp: wait_def Let_def split: prod.splits if_splits dest!: wait_loop_effect)

lemma idle_to_instant:
  assumes "idle_to p p1" "\<forall>g\<in>set (pending (store p)). elapsed g = 0"
  shows "monotonic p1 = monotonic p" "\<forall>g\<in>set (pending (store p1)). elapsed g = 0"
  using assms by (auto simp: idle_to_def drift_def access_def split: list.splits)

lemma wait_loop_deadline:
  "wait_loop hex dg tt ref mine handed deadline jitter attempt seated p = (x, seated', p') \<Longrightarrow>
    \<forall>g\<in>set (pending (store p)). elapsed g = 0 \<Longrightarrow> monotonic p' \<le> max (monotonic p) deadline"
proof (induction hex dg tt ref mine handed deadline jitter attempt seated p rule: wait_loop.induct)
  case (1 hex dg tt ref mine handed deadline jitter attempt seated p)
  obtain y p1 where po: "poll hex dg tt ref mine handed p = (y, p1)" by force
  note inst = idle_to_instant [OF poll_idle [OF po] "1.prems"(2)]
  define left where "left = deadline - monotonic p1"
  define p2 where "p2 = (if seated then p1 else p1\<lparr>free_seats := free_seats p1 - 1\<rparr>)"
  define p3 where "p3 = sleep (min (backoff attempt poll_us poll_cap_us (jitter attempt)) left) p2"
  show ?case
  proof (cases "y = Inr True \<and> \<not> left \<le> 0 \<and> (seated \<or> free_seats p1 \<noteq> 0)")
    case False
    then have "p' = p1"
      using "1.prems" by (subst (asm) wait_loop.simps)
        (auto simp: po Let_def left_def split: sum.splits bool.splits if_splits)
    with inst show ?thesis by simp
  next
    case True
    then have run: "wait_loop hex dg tt ref mine handed deadline jitter (Suc attempt) True p3 = (x, seated', p')"
      using "1.prems" by (subst (asm) wait_loop.simps)
        (auto simp: po Let_def left_def p2_def p3_def split: if_splits)
    have quiet: "\<forall>g\<in>set (pending (store p3)). elapsed g = 0"
      using inst(2) by (simp add: p3_def p2_def sleep_def)
    have "monotonic p' \<le> max (monotonic p3) deadline"
      by (rule "1.IH" [OF po [symmetric] _ _ left_def _ _ p2_def p3_def run quiet]) (use True in auto)
    moreover have "monotonic p3 \<le> deadline"
      by (simp add: p3_def p2_def sleep_def left_def min_def)
    ultimately show ?thesis by simp
  qed
qed

text \<open>One read and conditional write by the process, as a step of its store.\<close>

lemma write_turns_effect:
  assumes "inj dg" "tt_root tt = S3" and rd: "read_turns hex dg tt p1 = (Inr (rd, us), p2)"
    and wr: "on_store (write_over (tt_root tt) dg (turns_key hex tt) (stored rd) rec) p2 = (z, p3)"
  shows "case z of Inl _ \<Rightarrow> idles (store p1) (store p3)
    | Inr _ \<Rightarrow> \<exists>wb. idles (store p1) wb \<and> at rd \<le> clock wb \<and> store p3 = store_put (turns_key hex tt) (Json rec) wb
        \<and> us = filter (\<lambda>u. at rd < t_expires_at u) (turn_entries (lookup wb (turns_key hex tt)))"
proof -
  obtain w1 where r: "read_json_at dg (turns_key hex tt) (store p1) = (Inr rd, w1)" "store p2 = w1"
    and us: "us = kept (map_option body (stored rd)) (at rd)"
    using rd by (auto simp: read_turns_def on_store_def split: prod.splits sum.splits)
  have w: "write_over S3 dg (turns_key hex tt) (stored rd) rec w1 = (z, store p3)"
    using wr r(2) assms(2) by (auto simp: on_store_def split: prod.splits)
  show ?thesis
    using cas_round_s3 [OF assms(1) r(1) w] us
    by (auto split: sum.splits simp: kept_entries intro: idles_drift)
qed

lemma turn_taken_put:
  assumes "ta \<le> clock wb" "us = filter (\<lambda>u. ta < t_expires_at u) (turn_entries (lookup wb k))"
    and "\<forall>u\<in>set us. t_ref u \<noteq> t_ref m" "t_taken_at m = ta" "t_expires_at m = ta + turn_hold"
    and "w' = store_put k (Json r) wb" "ct_turns r = us @ [m]"
  shows "turn_step (turn_sys k wb g) (turn_sys k w' (m # g))"
  using turn_taken [of ta "turn_sys k wb g" us m] assms
  by (simp add: turn_sys_def turn_entries_def)

text \<open>
  What a take did to the record: nothing of its own, or one \<open>turn_taken\<close> step; a token it returns
  without writing is one the record already keeps live for the ref.
\<close>

definition take_outcome :: "string \<Rightarrow> string option \<Rightarrow> string \<Rightarrow> string option \<Rightarrow> string result
    \<Rightarrow> commit_turns world \<Rightarrow> commit_turns world \<Rightarrow> bool" where
  "take_outcome k ref tok handed_to x w w' = (case x of
       Inl _ \<Rightarrow> idles w w'
     | Inr tok' \<Rightarrow> tok' = tok \<and>
         (idles w w' \<and> (\<exists>u\<in>set (turn_entries (lookup w' k)). t_token u = tok \<and> t_ref u = ref \<and> clock w' < t_expires_at u)
          \<or> (\<exists>wb m. idles w wb \<and> t_token m = tok \<and> t_ref m = ref \<and> t_handed_to m = handed_to
               \<and> (\<forall>k'. k' \<noteq> k \<longrightarrow> lookup w' k' = lookup wb k')
               \<and> (\<forall>g. turn_step (turn_sys k wb g) (turn_sys k w' (m # g))))))"

lemma take_outcome_after:
  "take_outcome k ref tok h x w1 w' \<Longrightarrow> idles w w1 \<Longrightarrow> take_outcome k ref tok h x w w'"
  by (auto simp: take_outcome_def split: sum.splits intro: idles_trans)

lemma read_turns_answer:
  assumes "read_turns hex dg tt p = (Inr (rd, us), p1)"
  shows "at rd = clock (store p1)"
    and "us = filter (\<lambda>u. at rd < t_expires_at u) (turn_entries (lookup (store p1) (turns_key hex tt)))"
proof -
  obtain w1 where r: "read_json_at dg (turns_key hex tt) (store p) = (Inr rd, w1)" "store p1 = w1"
    and us: "us = kept (map_option body (stored rd)) (at rd)"
    using assms by (auto simp: read_turns_def on_store_def split: prod.splits sum.splits)
  from cs.read_answer [OF r(1)] r(2) us
  show "at rd = clock (store p1)"
    "us = filter (\<lambda>u. at rd < t_expires_at u) (turn_entries (lookup (store p1) (turns_key hex tt)))"
    by (simp_all add: kept_entries)
qed

lemma turn_take_rounds_effect:
  assumes "inj dg" "tt_root tt = S3"
  shows "turn_take_rounds hex dg tt ref tok deadline handed_to jitter n p = (x, p') \<Longrightarrow>
    take_outcome (turns_key hex tt) ref tok handed_to x (store p) (store p')"
proof (induction n arbitrary: p)
  case 0
  then show ?case by (auto simp: take_outcome_def intro: idle_now)
next
  case (Suc n)
  let ?k = "turns_key hex tt"
  obtain y0 p1 where wt: "(if monotonic p < deadline then wait hex dg tt ref (Some tok) (Some deadline) True jitter p
      else (Inr (), p)) = (y0, p1)" by force
  then have i1: "idles (store p) (store p1)"
    by (auto split: if_splits dest: wait_effect intro: idle_now)
  obtain y1 p2 where rd: "read_turns hex dg tt p1 = (y1, p2)" by force
  have i2: "idles (store p) (store p2)"
    using idles_trans [OF idle_to_idles [OF read_turns_idle [OF rd]] i1] .
  have lost: "x = Inl e \<Longrightarrow> idles (store p) (store p') \<Longrightarrow> ?case" for e
    by (simp add: take_outcome_def)
  show ?case
  proof (cases "\<exists>u v. y0 = Inr u \<and> y1 = Inr v")
    case False
    then have "\<exists>e. x = Inl e" "store p' = store p1 \<or> store p' = store p2"
      using Suc.prems wt rd by (auto split: sum.splits)
    with lost i1 i2 show ?thesis by auto
  next
    case True
    then obtain u st us where ok: "y0 = Inr u" "y1 = Inr (st, us)" by auto
    note ans = read_turns_answer [OF rd [unfolded ok(2)]]
    define live where "live = filter (\<lambda>u. t_ref u = ref \<and> at st < t_expires_at u) us"
    define mine where "mine = \<lparr>t_token = tok, t_ref = ref, t_taken_at = at st, t_expires_at = at st + turn_hold,
                               t_handed_to = handed_to\<rparr>"
    define rec where "rec = \<lparr>ct_uuid = tt_uuid tt, ct_turns = us @ [mine]\<rparr>"
    obtain z p3 where wr: "on_store (write_over (tt_root tt) dg ?k (stored st) rec) p2 = (z, p3)" by force
    note eff = write_turns_effect [OF assms rd [unfolded ok(2)] wr]
    have unfolded: "(if list_ex (\<lambda>u. t_token u = tok) live then (Inr tok, p2)
        else if live \<noteq> [] then
          (if deadline \<le> monotonic p2 then (Inl CommitTurnBusyError, p2)
           else turn_take_rounds hex dg tt ref tok deadline handed_to jitter n (forget_view tt p2))
        else (case z of Inr _ \<Rightarrow> (Inr tok, forget_view tt p3)
          | Inl e \<Rightarrow> (if e = RecordExistsError \<or> e = RecordChangedError
                      then turn_take_rounds hex dg tt ref tok deadline handed_to jitter n p3 else (Inl e, p3)))) = (x, p')"
      using Suc.prems wr unfolding rec_def mine_def live_def turn_take_rounds.simps
      by (simp only: wt rd ok prod.case sum.case Let_def)
    consider (mine) "list_ex (\<lambda>u. t_token u = tok) live" | (busy) "\<not> list_ex (\<lambda>u. t_token u = tok) live" "live \<noteq> []"
      | (free) "live = []" by blast
    then show ?thesis
    proof cases
      case mine
      then have "x = Inr tok" "p' = p2" using unfolded by auto
      moreover have "\<exists>u\<in>set (turn_entries (lookup (store p2) ?k)). t_token u = tok \<and> t_ref u = ref
          \<and> clock (store p2) < t_expires_at u"
        using mine ans by (auto simp: live_def list_ex_iff)
      ultimately show ?thesis using i2 by (simp add: take_outcome_def)
    next
      case busy
      show ?thesis
      proof (cases "deadline \<le> monotonic p2")
        case True
        with unfolded busy i2 lost show ?thesis by auto
      next
        case False
        with unfolded busy have "turn_take_rounds hex dg tt ref tok deadline handed_to jitter n (forget_view tt p2) = (x, p')"
          by simp
        from Suc.IH [OF this] i2 show ?thesis by (auto intro: take_outcome_after)
      qed
    next
      case free
      show ?thesis
      proof (cases z)
        case (Inl e)
        then have i3: "idles (store p) (store p3)"
          using eff i1 by (auto intro: idles_trans)
        show ?thesis
        proof (cases "e = RecordExistsError \<or> e = RecordChangedError")
          case True
          with unfolded free Inl have "turn_take_rounds hex dg tt ref tok deadline handed_to jitter n p3 = (x, p')" by simp
          from Suc.IH [OF this] i3 show ?thesis by (rule take_outcome_after)
        next
          case False
          with unfolded free Inl i3 lost show ?thesis by auto
        qed
      next
        case (Inr v)
        then obtain wb where wb: "idles (store p1) wb" "at st \<le> clock wb" "store p3 = store_put ?k (Json rec) wb"
          "us = filter (\<lambda>u. at st < t_expires_at u) (turn_entries (lookup wb ?k))"
          using eff by auto
        have apart: "\<forall>u\<in>set us. t_ref u \<noteq> t_ref mine"
          using free wb(4) by (auto simp: live_def mine_def filter_empty_conv)
        have step: "turn_step (turn_sys ?k wb g) (turn_sys ?k (store p3) (mine # g))" for g
          by (rule turn_taken_put [OF wb(2,4) apart _ _ wb(3)]) (simp_all add: mine_def rec_def)
        have x: "x = Inr tok" "store p' = store p3"
          using unfolded free Inr by auto
        have "idles (store p) wb" using idles_trans [OF wb(1) i1] .
        moreover have "t_token mine = tok" "t_ref mine = ref" "t_handed_to mine = handed_to"
          by (simp_all add: mine_def)
        ultimately show ?thesis
          using step x wb(3) by (auto simp: take_outcome_def intro!: exI [of _ wb] exI [of _ mine])
      qed
    qed
  qed
qed

lemma turn_release_rounds_effect:
  assumes "inj dg" "tt_root tt = S3"
  shows "turn_release_rounds hex dg tt tok n p = (x, p') \<Longrightarrow>
    (if x = TurnEnded then \<exists>wb r. idles (store p) wb \<and> store p' = store_put (turns_key hex tt) (Json r) wb
        \<and> tok \<notin> t_token ` set (ct_turns r)
        \<and> (\<forall>g. turn_step (turn_sys (turns_key hex tt) wb g)
                 (turn_sys (turns_key hex tt) (store p') (filter (\<lambda>u. t_token u \<noteq> tok) g)))
     else idles (store p) (store p'))"
proof (induction n arbitrary: p)
  case 0
  then show ?case by (auto intro: idle_now)
next
  case (Suc n)
  let ?k = "turns_key hex tt"
  obtain y p1 where rd: "read_turns hex dg tt p = (y, p1)" by force
  have i1: "idles (store p) (store p1)"
    by (rule idle_to_idles [OF read_turns_idle [OF rd]])
  show ?case
  proof (cases "\<exists>st us s. y = Inr (st, us) \<and> stored st = Some s \<and> list_ex (\<lambda>u. t_token u = tok) us")
    case False
    then have "store p' = store p1" "x \<noteq> TurnEnded"
      using Suc.prems rd by (auto split: sum.splits option.splits if_splits)
    with i1 show ?thesis by simp
  next
    case True
    then obtain st us s where y: "y = Inr (st, us)" "stored st = Some s" "list_ex (\<lambda>u. t_token u = tok) us" by blast
    define rec where "rec = \<lparr>ct_uuid = tt_uuid tt, ct_turns = filter (\<lambda>u. t_token u \<noteq> tok) us\<rparr>"
    obtain z p2 where wr: "on_store (replace_json (tt_root tt) dg ?k rec (etag s)) p1 = (z, p2)" by force
    have wr': "on_store (write_over (tt_root tt) dg ?k (stored st) rec) p1 = (z, p2)"
      using wr y(2) by (simp add: on_store_def write_over_def)
    note eff = write_turns_effect [OF assms rd [unfolded y(1)] wr']
    have unfolded: "(case z of Inr _ \<Rightarrow> (TurnEnded, forget_view tt p2)
        | Inl e \<Rightarrow> (if e = RecordChangedError then turn_release_rounds hex dg tt tok n p2
                    else (TurnNotReleased, p2))) = (x, p')"
      using Suc.prems wr y(3) unfolding rec_def turn_release_rounds.simps
      by (simp add: rd y Let_def)
    show ?thesis
    proof (cases z)
      case (Inl e)
      with eff have i2: "idles (store p) (store p2)" by simp
      show ?thesis
      proof (cases "e = RecordChangedError")
        case True
        with unfolded Inl have "turn_release_rounds hex dg tt tok n p2 = (x, p')" by simp
        from Suc.IH [OF this] i2 show ?thesis
          by (auto split: if_splits intro: idles_trans)
      next
        case False
        with unfolded Inl i2 show ?thesis by auto
      qed
    next
      case (Inr u)
      with eff obtain wb where wb: "idles (store p) wb" "at st \<le> clock wb" "store p2 = store_put ?k (Json rec) wb"
        "us = filter (\<lambda>u. at st < t_expires_at u) (turn_entries (lookup wb ?k))"
        by auto
      have "turn_step (turn_sys ?k wb g) (turn_sys ?k (store p2) (filter (\<lambda>u. t_token u \<noteq> tok) g))" for g
        using turn_released [of "at st" "turn_sys ?k wb g" tok] wb
        by (simp add: turn_sys_def turn_entries_def rec_def conj_commute)
      moreover have "x = TurnEnded" "store p' = store p2"
        using unfolded Inr by auto
      moreover have "tok \<notin> t_token ` set (ct_turns rec)"
        by (auto simp: rec_def)
      ultimately show ?thesis
        using wb by (auto intro!: exI [of _ wb] exI [of _ rec])
    qed
  qed
qed

section \<open>Properties\<close>

text \<open>A catalog door's \<^verbatim>\<open>take\<close> refines that machine on S3 under every interleaving: what it
  leaves in the store is what others and time made of it when it raises, and when it returns its
  token the record either kept a live turn of the ref under that token already, or was replaced by
  exactly one step granting the ref's turn under that token, no other key of the store changed.\<close>

theorem turn_take_refines_step:
  assumes "inj dg" "tt_root tt = S3" and "turn_take hex dg tt ref fresh jitter p = (x, p')"
  shows "take_outcome (turns_key hex tt) ref fresh None x (store p) (store p')"
  using turn_take_rounds_effect [OF assms(1,2) assms(3) [unfolded turn_take_def]] .

text \<open>\<^verbatim>\<open>TableTurns.release\<close> ends its own turn and no other: it never raises, and on S3,
  under every interleaving, it leaves the store to the others and to time, or replaces the record
  by one release step after which no turn of its token is left.\<close>

theorem turn_release_refines_step:
  assumes "inj dg" "tt_root tt = S3" and "turn_release hex dg tt tok p = (x, p')"
  shows "if x = TurnEnded then \<exists>wb r. idles (store p) wb \<and> store p' = store_put (turns_key hex tt) (Json r) wb
        \<and> tok \<notin> t_token ` set (ct_turns r)
        \<and> (\<forall>g. turn_step (turn_sys (turns_key hex tt) wb g)
                 (turn_sys (turns_key hex tt) (store p') (filter (\<lambda>u. t_token u \<noteq> tok) g)))
     else idles (store p) (store p')"
  using turn_release_rounds_effect [OF assms(1,2) assms(3) [unfolded turn_release_def]] .

definition demo_turns :: table_turns where
  "demo_turns = \<lparr>tt_root = S3, tt_control_root = ''c'', tt_uuid = ''u'', tt_options = [], tt_signer = None\<rparr>"

definition demo_proc :: proc where
  "demo_proc = \<lparr>store = \<lparr>objects = [], clock = 5, pending = []\<rparr>, monotonic = 0, free_seats = 20, views = no_shared_reads\<rparr>"

lemma demo_read: "read_turns id id demo_turns demo_proc = (Inr (\<lparr>stored = None, at = 5\<rparr>, []), demo_proc)"
  by (simp add: read_turns_def on_store_def read_json_at_def demo_proc_def lookup_def kept_def)

lemma demo_release: "turn_release id id demo_turns ''t'' demo_proc = (TurnGone, demo_proc)"
  unfolding turn_release_def turn_attempts_def
  by (simp add: numeral_eq_Suc demo_read)

lemma demo_take: "fst (turn_take id id demo_turns None ''t'' (\<lambda>_. 0) demo_proc) = Inr ''t''"
  unfolding turn_take_def turn_attempts_def
  by (simp add: numeral_eq_Suc turn_hold_def wait_def wait_loop.simps poll_def shared_get_def live_turns_def
      read_turns_def on_store_def read_json_at_def lookup_def kept_def holds_def demo_proc_def demo_turns_def
      peek_def no_shared_reads_def begin_load_def write_over_def create_json_def Let_def split: prod.splits)

text \<open>C2: A ref of a table has one turn at a time. While everyone else acts on the turn record only by
  takes, hand-overs, releases and the passing of time (\<open>gr\<close> being the turns they have been granted and
  not given back in each state of the store), a \<^verbatim>\<open>take\<close> that returns its token did so at an instant
  where no other unlapsed turn, under another token, is a turn of the same ref, and the record it
  leaves keeps its turn of the ref.\<close>

theorem commit_turn_exclusion:
  assumes "inj dg" "tt_root tt = S3"
    and others: "\<And>wb. idles (store p) wb \<Longrightarrow>
      turn_step\<^sup>*\<^sup>* \<lparr>entries = [], now = t, granted = []\<rparr> (turn_sys (turns_key hex tt) wb (gr wb))"
    and run: "turn_take hex dg tt ref fresh jitter p = (Inr tok, p')"
  shows "\<exists>wb. idles (store p) wb \<and> clock wb = clock (store p')
    \<and> (\<exists>m\<in>set (turn_entries (lookup (store p') (turns_key hex tt))). t_token m = tok \<and> t_ref m = ref)
    \<and> (\<forall>b\<in>set (gr wb). t_token b \<noteq> tok \<and> clock (store p') < t_expires_at b \<longrightarrow> t_ref b \<noteq> ref)"
proof -
  let ?k = "turns_key hex tt"
  have inv: "turns.lease_inv (turn_sys ?k wb (gr wb))" if "idles (store p) wb" for wb
    using turns.run_keeps_inv [OF others [OF that] turns.inv_start] .
  from turn_take_rounds_effect [OF assms(1,2) run [unfolded turn_take_def]]
  consider (kept) m where "idles (store p) (store p')" "tok = fresh" "m \<in> set (turn_entries (lookup (store p') ?k))"
      "t_token m = tok" "t_ref m = ref" "clock (store p') < t_expires_at m"
    | (taken) wb m where "idles (store p) wb" "t_token m = tok" "t_ref m = ref"
      "turn_step (turn_sys ?k wb (gr wb)) (turn_sys ?k (store p') (m # gr wb))"
    by (auto simp: take_outcome_def)
  then show ?thesis
  proof cases
    case kept
    have "b = m" if "b \<in> set (gr (store p'))" "clock (store p') < t_expires_at b" "t_ref b = ref" for b
      using inv [OF kept(1)] turns.compatible_apart [of "turn_entries (lookup (store p') ?k)" b m] kept(3,5) that
      by (auto simp: turns.lease_inv_def turns.covered_def turn_sys_def)
    with kept show ?thesis by blast
  next
    case taken
    note step = turns.grant_is_take [OF taken(4)] turns.granted_is_kept [OF taken(4)]
      turns.grant_exclusion [OF inv [OF taken(1)] taken(4)]
    have "clock wb = clock (store p')"
      by (rule step(1) [of m]) (auto simp: turn_sys_def)
    moreover have "m \<in> set (turn_entries (lookup (store p') ?k))"
      using step(2) [of m] by (simp add: turn_sys_def)
    moreover have "t_ref b \<noteq> ref" if "b \<in> set (gr wb)" "clock (store p') < t_expires_at b" for b
      using step(3) [of m b] that taken(3) by (simp add: turn_sys_def)
    ultimately show ?thesis using taken(1-3) by blast
  qed
qed

lemma demo_idles: "idles (store demo_proc) wb \<Longrightarrow> objects wb = [] \<and> pending wb = [] \<and> 5 \<le> clock wb"
  by (induction "store demo_proc" wb rule: idles.induct) (auto simp: demo_proc_def)

theorem commit_turn_exclusion_witness:
  "fst (turn_take id id demo_turns None ''t'' (\<lambda>_. 0) demo_proc) = Inr ''t'' \<and>
   (\<exists>m\<in>set (turn_entries (lookup (store (snd (turn_take id id demo_turns None ''t'' (\<lambda>_. 0) demo_proc))) (turns_key id demo_turns))).
      t_token m = ''t'' \<and> t_ref m = None)"
proof -
  let ?s0 = "\<lparr>entries = [], now = 5, granted = []\<rparr> :: turn lease_sys"
  have others: "turn_step\<^sup>*\<^sup>* ?s0 (turn_sys (turns_key id demo_turns) wb ((\<lambda>_. []) wb))" if "idles (store demo_proc) wb" for wb
    using turn_time [of ?s0 "clock wb"] demo_idles [OF that] by (simp add: turn_sys_def turn_entries_def lookup_def)
  have "turn_take id id demo_turns None ''t'' (\<lambda>_. 0) demo_proc
      = (Inr ''t'', snd (turn_take id id demo_turns None ''t'' (\<lambda>_. 0) demo_proc))"
    using demo_take by (simp add: prod_eq_iff)
  from commit_turn_exclusion [OF inj_on_id _ others this] demo_take show ?thesis
    by (auto simp: demo_turns_def)
qed

theorem turn_take_refines_step_witness:
  "fst (turn_take id id demo_turns None ''t'' (\<lambda>_. 0) demo_proc) = Inr ''t''
   \<and> take_outcome (turns_key id demo_turns) None ''t'' None (Inr ''t'') (store demo_proc)
       (store (snd (turn_take id id demo_turns None ''t'' (\<lambda>_. 0) demo_proc)))"
proof -
  have "turn_take id id demo_turns None ''t'' (\<lambda>_. 0) demo_proc
      = (Inr ''t'', snd (turn_take id id demo_turns None ''t'' (\<lambda>_. 0) demo_proc))"
    using demo_take by (simp add: prod_eq_iff)
  from turn_take_refines_step [OF inj_on_id _ this] demo_take show ?thesis
    by (simp add: demo_turns_def)
qed

theorem turn_release_refines_step_witness: "idles (store demo_proc) (store demo_proc)"
  using turn_release_refines_step [OF inj_on_id _ demo_release] by (simp add: demo_turns_def)

text \<open>Waiting for a turn ends and costs nothing it does not give back: \<^verbatim>\<open>wait\<close> always
  returns, leaves every seat as it found it whether it returns or raises, writes nothing to the
  store, and, where the store's answers take no time, is over by the later of its start and its
  deadline, however many commits take the turn one after another.\<close>

theorem wait_ends_by_its_deadline:
  assumes "wait hex dg tt ref mine until handed jitter p = (x, p')"
  shows "free_seats p' = free_seats p \<and> idles (store p) (store p')
    \<and> ((\<forall>g\<in>set (pending (store p)). elapsed g = 0) \<longrightarrow>
      monotonic p' \<le> (case until of None \<Rightarrow> monotonic p + turn_hold | Some d \<Rightarrow> max (monotonic p) d))"
proof (intro conjI)
  show "free_seats p' = free_seats p" "idles (store p) (store p')"
    using wait_effect [OF assms] by simp_all
  obtain seated p1 where run: "wait_loop hex dg tt ref mine handed
      (case until of None \<Rightarrow> monotonic p + turn_hold | Some d \<Rightarrow> d) jitter 0 False p = (x, seated, p1)"
    and "monotonic p' = monotonic p1"
    using assms by (auto simp: wait_def Let_def split: prod.splits if_splits)
  then show "(\<forall>g\<in>set (pending (store p)). elapsed g = 0) \<longrightarrow>
      monotonic p' \<le> (case until of None \<Rightarrow> monotonic p + turn_hold | Some d \<Rightarrow> max (monotonic p) d)"
    using wait_loop_deadline [OF run] by (auto simp: turn_hold_def max_def split: option.splits)
qed

theorem wait_ends_by_its_deadline_witness:
  "monotonic (snd (wait id id demo_turns None None (Some 9) True (\<lambda>_. 0) demo_proc)) \<le> 9"
  using wait_ends_by_its_deadline [of id id demo_turns None None "Some 9" True "\<lambda>_. 0" demo_proc, OF surjective_pairing]
  by (simp add: demo_proc_def)

end
