(* ===== verification/Object_Records.thy ===== *)
theory Object_Records
  imports Commit_Records Maintenance_Policies History_Fences Commit_Turns
begin

text \<open>
  The records an object holds under its uuid: \<^verbatim>\<open>lakehouse_kit/protection.py\<close>, the deletion-protection
  registry, and \<^verbatim>\<open>lakehouse_kit/object_records.py\<close>, which ends every record of an object at once, with
  \<^verbatim>\<open>commit_records.end_authors\<close>, \<^verbatim>\<open>file_identities.end\<close> and
  \<^verbatim>\<open>maintenance_policies.end_table_state\<close> and the listing and deleting of
  \<^verbatim>\<open>stored_objects.py\<close> they are made of, in their S3 form. Ending reads no body, so it is stated for
  a store of any content.
\<close>

section \<open>Protection\<close>

definition protection_prefix :: string where
  "protection_prefix = ''_protection''"

definition holds_protection :: "(json \<Rightarrow> string) \<Rightarrow> dict \<Rightarrow> bool" where
  "holds_protection repr r =
     (map lower_char (if truthy (dict_get r ''protected'') then py_str repr (the (dict_get r ''protected'')) else [])
      = ''true'')"

definition set_protection ::
  "(string \<Rightarrow> string) \<Rightarrow> (json \<Rightarrow> string) \<Rightarrow> dict \<Rightarrow> dict world \<Rightarrow> unit result \<times> dict world" where
  "set_protection hex repr r w = (case (item_str repr r ''kind'', item_str repr r ''uuid'') of
       (Inl e, _) \<Rightarrow> (Inl e, w)
     | (_, Inl e) \<Rightarrow> (Inl e, w)
     | (Inr kind, Inr uuid) \<Rightarrow> put_record (record_key hex protection_prefix kind uuid) r w)"

definition get_protection ::
  "(string \<Rightarrow> string) \<Rightarrow> string \<Rightarrow> string \<Rightarrow> dict world \<Rightarrow> dict option result \<times> dict world" where
  "get_protection hex kind uuid w = get_record (record_key hex protection_prefix kind uuid) w"

definition clear_protection ::
  "root \<Rightarrow> (string \<Rightarrow> string) \<Rightarrow> string \<Rightarrow> string \<Rightarrow> dict world \<Rightarrow> bool result \<times> dict world" where
  "clear_protection rt hex kind uuid w = delete_record rt (record_key hex protection_prefix kind uuid) w"

lemmas [registry_simps] = get_protection_def clear_protection_def

section \<open>Directories of records\<close>

definition beneath :: "string \<Rightarrow> string \<Rightarrow> bool" where
  "beneath directory k = prefix (directory @ ''/'') k"

text \<open>\<^verbatim>\<open>stored_objects.list_under\<close>: every object beneath a directory, at any depth.\<close>

definition list_under :: "string \<Rightarrow> 'j world \<Rightarrow> string list result \<times> 'j world" where
  "list_under directory w = (case access w of
       (False, w1) \<Rightarrow> (Inl StoreError, w1)
     | (True, w1) \<Rightarrow> (Inr (filter (beneath directory) (map fst (objects w1))), w1))"

text \<open>\<^verbatim>\<open>stored_objects.delete_objects\<close>: nothing for no paths, else the paths, in batches.\<close>

definition delete_batch :: nat where
  "delete_batch = 1000"

fun delete_batches :: "nat \<Rightarrow> string list \<Rightarrow> 'j world \<Rightarrow> unit result \<times> 'j world" where
  "delete_batches 0 ks w = (Inr (), w)"
| "delete_batches (Suc n) ks w =
     (if ks = [] then (Inr (), w)
      else case access w of
        (False, w1) \<Rightarrow> (Inl StoreError, w1)
      | (True, w1) \<Rightarrow>
          delete_batches n (drop delete_batch ks) (foldl (\<lambda>w k. store_delete k w) w1 (take delete_batch ks)))"

definition delete_objects :: "string list \<Rightarrow> 'j world \<Rightarrow> unit result \<times> 'j world" where
  "delete_objects ks w = delete_batches (length ks) ks w"

text \<open>\<^verbatim>\<open>file_identities.end\<close> and \<^verbatim>\<open>maintenance_policies.end_table_state\<close>, by their directory.\<close>

definition end_directory :: "string \<Rightarrow> 'j world \<Rightarrow> bool result \<times> 'j world" where
  "end_directory directory w = (case list_under directory w of
       (Inl e, w1) \<Rightarrow> (Inl e, w1)
     | (Inr ks, w1) \<Rightarrow>
         (case delete_objects ks w1 of
            (Inl e, w2) \<Rightarrow> (Inl e, w2)
          | (Inr _, w2) \<Rightarrow> (Inr (ks \<noteq> []), w2)))"

definition file_identities_prefix :: string where
  "file_identities_prefix = ''_file_identities''"

definition end_file_identities :: "string \<Rightarrow> 'j world \<Rightarrow> bool result \<times> 'j world" where
  "end_file_identities table_uuid w = end_directory (file_identities_prefix @ ''/'' @ table_uuid) w"

definition end_table_state :: "string \<Rightarrow> 'j world \<Rightarrow> bool result \<times> 'j world" where
  "end_table_state table_uuid w = end_directory (table_state table_uuid) w"

text \<open>\<^verbatim>\<open>commit_records.end_authors\<close>: a directory that is not there is no record; else it is deleted whole.\<close>

definition end_authors :: "string \<Rightarrow> 'j world \<Rightarrow> bool result \<times> 'j world" where
  "end_authors table_uuid w =
     (let directory = authors_prefix @ ''/'' @ table_uuid in
      case access w of
        (False, w1) \<Rightarrow> (Inl StoreError, w1)
      | (True, w1) \<Rightarrow>
          (if \<not> list_ex (\<lambda>e. beneath directory (fst e)) (objects w1) then (Inr False, w1)
           else case access w1 of
             (False, w2) \<Rightarrow> (Inl StoreError, w2)
           | (True, w2) \<Rightarrow> (Inr True, w2\<lparr>objects := filter (\<lambda>e. \<not> beneath directory (fst e)) (objects w2)\<rparr>)))"

section \<open>Ending an object\<close>

definition object_record_prefixes :: "string list" where
  "object_record_prefixes = [protection_prefix, policies_prefix, fence_prefix, turns_prefix, marks_prefix]"

fun end_keyed ::
  "root \<Rightarrow> (string \<Rightarrow> string) \<Rightarrow> string \<Rightarrow> string \<Rightarrow> string list \<Rightarrow> 'j world \<Rightarrow> string list result \<times> 'j world" where
  "end_keyed rt hex kind uuid [] w = (Inr [], w)"
| "end_keyed rt hex kind uuid (p # ps) w = (case delete_record rt (record_key hex p kind uuid) w of
       (Inl e, w1) \<Rightarrow> (Inl e, w1)
     | (Inr existed, w1) \<Rightarrow>
         (case end_keyed rt hex kind uuid ps w1 of
            (Inl e, w2) \<Rightarrow> (Inl e, w2)
          | (Inr ended, w2) \<Rightarrow> (Inr (if existed then p # ended else ended), w2)))"

text \<open>One of the table's directories, ended only for a table.\<close>

definition end_if_table ::
  "string \<Rightarrow> string \<Rightarrow> ('j world \<Rightarrow> bool result \<times> 'j world) \<Rightarrow> string list result \<times> 'j world
    \<Rightarrow> string list result \<times> 'j world" where
  "end_if_table kind p finish sofar = (case sofar of
       (Inl e, w) \<Rightarrow> (Inl e, w)
     | (Inr ended, w) \<Rightarrow>
         (if kind \<noteq> ''table'' then (Inr ended, w)
          else case finish w of
            (Inl e, w1) \<Rightarrow> (Inl e, w1)
          | (Inr existed, w1) \<Rightarrow> (Inr (if existed then ended @ [p] else ended), w1)))"

definition end_object_records ::
  "root \<Rightarrow> (string \<Rightarrow> string) \<Rightarrow> string \<Rightarrow> string \<Rightarrow> 'j world \<Rightarrow> string list result \<times> 'j world" where
  "end_object_records rt hex kind uuid w =
     end_if_table kind state_prefix (end_table_state uuid)
       (end_if_table kind file_identities_prefix (end_file_identities uuid)
         (end_if_table kind authors_prefix (end_authors uuid)
           (end_keyed rt hex kind uuid object_record_prefixes w)))"

section \<open>Ending ends everything of the object and nothing else\<close>

text \<open>With no other client in the way, an operation succeeds and removes exactly the keys of \<open>P\<close>.\<close>

definition quiet_ends :: "('j world \<Rightarrow> 'r result \<times> 'j world) \<Rightarrow> (string \<Rightarrow> bool) \<Rightarrow> bool" where
  "quiet_ends f P \<longleftrightarrow> (\<forall>w. pending w = [] \<longrightarrow>
     (\<exists>y w'. f w = (Inr y, w') \<and> pending w' = [] \<and> (\<forall>k. lookup w' k = (if P k then None else lookup w k))))"

lemma quiet_endsE:
  assumes "quiet_ends f P" "pending w = []"
  obtains y w' where "f w = (Inr y, w')" "pending w' = []" "\<And>k. lookup w' k = (if P k then None else lookup w k)"
  using assms unfolding quiet_ends_def by metis

lemma delete_record_ends: "quiet_ends (delete_record rt k) (\<lambda>k'. k' = k)"
  by (cases rt) (auto simp: quiet_ends_def delete_record_def delete_object_def)

lemma end_keyed_ends:
  "quiet_ends (end_keyed rt hex kind uuid ps) (\<lambda>k. \<exists>p\<in>set ps. k = record_key hex p kind uuid)"
proof (induction ps)
  case Nil
  show ?case by (simp add: quiet_ends_def)
next
  case (Cons p ps)
  show ?case
    unfolding quiet_ends_def
  proof (intro allI impI)
    fix w :: "'a world"
    assume q: "pending w = []"
    obtain b w1 where d: "delete_record rt (record_key hex p kind uuid) w = (Inr b, w1)" "pending w1 = []"
      "\<And>k. lookup w1 k = (if k = record_key hex p kind uuid then None else lookup w k)"
      using quiet_endsE [OF delete_record_ends [of rt "record_key hex p kind uuid"] q] by blast
    obtain es w2 where e: "end_keyed rt hex kind uuid ps w1 = (Inr es, w2)" "pending w2 = []"
      "\<And>k. lookup w2 k = (if \<exists>p\<in>set ps. k = record_key hex p kind uuid then None else lookup w1 k)"
      using quiet_endsE [OF Cons.IH d(2)] by blast
    show "\<exists>y w'. end_keyed rt hex kind uuid (p # ps) w = (Inr y, w') \<and> pending w' = [] \<and>
        (\<forall>k. lookup w' k = (if \<exists>p\<in>set (p # ps). k = record_key hex p kind uuid then None else lookup w k))"
      using d e by auto
  qed
qed

lemma lookup_delete_all: "lookup (foldl (\<lambda>w k. store_delete k w) w ks) k = (if k \<in> set ks then None else lookup w k)"
  by (induction ks arbitrary: w) auto

lemma pending_delete_all [simp]: "pending (foldl (\<lambda>w k. store_delete k w) w ks) = pending w"
  by (induction ks arbitrary: w) auto

lemma delete_batches_end:
  "length ks \<le> n \<Longrightarrow> quiet_ends (delete_batches n ks :: 'j world \<Rightarrow> _) (\<lambda>k. k \<in> set ks)"
proof (induction n arbitrary: ks)
  case 0
  then show ?case by (simp add: quiet_ends_def)
next
  case (Suc n)
  let ?now = "take delete_batch ks" and ?later = "drop delete_batch ks"
  have later: "quiet_ends (delete_batches n ?later :: 'j world \<Rightarrow> _) (\<lambda>k. k \<in> set ?later)"
    by (rule Suc.IH) (use Suc.prems in \<open>simp add: delete_batch_def\<close>)
  have parts: "set ks = set ?now \<union> set ?later"
    by (metis append_take_drop_id set_append)
  show ?case
    unfolding quiet_ends_def
  proof (intro allI impI)
    fix w :: "'j world"
    assume q: "pending w = []"
    let ?w1 = "foldl (\<lambda>w k. store_delete k w) w ?now"
    have "pending ?w1 = []" using q by simp
    then obtain y w2 where e: "delete_batches n ?later ?w1 = (Inr y, w2)" "pending w2 = []"
      "\<And>k. lookup w2 k = (if k \<in> set ?later then None else lookup ?w1 k)"
      using quiet_endsE [OF later] by metis
    show "\<exists>y w'. delete_batches (Suc n) ks w = (Inr y, w') \<and> pending w' = [] \<and>
        (\<forall>k. lookup w' k = (if k \<in> set ks then None else lookup w k))"
    proof (cases "ks = []")
      case False
      with q e show ?thesis by (auto simp: parts lookup_delete_all)
    qed (use q in simp)
  qed
qed

lemma end_directory_ends: "quiet_ends (end_directory d) (beneath d)"
  unfolding quiet_ends_def
proof (intro allI impI)
  fix w :: "'a world"
  assume q: "pending w = []"
  let ?ks = "filter (beneath d) (map fst (objects w))"
  obtain y w' where e: "delete_objects ?ks w = (Inr y, w')" "pending w' = []"
    "\<And>k. lookup w' k = (if k \<in> set ?ks then None else lookup w k)"
    using quiet_endsE [OF delete_batches_end [of ?ks, OF order_refl] q] unfolding delete_objects_def by blast
  have "lookup w' k = (if beneath d k then None else lookup w k)" for k
    using e(3) [of k] by (auto simp: lookup_def map_of_eq_None_iff)
  with q e show "\<exists>y w'. end_directory d w = (Inr y, w') \<and> pending w' = [] \<and>
      (\<forall>k. lookup w' k = (if beneath d k then None else lookup w k))"
    by (simp add: end_directory_def list_under_def)
qed

lemma map_of_filter_keys: "map_of (filter (\<lambda>e. \<not> P (fst e)) kv) k = (if P k then None else map_of kv k)"
  by (induction kv) auto

lemma end_authors_ends: "quiet_ends (end_authors u) (beneath (authors_prefix @ ''/'' @ u))"
proof -
  have "\<not> list_ex (\<lambda>e. P (fst e)) kv \<Longrightarrow> P k \<Longrightarrow> map_of kv k = None" for P :: "string \<Rightarrow> bool" and kv :: "'a objects" and k
    by (induction kv) auto
  then show ?thesis
    by (auto simp: quiet_ends_def end_authors_def lookup_def map_of_filter_keys Let_def)
qed

text \<open>The keys of the records a table's uuid holds.\<close>

definition table_record_key :: "(string \<Rightarrow> string) \<Rightarrow> string \<Rightarrow> string \<Rightarrow> bool" where
  "table_record_key hex uuid k \<longleftrightarrow>
     (\<exists>p\<in>set object_record_prefixes. k = record_key hex p ''table'' uuid) \<or>
     beneath (authors_prefix @ ''/'' @ uuid) k \<or> beneath (file_identities_prefix @ ''/'' @ uuid) k \<or>
     beneath (table_state uuid) k"

text \<open>
  Ending a table ends every record of its uuid and no other. With no other client in the way,
  \<^verbatim>\<open>end_object_records\<close> succeeds, and afterwards the store holds nothing under any of the table's
  keys, its protection, policy, fence, turns and marks records and its directories of authors, file
  identities and stamps, while every other key of the control root holds what it held.
\<close>

theorem ending_a_table_ends_exactly_its_records:
  assumes "pending w = []"
  shows "\<exists>ended w'. end_object_records rt hex ''table'' uuid w = (Inr ended, w') \<and>
    (\<forall>k. lookup w' k = (if table_record_key hex uuid k then None else lookup w k))"
proof -
  obtain es1 w1 where 1: "end_keyed rt hex ''table'' uuid object_record_prefixes w = (Inr es1, w1)" "pending w1 = []"
    "\<And>k. lookup w1 k = (if \<exists>p\<in>set object_record_prefixes. k = record_key hex p ''table'' uuid then None else lookup w k)"
    using quiet_endsE [OF end_keyed_ends assms] by metis
  obtain b2 w2 where 2: "end_authors uuid w1 = (Inr b2, w2)" "pending w2 = []"
    "\<And>k. lookup w2 k = (if beneath (authors_prefix @ ''/'' @ uuid) k then None else lookup w1 k)"
    using quiet_endsE [OF end_authors_ends 1(2)] by metis
  obtain b3 w3 where 3: "end_file_identities uuid w2 = (Inr b3, w3)" "pending w3 = []"
    "\<And>k. lookup w3 k = (if beneath (file_identities_prefix @ ''/'' @ uuid) k then None else lookup w2 k)"
    using quiet_endsE [OF end_directory_ends 2(2)] unfolding end_file_identities_def by metis
  obtain b4 w4 where 4: "end_table_state uuid w3 = (Inr b4, w4)"
    "\<And>k. lookup w4 k = (if beneath (table_state uuid) k then None else lookup w3 k)"
    using quiet_endsE [OF end_directory_ends 3(2)] unfolding end_table_state_def by metis
  show ?thesis
    using 1(1) 2(1) 3(1) 4(1)
    by (simp add: end_object_records_def end_if_table_def 4(2) 3(3) 2(3) 1(3) table_record_key_def)
qed

theorem ending_a_table_ends_exactly_its_records_witness:
  "\<exists>ended w'. end_object_records S3 id ''table'' ''u''
      \<lparr>objects = [(''_commit_authors/u/t/1.json'', Json (1::int)), (''_commit_authors/v/t/1.json'', Json 2)],
       clock = 0, pending = []\<rparr> = (Inr ended, w') \<and>
     lookup w' ''_commit_authors/u/t/1.json'' = None \<and> lookup w' ''_commit_authors/v/t/1.json'' = Some (Json 2)"
proof -
  let ?w = "\<lparr>objects = [(''_commit_authors/u/t/1.json'', Json (1::int)), (''_commit_authors/v/t/1.json'', Json 2)],
       clock = 0, pending = []\<rparr>"
  have mine: "table_record_key id ''u'' ''_commit_authors/u/t/1.json''"
    by (simp add: table_record_key_def beneath_def authors_prefix_def)
  have theirs: "\<not> table_record_key id ''u'' ''_commit_authors/v/t/1.json''"
    by (simp add: table_record_key_def beneath_def authors_prefix_def file_identities_prefix_def table_state_def
        state_prefix_def policies_prefix_def object_record_prefixes_def record_key_def protection_prefix_def
        fence_prefix_def turns_prefix_def marks_prefix_def)
  obtain ended w' where "end_object_records S3 id ''table'' ''u'' ?w = (Inr ended, w')"
    "\<forall>k. lookup w' k = (if table_record_key id ''u'' k then None else lookup ?w k)"
    using ending_a_table_ends_exactly_its_records [of ?w S3 id "''u''"] by auto
  with mine theirs show ?thesis
    by (intro exI [of _ ended] exI [of _ w']) (simp add: lookup_def [of ?w])
qed

end
