(* ===== verification/Base_Reclaim.thy ===== *)
theory Base_Reclaim
  imports Orphans Object_Records
begin

text \<open>
  A table's own directories on its data bases: \<^verbatim>\<open>lakehouse_kit/data_directories.py\<close>, which of them
  ending the table deletes, and \<^verbatim>\<open>maintenance/services/base_reclaim.py\<close>, what no retained version of a live
  table references there. The data store is a store of the theory \<open>Records\<close> whose objects are file sizes
  and times; what pylance answers of a table's versions and branches is a record of answers.
\<close>

record file_meta =
  fm_size :: nat
  fm_modified :: int

type_synonym data_store = "file_meta world"

section \<open>A table's directories\<close>

definition recorded_directories :: "base_record option \<Rightarrow> recorded_base list" where
  "recorded_directories r = (case r of None \<Rightarrow> []
     | Some r \<Rightarrow> filter (\<lambda>b. rb_role b = DATA \<and> \<not> rb_is_root b) (br_entries r))"

definition directory_uri :: "recorded_base \<Rightarrow> string" where
  "directory_uri d = key_uri (rb_store d) (rb_path d)"

text \<open>\<^verbatim>\<open>uri.split("://", 1)[-1].rstrip("/")\<close>: where the store lists the directory.\<close>

definition listed_root :: "recorded_base \<Rightarrow> string" where
  "listed_root d = rstrip_slash
     (case scheme_partition (directory_uri d) of Some (_, rest) \<Rightarrow> rest | None \<Rightarrow> directory_uri d)"

definition claimed_by ::
    "claim_store \<Rightarrow> (location_claim content \<Rightarrow> 'e) \<Rightarrow> recorded_base \<Rightarrow> string \<Rightarrow> location_claim world
      \<Rightarrow> bool result \<times> location_claim world" where
  "claimed_by st dg d table w = (case claim_holder st dg (rb_path d) w of
       (Inl e, w1) \<Rightarrow> (Inl e, w1)
     | (Inr found, w1) \<Rightarrow> (Inr (case found of None \<Rightarrow> False | Some c \<Rightarrow> lc_table c = table), w1))"

definition last_claimed_by ::
    "claim_store \<Rightarrow> (location_claim content \<Rightarrow> 'e) \<Rightarrow> recorded_base \<Rightarrow> string \<Rightarrow> location_claim world
      \<Rightarrow> bool result \<times> location_claim world" where
  "last_claimed_by st dg d table w = (case claim_read st dg (rb_path d) w of
       (Inl e, w1) \<Rightarrow> (Inl e, w1)
     | (Inr found, w1) \<Rightarrow> (Inr (case found of None \<Rightarrow> False | Some f \<Rightarrow> lc_table (cr_claim f) = table), w1))"

fun owned_directories ::
    "claim_store \<Rightarrow> (location_claim content \<Rightarrow> 'e) \<Rightarrow> recorded_base list \<Rightarrow> string \<Rightarrow> location_claim world
      \<Rightarrow> recorded_base list result \<times> location_claim world" where
  "owned_directories st dg [] table w = (Inr [], w)"
| "owned_directories st dg (d # ds) table w = (case last_claimed_by st dg d table w of
       (Inl e, w1) \<Rightarrow> (Inl e, w1)
     | (Inr mine, w1) \<Rightarrow> (case owned_directories st dg ds table w1 of
         (Inl e, w2) \<Rightarrow> (Inl e, w2)
       | (Inr rest, w2) \<Rightarrow> (Inr (if mine then d # rest else rest), w2)))"

definition directories_to_end ::
    "base_registry \<Rightarrow> (base_record content \<Rightarrow> 'e) \<Rightarrow> (location_claim content \<Rightarrow> 'f) \<Rightarrow> string \<Rightarrow> string
      \<Rightarrow> base_record world \<times> location_claim world
      \<Rightarrow> recorded_base list result \<times> base_record world \<times> location_claim world" where
  "directories_to_end rg dg dg' location table ws = (case read_base_record rg dg location (fst ws) of
       (Inl e, w1) \<Rightarrow> (Inl e, w1, snd ws)
     | (Inr r, w1) \<Rightarrow>
         (case owned_directories (claims_of rg) dg' (recorded_directories r) table (snd ws) of
            (x, c1) \<Rightarrow> (x, w1, c1)))"

text \<open>\<^verbatim>\<open>stored_objects.list_under\<close> with what it reads of each object.\<close>

definition list_files :: "string \<Rightarrow> data_store \<Rightarrow> (string \<times> file_meta) list result \<times> data_store" where
  "list_files directory w = (case list_under directory w of
       (Inl e, w1) \<Rightarrow> (Inl e, w1)
     | (Inr keys, w1) \<Rightarrow> (Inr (List.map_filter (\<lambda>k. case lookup w1 k of
          Some (Json m) \<Rightarrow> Some (k, m) | _ \<Rightarrow> None) keys), w1))"

record deleted =
  dl_files :: nat
  dl_bytes :: nat

fun delete_directories :: "recorded_base list \<Rightarrow> deleted \<Rightarrow> data_store \<Rightarrow> deleted result \<times> data_store" where
  "delete_directories [] n w = (Inr n, w)"
| "delete_directories (d # ds) n w = (case list_files (listed_root d) w of
       (Inl e, w1) \<Rightarrow> (Inl e, w1)
     | (Inr objs, w1) \<Rightarrow> (case delete_objects (map fst objs) w1 of
         (Inl e, w2) \<Rightarrow> (Inl e, w2)
       | (Inr _, w2) \<Rightarrow> delete_directories ds
           \<lparr>dl_files = dl_files n + length objs, dl_bytes = dl_bytes n + sum_list (map (fm_size \<circ> snd) objs)\<rparr> w2))"

type_synonym stores = "base_record world \<times> location_claim world \<times> data_store"

definition delete_table_directories ::
    "base_registry \<Rightarrow> (base_record content \<Rightarrow> 'e) \<Rightarrow> (location_claim content \<Rightarrow> 'f) \<Rightarrow> string \<Rightarrow> string \<Rightarrow> stores
      \<Rightarrow> deleted result \<times> stores" where
  "delete_table_directories rg dg dg' location table = (\<lambda>(w, c, data).
     case directories_to_end rg dg dg' location table (w, c) of
       (Inl e, w1, c1) \<Rightarrow> (Inl e, w1, c1, data)
     | (Inr ds, w1, c1) \<Rightarrow>
         (case delete_directories ds \<lparr>dl_files = 0, dl_bytes = 0\<rparr> data of (x, data1) \<Rightarrow> (x, w1, c1, data1)))"

definition end_base_record ::
    "base_registry \<Rightarrow> (base_record content \<Rightarrow> 'e) \<Rightarrow> (location_claim content \<Rightarrow> 'f) \<Rightarrow> string \<Rightarrow> string \<Rightarrow> stores
      \<Rightarrow> deleted result \<times> stores" where
  "end_base_record rg dg dg' location table s =
     (case delete_table_directories rg dg dg' location table s of
        (Inl e, s1) \<Rightarrow> (Inl e, s1)
      | (Inr n, w1, c1, data1) \<Rightarrow>
          (case forget_base_record rg dg dg' location table (w1, c1) of
             (Inl e, w2, c2) \<Rightarrow> (Inl e, w2, c2, data1)
           | (Inr _, w2, c2) \<Rightarrow> (Inr n, w2, c2, data1)))"

section \<open>What the retained versions reference\<close>

record snapshot =
  sn_bases :: "(int \<times> string) list"
  sn_fragments :: "fragment list"

record table_handle =
  th_head :: snapshot
  th_branches :: "string list result"
  th_branch_head :: "string \<Rightarrow> snapshot result"
  th_versions :: "int list result"
  th_at :: "int \<Rightarrow> snapshot result"
  th_branch_versions :: "string \<Rightarrow> int list result"
  th_branch_at :: "string \<Rightarrow> int \<Rightarrow> snapshot result"

definition unverified_age :: int where
  "unverified_age = 7 * 24 * 3600 * million"

definition declared_in :: "recorded_base \<Rightarrow> string \<Rightarrow> bool" where
  "declared_in d base_path = (store_of base_path = rb_store d \<and> decoded_path base_path = decoded_path (rb_path d))"

definition owned_bases :: "snapshot \<Rightarrow> recorded_base list \<Rightarrow> (int \<times> string) list" where
  "owned_bases sn ds = List.map_filter (\<lambda>(i, path). case List.find (\<lambda>d. declared_in d path) ds of
     None \<Rightarrow> None | Some d \<Rightarrow> Some (i, rb_path d)) (sn_bases sn)"

definition in_owned :: "(int \<times> string) list \<Rightarrow> int option \<Rightarrow> string option" where
  "in_owned owned base_id = (case base_id of None \<Rightarrow> None | Some i \<Rightarrow> map_of owned i)"

definition fragment_files :: "(int \<times> string) list \<Rightarrow> fragment \<Rightarrow> (string \<times> string) list" where
  "fragment_files owned f =
     List.map_filter (\<lambda>d. map_option (\<lambda>path. (path, df_path d)) (in_owned owned (df_base_id d))) (fr_data_files f) @
     (case fr_deletion f of None \<Rightarrow> []
      | Some d \<Rightarrow> (case in_owned owned (del_base_id d) of None \<Rightarrow> [] | Some path \<Rightarrow> [(path, del_path d)]))"

definition referenced_by :: "recorded_base list \<Rightarrow> snapshot \<Rightarrow> (string \<times> string) list" where
  "referenced_by ds sn = (let owned = owned_bases sn ds in
     if owned = [] then [] else concat (map (fragment_files owned) (sn_fragments sn)))"

definition heads :: "table_handle \<Rightarrow> snapshot list result" where
  "heads th = (case th_branches th of Inl e \<Rightarrow> Inl e
     | Inr names \<Rightarrow> (case each (th_branch_head th) names of Inl e \<Rightarrow> Inl e | Inr hs \<Rightarrow> Inr (th_head th # hs)))"

definition branch_snapshots :: "table_handle \<Rightarrow> string \<Rightarrow> (string option \<times> snapshot) list result" where
  "branch_snapshots th name = (case th_branch_head th name of Inl e \<Rightarrow> Inl e
     | Inr _ \<Rightarrow> (case th_branch_versions th name of Inl e \<Rightarrow> Inl e
       | Inr vs \<Rightarrow> map_sum id (map (\<lambda>sn. (Some name, sn))) (each (th_branch_at th name) vs)))"

definition every_retained_version :: "table_handle \<Rightarrow> (string option \<times> snapshot) list result" where
  "every_retained_version th = (case th_versions th of Inl e \<Rightarrow> Inl e
     | Inr vs \<Rightarrow> (case each (th_at th) vs of Inl e \<Rightarrow> Inl e
       | Inr main \<Rightarrow> (case th_branches th of Inl e \<Rightarrow> Inl e
         | Inr names \<Rightarrow> (case each (branch_snapshots th) names of Inl e \<Rightarrow> Inl e
           | Inr branches \<Rightarrow> Inr (map (\<lambda>sn. (None, sn)) main @ concat branches)))))"

section \<open>The reclaim\<close>

text \<open>\<^verbatim>\<open>name.partition("/")\<close>: a sidecar lies under the stem of its data file.\<close>

definition held_file :: "(string \<times> string) list \<Rightarrow> string \<Rightarrow> string \<Rightarrow> bool" where
  "held_file referenced directory name =
     ((directory, name) \<in> set referenced \<or>
      CHR ''/'' \<in> set name \<and> (directory, before_slash name @ ''.lance'') \<in> set referenced)"

type_synonym listed = "(string \<times> (string \<times> file_meta) list) list"

definition name_in :: "(string \<times> string) list \<Rightarrow> string \<Rightarrow> string \<Rightarrow> string" where
  "name_in prefs path k = remove_prefix (case map_of prefs path of None \<Rightarrow> [] | Some p \<Rightarrow> p) k"

definition unheld :: "listed \<Rightarrow> (string \<times> string) list \<Rightarrow> (string \<times> string) list \<Rightarrow> listed" where
  "unheld candidates prefs referenced =
     filter (\<lambda>(path, objs). objs \<noteq> [])
       (map (\<lambda>(path, objs). (path, filter (\<lambda>(k, _). \<not> held_file referenced path (name_in prefs path k)) objs)) candidates)"

fun list_each :: "recorded_base list \<Rightarrow> data_store \<Rightarrow> listed result \<times> data_store" where
  "list_each [] w = (Inr [], w)"
| "list_each (d # ds) w = (case list_files (listed_root d) w of
       (Inl e, w1) \<Rightarrow> (Inl e, w1)
     | (Inr objs, w1) \<Rightarrow> (case list_each ds w1 of
         (Inl e, w2) \<Rightarrow> (Inl e, w2)
       | (Inr rest, w2) \<Rightarrow> (Inr ((rb_path d, objs) # rest), w2)))"

definition past_age :: "int \<Rightarrow> listed \<Rightarrow> listed" where
  "past_age tick listed =
     map (\<lambda>(path, objs). (path, filter (\<lambda>(_, m). fm_modified m \<le> tick - unverified_age) objs)) listed"

definition directory_prefixes :: "recorded_base list \<Rightarrow> (string \<times> string) list" where
  "directory_prefixes ds = dict_of (map (\<lambda>d. (rb_path d, listed_root d @ ''/'')) ds)"

definition unreferenced_among :: "table_handle \<Rightarrow> recorded_base list \<Rightarrow> listed \<Rightarrow> listed result" where
  "unreferenced_among th ds candidates =
     (let prefs = directory_prefixes ds in
      if \<not> list_ex (\<lambda>(_, objs). objs \<noteq> []) candidates then Inr []
      else (case heads th of Inl e \<Rightarrow> Inl e
        | Inr hs \<Rightarrow>
           (let referenced = concat (map (referenced_by ds) hs);
                left = unheld candidates prefs referenced in
            if left = [] then Inr []
            else (case every_retained_version th of Inl e \<Rightarrow> Inl e
              | Inr vs \<Rightarrow> Inr (unheld left prefs (referenced @ concat (map (referenced_by ds \<circ> snd) vs)))))))"

definition unreferenced ::
    "table_handle \<Rightarrow> recorded_base list \<Rightarrow> int \<Rightarrow> data_store \<Rightarrow> listed result \<times> data_store" where
  "unreferenced th ds tick w = (case list_each ds w of
       (Inl e, w1) \<Rightarrow> (Inl e, w1)
     | (Inr listed, w1) \<Rightarrow> (unreferenced_among th ds (past_age tick (dict_of listed)), w1))"

fun delete_found :: "listed \<Rightarrow> deleted \<Rightarrow> data_store \<Rightarrow> deleted result \<times> data_store" where
  "delete_found [] n w = (Inr n, w)"
| "delete_found ((path, objs) # rest) n w = (case delete_objects (map fst objs) w of
       (Inl e, w1) \<Rightarrow> (Inl e, w1)
     | (Inr _, w1) \<Rightarrow> delete_found rest
         \<lparr>dl_files = dl_files n + length objs, dl_bytes = dl_bytes n + sum_list (map (fm_size \<circ> snd) objs)\<rparr> w1)"

definition reclaim :: "table_handle \<Rightarrow> recorded_base list \<Rightarrow> int \<Rightarrow> data_store \<Rightarrow> deleted result \<times> data_store" where
  "reclaim th ds tick w = (case unreferenced th ds tick w of
       (Inl e, w1) \<Rightarrow> (Inl e, w1)
     | (Inr found, w1) \<Rightarrow> delete_found found \<lparr>dl_files = 0, dl_bytes = 0\<rparr> w1)"

definition fragments_holding_deleted_rows :: "snapshot \<Rightarrow> recorded_base list \<Rightarrow> nat" where
  "fragments_holding_deleted_rows sn ds = (let owned = owned_bases sn ds in
     if owned = [] then 0
     else length (filter (\<lambda>f. fr_deletion f \<noteq> None \<and>
       list_ex (\<lambda>d. in_owned owned (df_base_id d) \<noteq> None) (fr_data_files f)) (sn_fragments sn)))"

section \<open>Two stages, one answer\<close>

text \<open>
  The reference definition reads everything first: every candidate that no head and no retained
  version holds.
\<close>

definition unreferenced_spec ::
    "recorded_base list \<Rightarrow> snapshot list \<Rightarrow> (string option \<times> snapshot) list \<Rightarrow> listed \<Rightarrow> listed" where
  "unreferenced_spec ds hs vs candidates = unheld candidates (directory_prefixes ds)
     (concat (map (referenced_by ds) hs) @ concat (map (referenced_by ds \<circ> snd) vs))"

lemma held_file_mono: "set r \<subseteq> set r' \<Longrightarrow> held_file r d n \<Longrightarrow> held_file r' d n"
  by (auto simp: held_file_def)

definition left_of ::
    "(string \<times> string) list \<Rightarrow> (string \<times> string) list \<Rightarrow> string \<Rightarrow> (string \<times> file_meta) list \<Rightarrow> (string \<times> file_meta) list" where
  "left_of ps r path objs = filter (\<lambda>(k, _). \<not> held_file r path (name_in ps path k)) objs"

lemma unheld_left_of:
  "unheld c ps r = filter (\<lambda>(path, objs). objs \<noteq> []) (map (\<lambda>(path, objs). (path, left_of ps r path objs)) c)"
  by (simp add: unheld_def left_of_def)

lemma unheld_unheld:
  assumes "set r \<subseteq> set r'"
  shows "unheld (unheld c ps r) ps r' = unheld c ps r'"
proof -
  have twice: "left_of ps r' p (left_of ps r p objs) = left_of ps r' p objs" for p objs
    using held_file_mono [OF assms] by (induction objs) (auto simp: left_of_def)
  have "left_of ps r p objs = [] \<Longrightarrow> left_of ps r' p objs = []" for p objs
    using twice [of p objs] by (simp add: left_of_def)
  then show ?thesis
    unfolding unheld_left_of by (induction c) (auto simp: twice)
qed

lemma unheld_empty: "\<not> list_ex (\<lambda>(_, objs). objs \<noteq> []) c \<Longrightarrow> unheld c ps r = []"
  by (induction c) (auto simp: unheld_def)

lemma unreferenced_among_is_spec:
  assumes "heads th = Inr hs" "every_retained_version th = Inr vs"
  shows "unreferenced_among th ds candidates = Inr (unreferenced_spec ds hs vs candidates)"
proof -
  let ?r = "concat (map (referenced_by ds) hs)" and ?v = "concat (map (referenced_by ds \<circ> snd) vs)"
  have twice: "unheld (unheld candidates (directory_prefixes ds) ?r) (directory_prefixes ds) (?r @ ?v) =
      unheld candidates (directory_prefixes ds) (?r @ ?v)"
    by (rule unheld_unheld) auto
  show ?thesis
  proof (cases "unheld candidates (directory_prefixes ds) ?r = []")
    case True
    with twice have "unheld candidates (directory_prefixes ds) (?r @ ?v) = []"
      by (simp add: unheld_def)
    with assms True show ?thesis
      by (simp add: unreferenced_among_def unreferenced_spec_def Let_def)
  next
    case False
    with assms twice show ?thesis
      by (auto simp: unreferenced_among_def unreferenced_spec_def Let_def unheld_empty)
  qed
qed

definition file_at :: "data_store \<Rightarrow> string \<Rightarrow> (string \<times> file_meta) option" where
  "file_at w k = (case lookup w k of Some (Json m) \<Rightarrow> Some (k, m) | _ \<Rightarrow> None)"

lemma file_at_iff: "file_at w k' = Some (k, m) \<longleftrightarrow> k' = k \<and> lookup w k = Some (Json m)"
  by (auto simp: file_at_def split: option.splits content.splits)

lemma lookup_in_objects: "lookup w k = Some c \<Longrightarrow> k \<in> set (map fst (objects w))"
  by (auto simp: lookup_def dest: map_of_SomeD intro: rev_image_eqI)

lemma list_files_quiet:
  assumes "pending w = []"
  shows "\<exists>objs. list_files directory w = (Inr objs, w) \<and>
    (\<forall>k m. (k, m) \<in> set objs \<longleftrightarrow> beneath directory k \<and> lookup w k = Some (Json m))"
proof (intro exI conjI allI)
  let ?objs = "List.map_filter (file_at w) (filter (beneath directory) (map fst (objects w)))"
  show "list_files directory w = (Inr ?objs, w)"
    using assms by (simp add: list_files_def list_under_def access_def file_at_def [abs_def])
  show "(k, m) \<in> set ?objs \<longleftrightarrow> beneath directory k \<and> lookup w k = Some (Json m)" for k m
    unfolding in_map_filter file_at_iff using lookup_in_objects [of w k "Json m"] by auto
qed

definition lists :: "data_store \<Rightarrow> recorded_base \<Rightarrow> (string \<times> file_meta) list \<Rightarrow> bool" where
  "lists w d objs \<longleftrightarrow> (\<forall>k m. (k, m) \<in> set objs \<longleftrightarrow> beneath (listed_root d) k \<and> lookup w k = Some (Json m))"

lemma list_each_quiet:
  assumes "pending w = []"
  shows "\<exists>l. list_each ds w = (Inr l, w) \<and> list_all2 (\<lambda>d e. fst e = rb_path d \<and> lists w d (snd e)) ds l"
proof (induction ds)
  case (Cons d ds)
  then show ?case
    using list_files_quiet [OF assms, of "listed_root d"] by (auto simp: lists_def)
qed simp

lemma delete_found_quiet:
  "pending w = [] \<Longrightarrow> \<exists>n' w'. delete_found found n w = (Inr n', w') \<and> pending w' = [] \<and>
    (\<forall>k. lookup w' k = (if \<exists>(path, objs)\<in>set found. k \<in> fst ` set objs then None else lookup w k))"
proof (induction found n w rule: delete_found.induct)
  case (2 path objs rest n w)
  obtain y w1 where w1: "delete_objects (map fst objs) w = (Inr y, w1)" "pending w1 = []"
      "\<And>k. lookup w1 k = (if k \<in> set (map fst objs) then None else lookup w k)"
    using quiet_endsE [OF delete_batches_end [of "map fst objs", OF order_refl] 2(2)]
    unfolding delete_objects_def by blast
  from 2(1) [OF w1(1) [symmetric] refl w1(2)] obtain n' w' where w': "delete_found rest
      \<lparr>dl_files = dl_files n + length objs, dl_bytes = dl_bytes n + sum_list (map (fm_size \<circ> snd) objs)\<rparr> w1 = (Inr n', w')"
      "pending w' = []"
      "\<And>k. lookup w' k = (if \<exists>(path, objs)\<in>set rest. k \<in> fst ` set objs then None else lookup w1 k)"
    by blast
  then have "lookup w' k = (if \<exists>(path, objs)\<in>set ((path, objs) # rest). k \<in> fst ` set objs then None else lookup w k)" for k
    using w1(3) [of k] by simp
  with w1(1) w'(1,2) show ?case
    by simp
qed simp

text \<open>
  What a reclaim may delete: a file that lies in one of the table's directories, is older than the
  unverified age, and belongs to no file that a head or a retained version references.
\<close>

definition reclaimable ::
    "recorded_base list \<Rightarrow> (string \<times> string) list \<Rightarrow> int \<Rightarrow> data_store \<Rightarrow> string \<Rightarrow> bool" where
  "reclaimable ds referenced tick w k \<longleftrightarrow> (\<exists>d\<in>set ds. \<exists>m. beneath (listed_root d) k \<and> lookup w k = Some (Json m) \<and>
     fm_modified m \<le> tick - unverified_age \<and>
     \<not> held_file referenced (rb_path d) (remove_prefix (listed_root d @ ''/'') k))"

lemma prefix_of_directory:
  assumes "distinct (map rb_path ds)" "d \<in> set ds"
  shows "name_in (directory_prefixes ds) (rb_path d) k = remove_prefix (listed_root d @ ''/'') k"
proof -
  have "map_of (map (\<lambda>d. (rb_path d, listed_root d @ ''/'')) ds) (rb_path d) = Some (listed_root d @ ''/'')"
    using assms by (intro map_of_is_SomeI) (auto simp: comp_def)
  then show ?thesis
    using assms(1) by (simp add: name_in_def directory_prefixes_def dict_of_distinct comp_def)
qed

lemma unheld_keys:
  "(\<exists>(path, objs)\<in>set (unheld c ps r). k \<in> fst ` set objs) \<longleftrightarrow>
   (\<exists>(path, objs)\<in>set c. k \<in> fst ` set objs \<and> \<not> held_file r path (name_in ps path k))"
  by (force simp: unheld_def filter_empty_conv)

lemma past_age_keys:
  "(\<exists>(path, objs)\<in>set (past_age tick c). k \<in> fst ` set objs \<and> Q path) \<longleftrightarrow>
   (\<exists>(path, objs)\<in>set c. Q path \<and> (\<exists>m. (k, m) \<in> set objs \<and> fm_modified m \<le> tick - unverified_age))"
  by (force simp: past_age_def)

text \<open>
  C15: the reclaim of a table's data directories deletes exactly what no retained version
  references. Reading the heads first, and the rest of the history only for what they leave, changes
  nothing: a file goes if and only if it lies in one of the table's directories, is past the unverified
  age, and no head and no retained version of main or of any branch names it or the data file whose
  sidecar it is.
\<close>

theorem reclaim_deletes_exactly_the_unreferenced:
  assumes "pending w = []" "distinct (map rb_path ds)"
    "heads th = Inr hs" "every_retained_version th = Inr vs"
  shows "\<exists>n w'. reclaim th ds tick w = (Inr n, w') \<and>
    (\<forall>k. lookup w' k = (if reclaimable ds (concat (map (referenced_by ds) (hs @ map snd vs))) tick w k
       then None else lookup w k))"
proof -
  let ?r = "concat (map (referenced_by ds) (hs @ map snd vs))"
  obtain l where l: "list_each ds w = (Inr l, w)" "list_all2 (\<lambda>d e. fst e = rb_path d \<and> lists w d (snd e)) ds l"
    using list_each_quiet [OF assms(1)] by blast
  have "map fst l = map rb_path ds"
    using l(2) by (induction rule: list_all2_induct) auto
  then have dict: "dict_of l = l"
    using assms(2) by (intro dict_of_distinct) simp
  have found: "unreferenced th ds tick w = (Inr (unheld (past_age tick l) (directory_prefixes ds) ?r), w)"
    using l(1) dict unreferenced_among_is_spec [OF assms(3,4)]
    by (simp add: unreferenced_def unreferenced_spec_def comp_def)
  have "(\<exists>(path, objs)\<in>set (unheld (past_age tick l) (directory_prefixes ds) ?r). k \<in> fst ` set objs) \<longleftrightarrow>
      reclaimable ds ?r tick w k" for k
  proof -
    have "reclaimable ds ?r tick w k \<longleftrightarrow>
        (\<exists>(path, objs)\<in>set l. \<not> held_file ?r path (name_in (directory_prefixes ds) path k) \<and>
        (\<exists>m. (k, m) \<in> set objs \<and> fm_modified m \<le> tick - unverified_age))"
      unfolding reclaimable_def
      by (rule list_all2_bex [OF l(2)])
        (auto simp: lists_def prefix_of_directory [OF assms(2)] split_beta)
    then show ?thesis
      unfolding unheld_keys past_age_keys by (rule sym)
  qed
  with delete_found_quiet [OF assms(1), of "unheld (past_age tick l) (directory_prefixes ds) ?r" "\<lparr>dl_files = 0, dl_bytes = 0\<rparr>"]
  show ?thesis
    by (auto simp: reclaim_def found)
qed

definition own_directory :: recorded_base where
  "own_directory = \<lparr>rb_path = ''cold/t1'', rb_store = ''s3'', rb_role = DATA, rb_is_root = False, rb_name = None,
     rb_origin = CREATE, rb_source = None, rb_tag = None\<rparr>"

definition kept_snapshot :: snapshot where
  "kept_snapshot = \<lparr>sn_bases = [(1, ''s3://cold/t1'')],
     sn_fragments = [\<lparr>fr_data_files = [\<lparr>df_path = ''a.lance'', df_base_id = Some 1\<rparr>], fr_overlays = False, fr_deletion = None\<rparr>]\<rparr>"

definition one_version_table :: table_handle where
  "one_version_table = \<lparr>th_head = \<lparr>sn_bases = [], sn_fragments = []\<rparr>, th_branches = Inr [],
     th_branch_head = (\<lambda>_. Inl LanceError), th_versions = Inr [1], th_at = (\<lambda>_. Inr kept_snapshot),
     th_branch_versions = (\<lambda>_. Inl LanceError), th_branch_at = (\<lambda>_ _. Inl LanceError)\<rparr>"

definition cold_store :: data_store where
  "cold_store = \<lparr>objects =
     [(''cold/t1/a.lance'', Json \<lparr>fm_size = 5, fm_modified = 0\<rparr>),
      (''cold/t1/a/x.blob'', Json \<lparr>fm_size = 5, fm_modified = 0\<rparr>),
      (''cold/t1/b.lance'', Json \<lparr>fm_size = 5, fm_modified = 0\<rparr>),
      (''cold/t1/c.lance'', Json \<lparr>fm_size = 5, fm_modified = unverified_age\<rparr>)], clock = 0, pending = []\<rparr>"

theorem reclaim_deletes_exactly_the_unreferenced_witness:
  "\<exists>n w'. reclaim one_version_table [own_directory] unverified_age cold_store = (Inr n, w') \<and>
     lookup w' ''cold/t1/b.lance'' = None \<and> lookup w' ''cold/t1/a/x.blob'' \<noteq> None \<and>
     lookup w' ''cold/t1/c.lance'' \<noteq> None"
proof -
  have reads: "heads one_version_table = Inr [\<lparr>sn_bases = [], sn_fragments = []\<rparr>]"
      "every_retained_version one_version_table = Inr [(None, kept_snapshot)]"
    by (simp_all add: heads_def every_retained_version_def one_version_table_def)
  have refs: "concat (map (referenced_by [own_directory]) ([\<lparr>sn_bases = [], sn_fragments = []\<rparr>] @
      map snd [(None :: string option, kept_snapshot)])) = [(''cold/t1'', ''a.lance'')]"
    by code_simp
  have root: "listed_root own_directory = ''cold/t1''" "rb_path own_directory = ''cold/t1''"
    by code_simp+
  have found: "reclaimable [own_directory] [(''cold/t1'', ''a.lance'')] unverified_age cold_store ''cold/t1/b.lance''"
    by (simp add: reclaimable_def root beneath_def cold_store_def lookup_def held_file_def before_slash_def
        remove_prefix_def)
  have kept: "\<not> reclaimable [own_directory] [(''cold/t1'', ''a.lance'')] unverified_age cold_store ''cold/t1/a/x.blob''"
      "\<not> reclaimable [own_directory] [(''cold/t1'', ''a.lance'')] unverified_age cold_store ''cold/t1/c.lance''"
    by (simp_all add: reclaimable_def root beneath_def cold_store_def lookup_def held_file_def before_slash_def
        remove_prefix_def unverified_age_def million_def)
  have "pending cold_store = []" "distinct (map rb_path [own_directory])"
    by (simp_all add: cold_store_def)
  from reclaim_deletes_exactly_the_unreferenced [OF this reads, of unverified_age] obtain n w' where
    w': "reclaim one_version_table [own_directory] unverified_age cold_store = (Inr n, w')"
      "\<And>k. lookup w' k = (if reclaimable [own_directory] [(''cold/t1'', ''a.lance'')] unverified_age cold_store k
        then None else lookup cold_store k)"
    unfolding refs by blast
  have "lookup cold_store ''cold/t1/a/x.blob'' \<noteq> None" "lookup cold_store ''cold/t1/c.lance'' \<noteq> None"
    by (simp_all add: cold_store_def lookup_def)
  with w' found kept show ?thesis
    by (intro exI [of _ n] exI [of _ w']) simp
qed

section \<open>Ending a table\<close>

definition claim_names :: "claim_store \<Rightarrow> location_claim world \<Rightarrow> recorded_base \<Rightarrow> string \<Rightarrow> bool" where
  "claim_names st c d table = (case lookup c (claim_key st (rb_path d)) of
     Some (Json claim) \<Rightarrow> lc_table claim = table | _ \<Rightarrow> False)"

definition claims_readable :: "claim_store \<Rightarrow> location_claim world \<Rightarrow> recorded_base list \<Rightarrow> bool" where
  "claims_readable st c ds \<longleftrightarrow> pending c = [] \<and>
     (\<forall>d\<in>set ds. lookup c (claim_key st (rb_path d)) \<notin> {Some NotObject, Some Undecodable})"

lemma owned_directories_quiet:
  "claims_readable st c ds \<Longrightarrow> owned_directories st dg ds table c = (Inr (filter (\<lambda>d. claim_names st c d table) ds), c)"
  by (induction ds)
    (auto simp: claims_readable_def last_claimed_by_def claim_read_def read_json_at_def access_def claim_names_def
      split: option.splits content.splits)

lemma delete_directories_quiet:
  "pending w = [] \<Longrightarrow> \<exists>n' w'. delete_directories ds n w = (Inr n', w') \<and> pending w' = [] \<and>
    (\<forall>k m. lookup w' k = Some (Json m) \<longleftrightarrow>
       lookup w k = Some (Json m) \<and> \<not> (\<exists>d\<in>set ds. beneath (listed_root d) k))"
proof (induction ds n w rule: delete_directories.induct)
  case (2 d ds n w)
  obtain objs where objs: "list_files (listed_root d) w = (Inr objs, w)"
      "\<And>k m. (k, m) \<in> set objs \<longleftrightarrow> beneath (listed_root d) k \<and> lookup w k = Some (Json m)"
    using list_files_quiet [OF 2(2)] by metis
  obtain y w1 where w1: "delete_objects (map fst objs) w = (Inr y, w1)" "pending w1 = []"
      "\<And>k. lookup w1 k = (if k \<in> set (map fst objs) then None else lookup w k)"
    using quiet_endsE [OF delete_batches_end [of "map fst objs", OF order_refl] 2(2)]
    unfolding delete_objects_def by blast
  have left: "lookup w1 k = Some (Json m) \<longleftrightarrow> lookup w k = Some (Json m) \<and> \<not> beneath (listed_root d) k" for k m
    using w1(3) [of k] objs(2) [of k] by (auto simp: image_iff) force
  from 2(1) [OF objs(1) [symmetric] refl w1(1) [symmetric] refl w1(2)] show ?case
    unfolding left using objs(1) w1(1) by auto
qed simp

text \<open>
  Ending a table takes the bytes of exactly the directories its claims name. Of the plain data
  directories its base record lists, those whose location claim names the table, held or released, are
  emptied; every other file stands, and so does the record, which the retry reads.
\<close>

theorem ending_empties_exactly_the_claimed_directories:
  assumes "pending w = []" "pending data = []"
    "lookup w (record_key_for rg location) = Some (Json r)" "decoded_path (br_location r) = decoded_path location"
    "claims_readable (claims_of rg) c (recorded_directories (Some r))"
  shows "\<exists>n data'. delete_table_directories rg dg dg' location table (w, c, data) = (Inr n, w, c, data') \<and>
    (\<forall>k m. lookup data' k = Some (Json m) \<longleftrightarrow> lookup data k = Some (Json m) \<and>
      \<not> (\<exists>d\<in>set (br_entries r). rb_role d = DATA \<and> \<not> rb_is_root d \<and> claim_names (claims_of rg) c d table \<and>
        beneath (listed_root d) k))"
proof -
  have "read_base_record rg dg location w = (Inr (Some r), w)"
    using assms(1,3,4) by (simp add: read_base_record_def read_json_def read_json_at_def parsed_record_def)
  then have "directories_to_end rg dg dg' location table (w, c) =
      (Inr (filter (\<lambda>d. claim_names (claims_of rg) c d table) (recorded_directories (Some r))), w, c)"
    using assms(5) by (simp add: directories_to_end_def owned_directories_quiet)
  then show ?thesis
    using delete_directories_quiet [OF assms(2), of "filter (\<lambda>d. claim_names (claims_of rg) c d table) (recorded_directories (Some r))"
        "\<lparr>dl_files = 0, dl_bytes = 0\<rparr>"]
    by (fastforce simp: delete_table_directories_def recorded_directories_def)
qed

end
