(* ===== verification/Base_Refs.thy ===== *)
theory Base_Refs
  imports Base_Registry
begin

text \<open>
  The verdicts of \<^verbatim>\<open>lakehouse_kit/base_refs.py\<close>: which roots another dataset resolves through
  (\<^verbatim>\<open>classify_base_refs\<close>, over manifests already read), and whether a rewrite, a reclaim or a delete
  at a location would break one (\<^verbatim>\<open>BaseRefs\<close>, \<^verbatim>\<open>containment_of\<close>, \<^verbatim>\<open>rewrite_refusal\<close>).

  Python sets and dictionaries are lists without repetition, in insertion order where the source
  iterates them; \<open>record_of\<close>, the catalog's base record of an owning root, is the caller's, as in the
  source.
\<close>

section \<open>Data and verdicts\<close>

datatype base_relation = FOREIGN | ANCESTOR

record base_finding =
  fi_referrer :: string
  fi_base :: string
  fi_relation :: base_relation

record base_refs =
  bs_protected :: "string list"
  bs_pinned :: "(string \<times> string list) list"
  bs_unreadable :: "(string \<times> string) list"
  bs_findings :: "base_finding list"
  bs_referrers :: "(string \<times> string list) list"

definition empty_refs :: base_refs where
  "empty_refs = \<lparr>bs_protected = [], bs_pinned = [], bs_unreadable = [], bs_findings = [], bs_referrers = []\<rparr>"

definition overlaps :: "string \<Rightarrow> string \<Rightarrow> bool" where
  "overlaps target root =
     (target = root \<or> prefix (root @ ''/'') target \<or> prefix (target @ ''/'') root)"

definition roots_of :: "base_refs \<Rightarrow> string list" where
  "roots_of refs = sort (bs_protected refs) @ sort (map fst (bs_pinned refs))"

definition is_protected :: "base_refs \<Rightarrow> string \<Rightarrow> string option" where
  "is_protected refs location = List.find (overlaps (decoded_path location)) (roots_of refs)"

definition protects_from_deletion :: "base_refs \<Rightarrow> string \<Rightarrow> string option \<Rightarrow> string option" where
  "protects_from_deletion refs location along_with =
     (let target = decoded_path location;
          gone = (case along_with of None \<Rightarrow> [location] | Some other \<Rightarrow> [location, other]) in
      List.find (\<lambda>root. overlaps target root \<and>
        (case map_of (bs_referrers refs) root of
           None \<Rightarrow> True
         | Some referrers \<Rightarrow> referrers = [] \<or>
             list_ex (\<lambda>referrer. \<not> list_ex (\<lambda>deleted. location_within deleted referrer) gone) referrers))
        (roots_of refs))"

definition pin_tags :: "base_refs \<Rightarrow> string \<Rightarrow> string list option" where
  "pin_tags refs root =
     (if root \<in> set (bs_protected refs) then None else map_of (bs_pinned refs) root)"

datatype containment_relation = Is | Branch | Under | Ancestor_of

definition containment_of :: "string \<Rightarrow> string \<Rightarrow> containment_relation" where
  "containment_of location root =
     (let here = decoded_path location; there = normalise root in
      if here = there then Is
      else if prefix (there @ ''/'') here then
        (if sublist ''/tree/'' (drop (length there) here) then Branch else Under)
      else Ancestor_of)"

text \<open>\<^verbatim>\<open>rewrite_refusal\<close>: the sentence it answers is formatted from the relation and the root.\<close>

definition rewrite_refusal :: "base_refs \<Rightarrow> string \<Rightarrow> string list \<Rightarrow> (containment_relation \<times> string) option" where
  "rewrite_refusal refs location tags = (case is_protected refs location of
       None \<Rightarrow> None
     | Some root \<Rightarrow>
         (let relation = containment_of location root in
          if relation = Branch then None
          else if relation = Is \<and>
            (case pin_tags refs root of None \<Rightarrow> False | Some pins \<Rightarrow> pins \<noteq> [] \<and> set pins \<subseteq> set tags) then None
          else Some (relation, root)))"

section \<open>Classifying the declared bases\<close>

text \<open>The discovered roots, by the path each decodes to, shortest first; a later spelling replaces an earlier one.\<close>

definition discovered_roots :: "string list \<Rightarrow> (string \<times> string) list" where
  "discovered_roots uris =
     sort_key (\<lambda>root. py_len (fst root))
       (foldl (\<lambda>d uri. AList.update (decoded_path uri) uri d) [] (filter names_a_location uris))"

text \<open>The owning root of a dataset: its decoded path and its spelling.\<close>

definition owner_of :: "(string \<times> string) list \<Rightarrow> string \<Rightarrow> string \<times> string" where
  "owner_of roots uri = (case List.find (\<lambda>root. location_within (snd root) uri) roots of
       Some root \<Rightarrow> root
     | None \<Rightarrow> (decoded_path uri, uri))"

text \<open>The bases that are not the dataset's own storage.\<close>

definition is_foreign :: "string \<Rightarrow> base_path_ref \<Rightarrow> bool" where
  "is_foreign uri ref =
     (decoded_path (bp_path ref) \<noteq> decoded_path uri \<and>
      \<not> (location_within uri (bp_path ref) \<and> store_of (bp_path ref) = store_of uri))"

text \<open>\<^verbatim>\<open>_record\<close>: the owning root's record, asked for once.\<close>

definition load_record ::
  "(string \<Rightarrow> base_record option result) \<Rightarrow> string \<times> string \<Rightarrow> (string \<times> base_record option) list
    \<Rightarrow> base_record option result \<times> (string \<times> base_record option) list" where
  "load_record record_of root records = (case map_of records (fst root) of
       Some r \<Rightarrow> (Inr r, records)
     | None \<Rightarrow>
         (case record_of (snd root) of
            Inl e \<Rightarrow> (Inl e, records)
          | Inr r \<Rightarrow> (Inr r, AList.update (fst root) r records)))"

text \<open>\<^verbatim>\<open>d.setdefault(k, set()).add(v)\<close>.\<close>

definition add_under :: "string \<Rightarrow> string \<Rightarrow> (string \<times> string list) list \<Rightarrow> (string \<times> string list) list" where
  "add_under k v d = AList.update k (List.insert v (case map_of d k of None \<Rightarrow> [] | Some vs \<Rightarrow> vs)) d"

definition pinning_tag :: "recorded_base option \<Rightarrow> string option" where
  "pinning_tag entry = (case entry of
       None \<Rightarrow> None
     | Some e \<Rightarrow>
         (if rb_role e = DERIVED_FROM then
            (case rb_tag e of Some t \<Rightarrow> if t = [] then None else Some t | None \<Rightarrow> None)
          else None))"

definition apply_judgement :: "string \<Rightarrow> string \<Rightarrow> base_refs \<Rightarrow> base_judgement \<Rightarrow> base_refs" where
  "apply_judgement uri spelled refs j =
     (let base = decoded_path (bp_path (bj_ref j)) in
      if bj_standing j = UNRECORDED then
        refs\<lparr>bs_findings := bs_findings refs @
          [\<lparr>fi_referrer = uri, fi_base = base,
            fi_relation = (if location_within (bp_path (bj_ref j)) spelled then ANCESTOR else FOREIGN)\<rparr>]\<rparr>
      else
        (case pinning_tag (bj_entry j) of
           Some tag \<Rightarrow> refs\<lparr>bs_pinned := add_under base tag (bs_pinned refs)\<rparr>
         | None \<Rightarrow> refs\<lparr>bs_protected := List.insert base (bs_protected refs)\<rparr>)
        \<lparr>bs_referrers := add_under base uri (bs_referrers refs)\<rparr>)"

fun classify_from ::
  "(string \<times> string) list \<Rightarrow> string list \<Rightarrow> (string \<Rightarrow> base_record option result)
    \<Rightarrow> (string \<times> base_path_ref list) list \<Rightarrow> (string \<times> base_record option) list \<Rightarrow> base_refs
    \<Rightarrow> base_refs result" where
  "classify_from roots configured record_of [] records refs = Inr refs"
| "classify_from roots configured record_of ((uri, bases) # declared) records refs =
     (let foreign = filter (is_foreign uri) bases; root = owner_of roots uri in
      if foreign = [] then classify_from roots configured record_of declared records refs
      else (case judge_bases (snd root) foreign configured (load_record record_of root) records of
          (Inl e, _) \<Rightarrow> Inl e
        | (Inr js, records1) \<Rightarrow>
            classify_from roots configured record_of declared records1
              (foldl (apply_judgement uri (snd root)) refs js)))"

definition classify_base_refs ::
  "(string \<times> base_path_ref list) list \<Rightarrow> string list \<Rightarrow> (string \<Rightarrow> base_record option result)
    \<Rightarrow> base_refs result" where
  "classify_base_refs declared configured record_of =
     classify_from (discovered_roots (map fst declared)) configured record_of declared [] empty_refs"

text \<open>
  \<^verbatim>\<open>protected_roots\<close>: \<open>open_manifest\<close> is the open of one dataset, which answers the bases its
  manifest declares or the reason it could not be read. An unreadable dataset is recorded, not
  skipped.
\<close>

definition protected_roots ::
  "(string \<Rightarrow> string + base_path_ref list) \<Rightarrow> string list \<Rightarrow> string list
    \<Rightarrow> (string \<Rightarrow> base_record option result) \<Rightarrow> base_refs result" where
  "protected_roots open_manifest uris configured record_of =
     (let declared = foldl (\<lambda>d uri. case open_manifest uri of Inr bs \<Rightarrow> AList.update uri bs d | Inl _ \<Rightarrow> d) [] uris;
          unreadable = concat (map (\<lambda>uri. case open_manifest uri of Inl why \<Rightarrow> [(uri, why)] | Inr _ \<Rightarrow> []) uris) in
      case classify_base_refs declared configured record_of of
        Inl e \<Rightarrow> Inl e
      | Inr refs \<Rightarrow> Inr (refs\<lparr>bs_unreadable := unreadable\<rparr>))"

section \<open>What the verdicts promise\<close>

lemma find_Some_set: "List.find P xs = Some x \<Longrightarrow> x \<in> set xs \<and> P x"
  by (auto simp: find_Some_iff)

lemma find_append: "List.find P (xs @ ys) = (case List.find P xs of None \<Rightarrow> List.find P ys | Some x \<Rightarrow> Some x)"
  by (induction xs) auto

lemma set_roots_of [simp]: "set (roots_of refs) = set (bs_protected refs) \<union> fst ` set (bs_pinned refs)"
  by (simp add: roots_of_def)

lemma is_protected_strongest:
  assumes "r \<in> set (bs_protected refs)" "overlaps (decoded_path location) r"
  obtains root where "is_protected refs location = Some root" "root \<in> set (bs_protected refs)"
    "overlaps (decoded_path location) root"
proof -
  have "List.find (overlaps (decoded_path location)) (sort (bs_protected refs)) \<noteq> None"
    using assms by (auto simp: find_None_iff)
  then obtain root where "List.find (overlaps (decoded_path location)) (sort (bs_protected refs)) = Some root"
    by blast
  with that show thesis
    by (auto simp: is_protected_def roots_of_def find_append dest: find_Some_set)
qed

text \<open>
  C31: A rewrite or reclaim is let past an unconditionally protected root only as a branch. If some
  unconditionally protected root is the location, encloses it or lies beneath it, and
  \<^verbatim>\<open>rewrite_refusal\<close> still finds nothing to refuse, then the location lies strictly inside a
  protected root, on a path boundary, with a \<^verbatim>\<open>/tree/\<close> segment after it. No tag can permit it.
\<close>

theorem rewrite_passes_protected_root_only_as_branch:
  assumes "rewrite_refusal refs location tags = None"
    and "r \<in> set (bs_protected refs)" "overlaps (decoded_path location) r"
    and "\<forall>p\<in>set (bs_protected refs). normalise p = p"
  shows "\<exists>root\<in>set (bs_protected refs). prefix (root @ ''/'') (decoded_path location) \<and>
    sublist ''/tree/'' (drop (length root) (decoded_path location))"
proof -
  obtain root where root: "is_protected refs location = Some root" "root \<in> set (bs_protected refs)"
    using is_protected_strongest [OF assms(2,3)] .
  then have "containment_of location root = Branch"
    using assms(1) by (auto simp: rewrite_refusal_def pin_tags_def Let_def split: if_splits)
  then show ?thesis
    using root(2) assms(4) by (auto simp: containment_of_def Let_def split: if_splits)
qed

lemma deletion_allowed_iff:
  "protects_from_deletion refs location along_with = None \<longleftrightarrow>
   (\<forall>root\<in>set (bs_protected refs) \<union> fst ` set (bs_pinned refs). overlaps (decoded_path location) root \<longrightarrow>
      (\<exists>referrers. map_of (bs_referrers refs) root = Some referrers \<and> referrers \<noteq> [] \<and>
         (\<forall>referrer\<in>set referrers. location_within location referrer \<or>
            (\<exists>other. along_with = Some other \<and> location_within other referrer))))"
  unfolding protects_from_deletion_def Let_def find_None_ball set_roots_of
  by (rule ball_cong [OF refl]) (auto simp: list_ex_iff split: option.splits)



theorem rewrite_passes_protected_root_only_as_branch_witness:
  "let refs = \<lparr>bs_protected = [''lake/t''], bs_pinned = [], bs_unreadable = [], bs_findings = [], bs_referrers = []\<rparr> in
   \<exists>root\<in>set (bs_protected refs). prefix (root @ ''/'') (decoded_path ''s3://lake/t/tree/b'') \<and>
     sublist ''/tree/'' (drop (length root) (decoded_path ''s3://lake/t/tree/b''))"
proof -
  let ?refs = "\<lparr>bs_protected = [''lake/t''], bs_pinned = [], bs_unreadable = [], bs_findings = [], bs_referrers = []\<rparr>"
  have "rewrite_refusal ?refs ''s3://lake/t/tree/b'' [] = None" by code_simp
  moreover have "overlaps (decoded_path ''s3://lake/t/tree/b'') ''lake/t''" by code_simp
  moreover have "normalise ''lake/t'' = ''lake/t''" by code_simp
  ultimately show ?thesis
    using rewrite_passes_protected_root_only_as_branch [of ?refs "''s3://lake/t/tree/b''" "[]" "''lake/t''"]
    by simp
qed

section \<open>What the classification finds\<close>

definition memo_ok :: "(string \<Rightarrow> base_record option result) \<Rightarrow> (string \<times> base_record option) list \<Rightarrow> bool" where
  "memo_ok record_of records =
     (\<forall>p r. map_of records p = Some r \<longrightarrow> (\<exists>s. decoded_path s = p \<and> record_of s = Inr r))"

text \<open>The catalog's record of a root is keyed by the path the root decodes to.\<close>

definition keyed_by_path :: "(string \<Rightarrow> base_record option result) \<Rightarrow> bool" where
  "keyed_by_path record_of = (\<forall>a b. decoded_path a = decoded_path b \<longrightarrow> record_of a = record_of b)"

lemma load_record_memo:
  assumes "keyed_by_path record_of" "memo_ok record_of records" "decoded_path (snd root) = fst root"
    and "load_record record_of root records = (x, records')"
  shows "x = record_of (snd root) \<and> memo_ok record_of records'"
proof (cases "map_of records (fst root)")
  case None
  with assms show ?thesis
    by (auto simp: load_record_def memo_ok_def split: sum.splits if_splits)
next
  case (Some r)
  then obtain s where "decoded_path s = fst root" "record_of s = Inr r"
    using assms(2) by (auto simp: memo_ok_def)
  with assms Some show ?thesis
    by (auto simp: load_record_def keyed_by_path_def dest: spec2 [of _ s "snd root"])
qed

lemma foldl_roots:
  "\<forall>(p, u)\<in>set d. decoded_path u = p \<Longrightarrow>
   \<forall>(p, u)\<in>set (foldl (\<lambda>d uri. AList.update (decoded_path uri) uri d) d uris). decoded_path u = p"
proof (induction uris arbitrary: d)
  case (Cons uri uris)
  have "\<forall>(p, u)\<in>set (AList.update (decoded_path uri) uri d). decoded_path u = p"
    using Cons.prems set_update_subset [of "decoded_path uri" uri d] by blast
  then show ?case using Cons.IH by simp
qed simp

lemma owner_of_path:
  "decoded_path (snd (owner_of (discovered_roots uris) uri)) = fst (owner_of (discovered_roots uris) uri)"
  using foldl_roots [of "[]" "filter names_a_location uris"]
  by (auto simp: owner_of_def discovered_roots_def split: option.splits dest!: find_Some_set)

text \<open>One judged edge: the dataset, its owning root's spelling, and the judgement of one of its bases.\<close>

type_synonym judged_edge = "string \<times> string \<times> base_judgement"

definition edge_judged ::
  "(string \<Rightarrow> string) \<Rightarrow> string list \<Rightarrow> (string \<Rightarrow> base_record option result) \<Rightarrow> string \<Rightarrow> base_path_ref
    \<Rightarrow> judged_edge \<Rightarrow> bool" where
  "edge_judged spelled configured record_of uri ref e \<longleftrightarrow>
     (\<exists>r. (record_of (spelled uri) = Inr r \<or> \<not> needs_record (spelled uri) configured ref) \<and>
        e = (uri, spelled uri, judge_base (spelled uri) ref configured r))"

definition edges_judged ::
  "(string \<Rightarrow> string) \<Rightarrow> string list \<Rightarrow> (string \<Rightarrow> base_record option result)
    \<Rightarrow> (string \<times> base_path_ref list) list \<Rightarrow> judged_edge list \<Rightarrow> bool" where
  "edges_judged spelled configured record_of declared es \<longleftrightarrow>
     (\<forall>e\<in>set es. \<exists>uri bases ref. (uri, bases) \<in> set declared \<and> ref \<in> set bases \<and> is_foreign uri ref \<and>
        edge_judged spelled configured record_of uri ref e) \<and>
     (\<forall>(uri, bases)\<in>set declared. \<forall>ref\<in>set bases. is_foreign uri ref \<longrightarrow>
        (\<exists>e\<in>set es. edge_judged spelled configured record_of uri ref e))"

abbreviation apply_edge :: "base_refs \<Rightarrow> judged_edge \<Rightarrow> base_refs" where
  "apply_edge refs e \<equiv> apply_judgement (fst e) (fst (snd e)) refs (snd (snd e))"

lemma foldl_apply_edge:
  "foldl (apply_judgement u s) refs js = foldl apply_edge refs (map (\<lambda>j. (u, s, j)) js)"
  by (induction js arbitrary: refs) auto

lemma judge_bases_edges:
  assumes "keyed_by_path record_of" "memo_ok record_of records" "decoded_path (snd root) = fst root"
    and "judge_bases (snd root) refs configured (load_record record_of root) records = (Inr js, records')"
  shows "memo_ok record_of records' \<and> (\<exists>r. js = map (\<lambda>ref. judge_base (snd root) ref configured r) refs \<and>
    (record_of (snd root) = Inr r \<or> (\<forall>ref\<in>set refs. \<not> needs_record (snd root) configured ref)))"
proof (cases "list_ex (needs_record (snd root) configured) refs")
  case True
  obtain x records1 where ld: "load_record record_of root records = (x, records1)" by force
  with True assms(4) show ?thesis
    using load_record_memo [OF assms(1-3) ld] by (auto simp: judge_bases_eq split: sum.splits)
next
  case False
  with assms(2,4) show ?thesis by (auto simp: judge_bases_eq list_ex_iff)
qed

definition base_edges_judged ::
  "(string \<Rightarrow> string) \<Rightarrow> string list \<Rightarrow> (string \<Rightarrow> base_record option result)
    \<Rightarrow> string \<Rightarrow> base_path_ref list \<Rightarrow> judged_edge list \<Rightarrow> bool" where
  "base_edges_judged spelled configured record_of uri bases es \<longleftrightarrow>
     (\<forall>e\<in>set es. \<exists>ref\<in>set bases. is_foreign uri ref \<and> edge_judged spelled configured record_of uri ref e) \<and>
     (\<forall>ref\<in>set bases. is_foreign uri ref \<longrightarrow> (\<exists>e\<in>set es. edge_judged spelled configured record_of uri ref e))"

lemma edges_judged_Cons:
  assumes "base_edges_judged spelled configured record_of uri bases here"
    and "edges_judged spelled configured record_of declared es"
  shows "edges_judged spelled configured record_of ((uri, bases) # declared) (here @ es)"
proof -
  have "\<exists>uri' bases' ref. (uri', bases') \<in> set ((uri, bases) # declared) \<and> ref \<in> set bases' \<and> is_foreign uri' ref \<and>
      edge_judged spelled configured record_of uri' ref e" if "e \<in> set (here @ es)" for e
  proof (cases "e \<in> set here")
    case True
    then obtain ref where "ref \<in> set bases" "is_foreign uri ref" "edge_judged spelled configured record_of uri ref e"
      using assms(1) unfolding base_edges_judged_def by blast
    then show ?thesis by (intro exI [of _ uri] exI [of _ bases] exI [of _ ref]) simp
  next
    case False
    with that have "e \<in> set es" by simp
    then obtain uri' bases' ref where "(uri', bases') \<in> set declared" "ref \<in> set bases'" "is_foreign uri' ref"
      "edge_judged spelled configured record_of uri' ref e"
      using assms(2) unfolding edges_judged_def by blast
    then show ?thesis by (intro exI [of _ uri'] exI [of _ bases'] exI [of _ ref]) simp
  qed
  moreover have "\<exists>e\<in>set (here @ es). edge_judged spelled configured record_of uri' ref e"
    if "(uri', bases') \<in> set ((uri, bases) # declared)" "ref \<in> set bases'" "is_foreign uri' ref" for uri' bases' ref
    using assms that unfolding base_edges_judged_def edges_judged_def by fastforce
  ultimately show ?thesis
    unfolding edges_judged_def by blast
qed

lemma classify_from_edges:
  assumes "keyed_by_path record_of" "\<forall>uri. decoded_path (snd (owner_of roots uri)) = fst (owner_of roots uri)"
    and "memo_ok record_of records" "classify_from roots configured record_of declared records refs = Inr refs'"
  shows "\<exists>es. refs' = foldl apply_edge refs es \<and>
    edges_judged (\<lambda>uri. snd (owner_of roots uri)) configured record_of declared es"
  using assms(3,4)
proof (induction declared arbitrary: records refs)
  case Nil
  then show ?case by (auto simp: edges_judged_def intro: exI [of _ "[]"])
next
  case (Cons d declared)
  obtain uri bases where d: "d = (uri, bases)" by force
  let ?foreign = "filter (is_foreign uri) bases" and ?root = "owner_of roots uri"
  let ?sp = "\<lambda>uri. snd (owner_of roots uri)"
  show ?case
  proof (cases "?foreign = []")
    case True
    with Cons.prems d have "classify_from roots configured record_of declared records refs = Inr refs'"
      by simp
    from Cons.IH [OF Cons.prems(1) this] obtain es where es: "refs' = foldl apply_edge refs es"
      "edges_judged ?sp configured record_of declared es" by blast
    have "base_edges_judged ?sp configured record_of uri bases []"
      using True by (simp add: base_edges_judged_def filter_empty_conv)
    from edges_judged_Cons [OF this es(2)] es(1) show ?thesis
      unfolding d append_Nil by blast
  next
    case False
    obtain js records1 where
      jb: "judge_bases (snd ?root) ?foreign configured (load_record record_of ?root) records = (Inr js, records1)"
      and rest: "classify_from roots configured record_of declared records1
          (foldl (apply_judgement uri (snd ?root)) refs js) = Inr refs'"
      using Cons.prems(2) d False by (auto simp: Let_def split: prod.splits sum.splits)
    obtain r where memo: "memo_ok record_of records1"
      and js: "js = map (\<lambda>ref. judge_base (snd ?root) ref configured r) ?foreign"
      and r: "record_of (snd ?root) = Inr r \<or> (\<forall>ref\<in>set ?foreign. \<not> needs_record (snd ?root) configured ref)"
      using judge_bases_edges [OF assms(1) Cons.prems(1) _ jb] assms(2) by blast
    define here where "here = map (\<lambda>j. (uri, snd ?root, j)) js"
    obtain es where es: "refs' = foldl apply_edge (foldl apply_edge refs here) es"
      "edges_judged ?sp configured record_of declared es"
      using Cons.IH [OF memo rest] unfolding foldl_apply_edge here_def by blast
    have "base_edges_judged ?sp configured record_of uri bases here"
      using r unfolding base_edges_judged_def edge_judged_def here_def js by auto
    from edges_judged_Cons [OF this es(2)] es(1) show ?thesis
      unfolding d foldl_append [symmetric] by blast
  qed
qed

lemma set_add_under: "fst ` set (add_under k v d) = insert k (fst ` set d)"
  by (simp add: add_under_def update_conv' dom_map_of_conv_image_fst [symmetric])

lemma map_of_add_under:
  "map_of (add_under k v d) k' =
   (if k' = k then Some (List.insert v (case map_of d k of None \<Rightarrow> [] | Some vs \<Rightarrow> vs)) else map_of d k')"
  by (simp add: add_under_def)

definition refs_roots :: "base_refs \<Rightarrow> string set" where
  "refs_roots refs = set (bs_protected refs) \<union> fst ` set (bs_pinned refs)"

definition edge_base :: "judged_edge \<Rightarrow> string" where
  "edge_base e = decoded_path (bp_path (bj_ref (snd (snd e))))"

definition refers :: "base_refs \<Rightarrow> string \<Rightarrow> string \<Rightarrow> bool" where
  "refers refs base uri = (\<exists>us. map_of (bs_referrers refs) base = Some us \<and> uri \<in> set us)"

lemma refs_roots_edge:
  "refs_roots (apply_edge refs e) =
   (if bj_standing (snd (snd e)) = UNRECORDED then refs_roots refs else insert (edge_base e) (refs_roots refs))"
  by (auto simp: refs_roots_def apply_judgement_def edge_base_def Let_def set_add_under split: option.splits)

lemma refers_edge:
  "refers (apply_edge refs e) base uri \<longleftrightarrow>
   refers refs base uri \<or> bj_standing (snd (snd e)) \<noteq> UNRECORDED \<and> base = edge_base e \<and> uri = fst e"
  by (cases "map_of (bs_referrers refs) (edge_base e)")
    (auto simp: refers_def apply_judgement_def edge_base_def Let_def map_of_add_under split: option.splits if_splits)

lemma refs_roots_edges:
  "refs_roots (foldl apply_edge refs es) =
   refs_roots refs \<union> edge_base ` {e \<in> set es. bj_standing (snd (snd e)) \<noteq> UNRECORDED}"
  by (induction es arbitrary: refs) (auto simp: refs_roots_edge)

lemma refers_edges:
  "refers (foldl apply_edge refs es) base uri \<longleftrightarrow>
   refers refs base uri \<or>
   (\<exists>e\<in>set es. bj_standing (snd (snd e)) \<noteq> UNRECORDED \<and> base = edge_base e \<and> uri = fst e)"
  by (induction es arbitrary: refs) (auto simp: refers_edge)

lemma bj_ref_judge_base [simp]: "bj_ref (judge_base root ref configured r) = ref"
  by (auto simp: judge_base_def Let_def split: option.splits)

lemma classify_base_refs_edges:
  assumes "keyed_by_path record_of" "classify_base_refs declared configured record_of = Inr refs"
  shows "\<exists>es. refs = foldl apply_edge empty_refs es \<and>
    edges_judged (\<lambda>uri. snd (owner_of (discovered_roots (map fst declared)) uri)) configured record_of declared es"
  using assms(2) unfolding classify_base_refs_def
  by (rule classify_from_edges [OF assms(1), rotated 2]) (simp_all add: owner_of_path memo_ok_def)

lemma empty_refs_roots [simp]: "refs_roots empty_refs = {}" "\<not> refers empty_refs base uri"
  by (simp_all add: refs_roots_def empty_refs_def refers_def)

text \<open>
  A planted base freezes nothing. Whatever bases the manifests of an estate declare, every
  root the classification protects or pins is the decoded path of a base some dataset declares
  outside its own storage, with that dataset recorded as its referrer, and the judge of its owning
  root, on the record read for it, gave it a standing other than unrecorded. A base nothing
  sanctions can only become a finding.
\<close>

theorem planted_base_protects_nothing:
  assumes "keyed_by_path record_of" "classify_base_refs declared configured record_of = Inr refs"
    and "base \<in> set (bs_protected refs) \<union> fst ` set (bs_pinned refs)"
  shows "\<exists>uri bases ref r spelled. (uri, bases) \<in> set declared \<and> ref \<in> set bases \<and> is_foreign uri ref \<and>
    decoded_path (bp_path ref) = base \<and> refers refs base uri \<and>
    spelled = snd (owner_of (discovered_roots (map fst declared)) uri) \<and>
    (record_of spelled = Inr r \<or> \<not> needs_record spelled configured ref) \<and>
    bj_standing (judge_base spelled ref configured r) \<noteq> UNRECORDED"
proof -
  let ?sp = "\<lambda>uri. snd (owner_of (discovered_roots (map fst declared)) uri)"
  obtain es where es: "refs = foldl apply_edge empty_refs es" "edges_judged ?sp configured record_of declared es"
    using classify_base_refs_edges [OF assms(1,2)] by blast
  have "base \<in> refs_roots refs" using assms(3) by (simp add: refs_roots_def)
  then obtain e where e: "e \<in> set es" "base = edge_base e" "bj_standing (snd (snd e)) \<noteq> UNRECORDED"
    unfolding es(1) refs_roots_edges by auto
  then obtain uri bases ref r where "(uri, bases) \<in> set declared" "ref \<in> set bases" "is_foreign uri ref"
    "record_of (?sp uri) = Inr r \<or> \<not> needs_record (?sp uri) configured ref"
    "e = (uri, ?sp uri, judge_base (?sp uri) ref configured r)"
    using es(2) unfolding edges_judged_def edge_judged_def by blast
  moreover from this have "refers refs base uri"
    using e unfolding es(1) refers_edges by (intro disjI2 bexI [of _ e]) auto
  ultimately show ?thesis
    using e(2,3)
    by (intro exI [of _ uri] exI [of _ bases] exI [of _ ref] exI [of _ r] exI [of _ "?sp uri"])
      (simp add: edge_base_def)
qed

theorem planted_base_protects_nothing_witness:
  "\<exists>uri. refers \<lparr>bs_protected = [''lake/t''], bs_pinned = [], bs_unreadable = [], bs_findings =
      [\<lparr>fi_referrer = ''s3://lake/t'', fi_base = ''lake/victim'', fi_relation = FOREIGN\<rparr>],
      bs_referrers = [(''lake/t'', [''s3://lake/t/tree/b''])]\<rparr> ''lake/t'' uri"
proof -
  let ?ref = "\<lambda>p. \<lparr>bp_path = p, bp_is_root = True, bp_name = None\<rparr>"
  let ?declared = "[(''s3://lake/t'', [?ref ''s3://lake/victim'']), (''s3://lake/t/tree/b'', [?ref ''s3://lake/t''])]"
  let ?refs = "\<lparr>bs_protected = [''lake/t''], bs_pinned = [], bs_unreadable = [], bs_findings =
      [\<lparr>fi_referrer = ''s3://lake/t'', fi_base = ''lake/victim'', fi_relation = FOREIGN\<rparr>],
      bs_referrers = [(''lake/t'', [''s3://lake/t/tree/b''])]\<rparr>"
  have "classify_base_refs ?declared [] (\<lambda>_. Inr None) = Inr ?refs"
    by code_simp
  then show ?thesis
    using planted_base_protects_nothing [of "\<lambda>_. Inr None" ?declared "[]" ?refs "''lake/t''"]
    by (simp add: keyed_by_path_def del: split_paired_Ex) blast
qed

text \<open>
  Every sanctioned base is protected. If a discovered dataset declares a base outside its own
  storage and the judge of its owning root gives that base any standing, then the classification
  holds the base's path as protected or pinned and the dataset as its referrer, so a delete of
  that base is refused unless it takes the referrer with it.
\<close>

theorem sanctioned_base_is_protected:
  assumes "keyed_by_path record_of" "classify_base_refs declared configured record_of = Inr refs"
    and "(uri, bases) \<in> set declared" "ref \<in> set bases" "is_foreign uri ref"
    and "spelled = snd (owner_of (discovered_roots (map fst declared)) uri)" "record_of spelled = Inr r"
    and "bj_standing (judge_base spelled ref configured r) \<noteq> UNRECORDED"
  shows "decoded_path (bp_path ref) \<in> set (bs_protected refs) \<union> fst ` set (bs_pinned refs) \<and>
    refers refs (decoded_path (bp_path ref)) uri \<and>
    (location_within (bp_path ref) uri \<or> protects_from_deletion refs (bp_path ref) None \<noteq> None)"
proof -
  let ?sp = "\<lambda>uri. snd (owner_of (discovered_roots (map fst declared)) uri)"
  let ?base = "decoded_path (bp_path ref)"
  obtain es where es: "refs = foldl apply_edge empty_refs es" "edges_judged ?sp configured record_of declared es"
    using classify_base_refs_edges [OF assms(1,2)] by blast
  obtain e where e: "e \<in> set es" "edge_judged ?sp configured record_of uri ref e"
    using es(2) assms(3-5) unfolding edges_judged_def by blast
  then have j: "e = (uri, spelled, judge_base spelled ref configured r)"
    using judge_base_fast [of spelled configured ref] assms(6,7) by (auto simp: edge_judged_def)
  have root: "?base \<in> refs_roots refs"
    using e(1) j assms(8) unfolding es(1) refs_roots_edges
    by (intro UnI2 image_eqI [of _ _ e]) (auto simp: edge_base_def)
  have refer: "refers refs ?base uri"
    using e(1) j assms(8) unfolding es(1) refers_edges
    by (intro disjI2 bexI [of _ e]) (auto simp: edge_base_def)
  have "protects_from_deletion refs (bp_path ref) None = None \<Longrightarrow> location_within (bp_path ref) uri"
    using root refer by (auto simp: deletion_allowed_iff refs_roots_def refers_def overlaps_def)
  with root refer show ?thesis
    unfolding refs_roots_def by blast
qed

theorem sanctioned_base_is_protected_witness:
  "\<exists>refs. classify_base_refs
      [(''s3://lake/t'', []), (''s3://lake/t/tree/b'', [\<lparr>bp_path = ''s3://lake/t'', bp_is_root = True, bp_name = None\<rparr>])]
      [] (\<lambda>_. Inr None) = Inr refs \<and> refers refs ''lake/t'' ''s3://lake/t/tree/b''"
proof -
  let ?ref = "\<lparr>bp_path = ''s3://lake/t'', bp_is_root = True, bp_name = None\<rparr>"
  let ?declared = "[(''s3://lake/t'', []), (''s3://lake/t/tree/b'', [?ref])]"
  let ?sp = "snd (owner_of (discovered_roots (map fst ?declared)) ''s3://lake/t/tree/b'')"
  let ?refs = "\<lparr>bs_protected = [''lake/t''], bs_pinned = [], bs_unreadable = [], bs_findings = [],
      bs_referrers = [(''lake/t'', [''s3://lake/t/tree/b''])]\<rparr>"
  have run: "classify_base_refs ?declared [] (\<lambda>_. Inr None) = Inr ?refs" by code_simp
  have foreign: "is_foreign ''s3://lake/t/tree/b'' ?ref" by code_simp
  have ok: "bj_standing (judge_base ?sp ?ref [] None) \<noteq> UNRECORDED" by code_simp
  have path: "decoded_path ''s3://lake/t'' = ''lake/t''" by code_simp
  have "refers ?refs (decoded_path (bp_path ?ref)) ''s3://lake/t/tree/b''"
    using sanctioned_base_is_protected [OF _ run, of "''s3://lake/t/tree/b''" "[?ref]" ?ref ?sp None] foreign ok path
    by (simp add: keyed_by_path_def)
  with run path show ?thesis by auto
qed

text \<open>
  A branch that another dataset reads is not refused. In an estate of a table, a branch of it,
  and a clone elsewhere whose record names the branch's directory as the base it derives from, the
  classification protects the branch's directory unconditionally, and yet \<^verbatim>\<open>rewrite_refusal\<close> lets
  the branch be rewritten and reclaimed: the table's own root, which the branch refers to, is met
  first and the branch is judged as a branch of it.
\<close>

theorem cloned_branch_is_not_refused:
  "\<exists>declared record_of refs. classify_base_refs declared [] record_of = Inr refs \<and>
     ''lake/t/tree/b'' \<in> set (bs_protected refs) \<and>
     map_of (bs_referrers refs) ''lake/t/tree/b'' = Some [''s3://lake/clone''] \<and>
     rewrite_refusal refs ''s3://lake/t/tree/b'' [] = None"
proof -
  let ?ref = "\<lambda>p. \<lparr>bp_path = p, bp_is_root = True, bp_name = None\<rparr>"
  let ?declared = "[(''s3://lake/t'', []), (''s3://lake/t/tree/b'', [?ref ''s3://lake/t'']),
      (''s3://lake/clone'', [?ref ''s3://lake/t/tree/b''])]"
  let ?entry = "\<lparr>rb_path = ''lake/t/tree/b'', rb_store = ''s3'', rb_role = DERIVED_FROM, rb_is_root = True,
      rb_name = None, rb_origin = REGISTER, rb_source = None, rb_tag = None\<rparr>"
  let ?record_of = "\<lambda>root. Inr (if root = ''s3://lake/clone''
      then Some \<lparr>br_location = ''lake/clone'', br_entries = [?entry]\<rparr> else None)"
  let ?refs = "\<lparr>bs_protected = [''lake/t/tree/b'', ''lake/t''], bs_pinned = [], bs_unreadable = [], bs_findings = [],
      bs_referrers = [(''lake/t'', [''s3://lake/t/tree/b'']), (''lake/t/tree/b'', [''s3://lake/clone''])]\<rparr>"
  have "classify_base_refs ?declared [] ?record_of = Inr ?refs" by code_simp
  moreover have "rewrite_refusal ?refs ''s3://lake/t/tree/b'' [] = None" by code_simp
  ultimately show ?thesis
    by (intro exI [of _ ?declared] exI [of _ ?record_of] exI [of _ ?refs]) simp
qed

end
