(* ===== verification/Trash.thy ===== *)
theory Trash
  imports Records
begin

text \<open>
  \<^verbatim>\<open>lakehouse_kit/trash.py\<close>: the records that make a drop recoverable until its deadline. A record
  is a JSON object under \<^verbatim>\<open>_trash/\<close>, keyed by the dropped object's uuid; its deadline is stamped when
  the drop happens.

  Instants are microseconds since the epoch in UTC. \<open>isofmt\<close> is \<^verbatim>\<open>datetime.isoformat\<close> of one and
  \<open>fromiso\<close> is \<^verbatim>\<open>datetime.fromisoformat\<close> of a string, read in UTC where it names no zone, with
  \<open>None\<close> for \<^verbatim>\<open>ValueError\<close>; what a property needs of them is that reading undoes printing.
  \<open>repr\<close> is \<^verbatim>\<open>str()\<close> of a JSON array or object, and the current time is an argument.
\<close>

section \<open>The record\<close>

definition trash_prefix :: string where
  "trash_prefix = ''_trash''"

record drop_details =
  dd_binding :: dict
  dd_properties :: dict
  dd_namespace_uuid :: "string option"
  dd_cascade :: "string option"
  dd_residue :: bool

text \<open>\<^verbatim>\<open>if value: record[key] = value\<close> for a mapping and for a string or \<^verbatim>\<open>None\<close>.\<close>

definition set_if :: "bool \<Rightarrow> string \<Rightarrow> json \<Rightarrow> dict \<Rightarrow> dict" where
  "set_if b k v r = (if b then dict_set k v r else r)"

definition opt_str :: "string option \<Rightarrow> string" where
  "opt_str s = (case s of None \<Rightarrow> [] | Some t \<Rightarrow> t)"

definition make_record ::
  "(int \<Rightarrow> string) \<Rightarrow> string \<Rightarrow> string \<Rightarrow> string \<Rightarrow> string option \<Rightarrow> int \<Rightarrow> int \<Rightarrow> string \<Rightarrow> drop_details \<Rightarrow> dict" where
  "make_record isofmt cid uuid location dropped_by grace now kind dd =
     set_if (dd_residue dd) ''residue'' (JBool True)
     (set_if (opt_str (dd_cascade dd) \<noteq> []) ''cascade'' (JStr (opt_str (dd_cascade dd)))
     (set_if (opt_str (dd_namespace_uuid dd) \<noteq> []) ''namespace_uuid'' (JStr (opt_str (dd_namespace_uuid dd)))
     (set_if (dd_properties dd \<noteq> []) ''properties'' (JObj (dd_properties dd))
     (set_if (dd_binding dd \<noteq> []) ''binding'' (JObj (dd_binding dd))
       [(''kind'', JStr kind), (''id'', JStr cid), (''uuid'', JStr uuid), (''location'', JStr location),
        (''dropped_by'', JStr (if opt_str dropped_by \<noteq> [] then opt_str dropped_by else ''anonymous'')),
        (''dropped_at'', JStr (isofmt now)), (''expires_at'', JStr (isofmt (now + grace)))]))))"

datatype object_kind = TableKind | NamespaceKind

definition kind_of :: "dict \<Rightarrow> object_kind" where
  "kind_of r = (if dict_get r ''kind'' = Some (JStr ''namespace'') then NamespaceKind else TableKind)"

definition is_residue :: "dict \<Rightarrow> bool" where
  "is_residue r = (dict_get r ''residue'' = Some (JBool True))"

definition is_released :: "dict \<Rightarrow> bool" where
  "is_released r = (case dict_get r ''released_at'' of Some (JStr _) \<Rightarrow> True | _ \<Rightarrow> False)"

definition object_uuid :: "dict \<Rightarrow> string option" where
  "object_uuid r = (case dict_get r ''uuid'' of Some (JStr u) \<Rightarrow> if u \<noteq> [] then Some u else None | _ \<Rightarrow> None)"

text \<open>One turn of the loop of \<^verbatim>\<open>expired\<close>: undated and unreadable deadlines are not due.\<close>

definition is_due :: "(string \<Rightarrow> int option) \<Rightarrow> int \<Rightarrow> dict \<Rightarrow> bool" where
  "is_due fromiso now r = (case dict_get r ''expires_at'' of
       Some (JStr raw) \<Rightarrow> (case fromiso raw of None \<Rightarrow> False | Some deadline \<Rightarrow> deadline \<le> now)
     | _ \<Rightarrow> False)"

definition expired :: "(string \<Rightarrow> int option) \<Rightarrow> int \<Rightarrow> dict list \<Rightarrow> dict list" where
  "expired fromiso now records = filter (is_due fromiso now) records"

definition past_deadline :: "(string \<Rightarrow> int option) \<Rightarrow> int \<Rightarrow> dict \<Rightarrow> bool" where
  "past_deadline fromiso now r = (expired fromiso now [r] \<noteq> [])"

section \<open>The registry\<close>

definition trash_key :: "(string \<Rightarrow> string) \<Rightarrow> string \<Rightarrow> string \<Rightarrow> string" where
  "trash_key hex kind uuid = record_key hex trash_prefix kind uuid"

text \<open>\<^verbatim>\<open>put\<close>: a record without a \<^verbatim>\<open>uuid\<close> raises \<^verbatim>\<open>KeyError\<close>.\<close>

definition trash_put ::
  "(string \<Rightarrow> string) \<Rightarrow> (json \<Rightarrow> string) \<Rightarrow> dict \<Rightarrow> dict world \<Rightarrow> unit result \<times> dict world" where
  "trash_put hex repr r w = (case dict_get r ''uuid'' of
       None \<Rightarrow> (Inl KeyError, w)
     | Some u \<Rightarrow>
         put_record (trash_key hex (case dict_get r ''kind'' of None \<Rightarrow> ''table'' | Some k \<Rightarrow> py_str repr k)
           (py_str repr u)) r w)"

definition trash_get :: "(string \<Rightarrow> string) \<Rightarrow> string \<Rightarrow> string \<Rightarrow> dict world \<Rightarrow> dict option result \<times> dict world" where
  "trash_get hex kind uuid w = get_record (trash_key hex kind uuid) w"

definition trash_clear ::
  "root \<Rightarrow> (string \<Rightarrow> string) \<Rightarrow> string \<Rightarrow> string \<Rightarrow> dict world \<Rightarrow> bool result \<times> dict world" where
  "trash_clear rt hex kind uuid w = delete_record rt (trash_key hex kind uuid) w"

definition dropped_at :: "(json \<Rightarrow> string) \<Rightarrow> dict \<Rightarrow> string" where
  "dropped_at repr r =
     (if truthy (dict_get r ''dropped_at'') then py_str repr (the (dict_get r ''dropped_at'')) else [])"

definition trash_named ::
  "(json \<Rightarrow> string) \<Rightarrow> string \<Rightarrow> string \<Rightarrow> dict world \<Rightarrow> dict list result \<times> dict world" where
  "trash_named repr cid kind w = (case list_records trash_prefix True w of
       (Inl e, w1) \<Rightarrow> (Inl e, w1)
     | (Inr listed, w1) \<Rightarrow>
         (Inr (sort_key (dropped_at repr)
            (filter (\<lambda>r. (case dict_get r ''kind'' of None \<Rightarrow> JStr ''table'' | Some k \<Rightarrow> k) = JStr kind \<and>
                         dict_get r ''id'' = Some (JStr cid)) listed)), w1))"

definition trash_list_all :: "dict world \<Rightarrow> dict list result \<times> dict world" where
  "trash_list_all w = list_records trash_prefix False w"

section \<open>Mutations of a record\<close>

definition stamp_released :: "string \<Rightarrow> dict \<Rightarrow> dict" where
  "stamp_released stamp r = dict_set ''released_at''
     (if truthy (dict_get r ''released_at'') then the (dict_get r ''released_at'') else JStr stamp) r"

definition mark_released ::
  "root \<Rightarrow> (dict content \<Rightarrow> 'e) \<Rightarrow> (string \<Rightarrow> string) \<Rightarrow> (int \<Rightarrow> string) \<Rightarrow> string \<Rightarrow> string \<Rightarrow> int \<Rightarrow> dict world
    \<Rightarrow> bool result \<times> dict world" where
  "mark_released rt dg hex isofmt kind uuid now w =
     (case mutate_json rt dg (trash_key hex kind uuid) (\<lambda>r. Inr (stamp_released (isofmt now) r)) w of
        (Inr _, w1) \<Rightarrow> (Inr True, w1)
      | (Inl e, w1) \<Rightarrow> (if e = RecordMissingError then Inr False else Inl e, w1))"

text \<open>\<^verbatim>\<open>isinstance(v, int)\<close> holds of a Python bool too.\<close>

definition as_int :: "json option \<Rightarrow> int option" where
  "as_int v = (case v of Some (JInt n) \<Rightarrow> Some n | Some (JBool b) \<Rightarrow> Some (if b then 1 else 0) | _ \<Rightarrow> None)"

definition count_refusal :: "string \<Rightarrow> string \<Rightarrow> dict \<Rightarrow> dict" where
  "count_refusal stamp reason r =
     dict_set ''last_refusal'' (JObj [(''at'', JStr stamp), (''reason'', JStr reason)])
       (dict_set ''attempts''
          (JInt ((case as_int (dict_get r ''attempts'') of None \<Rightarrow> 0 | Some n \<Rightarrow> n) + 1)) r)"

definition note_refusal ::
  "root \<Rightarrow> (dict content \<Rightarrow> 'e) \<Rightarrow> (string \<Rightarrow> string) \<Rightarrow> (int \<Rightarrow> string) \<Rightarrow> string \<Rightarrow> string \<Rightarrow> string \<Rightarrow> int \<Rightarrow> dict world
    \<Rightarrow> int option result \<times> dict world" where
  "note_refusal rt dg hex isofmt kind uuid reason now w =
     (case mutate_json rt dg (trash_key hex kind uuid) (\<lambda>r. Inr (count_refusal (isofmt now) reason r)) w of
        (Inr u, w1) \<Rightarrow> (Inr (as_int (dict_get u ''attempts'')), w1)
      | (Inl e, w1) \<Rightarrow>
          (if e = RecordMissingError \<or> e = RecordChangedError then Inr None else Inl e, w1))"

lemmas [registry_simps] = trash_get_def trash_clear_def trash_list_all_def

section \<open>The deadline is data\<close>

text \<open>What the purge and the release do to a stored record, in any order and number.\<close>

datatype record_note = Released int | Refused int string

fun apply_note :: "(int \<Rightarrow> string) \<Rightarrow> dict \<Rightarrow> record_note \<Rightarrow> dict" where
  "apply_note isofmt r (Released t) = stamp_released (isofmt t) r"
| "apply_note isofmt r (Refused t reason) = count_refusal (isofmt t) reason r"

definition undated_but :: "string \<Rightarrow> bool" where
  "undated_but k = (k \<notin> {''released_at'', ''attempts'', ''last_refusal''})"

lemma apply_note_keeps: "undated_but k \<Longrightarrow> dict_get (apply_note isofmt r n) k = dict_get r k"
  by (cases n) (auto simp: undated_but_def stamp_released_def count_refusal_def)

lemma apply_notes_keep: "undated_but k \<Longrightarrow> dict_get (foldl (apply_note isofmt) r ns) k = dict_get r k"
  by (induction ns arbitrary: r) (simp_all add: apply_note_keeps)

lemma set_if_get: "dict_get (set_if b k v r) k' = (if b \<and> k' = k then Some v else dict_get r k')"
  by (simp add: set_if_def)

lemma make_record_deadline:
  "dict_get (make_record isofmt cid uuid location by grace now kind dd) ''expires_at'' = Some (JStr (isofmt (now + grace)))"
  by (simp add: make_record_def set_if_get)

text \<open>
  The deadline is stamped when the drop happens, and nothing moves it. Whatever releases and
  refusals are noted on a trash record afterwards, in any number and order, its grace period has
  ended at an instant if and only if that instant is at or after the drop plus the grace the drop was
  given, so \<^verbatim>\<open>past_deadline\<close>, by which undrop refuses, and \<^verbatim>\<open>expired\<close>, by which the tick selects,
  agree on it forever.
\<close>

theorem deadline_is_stamped_at_the_drop:
  assumes "\<And>u. fromiso (isofmt u) = Some u"
  shows "past_deadline fromiso t
      (foldl (apply_note isofmt) (make_record isofmt cid uuid location by grace now kind dd) notes) \<longleftrightarrow>
    now + grace \<le> t"
  using assms
  by (simp add: past_deadline_def expired_def is_due_def apply_notes_keep undated_but_def make_record_deadline)

theorem deadline_is_stamped_at_the_drop_witness:
  "let isofmt = (\<lambda>t. if t < 0 then CHR ''-'' # show_nat (nat (- t)) else show_nat (nat t));
       fromiso = (\<lambda>s. Some (if hd s = CHR ''-'' then - int (parse_nat (tl s)) else int (parse_nat s)));
       dd = \<lparr>dd_binding = [], dd_properties = [], dd_namespace_uuid = None, dd_cascade = None, dd_residue = False\<rparr> in
   \<not> past_deadline fromiso 9 (foldl (apply_note isofmt)
        (make_record isofmt ''ns.t'' ''u'' ''s3://b/t'' None 7 3 ''table'' dd) [Refused 8 ''shared'', Released 9])"
proof -
  let ?isofmt = "\<lambda>t. if t < 0 then CHR ''-'' # show_nat (nat (- t)) else show_nat (nat t)"
  let ?fromiso = "\<lambda>s. Some (if hd s = CHR ''-'' then - int (parse_nat (tl s)) else int (parse_nat s))"
  have "hd (show_nat n) \<noteq> CHR ''-''" for n
  proof
    assume "hd (show_nat n) = CHR ''-''"
    moreover have "is_digit (hd (show_nat n))"
      using all_digits_show_nat [of n] by (cases "show_nat n") (auto simp: all_digits_def)
    moreover have "\<not> is_digit (CHR ''-'')" by code_simp
    ultimately show False by simp
  qed
  then have "?fromiso (?isofmt t) = Some t" for t by simp
  then show ?thesis
    unfolding Let_def by (subst deadline_is_stamped_at_the_drop) simp_all
qed

text \<open>
  A release marks a record once and changes nothing else of it, whatever runs beside it. On S3,
  for every interleaving, when \<^verbatim>\<open>mark_released\<close> answers true the record it found at its write was
  replaced by itself with only the release stamped, so a concurrently noted refusal survives; the
  first stamp is kept by every later one; and the record is then released.
\<close>

theorem release_marks_once_and_keeps_the_rest:
  assumes "inj dg" "mark_released S3 dg hex isofmt kind uuid now w = (Inr True, w')"
  shows "\<exists>m r r'. lookup (drift m w) (trash_key hex kind uuid) = Some (Json r) \<and>
    w' = store_put (trash_key hex kind uuid) (Json r') (drift m w) \<and>
    (\<forall>k. k \<noteq> ''released_at'' \<longrightarrow> dict_get r' k = dict_get r k) \<and>
    dict_get r' ''released_at'' =
      (if truthy (dict_get r ''released_at'') then dict_get r ''released_at'' else Some (JStr (isofmt now)))"
proof -
  let ?k = "trash_key hex kind uuid"
  obtain y where mu: "mutate_json S3 dg ?k (\<lambda>r. Inr (stamp_released (isofmt now) r)) w = (Inr y, w')"
    using assms(2) by (auto simp: mark_released_def split: prod.splits sum.splits if_splits)
  obtain m r where m: "lookup (drift m w) ?k = Some (Json r)" "y = stamp_released (isofmt now) r"
    "w' = store_put ?k (Json y) (drift m w)"
    using mutate_json_effect [OF assms(1) mu] by auto
  then show ?thesis
    by (intro exI [of _ m] exI [of _ r] exI [of _ y])
      (cases "dict_get r ''released_at''", auto simp: stamp_released_def)
qed

theorem release_marks_once_and_keeps_the_rest_witness:
  "let k = trash_key id ''table'' ''u''; w = \<lparr>objects = [(k, Json [(''attempts'', JInt 3)])], clock = 0, pending = []\<rparr> in
   \<exists>m r. lookup (drift m w) k = Some (Json r) \<and> dict_get r ''attempts'' = Some (JInt 3)"
proof -
  let ?k = "trash_key id ''table'' ''u''"
  let ?w = "\<lparr>objects = [(?k, Json [(''attempts'', JInt 3)])], clock = 0, pending = []\<rparr> :: dict world"
  let ?r' = "stamp_released ''now'' [(''attempts'', JInt 3)]"
  have "mutate_json S3 id ?k (\<lambda>r. Inr (stamp_released ''now'' r)) ?w = (Inr ?r', store_put ?k (Json ?r') ?w)"
    using exchange_json_quiet [of ?w ?k "[(''attempts'', JInt 3)]" "\<lambda>r. Inr (stamp_released ''now'' r)" ?r' S3 id 4]
    by (simp add: mutate_json_def mutate_attempts_def lookup_def)
  then have run: "mark_released S3 id id (\<lambda>_. ''now'') ''table'' ''u'' 0 ?w = (Inr True, store_put ?k (Json ?r') ?w)"
    by (simp add: mark_released_def)
  obtain m r r' where r: "lookup (drift m ?w) ?k = Some (Json r)"
    "store_put ?k (Json ?r') ?w = store_put ?k (Json r') (drift m ?w)"
    "dict_get r' ''attempts'' = dict_get r ''attempts''"
    using release_marks_once_and_keeps_the_rest [OF inj_on_id run] by auto
  have "lookup (store_put ?k (Json ?r') ?w) ?k = lookup (store_put ?k (Json r') (drift m ?w)) ?k"
    by (simp only: r(2))
  then have "?r' = r'" by simp
  with r(1,3) have "dict_get r ''attempts'' = Some (JInt 3)"
    by (auto simp: stamp_released_def)
  with r(1) show ?thesis
    unfolding Let_def by (intro exI [of _ m] exI [of _ r]) blast
qed

end
