(* ===== verification/Purge.thy ===== *)
theory Purge
  imports Base_Reclaim Base_Refs Trash
begin

text \<open>
  \<^verbatim>\<open>maintenance/services/purge.py\<close>: the one operation of the maintenance service that reclaims a dropped
  object. A trash record is refused unless every guard passes, on a fresh reading of the manifests; then
  its grants are revoked, its bytes deleted, its base record and its location claim ended, and the
  record cleared, in that order.

  What the manifests of the maintained roots hold is an argument, read once for the tick and once more
  for each record that reaches a mutation; so are OpenFGA's answer to the revoke, the wording of a
  refusal, and \<^verbatim>\<open>str()\<close> of a JSON array or object (\<open>repr\<close>). The store of table bytes holds files
  by their path in the store.
\<close>

section \<open>The report of drift\<close>

record skipped_category =
  sk_category :: string
  sk_coverage_gap :: bool

record drift_report =
  dr_counts :: "(string \<times> nat) list"
  dr_orphan_files_blocking :: nat
  dr_total :: nat
  dr_unavailable :: "string list"
  dr_incomplete :: "string list"
  dr_skipped :: "skipped_category list"

definition non_gating_categories :: "string list" where
  "non_gating_categories = [''unbound_namespaces'', ''ungoverned_tables'', ''orphaned_trash'', ''ghost_tables'',
     ''unregistered_datasets'', ''absent_datasets'']"

datatype blocker = Drifting nat "string list" | Unchecked "string list" | Incomplete "string list" | Gaps "string list"

definition report_is_clean :: "drift_report \<Rightarrow> blocker option" where
  "report_is_clean r =
     (if dr_total r \<noteq> 0 then
        (let blocking = AList.update ''orphan_files'' (dr_orphan_files_blocking r) (dr_counts r) in
         Some (Drifting (dr_total r) (sort (map fst (filter (\<lambda>(name, count).
           count \<noteq> 0 \<and> name \<notin> set non_gating_categories) blocking)))))
      else if dr_unavailable r \<noteq> [] then Some (Unchecked (sort (dr_unavailable r)))
      else if dr_incomplete r \<noteq> [] then Some (Incomplete (sort (remdups (dr_incomplete r))))
      else (let gaps = sort (map sk_category (filter sk_coverage_gap (dr_skipped r))) in
        if gaps = [] then None else Some (Gaps gaps)))"

section \<open>What is live\<close>

record manifest_row =
  mr_object_id :: string
  mr_object_type :: string
  mr_location :: string
  mr_uuid :: "string option"

record liveness =
  lv_ids :: "string list"
  lv_locations :: "string list"
  lv_namespace_uuids :: "(string \<times> string) list"

definition nothing_live :: liveness where
  "nothing_live = \<lparr>lv_ids = [], lv_locations = [], lv_namespace_uuids = []\<rparr>"

definition both_live :: "liveness \<Rightarrow> liveness \<Rightarrow> liveness" where
  "both_live a b = \<lparr>lv_ids = lv_ids a @ lv_ids b, lv_locations = lv_locations a @ lv_locations b,
     lv_namespace_uuids = fold (\<lambda>(k, v). AList.update k v) (lv_namespace_uuids b) (lv_namespace_uuids a)\<rparr>"

definition resolves_into :: "liveness \<Rightarrow> string \<Rightarrow> bool" where
  "resolves_into live location =
     list_ex (\<lambda>l. location_within l location \<or> location_within location l) (lv_locations live)"

text \<open>A row's location is relative to its root unless it carries a scheme.\<close>

definition strip_slashes :: "string \<Rightarrow> string" where
  "strip_slashes s = rstrip_slash (dropWhile (\<lambda>c. c = CHR ''/'') s)"

definition table_location :: "string \<Rightarrow> manifest_row \<Rightarrow> string option" where
  "table_location root row = (let stored = strip (mr_location row) in
     if mr_object_type row \<noteq> ''table'' \<or> stored = [] then None
     else Some (if sublist ''://'' stored then stored else rstrip_slash root @ ''/'' @ strip_slashes stored))"

definition add_row :: "string \<Rightarrow> manifest_row \<Rightarrow> liveness \<Rightarrow> liveness" where
  "add_row root row live =
     (let live1 = (if mr_object_id row \<noteq> [] then live\<lparr>lv_ids := lv_ids live @ [mr_object_id row]\<rparr> else live) in
      case table_location root row of
        Some l \<Rightarrow> live1\<lparr>lv_locations := lv_locations live1 @ [l]\<rparr>
      | None \<Rightarrow> (case mr_uuid row of
          Some u \<Rightarrow> if mr_object_type row = ''namespace'' \<and> mr_object_id row \<noteq> []
            then live1\<lparr>lv_namespace_uuids := AList.update (mr_object_id row) u (lv_namespace_uuids live1)\<rparr> else live1
        | None \<Rightarrow> live1))"

definition manifest_liveness :: "(string \<Rightarrow> manifest_row list option) \<Rightarrow> string \<Rightarrow> liveness option" where
  "manifest_liveness rows root = map_option (\<lambda>rs. fold (add_row root) rs nothing_live) (rows root)"

fun liveness_over :: "(string \<Rightarrow> manifest_row list option) \<Rightarrow> string list \<Rightarrow> liveness \<Rightarrow> liveness option" where
  "liveness_over rows [] live = Some live"
| "liveness_over rows (r # rs) live = (case manifest_liveness rows r of
     None \<Rightarrow> None | Some found \<Rightarrow> liveness_over rows rs (both_live live found))"

definition liveness_across :: "(string \<Rightarrow> manifest_row list option) \<Rightarrow> string list \<Rightarrow> liveness option" where
  "liveness_across rows roots = liveness_over rows (sort (remdups roots)) nothing_live"

section \<open>The refusal ladder\<close>

text \<open>\<^verbatim>\<open>str(record.get(key) or default)\<close>.\<close>

definition text_field :: "(json \<Rightarrow> string) \<Rightarrow> string \<Rightarrow> string \<Rightarrow> dict \<Rightarrow> string" where
  "text_field repr dflt k r = (if truthy (dict_get r k) then py_str repr (the (dict_get r k)) else dflt)"

definition record_kind :: "(json \<Rightarrow> string) \<Rightarrow> dict \<Rightarrow> string" where
  "record_kind repr r = text_field repr ''table'' ''kind'' r"

definition record_id :: "(json \<Rightarrow> string) \<Rightarrow> dict \<Rightarrow> string" where
  "record_id repr r = text_field repr [] ''id'' r"

definition record_location :: "(json \<Rightarrow> string) \<Rightarrow> dict \<Rightarrow> string" where
  "record_location repr r = rstrip_slash (text_field repr [] ''location'' r)"

definition drain_order :: "(json \<Rightarrow> string) \<Rightarrow> dict \<Rightarrow> int \<times> string" where
  "drain_order repr r =
     ((case as_int (dict_get r ''attempts'') of Some n \<Rightarrow> if n > 0 then n else 0 | None \<Rightarrow> 0),
      text_field repr [] ''expires_at'' r)"

definition due_from :: "(json \<Rightarrow> string) \<Rightarrow> (string \<Rightarrow> int option) \<Rightarrow> int \<Rightarrow> dict list \<Rightarrow> dict list" where
  "due_from repr fromiso t records =
     sort_key (\<lambda>r. fst (drain_order repr r)) (sort_key (\<lambda>r. snd (drain_order repr r)) (expired fromiso t records))"

definition root_of :: "string \<Rightarrow> string list \<Rightarrow> string option" where
  "root_of location roots = List.find (\<lambda>root. location = root \<or> prefix (root @ ''/'') location)
     (sort_key (\<lambda>r. - int (py_len r)) (map rstrip_slash roots))"

definition still_registered :: "(json \<Rightarrow> string) \<Rightarrow> dict \<Rightarrow> liveness \<Rightarrow> bool" where
  "still_registered repr r live =
     (let obj_id = record_id repr r; location = record_location repr r in
      if record_kind repr r = ''namespace'' then
        obj_id \<in> set (lv_ids live) \<and> map_of (lv_namespace_uuids live) obj_id \<in> {object_uuid r, None}
      else if location = [] then obj_id \<in> set (lv_ids live)
      else list_ex (\<lambda>l. decoded_path l = decoded_path location) (lv_locations live))"

datatype purge_refusal =
    No_object_id | No_uuid | Manifest_unreadable | Is_registered | Names_no_place | Outside_the_estate
  | Is_a_store_root | Crosses_control "string list" | Location_is_live
  | Protected_base string | Revoke_failed error | Not_a_dataset | Delete_failed error
  | Base_record_left error | Record_not_cleared error

definition check :: "(json \<Rightarrow> string) \<Rightarrow> string list \<Rightarrow> liveness option \<Rightarrow> dict \<Rightarrow> purge_refusal option" where
  "check repr roots live r =
     (let location = record_location repr r in
      if record_id repr r = [] then Some No_object_id
      else if object_uuid r = None then Some No_uuid
      else case live of
        None \<Rightarrow> Some Manifest_unreadable
      | Some live \<Rightarrow>
          if still_registered repr r live then Some Is_registered
          else if record_kind repr r = ''namespace'' \<or> location = [] then None
          else if \<not> names_a_location location then Some Names_no_place
          else case root_of location roots of
            None \<Rightarrow> Some Outside_the_estate
          | Some root \<Rightarrow>
              (let segments = (\<lambda>l. case decoded_segments l of None \<Rightarrow> [] | Some s \<Rightarrow> s);
                   remainder = drop (length (segments root)) (segments location);
                   crossed = sort (filter (\<lambda>p. p \<in> set remainder) control_prefixes) in
               if remainder = [] then Some Is_a_store_root
               else if crossed \<noteq> [] then Some (Crosses_control crossed)
               else if resolves_into live location then Some Location_is_live
               else None))"

section \<open>The mutations\<close>

record purge_world =
  pw_control :: "dict world"
  pw_bases :: "base_record world"
  pw_claims :: "location_claim world"
  pw_data :: data_store
  pw_revoked :: "string list"
  pw_events :: "string list"

record 'e purge_env =
  pe_registry :: base_registry
  pe_hex :: "string \<Rightarrow> string"
  pe_isofmt :: "int \<Rightarrow> string"
  pe_repr :: "json \<Rightarrow> string"
  pe_wording :: "purge_refusal \<Rightarrow> string"
  pe_dg_control :: "dict content \<Rightarrow> 'e"
  pe_dg_bases :: "base_record content \<Rightarrow> 'e"
  pe_dg_claims :: "location_claim content \<Rightarrow> 'e"
  pe_time :: int
  pe_fga_enabled :: bool
  pe_revoke :: "string \<Rightarrow> nat result"
  pe_roots :: "string list"
  pe_protected :: "base_refs option"
  pe_dry_run :: bool

text \<open>
  \<^verbatim>\<open>store_paths\<close>: the path a location opens and the path it is spelled as. On a local root both are
  absolute.
\<close>

definition anchor :: "string \<Rightarrow> string" where
  "anchor location = (if store_of location = ''file'' then ''/'' else [])"

definition opened_path :: "string \<Rightarrow> string" where
  "opened_path location = anchor location @ decoded_path location"

definition spelled_path :: "string \<Rightarrow> string" where
  "spelled_path location = anchor location @ normalise location"

definition reservation_marker :: string where
  "reservation_marker = ''.lance-reserved''"

definition require_a_dataset :: "string \<Rightarrow> (string \<times> file_meta) list \<Rightarrow> bool" where
  "require_a_dataset path objs = (objs = [] \<or>
     list_ex (\<lambda>(k, _). before_slash (remove_prefix (rstrip_slash path @ ''/'') (rstrip_slash k)) = ''_versions'') objs)"

definition require_only_the_marker :: "string \<Rightarrow> (string \<times> file_meta) list \<Rightarrow> bool" where
  "require_only_the_marker spelled stray =
     list_all (\<lambda>(k, _). k = rstrip_slash spelled @ ''/'' @ reservation_marker) stray"

text \<open>\<^verbatim>\<open>fs.delete_dir\<close>: everything beneath the path.\<close>

definition delete_dir :: "string \<Rightarrow> data_store \<Rightarrow> unit result \<times> data_store" where
  "delete_dir path w = (case access w of
       (False, w1) \<Rightarrow> (Inl StoreError, w1)
     | (True, w1) \<Rightarrow> (Inr (), w1\<lparr>objects := filter (\<lambda>(k, _). \<not> beneath path k) (objects w1)\<rparr>))"

definition objects_held :: "string \<Rightarrow> data_store \<Rightarrow> nat result \<times> data_store" where
  "objects_held location w = (case list_files (opened_path location) w of
       (Inl e, w1) \<Rightarrow> (Inl e, w1)
     | (Inr held_objs, w1) \<Rightarrow>
        (if spelled_path location = opened_path location then (Inr (length held_objs), w1)
         else (case list_files (spelled_path location) w1 of
             (Inl e, w2) \<Rightarrow> (Inl e, w2)
           | (Inr stray, w2) \<Rightarrow> (Inr (length held_objs + length stray), w2))))"

definition delete_location :: "base_refs option \<Rightarrow> string \<Rightarrow> data_store \<Rightarrow> deleted result \<times> data_store" where
  "delete_location protected location w =
     (if (case protected of None \<Rightarrow> None | Some refs \<Rightarrow> protects_from_deletion refs location None) \<noteq> None
      then (Inl ProtectedBaseError, w)
      else (case list_files (opened_path location) w of
          (Inl e, w1) \<Rightarrow> (Inl e, w1)
        | (Inr objs, w1) \<Rightarrow>
           (case (if spelled_path location \<noteq> opened_path location then list_files (spelled_path location) w1
                  else (Inr [], w1)) of
              (Inl e, w2) \<Rightarrow> (Inl e, w2)
            | (Inr stray, w2) \<Rightarrow>
               (if \<not> require_a_dataset (opened_path location) objs \<or>
                   \<not> require_only_the_marker (spelled_path location) stray
                then (Inl NotADatasetRootError, w2)
                else (case delete_dir (opened_path location) w2 of
                    (Inl e, w3) \<Rightarrow> (Inl e, w3)
                  | (Inr _, w3) \<Rightarrow>
                     (case (if stray = [] then (Inr (), w3) else delete_dir (spelled_path location) w3) of
                        (Inl e, w4) \<Rightarrow> (Inl e, w4)
                      | (Inr _, w4) \<Rightarrow>
                          (Inr \<lparr>dl_files = length (objs @ stray),
                            dl_bytes = sum_list (map (fm_size \<circ> snd) (objs @ stray))\<rparr>, w4)))))))"

definition judged_data_directories ::
    "'e purge_env \<Rightarrow> string \<Rightarrow> string \<Rightarrow> purge_world \<Rightarrow> recorded_base list result \<times> purge_world" where
  "judged_data_directories env location table w =
     (case directories_to_end (pe_registry env) (pe_dg_bases env) (pe_dg_claims env) location table (pw_bases w, pw_claims w) of
        (x, b1, c1) \<Rightarrow>
          (let w1 = w\<lparr>pw_bases := b1, pw_claims := c1\<rparr> in
           case x of
             Inl e \<Rightarrow> (Inl e, w1)
           | Inr ds \<Rightarrow>
              (if list_ex (\<lambda>d. case pe_protected env of None \<Rightarrow> False
                   | Some refs \<Rightarrow> protects_from_deletion refs (directory_uri d) (Some location) \<noteq> None) ds
               then (Inl ProtectedBaseError, w1) else (Inr ds, w1))))"

definition delete_guarded ::
    "'e purge_env \<Rightarrow> string \<Rightarrow> string \<Rightarrow> purge_world \<Rightarrow> deleted result \<times> purge_world" where
  "delete_guarded env location table w = (case judged_data_directories env location table w of
       (Inl e, w1) \<Rightarrow> (Inl e, w1)
     | (Inr ds, w1) \<Rightarrow> (case delete_location (pe_protected env) location (pw_data w1) of
         (Inl e, d1) \<Rightarrow> (Inl e, w1\<lparr>pw_data := d1\<rparr>)
       | (Inr root, d1) \<Rightarrow> (case delete_directories ds root d1 of
           (x, d2) \<Rightarrow> (x, w1\<lparr>pw_data := d2\<rparr>))))"

record purged_record =
  pd_kind :: string
  pd_id :: string
  pd_location :: string
  pd_expires_at :: string
  pd_deleted :: deleted
  pd_tuples_revoked :: nat

record refused_record =
  rr_kind :: string
  rr_id :: string
  rr_reason :: purge_refusal
  rr_attempts :: "int option"

record purge_report =
  pr_enabled :: bool
  pr_ran :: bool
  pr_blocked :: bool
  pr_due :: nat
  pr_dry_run :: bool
  pr_purged :: "purged_record list"
  pr_would_purge :: "(string \<times> string \<times> string \<times> string) list"
  pr_refused :: "refused_record list"
  pr_capped :: nat
  pr_skipped_categories :: "string list"

text \<open>\<^verbatim>\<open>_refuse\<close>: the refusal is reported, and remembered on the record unless this is a preview.\<close>

definition refuse ::
    "'e purge_env \<Rightarrow> dict \<Rightarrow> purge_refusal \<Rightarrow> purge_report \<Rightarrow> purge_world \<Rightarrow> purge_report \<times> purge_world" where
  "refuse env r reason out w =
     (let kind = record_kind (pe_repr env) r;
          (attempts, c1) = (case object_uuid r of
             None \<Rightarrow> (None, pw_control w)
           | Some uuid \<Rightarrow>
              if pe_dry_run env then (None, pw_control w)
              else (case note_refusal (bg_root (pe_registry env)) (pe_dg_control env) (pe_hex env) (pe_isofmt env) kind uuid
                       (pe_wording env reason) (pe_time env) (pw_control w) of
                      (Inl _, c) \<Rightarrow> (None, c) | (Inr n, c) \<Rightarrow> (n, c))) in
      (out\<lparr>pr_refused := pr_refused out @ [\<lparr>rr_kind = kind, rr_id = record_id (pe_repr env) r,
          rr_reason = reason, rr_attempts = attempts\<rparr>]\<rparr>, w\<lparr>pw_control := c1\<rparr>))"

text \<open>
  \<^verbatim>\<open>_delete_bytes_or_refuse\<close>. The first three arms catch the two refusals and the store's failures;
  an exception outside them, a stored claim that is not one, is not caught.
\<close>

definition caught_by_delete :: "error \<Rightarrow> bool" where
  "caught_by_delete e = (e \<in> set [StoreError, FileNotFoundError, UnreadableBaseRecordError])"

definition delete_bytes_or_refuse ::
    "'e purge_env \<Rightarrow> dict \<Rightarrow> purge_report \<Rightarrow> purge_world \<Rightarrow> deleted option result \<times> purge_report \<times> purge_world" where
  "delete_bytes_or_refuse env r out w =
     (let location = record_location (pe_repr env) r; table = record_id (pe_repr env) r;
          refused = (\<lambda>reason w. case refuse env r reason out w of (out1, w1) \<Rightarrow> (Inr None, out1, w1)) in
      if location = [] \<or> record_kind (pe_repr env) r = ''namespace'' then
        (Inr (Some \<lparr>dl_files = 0, dl_bytes = 0\<rparr>), out, w)
      else (case delete_guarded env location table w of
          (Inl e, w1) \<Rightarrow>
            (if e = NotADatasetRootError then refused Not_a_dataset w1
             else if e = ProtectedBaseError then refused (Protected_base location) w1
             else if caught_by_delete e then refused (Delete_failed e) w1
             else (Inl e, out, w1))
        | (Inr n, w1) \<Rightarrow>
           (case forget_base_record (pe_registry env) (pe_dg_bases env) (pe_dg_claims env) location table (pw_bases w1, pw_claims w1) of
              (Inl e, b1, c1) \<Rightarrow> refused (Base_record_left e) (w1\<lparr>pw_bases := b1, pw_claims := c1\<rparr>)
            | (Inr _, b1, c1) \<Rightarrow>
               (case release_claim (claims_of (pe_registry env)) (pe_dg_claims env) location table c1 of
                  (Inl e, c2) \<Rightarrow> refused (Base_record_left e) (w1\<lparr>pw_bases := b1, pw_claims := c2\<rparr>)
                | (Inr _, c2) \<Rightarrow> (Inr (Some n), out, w1\<lparr>pw_bases := b1, pw_claims := c2\<rparr>)))))"

definition object_of :: "string \<Rightarrow> string \<Rightarrow> string" where
  "object_of kind uuid = (if kind = ''namespace'' then ''namespace:'' else ''table:'') @ uuid"

definition revoke :: "'e purge_env \<Rightarrow> string \<Rightarrow> string \<Rightarrow> purge_world \<Rightarrow> nat result \<times> purge_world" where
  "revoke env kind uuid w =
     (if \<not> pe_fga_enabled env then (Inr 0, w)
      else (case pe_revoke env (object_of kind uuid) of
          Inl e \<Rightarrow> (Inl e, w)
        | Inr n \<Rightarrow> (Inr n, w\<lparr>pw_revoked := pw_revoked w @ [object_of kind uuid]\<rparr>)))"

text \<open>What the drop kept for an undrop ends, then the trash record.\<close>

definition clear_record :: "'e purge_env \<Rightarrow> string \<Rightarrow> string \<Rightarrow> purge_world \<Rightarrow> unit result \<times> purge_world" where
  "clear_record env kind uuid w =
     (case end_object_records (bg_root (pe_registry env)) (pe_hex env) kind uuid (pw_control w) of
        (Inl e, c1) \<Rightarrow> (Inl e, w\<lparr>pw_control := c1\<rparr>)
      | (Inr _, c1) \<Rightarrow>
         (case trash_clear (bg_root (pe_registry env)) (pe_hex env) kind uuid c1 of
            (Inl e, c2) \<Rightarrow> (Inl e, w\<lparr>pw_control := c2\<rparr>)
          | (Inr _, c2) \<Rightarrow> (Inr (), w\<lparr>pw_control := c2\<rparr>)))"

definition announce :: "string \<Rightarrow> string \<Rightarrow> purge_world \<Rightarrow> purge_world" where
  "announce kind uuid w = w\<lparr>pw_events := pw_events w @
     [(if kind = ''namespace'' then ''namespace_purged'' else ''table_purged'') @ '':'' @ kind @ '':'' @ uuid]\<rparr>"

text \<open>
  \<^verbatim>\<open>_purge_one\<close>: \<open>live\<close> is the snapshot of the tick, \<open>relive\<close> what the manifests say at the last
  instant before the first mutation.
\<close>

definition purge_one ::
    "'e purge_env \<Rightarrow> liveness option \<Rightarrow> liveness option \<Rightarrow> dict \<Rightarrow> purge_report \<Rightarrow> purge_world
      \<Rightarrow> unit result \<times> purge_report \<times> purge_world" where
  "purge_one env live relive r out w =
     (let repr = pe_repr env; kind = record_kind repr r; location = record_location repr r;
          uuid = (case object_uuid r of None \<Rightarrow> [] | Some u \<Rightarrow> u);
          refused = (\<lambda>reason out w. case refuse env r reason out w of (out1, w1) \<Rightarrow> (Inr (), out1, w1)) in
      case check repr (pe_roots env) live r of
        Some reason \<Rightarrow> refused reason out w
      | None \<Rightarrow>
         if pe_dry_run env then
           (case (case pe_protected env of None \<Rightarrow> None | Some refs \<Rightarrow> protects_from_deletion refs location None) of
              Some _ \<Rightarrow> refused (Protected_base location) out w
            | None \<Rightarrow> (Inr (), out\<lparr>pr_would_purge := pr_would_purge out @
                [(kind, record_id repr r, location, text_field repr [] ''expires_at'' r)]\<rparr>, w))
         else (case check repr (pe_roots env) relive r of
             Some reason \<Rightarrow> refused reason out w
           | None \<Rightarrow> (case revoke env kind uuid w of
               (Inl e, w1) \<Rightarrow> refused (Revoke_failed e) out w1
             | (Inr revoked, w1) \<Rightarrow> (case delete_bytes_or_refuse env r out w1 of
                 (Inl e, out2, w2) \<Rightarrow> (Inl e, out2, w2)
               | (Inr None, out2, w2) \<Rightarrow> (Inr (), out2, w2)
               | (Inr (Some n), out2, w2) \<Rightarrow> (case clear_record env kind uuid w2 of
                   (Inl e, w3) \<Rightarrow> refused (Record_not_cleared e) out2 w3
                 | (Inr _, w3) \<Rightarrow>
                    (Inr (), out2\<lparr>pr_purged := pr_purged out2 @ [\<lparr>pd_kind = kind, pd_id = record_id repr r,
                       pd_location = location, pd_expires_at = text_field repr [] ''expires_at'' r,
                       pd_deleted = n, pd_tuples_revoked = revoked\<rparr>]\<rparr>, announce kind uuid w3))))))"

fun purge_each ::
    "'e purge_env \<Rightarrow> liveness option \<Rightarrow> (dict \<Rightarrow> liveness option) \<Rightarrow> dict list \<Rightarrow> purge_report \<Rightarrow> purge_world
      \<Rightarrow> unit result \<times> purge_report \<times> purge_world" where
  "purge_each env live relive [] out w = (Inr (), out, w)"
| "purge_each env live relive (r # rs) out w = (case purge_one env live (relive r) r out w of
     (Inl e, out1, w1) \<Rightarrow> (Inl e, out1, w1)
   | (Inr _, out1, w1) \<Rightarrow> purge_each env live relive rs out1 w1)"

text \<open>
  \<^verbatim>\<open>purge_expired_trash\<close>: the gates in front of the whole pass, the listing, the cap, and the records one by
  one. \<open>roots\<close>, \<open>due\<close> and \<open>protected\<close> are the three reads that can stop it.
\<close>

record purge_settings =
  ps_trash_purge_enabled :: bool
  ps_trash_purge_dry_run :: bool
  ps_max_per_tick :: nat
  ps_fga_client :: bool

definition empty_purge_report :: "purge_settings \<Rightarrow> drift_report \<Rightarrow> purge_report" where
  "empty_purge_report st report = \<lparr>pr_enabled = ps_trash_purge_enabled st, pr_ran = False, pr_blocked = False, pr_due = 0,
     pr_dry_run = ps_trash_purge_dry_run st, pr_purged = [], pr_would_purge = [], pr_refused = [], pr_capped = 0,
     pr_skipped_categories = map sk_category (dr_skipped report)\<rparr>"

definition purge_expired_trash ::
    "'e purge_env \<Rightarrow> purge_settings \<Rightarrow> drift_report \<Rightarrow> string list result \<Rightarrow> (string \<Rightarrow> int option)
      \<Rightarrow> (string list \<Rightarrow> liveness option) \<Rightarrow> (dict \<Rightarrow> liveness option) \<Rightarrow> base_refs result \<Rightarrow> purge_world
      \<Rightarrow> unit result \<times> purge_report \<times> purge_world" where
  "purge_expired_trash env st report roots fromiso live relive protected w =
     (let out = empty_purge_report st report in
      if \<not> (ps_trash_purge_enabled st \<or> ps_trash_purge_dry_run st) then (Inr (), out\<lparr>pr_blocked := True\<rparr>, w)
      else if report_is_clean report \<noteq> None then (Inr (), out\<lparr>pr_blocked := True\<rparr>, w)
      else if pe_fga_enabled env \<and> \<not> ps_fga_client st then (Inr (), out\<lparr>pr_blocked := True\<rparr>, w)
      else case roots of
        Inl _ \<Rightarrow> (Inr (), out\<lparr>pr_blocked := True\<rparr>, w)
      | Inr roots \<Rightarrow> (case trash_list_all (pw_control w) of
          (Inl _, c1) \<Rightarrow> (Inr (), out\<lparr>pr_blocked := True\<rparr>, w\<lparr>pw_control := c1\<rparr>)
        | (Inr records, c1) \<Rightarrow>
           (let due = due_from (pe_repr env) fromiso (pe_time env) records;
                ran = out\<lparr>pr_ran := True, pr_due := length due, pr_capped := length due - ps_max_per_tick st\<rparr>;
                taken = take (ps_max_per_tick st) due;
                w1 = w\<lparr>pw_control := c1\<rparr> in
            case (if taken = [] then Inr empty_refs else protected) of
              Inl e \<Rightarrow>
               (if e = UnreadableBaseRecordError then (Inr (), ran\<lparr>pr_blocked := True\<rparr>, w1) else (Inl e, ran, w1))
            | Inr refs \<Rightarrow>
               purge_each (env\<lparr>pe_roots := roots, pe_protected := Some refs, pe_dry_run := ps_trash_purge_dry_run st\<rparr>)
                 (if taken = [] then Some nothing_live else live roots) relive taken ran w1)))"

section \<open>What a purge can delete\<close>

lemma beneath_comparable:
  assumes "beneath p k" "beneath q k"
  shows "path_under p q \<or> path_under q p"
proof -
  obtain a where "k = (p @ ''/'') @ a"
    using assms(1) unfolding beneath_def by (rule prefixE)
  moreover obtain b where "k = (q @ ''/'') @ b"
    using assms(2) unfolding beneath_def by (rule prefixE)
  ultimately have k: "k = p @ CHR ''/'' # a" "k = q @ CHR ''/'' # b"
    by simp_all
  consider (shorter) us where "q = p @ us" "us @ CHR ''/'' # b = CHR ''/'' # a"
    | (longer) us where "p = q @ us" "us @ CHR ''/'' # a = CHR ''/'' # b"
    using k by (auto simp: append_eq_append_conv2)
  then show ?thesis
  proof cases
    case shorter
    then show ?thesis by (cases us) (auto simp: path_under_def)
  next
    case longer
    then show ?thesis by (cases us) (auto simp: path_under_def)
  qed
qed

text \<open>The record's location is a place the purge may delete in, on the reading \<open>live\<close> of the manifests.\<close>

definition reclaimable_place :: "string list \<Rightarrow> liveness \<Rightarrow> string \<Rightarrow> bool" where
  "reclaimable_place roots live location \<longleftrightarrow> names_a_location location \<and>
     (\<exists>root\<in>rstrip_slash ` set roots. prefix (root @ ''/'') location) \<and>
     (\<forall>l\<in>set (lv_locations live). \<not> location_within l location \<and> \<not> location_within location l)"

lemma check_passes:
  assumes "check repr roots live r = None" "record_kind repr r \<noteq> ''namespace''" "record_location repr r \<noteq> []"
  shows "\<exists>l. live = Some l \<and> object_uuid r \<noteq> None \<and> \<not> still_registered repr r l \<and>
    reclaimable_place roots l (record_location repr r)"
proof -
  obtain l root where l: "live = Some l" "object_uuid r \<noteq> None" "\<not> still_registered repr r l"
      "names_a_location (record_location repr r)" "root_of (record_location repr r) roots = Some root"
      "\<not> resolves_into l (record_location repr r)"
    and rest: "drop (length (case decoded_segments root of None \<Rightarrow> [] | Some s \<Rightarrow> s))
        (case decoded_segments (record_location repr r) of None \<Rightarrow> [] | Some s \<Rightarrow> s) \<noteq> []"
    using assms by (auto simp: check_def Let_def split: if_splits option.splits)
  have root: "root \<in> rstrip_slash ` set roots" "record_location repr r = root \<or> prefix (root @ ''/'') (record_location repr r)"
    using l(5) by (auto simp: root_of_def find_Some_iff intro: nth_mem)
      (metis (no_types, lifting) imageE list.set_map nth_mem set_sort length_sort length_map)+
  with l rest show ?thesis
    by (auto simp: reclaimable_place_def resolves_into_def list_ex_iff)
qed

lemma live_table_is_elsewhere:
  assumes "\<not> location_within l location" "\<not> location_within location l" "names_a_location l" "names_a_location location"
    "store_of l = store_of location" "beneath (opened_path location) k"
  shows "\<not> beneath (opened_path l) k"
proof
  assume "beneath (opened_path l) k"
  then have "path_under (opened_path l) (opened_path location) \<or> path_under (opened_path location) (opened_path l)"
    using assms(6) by (rule beneath_comparable)
  then have "path_under (decoded_path l) (decoded_path location) \<or> path_under (decoded_path location) (decoded_path l)"
    using assms(5) by (auto simp: opened_path_def anchor_def path_under_def)
  then show False
    using assms(1-4) by (auto simp: location_within_is_path_order)
qed

lemma last_claimed_by_answer:
  "last_claimed_by st dg d table c = (Inr mine, c') \<Longrightarrow> pending c = [] \<Longrightarrow> mine = claim_names st c d table \<and> c' = c"
  by (auto simp: last_claimed_by_def claim_read_def read_json_at_def claim_names_def
      split: option.splits content.splits)

lemma owned_directories_answer:
  "owned_directories st dg ds table c = (Inr os, c') \<Longrightarrow> pending c = [] \<Longrightarrow>
   os = filter (\<lambda>d. claim_names st c d table) ds \<and> c' = c"
proof (induction ds arbitrary: os c')
  case (Cons d ds)
  obtain mine c1 where first: "last_claimed_by st dg d table c = (Inr mine, c1)"
    using Cons.prems(1) by (auto split: prod.splits sum.splits)
  then have same: "mine = claim_names st c d table" "c1 = c"
    using last_claimed_by_answer Cons.prems(2) by blast+
  obtain rest where "owned_directories st dg ds table c = (Inr rest, c')" "os = (if mine then d # rest else rest)"
    using Cons.prems(1) first same(2) by (auto split: prod.splits sum.splits)
  with Cons.IH [OF _ Cons.prems(2)] same show ?case by simp
qed simp

lemma directories_to_end_answer:
  assumes "directories_to_end rg dg dg' location table (b, c) = (Inr ds, b', c')" "pending b = []" "pending c = []" "d \<in> set ds"
  shows "\<exists>r. lookup b (record_key_for rg location) = Some (Json r) \<and> d \<in> set (recorded_directories (Some r)) \<and>
    claim_names (claims_of rg) c d table"
proof -
  obtain r b1 where r: "read_base_record rg dg location b = (Inr r, b1)"
      "owned_directories (claims_of rg) dg' (recorded_directories r) table c = (Inr ds, c')"
    using assms(1) by (auto simp: directories_to_end_def split: prod.splits sum.splits)
  have ds: "ds = filter (\<lambda>d. claim_names (claims_of rg) c d table) (recorded_directories r)"
    using owned_directories_answer [OF r(2) assms(3)] by simp
  then obtain r' where r': "r = Some r'"
    using assms(4) by (cases r) (auto simp: recorded_directories_def)
  have "lookup b (record_key_for rg location) = Some (Json r')"
    using r(1) assms(2) unfolding r'
    by (auto simp: read_base_record_def read_json_def read_json_at_def parsed_record_def
        split: option.splits content.splits if_splits sum.splits)
  with ds r' assms(4) show ?thesis by auto
qed

lemma lookup_delete_dir:
  assumes "pending w = []"
  shows "\<exists>w'. delete_dir path w = (Inr (), w') \<and> pending w' = [] \<and>
    (\<forall>k. lookup w' k = (if beneath path k then None else lookup w k))"
proof -
  have "map_of (filter (\<lambda>(k, _). \<not> beneath path k) kv) k = (if beneath path k then None else map_of kv k)" for kv :: "file_meta objects" and k
    using map_of_filter_keys [of "beneath path" kv k] by (simp add: split_beta')
  with assms show ?thesis
    by (simp add: delete_dir_def lookup_def)
qed

text \<open>What a deletion at a location may take from the store.\<close>

definition unprotected :: "base_refs option \<Rightarrow> string \<Rightarrow> bool" where
  "unprotected refs location \<longleftrightarrow> (case refs of None \<Rightarrow> True | Some refs \<Rightarrow> protects_from_deletion refs location None = None)"

definition own_object :: "string \<Rightarrow> string \<Rightarrow> bool" where
  "own_object location k \<longleftrightarrow> beneath (opened_path location) k \<or>
     k = rstrip_slash (spelled_path location) @ ''/'' @ reservation_marker"

lemma delete_location_takes:
  assumes "delete_location refs location w = (x, w')" "pending w = []"
  shows "pending w' = [] \<and> (\<forall>k m. lookup w k = Some (Json m) \<longrightarrow> lookup w' k \<noteq> lookup w k \<longrightarrow>
    unprotected refs location \<and> own_object location k)"
proof -
  obtain objs where objs: "list_files (opened_path location) w = (Inr objs, w)"
    using list_files_quiet [OF assms(2)] by blast
  obtain stray where stray: "list_files (spelled_path location) w = (Inr stray, w)"
      "\<And>k m. (k, m) \<in> set stray \<longleftrightarrow> beneath (spelled_path location) k \<and> lookup w k = Some (Json m)"
    using list_files_quiet [OF assms(2)] by metis
  obtain w1 where w1: "delete_dir (opened_path location) w = (Inr (), w1)" "pending w1 = []"
      "\<And>k. lookup w1 k = (if beneath (opened_path location) k then None else lookup w k)"
    using lookup_delete_dir [OF assms(2)] by metis
  obtain w2 where w2: "delete_dir (spelled_path location) w1 = (Inr (), w2)" "pending w2 = []"
      "\<And>k. lookup w2 k = (if beneath (spelled_path location) k then None else lookup w1 k)"
    using lookup_delete_dir [OF w1(2)] by metis
  have "lookup w k = Some (Json m) \<Longrightarrow> beneath (spelled_path location) k \<Longrightarrow>
      require_only_the_marker (spelled_path location) stray \<Longrightarrow> own_object location k" for k m
    using stray(2) [of k m] by (auto simp: require_only_the_marker_def own_object_def list_all_iff)
  with assms objs stray(1) w1 w2 show ?thesis
    by (auto simp: delete_location_def unprotected_def own_object_def split: if_splits option.splits)
qed

text \<open>A directory of the record that the table's own location claim names.\<close>

definition claimed_object :: "'e purge_env \<Rightarrow> purge_world \<Rightarrow> string \<Rightarrow> string \<Rightarrow> string \<Rightarrow> bool" where
  "claimed_object env w location table k \<longleftrightarrow>
     (\<exists>r d. lookup (pw_bases w) (record_key_for (pe_registry env) location) = Some (Json r) \<and>
        d \<in> set (recorded_directories (Some r)) \<and> claim_names (claims_of (pe_registry env)) (pw_claims w) d table \<and>
        beneath (listed_root d) k)"

definition quiet_world :: "purge_world \<Rightarrow> bool" where
  "quiet_world w \<longleftrightarrow> pending (pw_bases w) = [] \<and> pending (pw_claims w) = [] \<and> pending (pw_data w) = []"

lemma judged_keeps_data:
  "judged_data_directories env location table w = (x, w') \<Longrightarrow> pw_data w' = pw_data w"
  by (auto simp: judged_data_directories_def Let_def split: prod.splits sum.splits if_splits)

lemma judged_directories_are_claimed:
  assumes "judged_data_directories env location table w = (Inr ds, w')" "quiet_world w" "d \<in> set ds" "beneath (listed_root d) k"
  shows "claimed_object env w location table k"
proof -
  obtain b c where "directories_to_end (pe_registry env) (pe_dg_bases env) (pe_dg_claims env) location table
      (pw_bases w, pw_claims w) = (Inr ds, b, c)"
    using assms(1) by (auto simp: judged_data_directories_def Let_def split: prod.splits sum.splits if_splits)
  from directories_to_end_answer [OF this _ _ assms(3)] assms(2,4) show ?thesis
    by (auto simp: quiet_world_def claimed_object_def)
qed

lemma delete_guarded_takes:
  assumes "delete_guarded env location table w = (x, w')" "quiet_world w"
    "lookup (pw_data w) k = Some (Json m)" "lookup (pw_data w') k \<noteq> lookup (pw_data w) k"
  shows "unprotected (pe_protected env) location \<and> own_object location k \<or> claimed_object env w location table k"
proof -
  have quiet: "pending (pw_data w) = []"
    using assms(2) by (simp add: quiet_world_def)
  obtain ds w1 where judged: "judged_data_directories env location table w = (Inr ds, w1)"
    using assms(1,3,4) judged_keeps_data [of env location table w]
    by (auto simp: delete_guarded_def split: prod.splits sum.splits)
  have data: "pw_data w1 = pw_data w"
    using judged_keeps_data [OF judged] .
  obtain y d1 where root: "delete_location (pe_protected env) location (pw_data w) = (y, d1)"
    by (cases "delete_location (pe_protected env) location (pw_data w)")
  note takes = delete_location_takes [OF root quiet]
  show ?thesis
  proof (cases "lookup d1 k = lookup (pw_data w) k")
    case False
    with takes assms(3) show ?thesis by blast
  next
    case True
    then obtain n where "y = Inr n"
      using assms(1,4) judged root data by (cases y) (auto simp: delete_guarded_def)
    moreover obtain n' d2 where dirs: "delete_directories ds n d1 = (Inr n', d2)"
        "\<And>k m. lookup d2 k = Some (Json m) \<longleftrightarrow> lookup d1 k = Some (Json m) \<and> \<not> (\<exists>d\<in>set ds. beneath (listed_root d) k)"
      using delete_directories_quiet [of d1 ds n] takes by metis
    ultimately have "pw_data w' = d2"
      using assms(1) judged root data by (auto simp: delete_guarded_def)
    with True assms(3,4) dirs(2) [of k m] obtain d where "d \<in> set ds" "beneath (listed_root d) k"
      by auto
    with judged_directories_are_claimed [OF judged assms(2)] show ?thesis by blast
  qed
qed

lemma refuse_keeps_data: "refuse env r reason out w = (out', w') \<Longrightarrow> pw_data w' = pw_data w \<and> pw_revoked w' = pw_revoked w"
  by (auto simp: refuse_def Let_def split: prod.splits)

lemma revoke_keeps_data: "revoke env kind uuid w = (x, w') \<Longrightarrow> pw_data w' = pw_data w \<and> pw_bases w' = pw_bases w \<and> pw_claims w' = pw_claims w"
  by (auto simp: revoke_def split: if_splits sum.splits)

lemma clear_keeps_data: "clear_record env kind uuid w = (x, w') \<Longrightarrow> pw_data w' = pw_data w \<and> pw_revoked w' = pw_revoked w"
  by (auto simp: clear_record_def split: prod.splits sum.splits)

lemma delete_guarded_keeps: "delete_guarded env location table w = (x, w') \<Longrightarrow> pw_revoked w' = pw_revoked w"
  by (auto simp: delete_guarded_def judged_data_directories_def Let_def split: prod.splits sum.splits if_splits)

lemma delete_bytes_takes:
  assumes "delete_bytes_or_refuse env r out w = (x, out', w')" "quiet_world w"
    "lookup (pw_data w) k = Some (Json m)" "lookup (pw_data w') k \<noteq> lookup (pw_data w) k"
  shows "record_kind (pe_repr env) r \<noteq> ''namespace'' \<and> record_location (pe_repr env) r \<noteq> [] \<and>
    (unprotected (pe_protected env) (record_location (pe_repr env) r) \<and> own_object (record_location (pe_repr env) r) k \<or>
     claimed_object env w (record_location (pe_repr env) r) (record_id (pe_repr env) r) k) \<and>
    pw_revoked w' = pw_revoked w"
proof -
  have go: "record_kind (pe_repr env) r \<noteq> ''namespace''" "record_location (pe_repr env) r \<noteq> []"
    using assms by (auto simp: delete_bytes_or_refuse_def Let_def split: if_splits)
  obtain y w1 where del: "delete_guarded env (record_location (pe_repr env) r) (record_id (pe_repr env) r) w = (y, w1)"
    by fastforce
  have "pw_data w' = pw_data w1 \<and> pw_revoked w' = pw_revoked w1"
    using assms(1) go del
    by (auto simp: delete_bytes_or_refuse_def Let_def split: prod.splits sum.splits if_splits
        dest!: refuse_keeps_data)
  with delete_guarded_takes [OF del assms(2,3)] delete_guarded_keeps [OF del] assms(4) go show ?thesis
    by simp
qed

lemma purge_one_cases:
  assumes "purge_one env live relive r out w = (x, out', w')" "pw_data w' \<noteq> pw_data w"
  obtains n w1 y out2 w2 where "\<not> pe_dry_run env" "check (pe_repr env) (pe_roots env) relive r = None"
    "revoke env (record_kind (pe_repr env) r) (case object_uuid r of None \<Rightarrow> [] | Some u \<Rightarrow> u) w = (Inr n, w1)"
    "delete_bytes_or_refuse env r out w1 = (y, out2, w2)" "pw_data w' = pw_data w2" "pw_revoked w' = pw_revoked w2"
  using assms
  by (auto simp: purge_one_def Let_def announce_def split: option.splits if_splits prod.splits sum.splits
      dest!: refuse_keeps_data revoke_keeps_data clear_keeps_data)


definition small_env :: "unit purge_env" where
  "small_env = \<lparr>pe_registry = \<lparr>bg_root = S3, bg_hex = (\<lambda>s. s)\<rparr>, pe_hex = (\<lambda>s. s), pe_isofmt = (\<lambda>_. ''t''),
     pe_repr = (\<lambda>_. []), pe_wording = (\<lambda>_. ''refused''), pe_dg_control = (\<lambda>_. ()), pe_dg_bases = (\<lambda>_. ()),
     pe_dg_claims = (\<lambda>_. ()), pe_time = 0, pe_fga_enabled = True, pe_revoke = (\<lambda>_. Inr 2),
     pe_roots = [''s3://b''], pe_protected = Some empty_refs, pe_dry_run = False\<rparr>"

definition dropped_table :: dict where
  "dropped_table = [(''kind'', JStr ''table''), (''id'', JStr ''a$t''), (''uuid'', JStr ''u1''), (''location'', JStr ''s3://b/u1'')]"

definition small_world :: purge_world where
  "small_world = \<lparr>pw_control = \<lparr>objects = [(trash_key (\<lambda>s. s) ''table'' ''u1'', Json dropped_table)], clock = 0, pending = []\<rparr>,
     pw_bases = \<lparr>objects = [], clock = 0, pending = []\<rparr>, pw_claims = \<lparr>objects = [], clock = 0, pending = []\<rparr>,
     pw_data = \<lparr>objects = [(''b/u1/_versions/1.manifest'', Json \<lparr>fm_size = 1, fm_modified = 0\<rparr>),
       (''b/u1/data/x.lance'', Json \<lparr>fm_size = 9, fm_modified = 0\<rparr>), (''b/u2/data/y.lance'', Json \<lparr>fm_size = 9, fm_modified = 0\<rparr>)],
       clock = 0, pending = []\<rparr>,
     pw_revoked = [], pw_events = []\<rparr>"

definition small_report :: purge_report where
  "small_report = \<lparr>pr_enabled = True, pr_ran = True, pr_blocked = False, pr_due = 1, pr_dry_run = False, pr_purged = [],
     pr_would_purge = [], pr_refused = [], pr_capped = 0, pr_skipped_categories = []\<rparr>"


text \<open>
  A stored claim that is not one ends the pass. Whether the table's data directories are its
  own is asked of their location claims, whose reader raises \<^verbatim>\<open>ValueError\<close> for a body that is no claim; the
  arms around the delete catch the store's failures and the two refusals, so this one leaves \<^verbatim>\<open>_purge_one\<close>,
  which documents that it never raises, and with it every record still due.
\<close>

definition spread_record :: base_record where
  "spread_record = \<lparr>br_location = ''s3://b/u1'', br_entries = [own_directory]\<rparr>"

definition broken_claim_world :: purge_world where
  "broken_claim_world = small_world\<lparr>
     pw_bases := \<lparr>objects = [(record_key_for (pe_registry small_env) ''s3://b/u1'', Json spread_record)], clock = 0, pending = []\<rparr>,
     pw_claims := \<lparr>objects = [(claim_key (claims_of (pe_registry small_env)) ''cold/t1'', NotObject)], clock = 0, pending = []\<rparr>\<rparr>"

text \<open>
  one unreadable claim record ends the whole purge of the tick. With a due record whose table
  spread its data over a directory, and a body at that directory's claim that is not a claim, the pass
  raises \<^verbatim>\<open>ValueError\<close>: the records after it are not looked at, and nothing is refused or remembered.
\<close>

theorem unreadable_claim_ends_the_purge:
  "fst (purge_each small_env (Some nothing_live) (\<lambda>_. Some nothing_live) (dropped_table # rs) small_report broken_claim_world)
     = Inl ValueError"
proof -
  have "fst (purge_one small_env (Some nothing_live) (Some nothing_live) dropped_table small_report broken_claim_world) = Inl ValueError"
    by code_simp
  then show ?thesis
    by (auto split: prod.splits sum.splits)
qed

section \<open>The estate's base references\<close>

text \<open>
  \<^verbatim>\<open>_estate_base_refs\<close>: the datasets discovery finds under each root, then the judged references among
  them. A root whose discovery raises contributes nothing.
\<close>

definition bucket_of :: "string \<Rightarrow> string" where
  "bucket_of root = strip_slashes (case scheme_partition root of Some (_, rest) \<Rightarrow> rest | None \<Rightarrow> root)"

definition estate_base_refs ::
    "(string \<Rightarrow> string) \<Rightarrow> filesystem \<Rightarrow> nat \<Rightarrow> (string \<Rightarrow> string + base_path_ref list) \<Rightarrow> string list
      \<Rightarrow> (string \<Rightarrow> base_record option result) \<Rightarrow> string list \<Rightarrow> base_refs result" where
  "estate_base_refs decode fs max_depth open_manifest configured record_of roots =
     protected_roots open_manifest
       (concat (map (\<lambda>root. case discover_datasets decode fs (bucket_of root) max_depth of
          Inl _ \<Rightarrow> [] | Inr found \<Rightarrow> uris found) (sort (remdups roots)))) configured record_of"

definition clone_estate :: "listing \<Rightarrow> filesystem" where
  "clone_estate clones = \<lparr>
     fs_list = (\<lambda>p. if p = ''b'' then Listed [\<lparr>e_path = ''b/u1'', e_type = Directory\<rparr>]
       else if p = ''c'' then clones else Absent),
     fs_info = (\<lambda>p. Inr (if p = ''b/u1/_versions'' \<or> p = ''c/k/_versions'' then Directory else NotFound)),
     fs_is_s3 = True\<rparr>"

definition clone_manifest :: "string \<Rightarrow> string + base_path_ref list" where
  "clone_manifest uri = Inr (if uri = ''s3://c/k'' then [\<lparr>bp_path = ''s3://b/u1'', bp_is_root = True, bp_name = None\<rparr>] else [])"

definition clone_record :: "string \<Rightarrow> base_record option result" where
  "clone_record uri = Inr (if uri = ''s3://c/k'' then Some \<lparr>br_location = ''c/k'', br_entries =
     [\<lparr>rb_path = ''b/u1'', rb_store = ''s3'', rb_role = DERIVED_FROM, rb_is_root = True, rb_name = None,
       rb_origin = SILVER, rb_source = None, rb_tag = None\<rparr>]\<rparr> else None)"

definition purge_with :: "listing \<Rightarrow> purge_report \<times> purge_world" where
  "purge_with clones = (case estate_base_refs (\<lambda>s. s) (clone_estate clones) 3 clone_manifest [] clone_record [''s3://b'', ''s3://c''] of
     Inl _ \<Rightarrow> (small_report, small_world)
   | Inr refs \<Rightarrow> snd (purge_one (small_env\<lparr>pe_protected := Some refs\<rparr>) (Some nothing_live) (Some nothing_live)
       dropped_table small_report small_world))"

text \<open>
  a root that does not list widens what a purge deletes. The estate is a dropped table and, under
  another root, a clone that a base record sanctions to read its files. While the clone's root lists,
  the record is refused and the file stands. When the listing of that root fails, the pass goes on
  without it, finds nothing that resolves through the table, and deletes the file the clone reads.
\<close>

theorem unlisted_root_widens_the_purge:
  "lookup (pw_data (snd (purge_with (Listed [\<lparr>e_path = ''c/k'', e_type = Directory\<rparr>])))) ''b/u1/data/x.lance'' \<noteq> None \<and>
   map rr_reason (pr_refused (fst (purge_with (Listed [\<lparr>e_path = ''c/k'', e_type = Directory\<rparr>])))) = [Protected_base ''s3://b/u1''] \<and>
   lookup (pw_data (snd (purge_with Unlistable))) ''b/u1/data/x.lance'' = None"
  by code_simp

end
