(* ===== verification/Version_Retention.thy ===== *)
theory Version_Retention
  imports Prelude
begin

text \<open>
  \<^verbatim>\<open>lakehouse_kit/version_retention.py\<close>: which versions of a dataset its cleanup would reclaim, and
  which refs pin them. The dataset is Lance's: its tags, branches and versions are arguments, and
  \<open>explain\<close> is its \<^verbatim>\<open>explain_cleanup_old_versions\<close>, without a version for the whole cleanup and
  with one for that version alone. File names are ASCII.
\<close>

definition main_branch :: string where
  "main_branch = ''main''"

text \<open>A ref as a caller or Lance spells it: a string, \<^verbatim>\<open>None\<close>, or something else, which raises.\<close>

datatype ref_spelling = NoRef | Named string | OtherRef

definition recorded_branch :: "ref_spelling \<Rightarrow> string option result" where
  "recorded_branch b = (case b of
       NoRef \<Rightarrow> Inr None
     | Named s \<Rightarrow> Inr (if s = main_branch then None else Some s)
     | OtherRef \<Rightarrow> Inl TypeError)"

text \<open>A tag or a branch as Lance lists it: the ref it is on, and its version when that is an integer.\<close>

record ref_entry =
  re_ref :: ref_spelling
  re_version :: "int option"

text \<open>
  The comprehension \<^verbatim>\<open>tag_versions\<close> and \<^verbatim>\<open>fork_versions\<close> share: the entries on the ref, with
  their version; a ref that is neither a string nor \<^verbatim>\<open>None\<close> raises.
\<close>

fun versions_on :: "string option \<Rightarrow> (string \<times> ref_entry) list \<Rightarrow> (string \<times> int) list result" where
  "versions_on ref [] = Inr []"
| "versions_on ref ((name, e) # es) =
     (case recorded_branch (re_ref e) of
        Inl err \<Rightarrow> Inl err
      | Inr r \<Rightarrow>
          (case versions_on ref es of
             Inl err \<Rightarrow> Inl err
           | Inr vs \<Rightarrow>
               (case re_version e of
                  Some v \<Rightarrow> if r = ref then Inr ((name, v) # vs) else Inr vs
                | None \<Rightarrow> Inr vs)))"

definition tag_versions :: "(string \<times> ref_entry) list \<Rightarrow> ref_spelling \<Rightarrow> (string \<times> int) list result" where
  "tag_versions tags branch = (case recorded_branch branch of
       Inl err \<Rightarrow> Inl err
     | Inr ref \<Rightarrow> versions_on ref tags)"

definition fork_versions :: "(string \<times> ref_entry) list \<Rightarrow> ref_spelling \<Rightarrow> (string \<times> int) list result" where
  "fork_versions branches branch = (case recorded_branch branch of
       Inl err \<Rightarrow> Inl err
     | Inr ref \<Rightarrow> versions_on ref branches)"

definition u64_max :: int where
  "u64_max = 2 ^ 64 - 1"

text \<open>\<^verbatim>\<open>name.partition(".")\<close>: the stem, and what follows the first dot when there is one.\<close>

definition partition_dot :: "string \<Rightarrow> string \<times> string option" where
  "partition_dot s =
     (takeWhile (\<lambda>c. c \<noteq> CHR ''.'') s,
      case dropWhile (\<lambda>c. c \<noteq> CHR ''.'') s of [] \<Rightarrow> None | _ # ext \<Rightarrow> Some ext)"

definition manifest_version :: "string \<Rightarrow> int option" where
  "manifest_version path =
     (case partition_dot (base_name path) of
        (stem, ext) \<Rightarrow>
          if ext \<noteq> Some ''manifest'' \<or> \<not> all_digits stem then None
          else Some (if length stem = 20 then u64_max - int (parse_nat stem) else int (parse_nat stem)))"

record candidate_file =
  cn_path :: string
  cn_kind :: string

record explanation =
  ex_truncated :: bool
  ex_files :: "candidate_file list"
  ex_old_versions :: nat

definition newest_first :: "int list \<Rightarrow> int list" where
  "newest_first vs = rev (sort vs)"

definition removes :: "(int option \<Rightarrow> explanation) \<Rightarrow> int \<Rightarrow> bool" where
  "removes explain v = (ex_old_versions (explain (Some v)) > 0)"

definition reclaimable_versions :: "(int option \<Rightarrow> explanation) \<Rightarrow> int list \<Rightarrow> int list" where
  "reclaimable_versions explain held =
     (let explained = explain None in
      if \<not> ex_truncated explained then
        newest_first (List.map_filter (\<lambda>f. manifest_version (cn_path f))
          (filter (\<lambda>f. cn_kind f = ''manifest'') (ex_files explained)))
      else newest_first (filter (removes explain) held))"

section \<open>Manifest names\<close>

text \<open>The two naming schemes of a manifest: V1 \<^verbatim>\<open>{version}.manifest\<close> and V2 \<^verbatim>\<open>{u64::MAX - version:020}.manifest\<close>.\<close>

definition manifest_v1 :: "nat \<Rightarrow> string" where
  "manifest_v1 v = show_nat v @ ''.manifest''"

definition pad_zeros :: "nat \<Rightarrow> string \<Rightarrow> string" where
  "pad_zeros n s = replicate (n - length s) (CHR ''0'') @ s"

definition manifest_v2 :: "nat \<Rightarrow> string" where
  "manifest_v2 v = pad_zeros 20 (show_nat (nat (u64_max - int v))) @ ''.manifest''"

lemma digits_no_dot: "list_all is_digit s \<Longrightarrow> CHR ''.'' \<notin> set s \<and> CHR ''/'' \<notin> set s"
  by (auto simp: list_all_iff is_digit_def less_eq_char_def)

lemma base_name_no_slash: "CHR ''/'' \<notin> set s \<Longrightarrow> base_name s = s"
  by (simp add: base_name_def split_on_no_sep)

lemma split_on_last:
  assumes "c \<notin> set s"
  shows "\<exists>p ps. split_on c (d @ c # s) = p # ps @ [s]"
proof (induction d)
  case (Cons a d)
  then obtain p ps where "split_on c (d @ c # s) = p # ps @ [s]" by blast
  then show ?case by (cases "a = c") (auto intro: exI [of _ "p # ps"])
qed (simp add: assms split_on_no_sep)

lemma base_name_in_directory: "CHR ''/'' \<notin> set s \<Longrightarrow> base_name (d @ CHR ''/'' # s) = s"
  using split_on_last [of "CHR ''/''" s d] by (auto simp: base_name_def)

lemma partition_dot_stem:
  "list_all is_digit s \<Longrightarrow> partition_dot (s @ CHR ''.'' # ext) = (s, Some ext)"
  using digits_no_dot [of s] by (auto simp: partition_dot_def takeWhile_append dropWhile_append)

lemma manifest_version_digits:
  assumes "all_digits s"
  shows "manifest_version (d @ CHR ''/'' # s @ ''.manifest'') =
    Some (if length s = 20 then u64_max - int (parse_nat s) else int (parse_nat s))"
proof -
  have "CHR ''/'' \<notin> set (s @ ''.manifest'')"
    using assms digits_no_dot [of s] by (simp add: all_digits_def)
  then have "base_name (d @ CHR ''/'' # s @ ''.manifest'') = s @ ''.manifest''"
    by (rule base_name_in_directory)
  with assms show ?thesis
    by (simp add: manifest_version_def partition_dot_stem all_digits_def)
qed

lemma parse_nat_zeros: "parse_nat (replicate n (CHR ''0'') @ s) = parse_nat s"
proof (induction n)
  case (Suc n)
  have "digit_value (CHR ''0'') = 0" by code_simp
  with Suc show ?case by (simp add: parse_nat_def)
qed simp

lemma all_digits_zeros: "all_digits s \<Longrightarrow> all_digits (replicate n (CHR ''0'') @ s)"
  by (auto simp: all_digits_def is_digit_def list_all_iff)

lemma show_nat_length: "n < 10 ^ k \<Longrightarrow> 0 < k \<Longrightarrow> length (show_nat n) \<le> k"
proof (induction n arbitrary: k rule: show_nat.induct)
  case (1 n)
  show ?case
  proof (cases "n < 10")
    case True
    with "1.prems" show ?thesis by (subst show_nat.simps) simp
  next
    case False
    have "1 < k"
    proof (rule ccontr)
      assume "\<not> 1 < k"
      with "1.prems"(2) have "k = 1" by simp
      with "1.prems"(1) False show False by simp
    qed
    then obtain j where j: "k = Suc j" "0 < j" by (cases k) auto
    then have "n < 10 ^ j * 10" using "1.prems"(1) by simp
    then have "n div 10 < 10 ^ j" by (rule less_mult_imp_div_less)
    with "1.IH" False j have "length (show_nat (n div 10)) \<le> j" by blast
    with False j show ?thesis by (subst show_nat.simps) simp
  qed
qed

text \<open>
  The version is read back off a manifest's name in both naming schemes. Under any directory,
  and for every version of fewer than twenty digits, the V1 name gives its version, and so does the
  V2 name, the complement to the highest 64-bit number padded to twenty digits: the two schemes are
  told apart by the stem's length alone.
\<close>

theorem manifest_name_round_trip:
  assumes "v < 10 ^ 19"
  shows "manifest_version (d @ ''/'' @ manifest_v1 v) = Some (int v) \<and>
    manifest_version (d @ ''/'' @ manifest_v2 v) = Some (int v)"
proof
  have "length (show_nat v) \<le> 19" using show_nat_length [of v 19] assms by simp
  then show "manifest_version (d @ ''/'' @ manifest_v1 v) = Some (int v)"
    using manifest_version_digits [of "show_nat v" d] by (simp add: manifest_v1_def)
next
  let ?c = "nat (u64_max - int v)"
  let ?s = "pad_zeros 20 (show_nat ?c)"
  have c: "int ?c = u64_max - int v" using assms by (simp add: u64_max_def)
  then have "?c < 10 ^ 20" by (simp add: u64_max_def nat_less_iff)
  then have "length (show_nat ?c) \<le> 20" by (intro show_nat_length) simp_all
  then have len: "length ?s = 20" by (simp add: pad_zeros_def)
  have dig: "all_digits ?s" by (simp add: pad_zeros_def all_digits_zeros)
  have "parse_nat ?s = ?c" by (simp add: pad_zeros_def parse_nat_zeros)
  with manifest_version_digits [OF dig, of d] len c show "manifest_version (d @ ''/'' @ manifest_v2 v) = Some (int v)"
    by (simp add: manifest_v2_def)
qed

theorem manifest_name_round_trip_witness:
  "manifest_version (''t/_versions'' @ ''/'' @ manifest_v2 7) = Some 7"
  using manifest_name_round_trip [of 7 "''t/_versions''"] by simp

end
