(* ===== verification/Expiry.thy ===== *)
theory Expiry
  imports Base_Reclaim Base_Refs Features History_Fences Maintenance_Policies Branch_Layout Version_Retention
begin

text \<open>
  Version expiry: \<^verbatim>\<open>maintenance/services/plan.py\<close>, what the winning policy says of one dataset, and
  \<^verbatim>\<open>maintenance/services/expiry.py\<close>, the pass that reclaims its superseded versions behind a ladder of
  refusals, with \<^verbatim>\<open>lakehouse_kit/auto_cleanup.py\<close>, which it disarms first.

  Times and ages are microseconds. What pylance answers of the opened dataset, and what its own
  calls do to the stored files, are fields of \<open>lance_table\<close>; an exception of pylance is its class
  name and its message, and \<open>raised\<close> is how an error of the kernel reads.
\<close>

section \<open>The plan of one dataset\<close>

text \<open>\<^verbatim>\<open>int(s)\<close> of ASCII text: blanks around it, a sign, single underscores between digits, at most 4300 digits.\<close>

definition py_int :: "string \<Rightarrow> int option" where
  "py_int s = (let t = strip s;
       (negative, d) = (case t of [] \<Rightarrow> (False, t)
         | c # r \<Rightarrow> if c = CHR ''-'' then (True, r) else if c = CHR ''+'' then (False, r) else (False, t));
       groups = split_on (CHR ''_'') d in
     if list_all all_digits groups \<and> length (concat groups) \<le> 4300
     then Some ((if negative then - 1 else 1) * int (parse_nat (concat groups))) else None)"

definition int_field :: "(json \<Rightarrow> string) \<Rightarrow> dict \<Rightarrow> string \<Rightarrow> int option result" where
  "int_field repr policy name =
     (if truthy (dict_get policy name)
      then (case py_int (py_str repr (the (dict_get policy name))) of None \<Rightarrow> Inl ValueError | Some n \<Rightarrow> Inr (Some n))
      else Inr None)"

definition hour_us :: int where
  "hour_us = 3600 * million"

text \<open>\<^verbatim>\<open>timedelta\<close> holds less than a thousand million days either way.\<close>

definition timedelta :: "int \<Rightarrow> int result" where
  "timedelta us = (if - 999999999 * (24 * hour_us) \<le> us \<and> us < 1000000000 * (24 * hour_us) then Inr us else Inl OverflowError)"

definition age_bound :: "(json \<Rightarrow> string) \<Rightarrow> dict \<Rightarrow> int \<Rightarrow> int option result" where
  "age_bound repr policy dflt = (case int_field repr policy ''retention_days'' of
       Inl e \<Rightarrow> Inl e
     | Inr (Some days) \<Rightarrow> map_sum id Some (timedelta (days * (24 * hour_us)))
     | Inr None \<Rightarrow> (case int_field repr policy ''retain_versions'' of
         Inl e \<Rightarrow> Inl e
       | Inr (Some _) \<Rightarrow> Inr None
       | Inr None \<Rightarrow> Inr (Some dflt)))"

record dataset_plan =
  dp_skipped :: "string option"
  dp_policy :: "dict option"
  dp_older_than :: "int option"
  dp_retain_versions :: "int option"
  dp_cleanup_enabled :: bool
  dp_compact_enabled :: bool
  dp_optimize_indices_enabled :: bool
  dp_target_rows_per_fragment :: "int option"

definition default_plan :: "int \<Rightarrow> dataset_plan" where
  "default_plan older_than = \<lparr>dp_skipped = None, dp_policy = None, dp_older_than = Some older_than, dp_retain_versions = None,
     dp_cleanup_enabled = True, dp_compact_enabled = True, dp_optimize_indices_enabled = True, dp_target_rows_per_fragment = None\<rparr>"

text \<open>\<^verbatim>\<open>bool(policy.get(name, True))\<close>.\<close>

definition enabled :: "dict \<Rightarrow> string \<Rightarrow> bool" where
  "enabled policy name = (case dict_get policy name of None \<Rightarrow> True | Some v \<Rightarrow> truthy (Some v))"

definition plan_from_policy :: "(json \<Rightarrow> string) \<Rightarrow> int \<Rightarrow> dict option \<Rightarrow> dataset_plan result" where
  "plan_from_policy repr older_than policy = (case policy of
       None \<Rightarrow> Inr (default_plan older_than)
     | Some p \<Rightarrow> (case age_bound repr p older_than of Inl e \<Rightarrow> Inl e
       | Inr age \<Rightarrow> (case int_field repr p ''retain_versions'' of Inl e \<Rightarrow> Inl e
         | Inr retain \<Rightarrow> (case int_field repr p ''target_rows_per_fragment'' of Inl e \<Rightarrow> Inl e
           | Inr target \<Rightarrow> Inr \<lparr>dp_skipped = None, dp_policy = Some p, dp_older_than = age, dp_retain_versions = retain,
               dp_cleanup_enabled = enabled p ''cleanup_enabled'', dp_compact_enabled = enabled p ''compact_enabled'',
               dp_optimize_indices_enabled = enabled p ''optimize_indices_enabled'',
               dp_target_rows_per_fragment = target\<rparr>))))"

record policy_owners =
  po_table_uuid :: string
  po_namespace_uuids :: "string list"

record plan_context =
  pc_policies :: "dict list"
  pc_now :: int
  pc_older_than :: int

definition resolve_plan :: "(json \<Rightarrow> string) \<Rightarrow> plan_context \<Rightarrow> policy_owners \<Rightarrow> string \<Rightarrow> dataset_plan" where
  "resolve_plan repr context owners uri =
     (case plan_from_policy repr (pc_older_than context)
         (resolve_policy repr (pc_policies context) uri (po_table_uuid owners) (po_namespace_uuids owners)) of
        Inl _ \<Rightarrow> default_plan (pc_older_than context)
      | Inr plan \<Rightarrow> plan)"

text \<open>
  \<^verbatim>\<open>cadence_skip\<close>: \<open>fromiso\<close> answers nothing for a stamp that does not parse, or that names no offset.
  The interval itself is read outside both arms, so one that is no number raises.
\<close>

definition cadence_skip ::
    "(string \<Rightarrow> string) \<Rightarrow> (json \<Rightarrow> string) \<Rightarrow> (string \<Rightarrow> int option) \<Rightarrow> dict \<Rightarrow> string \<Rightarrow> string \<Rightarrow> int \<Rightarrow> dict world
      \<Rightarrow> string option result \<times> dict world" where
  "cadence_skip hex repr fromiso policy table_uuid uri tick w =
     (case dict_get policy ''compact_interval_hours'' of
        None \<Rightarrow> (Inr None, w)
      | Some interval \<Rightarrow>
         if \<not> truthy (Some interval) then (Inr None, w)
         else (case read_state hex repr policy table_uuid uri w of
             (Inl _, w1) \<Rightarrow> (Inr None, w1)
           | (Inr None, w1) \<Rightarrow> (Inr None, w1)
           | (Inr (Some stamped), w1) \<Rightarrow> (case fromiso stamped of
               None \<Rightarrow> (Inr None, w1)
             | Some t \<Rightarrow> (case py_int (py_str repr interval) of
                 None \<Rightarrow> (Inl ValueError, w1)
               | Some hours \<Rightarrow> (case timedelta (hours * hour_us) of
                   Inl e \<Rightarrow> (Inl e, w1)
                 | Inr bound \<Rightarrow> (Inr (if tick - t < bound then Some ''policy_interval'' else None), w1))))))"

definition winner :: "(json \<Rightarrow> string) \<Rightarrow> dataset_plan \<Rightarrow> string \<Rightarrow> string option" where
  "winner repr plan table = (case dp_policy plan of
       None \<Rightarrow> None
     | Some p \<Rightarrow>
        (if dict_get p ''kind'' = Some (JStr ''table'') then Some table
         else if truthy (dict_get p ''id'') \<and> py_str repr (the (dict_get p ''id'')) \<noteq> []
           then Some (py_str repr (the (dict_get p ''id''))) else None))"

record expiry_policy =
  xp_older_than :: "int option"
  xp_retain_versions :: "int option"
  xp_cleanup_enabled :: bool
  xp_min_reclaimable :: int
  xp_staged_grace :: int

definition expiry_policy_of :: "int \<Rightarrow> int \<Rightarrow> dataset_plan \<Rightarrow> expiry_policy" where
  "expiry_policy_of min_reclaimable staged_grace plan = \<lparr>xp_older_than = dp_older_than plan,
     xp_retain_versions = dp_retain_versions plan, xp_cleanup_enabled = dp_cleanup_enabled plan,
     xp_min_reclaimable = min_reclaimable, xp_staged_grace = staged_grace\<rparr>"

section \<open>The result of a pass\<close>

datatype gate = PROTECTED_BASE | MANIFEST_FLAGS | INVALID_REF | NESTED_BRANCH | GOVERNED_ELSEWHERE
  | UNAUTHENTICATED | UNNAMED | UNIDENTIFIED_OWNER | VEND_DENIED | TABLE_NOT_GOVERNED

datatype due_verdict = Is_due | Is_clear | Is_unnamed | Is_failed

text \<open>What a refusal's text is formatted from.\<close>

datatype refusal_why = Nested "string list" | Flags refusal | Open_flags open_refusal
  | Resolved_through containment_relation string | Worded string | No_row_names string | No_uuid_read string

record dataset_result =
  res_uri :: string
  res_skipped :: "string option"
  res_refused :: "refusal_why option"
  res_refused_by :: "gate option"
  res_refused_table_id :: "string option"
  res_data_storage_version :: "string option"
  res_mixed_data_file_versions :: bool
  res_trashed :: "string option"
  res_reclaimable_versions :: "int option"
  res_old_versions_removed :: int
  res_bytes_removed :: int
  res_staged_manifests_removed :: nat
  res_base_files_removed :: nat
  res_base_bytes_removed :: nat
  res_base_fragments_holding_deleted_rows :: nat
  res_auto_cleanup_disarmed :: bool
  res_overwritten_files :: "string list"
  res_table_id :: "string option"
  res_due :: "due_verdict option"
  res_error :: "string option"
  res_error_type :: "string option"

definition result_of :: "string \<Rightarrow> dataset_result" where
  "result_of uri = \<lparr>res_uri = uri, res_skipped = None, res_refused = None, res_refused_by = None,
     res_refused_table_id = None, res_data_storage_version = None, res_mixed_data_file_versions = False,
     res_trashed = None, res_reclaimable_versions = None, res_old_versions_removed = 0, res_bytes_removed = 0,
     res_staged_manifests_removed = 0, res_base_files_removed = 0, res_base_bytes_removed = 0,
     res_base_fragments_holding_deleted_rows = 0, res_auto_cleanup_disarmed = False, res_overwritten_files = [],
     res_table_id = None, res_due = None, res_error = None, res_error_type = None\<rparr>"

definition park :: "refusal_why \<Rightarrow> gate \<Rightarrow> string option \<Rightarrow> dataset_result \<Rightarrow> dataset_result" where
  "park why g table_id r = r\<lparr>res_refused := Some why, res_refused_by := Some g, res_refused_table_id := table_id\<rparr>"

definition refuse_by :: "refusal_why \<Rightarrow> gate \<Rightarrow> dataset_result \<Rightarrow> dataset_result" where
  "refuse_by why g r = r\<lparr>res_refused := Some why, res_refused_by := Some g\<rparr>"

definition history_fenced :: string where
  "history_fenced = ''history_fenced''"

text \<open>\<^verbatim>\<open>summarize_refusals\<close>.\<close>

definition summarize_refusals :: "dataset_result list \<Rightarrow> (gate \<times> nat) list" where
  "summarize_refusals results = fold (\<lambda>r counts. case res_refused_by r of
       None \<Rightarrow> counts
     | Some g \<Rightarrow> AList.update g ((case map_of counts g of None \<Rightarrow> 0 | Some n \<Rightarrow> n) + 1) counts) results []"

section \<open>What the pass runs on\<close>

record exc =
  ex_type :: string
  ex_message :: string

datatype raised = Kit error | Lance exc

record lance_table =
  lt_manifest :: "8 word list"
  lt_data_storage_version :: "string option"
  lt_config :: "exc + string list"
  lt_delete_config_keys :: "string list \<Rightarrow> data_store \<Rightarrow> (exc + unit) \<times> data_store"
  lt_branches :: "exc + string list"
  lt_tags :: "exc + string list"
  lt_explain :: "int option \<Rightarrow> int option \<Rightarrow> data_store \<Rightarrow> exc + int"
  lt_cleanup :: "int option \<Rightarrow> int option \<Rightarrow> data_store \<Rightarrow> (exc + int \<times> int) \<times> data_store"
  lt_version :: "data_store \<Rightarrow> int"
  lt_handle :: "data_store \<Rightarrow> table_handle"

record expiry_target =
  xt_uri :: string
  xt_protected :: base_refs
  xt_table_id :: "string option"
  xt_data_directories :: "recorded_base list"
  xt_now :: int
  xt_history :: "table_history option"

record 'e expiry_env =
  xe_open :: "string \<Rightarrow> data_store \<Rightarrow> exc + lance_table"
  xe_raised :: "error \<Rightarrow> exc"
  xe_hex :: "string \<Rightarrow> string"
  xe_dg :: "history_fence content \<Rightarrow> 'e"
  xe_mint :: "nat \<Rightarrow> string"
  xe_clock :: int

record expiry_world =
  xw_fence :: "history_fence world"
  xw_data :: data_store

definition as_exc :: "'e expiry_env \<Rightarrow> raised \<Rightarrow> exc" where
  "as_exc env r = (case r of Kit e \<Rightarrow> xe_raised env e | Lance x \<Rightarrow> x)"

record opened =
  op_table :: lance_table
  op_reader_flags :: int
  op_writer_flags :: int

definition opened_result :: "opened \<Rightarrow> string \<Rightarrow> dataset_result" where
  "opened_result op uri = (result_of uri)\<lparr>res_data_storage_version := lt_data_storage_version (op_table op),
     res_mixed_data_file_versions := mixes_data_file_versions (op_reader_flags op)\<rparr>"

section \<open>The gates\<close>

definition auto_cleanup_prefix :: string where
  "auto_cleanup_prefix = ''lance.auto_cleanup.''"

definition armed_keys :: "string list \<Rightarrow> string list" where
  "armed_keys keys = sort (filter (prefix auto_cleanup_prefix) keys)"

definition disarm :: "lance_table \<Rightarrow> data_store \<Rightarrow> (exc + string list) \<times> data_store" where
  "disarm tbl d = (case lt_config tbl of Inl x \<Rightarrow> (Inl x, d)
     | Inr keys \<Rightarrow> (let armed = armed_keys keys in
         if armed = [] then (Inr [], d)
         else (case lt_delete_config_keys tbl armed d of (Inl x, d1) \<Rightarrow> (Inl x, d1) | (Inr _, d1) \<Rightarrow> (Inr armed, d1))))"

text \<open>\<^verbatim>\<open>_disarm_commit_path_cleanup\<close> and \<^verbatim>\<open>DisarmOutcome.onto\<close>.\<close>

record disarm_outcome =
  do_disarmed :: bool
  do_error :: "(string \<times> string) option"

definition disarm_commit_path_cleanup :: "lance_table \<Rightarrow> data_store \<Rightarrow> disarm_outcome \<times> data_store" where
  "disarm_commit_path_cleanup tbl d = (case disarm tbl d of
       (Inl x, d1) \<Rightarrow> (\<lparr>do_disarmed = False, do_error = Some (''auto_cleanup: '' @ ex_message x, ex_type x)\<rparr>, d1)
     | (Inr armed, d1) \<Rightarrow> (\<lparr>do_disarmed = (armed \<noteq> []), do_error = None\<rparr>, d1))"

definition onto :: "disarm_outcome \<Rightarrow> dataset_result \<Rightarrow> dataset_result" where
  "onto outcome r = (let r1 = r\<lparr>res_auto_cleanup_disarmed := do_disarmed outcome\<rparr> in
     case do_error outcome of
       Some (msg, ty) \<Rightarrow> if res_error r1 = None then r1\<lparr>res_error := Some msg, res_error_type := Some ty\<rparr> else r1
     | None \<Rightarrow> r1)"

definition classify_maintain_failure :: "string \<Rightarrow> gate option" where
  "classify_maintain_failure message = (if prefix ''Ref is invalid:'' message then Some INVALID_REF else None)"

text \<open>\<^verbatim>\<open>_branches_inside\<close>, and the refusal over it.\<close>

definition branches_inside_opened :: "lance_table \<Rightarrow> string \<Rightarrow> exc + string list" where
  "branches_inside_opened tbl uri =
     (if \<not> sublist (''/'' @ branch_container @ ''/'') uri then Inr []
      else (case lt_branches tbl of Inl x \<Rightarrow> Inl x
        | Inr names \<Rightarrow> Inr (case branch_named_by uri names of None \<Rightarrow> [] | Some own \<Rightarrow> branches_inside own names)))"

definition refuse_a_branch_with_branches_inside :: "opened \<Rightarrow> string \<Rightarrow> dataset_result option" where
  "refuse_a_branch_with_branches_inside op uri = (case branches_inside_opened (op_table op) uri of
       Inl x \<Rightarrow> Some ((opened_result op uri)\<lparr>res_error := Some (''refs: '' @ ex_message x), res_error_type := Some (ex_type x)\<rparr>)
     | Inr nested \<Rightarrow> if nested = [] then None else Some (refuse_by (Nested nested) NESTED_BRANCH (opened_result op uri)))"

definition refuse_unsupported_flags :: "opened \<Rightarrow> string \<Rightarrow> dataset_result option" where
  "refuse_unsupported_flags op uri = (case describe_gc_unsupported_flags (op_reader_flags op) (op_writer_flags op) of
       None \<Rightarrow> None
     | Some rf \<Rightarrow> Some (refuse_by (Flags rf) MANIFEST_FLAGS (opened_result op uri)))"

text \<open>\<^verbatim>\<open>_refuse_a_referenced_root\<close>: a read of the tags that raises leaves the pass.\<close>

definition refuse_a_referenced_root :: "opened \<Rightarrow> expiry_target \<Rightarrow> exc + dataset_result option" where
  "refuse_a_referenced_root op target =
     (if is_protected (xt_protected target) (xt_uri target) = None then Inr None
      else (case lt_tags (op_table op) of Inl x \<Rightarrow> Inl x
        | Inr tags \<Rightarrow> Inr (case rewrite_refusal (xt_protected target) (xt_uri target) tags of
            None \<Rightarrow> None
          | Some (relation, root) \<Rightarrow>
              Some (refuse_by (Resolved_through relation root) PROTECTED_BASE (opened_result op (xt_uri target))))))"

definition open_target :: "'e expiry_env \<Rightarrow> expiry_target \<Rightarrow> data_store \<Rightarrow> dataset_result + opened" where
  "open_target env target d = (case xe_open env (xt_uri target) d of
       Inr tbl \<Rightarrow> (let (reader, writer) = manifest_feature_flags (lt_manifest tbl) in
         Inr \<lparr>op_table = tbl, op_reader_flags = reader, op_writer_flags = writer\<rparr>)
     | Inl x \<Rightarrow> Inl (case unsupported_features_from_open_error (ex_message x) of
         None \<Rightarrow> (result_of (xt_uri target))\<lparr>res_error := Some (''open: '' @ ex_message x), res_error_type := Some (ex_type x)\<rparr>
       | Some why \<Rightarrow> refuse_by (Open_flags why) MANIFEST_FLAGS ((result_of (xt_uri target))\<lparr>res_mixed_data_file_versions :=
           mixes_data_file_versions (case flags_from_open_error (ex_message x) of None \<Rightarrow> 0 | Some flags \<Rightarrow> flags)\<rparr>)))"

definition refusal_of :: "opened \<Rightarrow> expiry_target \<Rightarrow> exc + dataset_result option" where
  "refusal_of op target = (case refuse_a_branch_with_branches_inside op (xt_uri target) of
       Some r \<Rightarrow> Inr (Some r)
     | None \<Rightarrow> (case refuse_unsupported_flags op (xt_uri target) of
         Some r \<Rightarrow> Inr (Some r)
       | None \<Rightarrow> refuse_a_referenced_root op target))"

section \<open>Staged manifests\<close>

text \<open>
  \<^verbatim>\<open>_STAGED_MANIFEST\<close>: twenty digits, \<^verbatim>\<open>.manifest-\<close> and a lower-case uuid; \<^verbatim>\<open>$\<close> admits one line feed after it.
  The digits are the version's complement in 64 bits.
\<close>

definition is_hex :: "char \<Rightarrow> bool" where
  "is_hex c = (is_digit c \<or> CHR ''a'' \<le> c \<and> c \<le> CHR ''f'')"

definition is_uuid :: "string \<Rightarrow> bool" where
  "is_uuid s = (let ps = split_on (CHR ''-'') s in map length ps = [8, 4, 4, 4, 12] \<and> list_all (list_all is_hex) ps)"

definition staged_version :: "string \<Rightarrow> int option" where
  "staged_version name = (let n = remove_suffix [CHR 0x0A] name; inverted = take 20 n; rest = drop 20 n in
     if length inverted = 20 \<and> list_all is_digit inverted \<and> prefix ''.manifest-'' rest \<and>
        is_uuid (drop (length ''.manifest-'') rest)
     then Some (u64_max - int (parse_nat inverted)) else None)"

definition versions_path :: "string \<Rightarrow> string" where
  "versions_path uri = rstrip_slash (case scheme_partition uri of Some (_, rest) \<Rightarrow> rest | None \<Rightarrow> uri) @ ''/_versions''"

definition staged_among :: "(string \<times> file_meta) list \<Rightarrow> (string \<times> int \<times> int) list" where
  "staged_among objs = List.map_filter (\<lambda>(k, m). case staged_version (base_name k) of
     None \<Rightarrow> None | Some v \<Rightarrow> Some (k, v, fm_modified m)) objs"

definition staged_manifests :: "string \<Rightarrow> data_store \<Rightarrow> (string \<times> int \<times> int) list result \<times> data_store" where
  "staged_manifests uri d = (case list_files (versions_path uri) d of
       (Inl e, d1) \<Rightarrow> (Inl e, d1) | (Inr objs, d1) \<Rightarrow> (Inr (staged_among objs), d1))"

definition lost_manifests :: "int \<Rightarrow> int \<Rightarrow> (string \<times> int \<times> int) list \<Rightarrow> string list" where
  "lost_manifests cutoff version staged =
     map fst (filter (\<lambda>(_, v, modified). v \<le> version \<and> modified \<le> cutoff) staged)"

definition reclaim_staged_manifests ::
    "'e expiry_env \<Rightarrow> lance_table \<Rightarrow> expiry_target \<Rightarrow> expiry_policy \<Rightarrow> dataset_result \<Rightarrow> data_store
      \<Rightarrow> raised option \<times> dataset_result \<times> data_store" where
  "reclaim_staged_manifests env tbl target policy r d = (case staged_manifests (xt_uri target) d of
       (Inl e, d1) \<Rightarrow> (Some (Kit e), r, d1)
     | (Inr staged, d1) \<Rightarrow>
        (let lost = lost_manifests (xe_clock env - xp_staged_grace policy) (lt_version tbl d) staged in
         case delete_objects lost d1 of
           (Inl e, d2) \<Rightarrow> (Some (Kit e), r, d2)
         | (Inr _, d2) \<Rightarrow> (None, r\<lparr>res_staged_manifests_removed := length lost\<rparr>, d2)))"

section \<open>The pass\<close>

text \<open>\<^verbatim>\<open>(result.reclaimable_versions or 0) >= policy.min_reclaimable\<close>.\<close>

definition enough_reclaimable :: "dataset_result \<Rightarrow> expiry_policy \<Rightarrow> bool" where
  "enough_reclaimable r policy =
     (xp_min_reclaimable policy \<le> (case res_reclaimable_versions r of None \<Rightarrow> 0 | Some n \<Rightarrow> n))"

definition reclaim_versions ::
    "'e expiry_env \<Rightarrow> lance_table \<Rightarrow> expiry_target \<Rightarrow> expiry_policy \<Rightarrow> dataset_result \<Rightarrow> data_store
      \<Rightarrow> raised option \<times> dataset_result \<times> data_store" where
  "reclaim_versions env tbl target policy r d =
     (if \<not> xp_cleanup_enabled policy \<or> \<not> enough_reclaimable r policy then (None, r, d)
      else (case lt_cleanup tbl (xp_older_than policy) (xp_retain_versions policy) d of
          (Inl x, d1) \<Rightarrow> (Some (Lance x), r, d1)
        | (Inr (versions, bytes), d1) \<Rightarrow> reclaim_staged_manifests env tbl target policy
            (r\<lparr>res_old_versions_removed := versions, res_bytes_removed := bytes\<rparr>) d1))"

definition reclaim_data_directories ::
    "lance_table \<Rightarrow> expiry_target \<Rightarrow> expiry_policy \<Rightarrow> dataset_result \<Rightarrow> data_store
      \<Rightarrow> raised option \<times> dataset_result \<times> data_store" where
  "reclaim_data_directories tbl target policy r d =
     (if xt_data_directories target = [] then (None, r, d)
      else (let th = lt_handle tbl d;
                r1 = r\<lparr>res_base_fragments_holding_deleted_rows :=
                  fragments_holding_deleted_rows (th_head th) (xt_data_directories target)\<rparr> in
        if \<not> xp_cleanup_enabled policy then (None, r1, d)
        else (case reclaim th (xt_data_directories target) (xt_now target) d of
            (Inl e, d1) \<Rightarrow> (Some (Kit e), r1, d1)
          | (Inr n, d1) \<Rightarrow> (None, r1\<lparr>res_base_files_removed := dl_files n, res_base_bytes_removed := dl_bytes n\<rparr>, d1))))"

definition deletes :: "dataset_result \<Rightarrow> expiry_target \<Rightarrow> expiry_policy \<Rightarrow> bool" where
  "deletes r target policy =
     (xp_cleanup_enabled policy \<and> (enough_reclaimable r policy \<or> xt_data_directories target \<noteq> []))"

definition record_failure :: "'e expiry_env \<Rightarrow> raised \<Rightarrow> dataset_result \<Rightarrow> dataset_result" where
  "record_failure env failure r = (let x = as_exc env failure in
     case classify_maintain_failure (ex_message x) of
       Some g \<Rightarrow> refuse_by (Worded (ex_message x)) g r
     | None \<Rightarrow> r\<lparr>res_error := Some (''maintain: '' @ ex_message x), res_error_type := Some (ex_type x)\<rparr>)"

text \<open>What runs inside the hold: both reclaims, the first raise ending them.\<close>

definition reclaim_all ::
    "'e expiry_env \<Rightarrow> lance_table \<Rightarrow> expiry_target \<Rightarrow> expiry_policy \<Rightarrow> dataset_result \<Rightarrow> data_store
      \<Rightarrow> raised option \<times> dataset_result \<times> data_store" where
  "reclaim_all env tbl target policy r d = (case reclaim_versions env tbl target policy r d of
       (Some failure, r1, d1) \<Rightarrow> (Some failure, r1, d1)
     | (None, r1, d1) \<Rightarrow> reclaim_data_directories tbl target policy r1 d1)"

text \<open>
  \<^verbatim>\<open>_history_held\<close> around them: the hold is on the fence's record, the reclaims on the table's files, so the block
  hands back what it did.
\<close>

definition reclaim_under_history ::
    "'e expiry_env \<Rightarrow> lance_table \<Rightarrow> expiry_target \<Rightarrow> expiry_policy \<Rightarrow> dataset_result \<Rightarrow> expiry_world
      \<Rightarrow> raised option \<times> dataset_result \<times> expiry_world" where
  "reclaim_under_history env tbl target policy r w =
     (case (if deletes r target policy then xt_history target else None) of
        None \<Rightarrow> (case reclaim_all env tbl target policy r (xw_data w) of
          (failure, r1, d1) \<Rightarrow> (failure, r1, w\<lparr>xw_data := d1\<rparr>))
      | Some th \<Rightarrow>
         (case fence_held (xe_hex env) (xe_dg env) (xe_mint env) th RECLAIM
             (\<lambda>f. (Inr (reclaim_all env tbl target policy r (xw_data w)), f)) (xw_fence w) of
            (Inl e, f) \<Rightarrow> (Some (Kit e), r, w\<lparr>xw_fence := f\<rparr>)
          | (Inr (failure, r1, d1), f) \<Rightarrow> (failure, r1, w\<lparr>xw_fence := f, xw_data := d1\<rparr>)))"

definition count_and_reclaim ::
    "'e expiry_env \<Rightarrow> lance_table \<Rightarrow> expiry_target \<Rightarrow> expiry_policy \<Rightarrow> dataset_result \<Rightarrow> expiry_world
      \<Rightarrow> raised option \<times> dataset_result \<times> expiry_world" where
  "count_and_reclaim env tbl target policy r w =
     (if xp_cleanup_enabled policy then
        (case lt_explain tbl (xp_older_than policy) (xp_retain_versions policy) (xw_data w) of
           Inl x \<Rightarrow> (Some (Lance x), r, w)
         | Inr n \<Rightarrow> reclaim_under_history env tbl target policy (r\<lparr>res_reclaimable_versions := Some n\<rparr>) w)
      else reclaim_under_history env tbl target policy r w)"

text \<open>\<^verbatim>\<open>expire_versions\<close>: \<open>Inl\<close> is an exception that leaves the pass.\<close>

definition expire_versions ::
    "'e expiry_env \<Rightarrow> expiry_target \<Rightarrow> expiry_policy \<Rightarrow> expiry_world \<Rightarrow> (exc + dataset_result) \<times> expiry_world" where
  "expire_versions env target policy w = (case open_target env target (xw_data w) of
       Inl r \<Rightarrow> (Inr r, w)
     | Inr op \<Rightarrow> (case disarm_commit_path_cleanup (op_table op) (xw_data w) of
         (outcome, d1) \<Rightarrow> (let w1 = w\<lparr>xw_data := d1\<rparr> in
           case refusal_of op target of
             Inl x \<Rightarrow> (Inl x, w1)
           | Inr (Some refused) \<Rightarrow> (Inr (onto outcome refused), w1)
           | Inr None \<Rightarrow>
              (let r = (onto outcome (opened_result op (xt_uri target)))\<lparr>res_table_id := xt_table_id target\<rparr> in
               case count_and_reclaim env (op_table op) target policy r w1 of
                 (None, r1, w2) \<Rightarrow> (Inr r1, w2)
               | (Some failure, r1, w2) \<Rightarrow>
                   (Inr (if failure = Kit HistoryFencedError then r1\<lparr>res_skipped := Some history_fenced\<rparr>
                         else record_failure env failure r1), w2)))))"

section \<open>What a pass may delete\<close>

definition disarmed_data :: "'e expiry_env \<Rightarrow> expiry_target \<Rightarrow> data_store \<Rightarrow> data_store" where
  "disarmed_data env target d = (case open_target env target d of
     Inl _ \<Rightarrow> d | Inr op \<Rightarrow> snd (disarm_commit_path_cleanup (op_table op) d))"

text \<open>Every gate of the ladder stands open for this dataset.\<close>

definition admitted :: "opened \<Rightarrow> expiry_target \<Rightarrow> bool" where
  "admitted op target \<longleftrightarrow> branches_inside_opened (op_table op) (xt_uri target) = Inr [] \<and>
     describe_gc_unsupported_flags (op_reader_flags op) (op_writer_flags op) = None \<and>
     (is_protected (xt_protected target) (xt_uri target) = None \<or>
      (\<exists>tags. lt_tags (op_table op) = Inr tags \<and> rewrite_refusal (xt_protected target) (xt_uri target) tags = None))"

lemma refusal_of_admits: "refusal_of op target = Inr None \<longleftrightarrow> admitted op target"
  by (auto simp: refusal_of_def admitted_def refuse_a_branch_with_branches_inside_def refuse_unsupported_flags_def
      refuse_a_referenced_root_def split: option.splits sum.splits)

lemma reclaim_all_idle:
  "\<not> deletes r target policy \<Longrightarrow> snd (snd (reclaim_all env tbl target policy r d)) = d"
  by (auto simp: deletes_def reclaim_all_def reclaim_versions_def reclaim_data_directories_def Let_def)

lemma reclaim_under_history_effect:
  assumes "reclaim_under_history env tbl target policy r w = (failure, r', w')"
  shows "xw_data w' = xw_data w \<or> (deletes r target policy \<and>
    (\<forall>th. xt_history target = Some th \<longrightarrow>
      (\<exists>tok f. fence_take (xe_hex env) (xe_dg env) (xe_mint env) th RECLAIM (xw_fence w) = (Inr tok, f))))"
proof (cases "deletes r target policy")
  case False
  then show ?thesis
    using assms reclaim_all_idle [OF False, of env tbl "xw_data w"]
    by (auto simp: reclaim_under_history_def split: prod.splits)
next
  case True
  then show ?thesis
    using assms by (auto simp: reclaim_under_history_def fence_held_def split: option.splits prod.splits sum.splits)
qed

lemma expire_versions_effect:
  assumes "expire_versions env target policy w = (x, w')"
  shows "xw_data w' = disarmed_data env target (xw_data w) \<or>
    (\<exists>op r. open_target env target (xw_data w) = Inr op \<and> admitted op target \<and>
      xp_cleanup_enabled policy \<and> deletes r target policy \<and>
      (\<forall>th. xt_history target = Some th \<longrightarrow>
        (\<exists>tok f. fence_take (xe_hex env) (xe_dg env) (xe_mint env) th RECLAIM (xw_fence w) = (Inr tok, f))))"
proof (cases "open_target env target (xw_data w)")
  case (Inr op)
  let ?d = "snd (disarm_commit_path_cleanup (op_table op) (xw_data w))"
  let ?w = "w\<lparr>xw_data := ?d\<rparr>"
  have d: "disarmed_data env target (xw_data w) = ?d"
    by (simp add: disarmed_data_def Inr)
  show ?thesis
  proof (cases "xw_data w' = ?d")
    case False
    then have adm: "admitted op target"
      using assms by (auto simp: expire_versions_def Inr Let_def simp flip: refusal_of_admits split: prod.splits sum.splits option.splits)
    have ref: "refusal_of op target = Inr None"
      using adm by (simp add: refusal_of_admits)
    obtain r failure r1 where c: "count_and_reclaim env (op_table op) target policy r ?w = (failure, r1, w')"
      using assms by (auto simp: expire_versions_def Inr Let_def ref split: prod.splits option.splits)
    then obtain r0 where "reclaim_under_history env (op_table op) target policy r0 ?w = (failure, r1, w')"
      using False by (auto simp: count_and_reclaim_def split: if_splits sum.splits)
    from reclaim_under_history_effect [OF this] False adm show ?thesis
      by (auto simp: Inr deletes_def)
  qed (simp add: d)
qed (use assms in \<open>auto simp: expire_versions_def disarmed_data_def\<close>)


text \<open>A table with one file a cleanup removes, and a pass over it.\<close>

definition no_handle :: table_handle where
  "no_handle = \<lparr>th_head = \<lparr>sn_bases = [], sn_fragments = []\<rparr>, th_branches = Inr [], th_branch_head = (\<lambda>_. Inl LanceError),
     th_versions = Inr [], th_at = (\<lambda>_. Inl LanceError), th_branch_versions = (\<lambda>_. Inr []),
     th_branch_at = (\<lambda>_ _. Inl LanceError)\<rparr>"

definition small_table :: "(exc + string list) \<Rightarrow> lance_table" where
  "small_table tags = \<lparr>lt_manifest = [], lt_data_storage_version = Some ''2.0'', lt_config = Inr [],
     lt_delete_config_keys = (\<lambda>_ d. (Inr (), d)), lt_branches = Inr [], lt_tags = tags,
     lt_explain = (\<lambda>_ _ _. Inr 2),
     lt_cleanup = (\<lambda>_ _ d. (Inr (2, 10), store_delete ''b/t/data/old.lance'' d)),
     lt_version = (\<lambda>_. 9), lt_handle = (\<lambda>_. no_handle)\<rparr>"

definition small_expiry_env :: "(exc + string list) \<Rightarrow> history_fence content expiry_env" where
  "small_expiry_env tags = \<lparr>xe_open = (\<lambda>_ _. Inr (small_table tags)),
     xe_raised = (\<lambda>_. \<lparr>ex_type = ''OSError'', ex_message = []\<rparr>), xe_hex = id, xe_dg = id, xe_mint = (\<lambda>_. ''t''),
     xe_clock = 1000000000\<rparr>"

definition small_target :: "base_refs \<Rightarrow> expiry_target" where
  "small_target refs = \<lparr>xt_uri = ''s3://b/t'', xt_protected = refs, xt_table_id = Some ''ns$t'', xt_data_directories = [],
     xt_now = 1000000000, xt_history = Some \<lparr>th_root = S3, th_uuid = ''u''\<rparr>\<rparr>"

definition small_policy :: expiry_policy where
  "small_policy = expiry_policy_of 1 600000000 (default_plan 86400000000)"

definition small_expiry_world :: expiry_world where
  "small_expiry_world = \<lparr>xw_fence = \<lparr>objects = [], clock = 5, pending = []\<rparr>,
     xw_data = \<lparr>objects = [(''b/t/data/old.lance'', Json \<lparr>fm_size = 10, fm_modified = 0\<rparr>)],
       clock = 0, pending = []\<rparr>\<rparr>"

lemma small_pass_deletes:
  "lookup (xw_data (snd (expire_versions (small_expiry_env (Inr [])) (small_target empty_refs) small_policy small_expiry_world)))
     ''b/t/data/old.lance'' = None"
  "lookup (disarmed_data (small_expiry_env (Inr [])) (small_target empty_refs) (xw_data small_expiry_world)) ''b/t/data/old.lance'' \<noteq> None"
  by code_simp+


section \<open>A kept history\<close>

text \<open>
  a policy that disables cleanup keeps every file. When the record that wins for a dataset can be
  read and disables cleanup, whatever ages or counts it or any other record names, the pass under it
  changes no file beyond the disarming commit and takes no hold on the history.
\<close>

theorem kept_history_is_kept:
  assumes "resolve_policy repr (pc_policies context) uri (po_table_uuid owners) (po_namespace_uuids owners) = Some policy"
    and "\<not> enabled policy ''cleanup_enabled''" "plan_from_policy repr (pc_older_than context) (Some policy) = Inr plan"
    and "expire_versions env target (expiry_policy_of min_reclaimable grace (resolve_plan repr context owners uri)) w = (x, w')"
  shows "xw_data w' = disarmed_data env target (xw_data w) \<and> xw_fence w' = xw_fence w"
proof -
  let ?policy = "expiry_policy_of min_reclaimable grace (resolve_plan repr context owners uri)"
  have off: "\<not> xp_cleanup_enabled ?policy"
    using assms(1-3) by (auto simp: resolve_plan_def expiry_policy_of_def plan_from_policy_def split: sum.splits)
  then have idle: "\<not> deletes r target ?policy" for r
    by (simp add: deletes_def)
  have "xw_fence w' = xw_fence w"
    using assms(4) off idle
    by (auto simp: expire_versions_def count_and_reclaim_def reclaim_under_history_def Let_def
        split: sum.splits prod.splits option.splits)
  moreover have "xw_data w' = disarmed_data env target (xw_data w)"
    using expire_versions_effect [OF assms(4)] off by blast
  ultimately show ?thesis by simp
qed

definition hold_record :: "json \<Rightarrow> dict" where
  "hold_record days = [(''kind'', JStr ''table''), (''uuid'', JStr ''u''), (''cleanup_enabled'', JBool False), (''retention_days'', days)]"

definition small_context :: "dict list \<Rightarrow> plan_context" where
  "small_context policies = \<lparr>pc_policies = policies, pc_now = 1000000000, pc_older_than = 86400000000\<rparr>"

definition small_owners :: policy_owners where
  "small_owners = \<lparr>po_table_uuid = ''u'', po_namespace_uuids = []\<rparr>"

definition pass_under :: "dict \<Rightarrow> expiry_world" where
  "pass_under policy = snd (expire_versions (small_expiry_env (Inr [])) (small_target empty_refs)
     (expiry_policy_of 1 600000000 (resolve_plan (\<lambda>_. []) (small_context [policy]) small_owners ''s3://b/t'')) small_expiry_world)"

definition hold_plan :: dataset_plan where
  "hold_plan = (default_plan (30 * (24 * hour_us)))\<lparr>dp_policy := Some (hold_record (JInt 30)), dp_cleanup_enabled := False\<rparr>"

lemma hold_parses:
  "plan_from_policy (\<lambda>_. []) 86400000000 (Some (hold_record (JInt 30))) = Inr hold_plan"
  "resolve_policy (\<lambda>_. []) [hold_record (JInt 30)] ''s3://b/t'' ''u'' [] = Some (hold_record (JInt 30))"
  "\<not> enabled (hold_record (JInt 30)) ''cleanup_enabled''"
  by code_simp+

theorem kept_history_is_kept_witness:
  "xw_data (pass_under (hold_record (JInt 30))) =
     disarmed_data (small_expiry_env (Inr [])) (small_target empty_refs) (xw_data small_expiry_world)"
  using kept_history_is_kept
    [of "\<lambda>_. []" "small_context [hold_record (JInt 30)]" "''s3://b/t''" small_owners "hold_record (JInt 30)" hold_plan
        "small_expiry_env (Inr [])" "small_target empty_refs" 1 600000000 small_expiry_world, OF _ _ _ surjective_pairing]
    hold_parses
  by (simp add: pass_under_def small_context_def small_owners_def)


text \<open>
  a read of the tags that fails ends more than its dataset. The pass answers a failed
  open, a failed read of the branches and a failed reclaim on its result; the tags of a dataset another one
  resolves through are read outside every such arm, so there the exception leaves the pass,
  which documents that it never raises.
\<close>

theorem unreadable_tags_leave_the_pass:
  "fst (expire_versions (small_expiry_env (Inl \<lparr>ex_type = ''OSError'', ex_message = ''refs unreadable''\<rparr>))
     (small_target (empty_refs\<lparr>bs_protected := [''b/t'']\<rparr>)) small_policy small_expiry_world)
   = Inl \<lparr>ex_type = ''OSError'', ex_message = ''refs unreadable''\<rparr>"
  by code_simp

section \<open>What goes with a reclaim\<close>

lemma not_staged_digits:
  assumes "list_all is_digit x"
  shows "staged_version (x @ ''.manifest'') = None"
proof -
  have "remove_suffix [CHR 0x0A] (x @ ''.manifest'') = x @ ''.manifest''"
    by (auto simp: remove_suffix_def suffix_def dest: arg_cong [where f = last])
  moreover consider "length x < 20" | "length x = 20" | "20 < length x" by linarith
  then have "\<not> (length (take 20 (x @ ''.manifest'')) = 20 \<and> list_all is_digit (take 20 (x @ ''.manifest'')) \<and>
      prefix ''.manifest-'' (drop 20 (x @ ''.manifest'')))"
  proof cases
    case 1
    then have "CHR ''.'' \<in> set (take 20 (x @ ''.manifest''))" by (simp add: take_Cons')
    moreover have "\<not> is_digit (CHR ''.'')" by code_simp
    ultimately show ?thesis by (auto simp: list_all_iff)
  next
    case 3
    then obtain c cs where "drop 20 x = c # cs" by (cases "drop 20 x") auto
    moreover from this have "c \<in> set x" by (metis in_set_dropD list.set_intros(1))
    then have "is_digit c" using assms by (simp add: list_all_iff)
    moreover have "\<not> is_digit (CHR ''.'')" by code_simp
    ultimately show ?thesis by auto
  qed simp
  ultimately show ?thesis
    by (auto simp: staged_version_def Let_def)
qed

lemma committed_manifest_is_not_staged:
  "staged_version (manifest_v1 v) = None" "staged_version (manifest_v2 v) = None"
proof -
  have d: "all_digits (show_nat n)" for n by simp
  show "staged_version (manifest_v1 v) = None"
    unfolding manifest_v1_def using d by (intro not_staged_digits) (simp add: all_digits_def)
  show "staged_version (manifest_v2 v) = None"
    unfolding manifest_v2_def pad_zeros_def using all_digits_zeros [OF d]
    by (intro not_staged_digits) (simp add: all_digits_def)
qed

lemma in_staged:
  "(k, v, t) \<in> set (staged_among objs) \<longleftrightarrow>
     (\<exists>m. (k, m) \<in> set objs \<and> staged_version (base_name k) = Some v \<and> t = fm_modified m)"
  by (force simp: staged_among_def in_map_filter split: option.splits)

definition lost_manifest :: "'e expiry_env \<Rightarrow> lance_table \<Rightarrow> expiry_target \<Rightarrow> expiry_policy \<Rightarrow> data_store \<Rightarrow> string \<Rightarrow> bool" where
  "lost_manifest env tbl target policy d k \<longleftrightarrow> beneath (versions_path (xt_uri target)) k \<and>
     (\<exists>m v. lookup d k = Some (Json m) \<and> staged_version (base_name k) = Some v \<and> v \<le> lt_version tbl d \<and>
       fm_modified m \<le> xe_clock env - xp_staged_grace policy)"

text \<open>
  C34: what a pass removes of the manifests writers staged. On a store that answers, a file goes
  if and only if it lies under the ref's versions directory, carries the name of a staged manifest, was
  staged for a version the ref already holds and is past the grace; so a commit still in flight
  keeps the manifest it staged, and the manifest of a committed version, in either naming scheme and
  under any directory, is never taken.
\<close>

theorem staged_manifests_go_once_lost:
  assumes "pending d = []"
  shows "\<exists>r' d'. reclaim_staged_manifests env tbl target policy r d = (None, r', d') \<and>
    (\<forall>k. lookup d' k = (if lost_manifest env tbl target policy d k then None else lookup d k)) \<and>
    (\<forall>dir v. lookup d' (dir @ ''/'' @ manifest_v1 v) = lookup d (dir @ ''/'' @ manifest_v1 v) \<and>
             lookup d' (dir @ ''/'' @ manifest_v2 v) = lookup d (dir @ ''/'' @ manifest_v2 v))"
proof -
  obtain objs where objs: "list_files (versions_path (xt_uri target)) d = (Inr objs, d)"
    "\<And>k m. (k, m) \<in> set objs \<longleftrightarrow> beneath (versions_path (xt_uri target)) k \<and> lookup d k = Some (Json m)"
    using list_files_quiet [OF assms] by blast
  let ?lost = "lost_manifests (xe_clock env - xp_staged_grace policy) (lt_version tbl d) (staged_among objs)"
  have lost: "k \<in> set ?lost \<longleftrightarrow> lost_manifest env tbl target policy d k" for k
    by (force simp: lost_manifests_def lost_manifest_def in_staged objs(2))
  obtain y d' where d': "delete_objects ?lost d = (Inr y, d')" "\<And>k. lookup d' k = (if k \<in> set ?lost then None else lookup d k)"
    using quiet_endsE [OF delete_batches_end [of ?lost, OF order_refl] assms] unfolding delete_objects_def by blast
  have base: "base_name (dir @ CHR ''/'' # m) = m" if "CHR ''/'' \<notin> set m" for dir m
    using that by (rule base_name_in_directory)
  have "CHR ''/'' \<notin> set (manifest_v1 v)" "CHR ''/'' \<notin> set (manifest_v2 v)" for v
    using digits_no_dot [of "show_nat v"] digits_no_dot [of "pad_zeros 20 (show_nat (nat (u64_max - int v)))"]
      all_digits_zeros [OF all_digits_show_nat] all_digits_show_nat [of v]
    by (auto simp: manifest_v1_def manifest_v2_def pad_zeros_def all_digits_def)
  then have "\<not> lost_manifest env tbl target policy d (dir @ CHR ''/'' # manifest_v1 v)"
    "\<not> lost_manifest env tbl target policy d (dir @ CHR ''/'' # manifest_v2 v)" for dir v
    by (auto simp: lost_manifest_def base committed_manifest_is_not_staged)
  with objs(1) d' show ?thesis
    by (auto simp: reclaim_staged_manifests_def staged_manifests_def lost)
qed

definition staged_store :: data_store where
  "staged_store = \<lparr>objects = [(''t/_versions/18446744073709551606.manifest-01234567-89ab-cdef-0123-456789abcdef'',
     Json \<lparr>fm_size = 1, fm_modified = 0\<rparr>)], clock = 0, pending = []\<rparr>"

lemma staged_name: "staged_version ''18446744073709551606.manifest-01234567-89ab-cdef-0123-456789abcdef'' = Some 9"
proof -
  have u: "is_uuid ''01234567-89ab-cdef-0123-456789abcdef''"
    by (simp add: is_uuid_def is_hex_def is_digit_def less_eq_char_def)
  have n: "remove_suffix [CHR 0x0A] ''18446744073709551606.manifest-01234567-89ab-cdef-0123-456789abcdef'' =
      ''18446744073709551606.manifest-01234567-89ab-cdef-0123-456789abcdef''"
    by (simp add: remove_suffix_def suffix_def)
  show ?thesis
    using u by (simp add: staged_version_def n is_digit_def less_eq_char_def parse_nat_def digit_value_def u64_max_def)
qed

lemma staged_store_holds_a_lost_one:
  "base_name ''t/_versions/18446744073709551606.manifest-01234567-89ab-cdef-0123-456789abcdef'' =
     ''18446744073709551606.manifest-01234567-89ab-cdef-0123-456789abcdef''"
  "beneath (versions_path ''s3://t'') ''t/_versions/18446744073709551606.manifest-01234567-89ab-cdef-0123-456789abcdef''"
  using base_name_in_directory [of "''18446744073709551606.manifest-01234567-89ab-cdef-0123-456789abcdef''" "''t/_versions''"]
  by (simp, code_simp)

theorem staged_manifests_go_once_lost_witness:
  "\<exists>r' d'. reclaim_staged_manifests (small_expiry_env (Inr [])) (small_table (Inr []))
     ((small_target empty_refs)\<lparr>xt_uri := ''s3://t''\<rparr>) small_policy (result_of ''s3://t'') staged_store = (None, r', d') \<and>
   lookup d' ''t/_versions/18446744073709551606.manifest-01234567-89ab-cdef-0123-456789abcdef'' = None"
  using staged_manifests_go_once_lost [of staged_store "small_expiry_env (Inr [])" "small_table (Inr [])"
      "(small_target empty_refs)\<lparr>xt_uri := ''s3://t''\<rparr>" small_policy "result_of ''s3://t''"]
    staged_store_holds_a_lost_one staged_name
  by (auto simp: staged_store_def lost_manifest_def lookup_def small_table_def small_expiry_env_def small_policy_def expiry_policy_of_def)

end
