(* ===== verification/Table_Names.thy ===== *)
theory Table_Names
  imports Purge Expiry
begin

text \<open>
  \<^verbatim>\<open>maintenance/services/naming.py\<close>, with \<^verbatim>\<open>table_ids\<close> of \<^verbatim>\<open>due.py\<close>: which table a dataset is, as the catalog's
  manifests name it, and the uuids whose policy may govern it. What a root's manifest holds is \<open>rows\<close>, as in
  \<open>Purge\<close>; the memo of \<^verbatim>\<open>table_uuid\<close> is part of the names it is kept on.
\<close>

record table_ids =
  ti_by_location :: "(string \<times> string) list"
  ti_namespace_uuids :: "(string \<times> string) list"
  ti_table_uuids :: "(string \<times> string) list"
  ti_complete :: bool

definition no_tables :: table_ids where
  "no_tables = \<lparr>ti_by_location = [], ti_namespace_uuids = [], ti_table_uuids = [], ti_complete = True\<rparr>"

definition name_row :: "string \<Rightarrow> manifest_row \<Rightarrow> table_ids \<Rightarrow> table_ids" where
  "name_row root row names = (case table_location root row of
       Some location \<Rightarrow>
         if mr_object_id row \<noteq> []
         then names\<lparr>ti_by_location := AList.update (normalise location) (mr_object_id row) (ti_by_location names)\<rparr> else names
     | None \<Rightarrow>
         (case mr_uuid row of
            Some uuid \<Rightarrow> if mr_object_type row = ''namespace'' \<and> mr_object_id row \<noteq> []
              then names\<lparr>ti_namespace_uuids := AList.update (mr_object_id row) uuid (ti_namespace_uuids names)\<rparr> else names
          | None \<Rightarrow> names))"

definition name_root :: "(string \<Rightarrow> manifest_row list option) \<Rightarrow> string \<Rightarrow> table_ids \<Rightarrow> table_ids" where
  "name_root rows root names = (case rows root of
       None \<Rightarrow> names\<lparr>ti_complete := False\<rparr>
     | Some rs \<Rightarrow> fold (name_row root) rs names)"

definition table_ids_of :: "(string \<Rightarrow> manifest_row list option) \<Rightarrow> string list \<Rightarrow> table_ids" where
  "table_ids_of rows roots = fold (name_root rows) (sort (remdups roots)) no_tables"

text \<open>\<^verbatim>\<open>TableIds.of\<close>, \<^verbatim>\<open>location_of\<close> and \<^verbatim>\<open>table_of\<close>.\<close>

definition named_at :: "table_ids \<Rightarrow> string \<Rightarrow> string option" where
  "named_at names location = map_of (ti_by_location names) (normalise location)"

definition location_of :: "table_ids \<Rightarrow> string \<Rightarrow> string option" where
  "location_of names table = map_option fst (List.find (\<lambda>(_, named). named = table) (ti_by_location names))"

definition enclosing_tables :: "table_ids \<Rightarrow> string list \<Rightarrow> string list" where
  "enclosing_tables names segments = List.map_filter (\<lambda>i.
     if segments ! i = branch_container then map_of (ti_by_location names) (join_with (CHR ''/'') (take i segments)) else None)
     [0..<length segments]"

definition table_of :: "table_ids \<Rightarrow> string \<Rightarrow> string option" where
  "table_of names dataset = (let segments = split_on (CHR ''/'') (normalise dataset);
       enclosing = (case enclosing_tables names segments of [] \<Rightarrow> None | t # _ \<Rightarrow> Some t) in
     case named_at names dataset of
       Some table \<Rightarrow> if table \<noteq> [] then Some table else enclosing
     | None \<Rightarrow> enclosing)"

definition table_uuid ::
    "claim_store \<Rightarrow> (location_claim content \<Rightarrow> 'e) \<Rightarrow> table_ids \<Rightarrow> string \<Rightarrow> location_claim world
      \<Rightarrow> string option result \<times> table_ids \<times> location_claim world" where
  "table_uuid st dg names table w = (case map_of (ti_table_uuids names) table of
       Some uuid \<Rightarrow> (Inr (Some uuid), names, w)
     | None \<Rightarrow> (case location_of names table of
         None \<Rightarrow> (Inr None, names, w)
       | Some location \<Rightarrow> (case claim_read st dg location w of
           (Inl e, w1) \<Rightarrow> (Inl e, names, w1)
         | (Inr None, w1) \<Rightarrow> (Inr None, names, w1)
         | (Inr (Some found), w1) \<Rightarrow>
            (if lc_table (cr_claim found) \<noteq> table then (Inr None, names, w1)
             else (case lc_uuid (cr_claim found) of
                 None \<Rightarrow> (Inr None, names, w1)
               | Some uuid \<Rightarrow> (Inr (Some uuid),
                   names\<lparr>ti_table_uuids := AList.update table uuid (ti_table_uuids names)\<rparr>, w1))))))"

definition catalog_delimiter :: char where
  "catalog_delimiter = CHR ''$''"

definition ancestors_of :: "string \<Rightarrow> string list" where
  "ancestors_of table = (let segments = split_on catalog_delimiter table in
     map (\<lambda>depth. join_with catalog_delimiter (take depth segments)) [1..<length segments])"

text \<open>\<^verbatim>\<open>policy_owners\<close>: a claim that cannot be read answers nothing, as does an ancestor with no uuid.\<close>

definition policy_owners_of ::
    "claim_store \<Rightarrow> (location_claim content \<Rightarrow> 'e) \<Rightarrow> table_ids \<Rightarrow> string \<Rightarrow> location_claim world
      \<Rightarrow> policy_owners option \<times> table_ids \<times> location_claim world" where
  "policy_owners_of st dg names table w = (case table_uuid st dg names table w of
       (Inl _, names1, w1) \<Rightarrow> (None, names1, w1)
     | (Inr None, names1, w1) \<Rightarrow> (None, names1, w1)
     | (Inr (Some uuid), names1, w1) \<Rightarrow>
        (let ancestors = ancestors_of table; known = map_of (ti_namespace_uuids names1) in
         if list_ex (\<lambda>a. known a = None) ancestors then (None, names1, w1)
         else (Some \<lparr>po_table_uuid = uuid, po_namespace_uuids = map (\<lambda>a. the (known a)) ancestors\<rparr>, names1, w1)))"

section \<open>Which table a dataset is\<close>

text \<open>A path that is the location \<open>l\<close>'s branch directory or lies in it.\<close>

definition in_branch_of :: "string \<Rightarrow> string \<Rightarrow> bool" where
  "in_branch_of l p \<longleftrightarrow> (\<exists>rest. p @ ''/'' = l @ ''/'' @ branch_container @ ''/'' @ rest)"

lemma split_on_split: "split_on c (a @ c # b) = split_on c a @ split_on c b"
  using split_on_join_append [of "split_on c a" c b] by (simp add: join_split split_on_pieces)

lemma branch_segment:
  assumes "l \<noteq> []"
  shows "(\<exists>i<length (split_on (CHR ''/'') p). split_on (CHR ''/'') p ! i = branch_container \<and>
      join_with (CHR ''/'') (take i (split_on (CHR ''/'') p)) = l) \<longleftrightarrow> in_branch_of l p" (is "?L \<longleftrightarrow> _")
proof
  let ?segs = "split_on (CHR ''/'') p"
  assume ?L
  then obtain i where i: "i < length ?segs" "?segs ! i = branch_container" "join_with (CHR ''/'') (take i ?segs) = l"
    by blast
  have ne: "take i ?segs \<noteq> []" using i(3) assms by (cases "take i ?segs") (simp_all del: take_eq_Nil)
  have "?segs = take i ?segs @ [branch_container] @ drop (Suc i) ?segs"
    using id_take_nth_drop [OF i(1)] i(2) by (metis append_Cons append_Nil)
  then have "p @ ''/'' = join_with (CHR ''/'') ((take i ?segs @ [branch_container] @ drop (Suc i) ?segs) @ [[]])"
    using join_with_append [of ?segs "[[]]" "CHR ''/''"] by (simp add: join_split)
  also have "\<dots> = l @ CHR ''/'' # branch_container @ CHR ''/'' # join_with (CHR ''/'') (drop (Suc i) ?segs @ [[]])"
    using join_with_append [OF ne, of "[branch_container] @ drop (Suc i) ?segs @ [[]]" "CHR ''/''"]
      join_with_append [of "[branch_container]" "drop (Suc i) ?segs @ [[]]" "CHR ''/''"] i(3) by simp
  finally show "in_branch_of l p"
    by (auto simp: in_branch_of_def)
next
  assume "in_branch_of l p"
  then obtain rest where rest: "p @ CHR ''/'' # [] = l @ CHR ''/'' # branch_container @ CHR ''/'' # rest"
    by (auto simp: in_branch_of_def)
  have T: "CHR ''/'' \<notin> set branch_container" by code_simp
  have eq: "split_on (CHR ''/'') p @ [[]] = split_on (CHR ''/'') l @ branch_container # split_on (CHR ''/'') rest"
    using arg_cong [OF rest, of "split_on (CHR ''/'')"] by (simp add: split_on_split split_on_no_sep [OF T])
  have "split_on (CHR ''/'') p = split_on (CHR ''/'') l @ branch_container # butlast (split_on (CHR ''/'') rest)"
    using arg_cong [OF eq, of butlast] by (simp add: butlast_append)
  then show ?L
    by (intro exI [of _ "length (split_on (CHR ''/'') l)"]) (simp add: join_split)
qed

lemma set_enclosing_tables:
  assumes "map_of (ti_by_location names) [] = None"
  shows "t \<in> set (enclosing_tables names (split_on (CHR ''/'') p)) \<longleftrightarrow>
    (\<exists>l. map_of (ti_by_location names) l = Some t \<and> in_branch_of l p)"
proof -
  have "t \<in> set (enclosing_tables names (split_on (CHR ''/'') p)) \<longleftrightarrow>
     (\<exists>l. map_of (ti_by_location names) l = Some t \<and>
       (\<exists>i<length (split_on (CHR ''/'') p). split_on (CHR ''/'') p ! i = branch_container \<and>
          join_with (CHR ''/'') (take i (split_on (CHR ''/'') p)) = l))"
    by (fastforce simp: enclosing_tables_def in_map_filter split: if_splits)
  also have "\<dots> \<longleftrightarrow> (\<exists>l. map_of (ti_by_location names) l = Some t \<and> in_branch_of l p)"
    using branch_segment assms by (metis option.distinct(1))
  finally show ?thesis .
qed

text \<open>
  a dataset's table is the one whose row names its location, and else one it is a branch
  of. A dataset that no row names and that lies in no named table's branch directory has no table; any
  other has one, the table at its own location where there is one.
\<close>

theorem dataset_belongs_to_its_table:
  assumes "map_of (ti_by_location names) [] = None" "[] \<notin> snd ` set (ti_by_location names)"
  shows "(table_of names d = None \<longleftrightarrow>
      (\<forall>l. map_of (ti_by_location names) l \<noteq> None \<longrightarrow> normalise d \<noteq> l \<and> \<not> in_branch_of l (normalise d))) \<and>
    (\<forall>t. table_of names d = Some t \<longrightarrow> named_at names d = Some t \<or>
      named_at names d = None \<and> (\<exists>l. map_of (ti_by_location names) l = Some t \<and> in_branch_of l (normalise d)))"
proof -
  let ?e = "enclosing_tables names (split_on (CHR ''/'') (normalise d))"
  have e: "t \<in> set ?e \<longleftrightarrow> (\<exists>l. map_of (ti_by_location names) l = Some t \<and> in_branch_of l (normalise d))" for t
    by (rule set_enclosing_tables [OF assms(1)])
  have ne: "named_at names d \<noteq> Some []"
    using assms(2) by (force simp: named_at_def dest: map_of_SomeD)
  show ?thesis
  proof (cases "named_at names d")
    case (Some t)
    with ne show ?thesis by (auto simp: table_of_def Let_def named_at_def)
  next
    case None
    then have t: "table_of names d = (case ?e of [] \<Rightarrow> None | t # _ \<Rightarrow> Some t)"
      by (simp add: table_of_def Let_def)
    have "?e = [] \<longleftrightarrow> (\<forall>t. t \<notin> set ?e)"
      by (cases ?e) auto
    then have "?e = [] \<longleftrightarrow> (\<forall>l. map_of (ti_by_location names) l \<noteq> None \<longrightarrow> \<not> in_branch_of l (normalise d))"
      unfolding e by blast
    moreover have "?e = t # ts \<Longrightarrow> \<exists>l. map_of (ti_by_location names) l = Some t \<and> in_branch_of l (normalise d)" for t ts
      using e [of t] by simp
    ultimately show ?thesis
      using None unfolding t by (auto simp: named_at_def split: list.splits)
  qed
qed

definition two_tables :: table_ids where
  "two_tables = no_tables\<lparr>ti_by_location := [(''b/u1'', ''ns$t''), (''b/u2'', ''ns$v'')]\<rparr>"

theorem dataset_belongs_to_its_table_witness:
  "table_of two_tables ''s3://b/u1/tree/x'' = Some ''ns$t'' \<and> table_of two_tables ''s3://b/u3'' = None \<and>
   (\<exists>l. map_of (ti_by_location two_tables) l = Some ''ns$t'' \<and> in_branch_of l (normalise ''s3://b/u1/tree/x''))"
proof -
  have "table_of two_tables ''s3://b/u1/tree/x'' = Some ''ns$t''" "table_of two_tables ''s3://b/u3'' = None"
    "named_at two_tables ''s3://b/u1/tree/x'' = None"
    by code_simp+
  with dataset_belongs_to_its_table [of two_tables "''s3://b/u1/tree/x''"] show ?thesis
    by (simp add: two_tables_def)
qed

end
