(* ===== verification/Compaction_Gate.thy ===== *)
theory Compaction_Gate
  imports Features
begin

text \<open>
  \<^verbatim>\<open>lakehouse_kit/compaction_gate.py\<close>: whether compacting a dataset is refused, the one gate the due
  list and the catalog's commit judge both ask. A base inside the table is the table's own history
  and is not weighed; every other base is, by the gate of the theory \<open>Features\<close>.

  \<open>root_probe\<close> is \<^verbatim>\<open>objectfs.dataset_root_probe\<close> bound to the table's location and store, whose answer
  is the object store's: it finds a root, finds none, or raises.
\<close>

section \<open>The gate\<close>

text \<open>\<^verbatim>\<open>_own\<close>\<close>

definition own :: "string \<Rightarrow> string \<Rightarrow> bool" where
  "own table_location path = is_own table_location \<lparr>bp_path = path, bp_is_root = False, bp_name = None\<rparr>"

definition outside_the_table ::
  "dataset_handle \<Rightarrow> compaction_bases \<Rightarrow> string \<Rightarrow> gate_log \<Rightarrow> compaction_bases \<times> gate_log" where
  "outside_the_table ds gathered table_location gl =
     (let (through, gl1) = (case data_file_base_paths ds of
            Inl _ \<Rightarrow> (None, warn (Data_file_bases_unread table_location) gl)
          | Inr paths \<Rightarrow> (Some (list_ex (\<lambda>path. \<not> own table_location path) paths), gl)) in
      (\<lparr>cb_bases = filter (\<lambda>b. \<not> own table_location (be_path b)) (cb_bases gathered),
        cb_data_resolves_through_a_base = through\<rparr>, gl1))"

definition compaction_refusal ::
  "(string \<Rightarrow> string + bool) \<Rightarrow> dataset_handle \<Rightarrow> string \<Rightarrow> gate_log \<Rightarrow> refusal option \<times> gate_log" where
  "compaction_refusal root_probe ds table_location gl =
     (let (reader, writer) = manifest_feature_flags (dh_manifest ds) in
      if \<not> (table_location \<noteq> [] \<and> (reader OR writer) AND FLAG_BASE_PATHS \<noteq> 0) then
        (describe_compaction_unsupported_flags reader writer None, gl)
      else
        (let (gathered, gl1) = gather_compaction_bases ds
               (\<lambda>path. if own table_location path then Inr True else root_probe path) gl in
         if \<not> list_ex (\<lambda>b. own table_location (be_path b)) (cb_bases gathered) then
           (describe_compaction_unsupported_flags reader writer (Some gathered), gl1)
         else
           (let (foreign, gl2) = outside_the_table ds gathered table_location gl1 in
            if cb_bases foreign = [] \<and> cb_data_resolves_through_a_base foreign = Some False then
              (describe_compaction_unsupported_flags (reader AND NOT FLAG_BASE_PATHS) (writer AND NOT FLAG_BASE_PATHS) None, gl2)
            else (describe_compaction_unsupported_flags reader writer (Some foreign), gl2))))"

section \<open>What it admits\<close>

definition no_foreign_root :: "(string \<Rightarrow> string + bool) \<Rightarrow> string \<Rightarrow> base_path_ref list \<Rightarrow> bool" where
  "no_foreign_root root_probe table_location refs \<longleftrightarrow>
     (\<forall>ref\<in>set refs. \<not> own table_location (bp_path ref) \<longrightarrow> \<not> bp_is_root ref \<and> root_probe (bp_path ref) = Inr False)"

lemma outside_answers:
  "cb_bases (fst (outside_the_table ds g loc gl)) = filter (\<lambda>b. \<not> own loc (be_path b)) (cb_bases g)"
  "cb_data_resolves_through_a_base (fst (outside_the_table ds g loc gl)) = Some False \<Longrightarrow>
     \<exists>paths. data_file_base_paths ds = Inr paths \<and> (\<forall>p\<in>set paths. own loc p)"
  by (auto simp: outside_the_table_def list_ex_iff split: sum.splits)

lemma plain_evidence:
  assumes "plain_prefix (evidence_of (\<lambda>path. if own loc path then Inr True else root_probe path) ref)"
    "\<not> own loc (bp_path ref)"
  shows "\<not> bp_is_root ref \<and> root_probe (bp_path ref) = Inr False"
  using assms by (auto simp: plain_prefix_def evidence_of_def split: sum.splits)

text \<open>
  Where the table has bases of its own and their evidence is dropped, admission still needs every
  foreign base judged.
\<close>

lemma foreign_evidence_admits:
  assumes "provably_foreign (Some cb) \<or> cb_bases cb = [] \<and> cb_data_resolves_through_a_base cb = Some False"
    and "cb_bases cb = filter (\<lambda>b. \<not> own loc (be_path b)) (map (evidence_of probe) refs)"
    and "probe = (\<lambda>path. if own loc path then Inr True else root_probe path)"
  shows "cb_data_resolves_through_a_base cb = Some False \<and> no_foreign_root root_probe loc refs"
proof -
  have plain: "\<forall>b\<in>set (cb_bases cb). plain_prefix b" and res: "cb_data_resolves_through_a_base cb = Some False"
    using assms(1) by (auto simp: provably_foreign_def)
  have "\<not> bp_is_root ref \<and> root_probe (bp_path ref) = Inr False"
    if "ref \<in> set refs" "\<not> own loc (bp_path ref)" for ref
  proof (rule plain_evidence [OF _ that(2)])
    have "evidence_of probe ref \<in> set (cb_bases cb)"
      using that by (simp add: assms(2) evidence_of_def)
    with plain assms(3) show "plain_prefix (evidence_of (\<lambda>path. if own loc path then Inr True else root_probe path) ref)"
      by blast
  qed
  with res show ?thesis by (simp add: no_foreign_root_def)
qed

lemma flag_strip: "(a AND NOT f) OR (b AND NOT f) = (a OR b) AND NOT (f::int)"
  by (rule bit_eqI) (auto simp: bit_and_iff bit_or_iff)

lemma stripped_gate:
  "describe_compaction_unsupported_flags (reader AND NOT FLAG_BASE_PATHS) (writer AND NOT FLAG_BASE_PATHS) None = None \<longleftrightarrow>
     describe_gc_unsupported_flags reader writer = None"
proof -
  have "((reader OR writer) AND NOT FLAG_BASE_PATHS) AND FLAG_BASE_PATHS = 0" by (simp add: and.assoc)
  moreover have "((reader OR writer) AND NOT FLAG_BASE_PATHS) AND NOT SUPPORTED_FOR_GC = (reader OR writer) AND NOT SUPPORTED_FOR_GC"
    by (simp add: supported_values and.assoc)
  ultimately show ?thesis
    by (simp add: compaction_None describe_gc_unsupported_flags_def flag_strip Let_def)
qed

text \<open>The gate as one equivalence, with the evidence it gathered and the part outside the table.\<close>

lemma compaction_refusal_verdict:
  assumes "manifest_feature_flags (dh_manifest ds) = (reader, writer)"
    and "gather_compaction_bases ds (\<lambda>path. if own loc path then Inr True else root_probe path) gl = (g, gl1)"
    and "outside_the_table ds g loc gl1 = (outer, gl2)"
  shows "fst (compaction_refusal root_probe ds loc gl) = None \<longleftrightarrow>
    describe_gc_unsupported_flags reader writer = None \<and>
    ((reader OR writer) AND FLAG_BASE_PATHS \<noteq> 0 \<longrightarrow> loc \<noteq> [] \<and>
      (if list_ex (\<lambda>b. own loc (be_path b)) (cb_bases g)
       then provably_foreign (Some outer) \<or>
         cb_bases outer = [] \<and> cb_data_resolves_through_a_base outer = Some False
       else provably_foreign (Some g)))"
proof (cases "list_ex (\<lambda>b. own loc (be_path b)) (cb_bases g) \<and> cb_bases outer = [] \<and>
    cb_data_resolves_through_a_base outer = Some False")
  case True
  then show ?thesis
    using assms stripped_gate [of reader writer] by (simp add: compaction_refusal_def) (auto simp: compaction_None provably_foreign_def)
next
  case False
  then show ?thesis
    using assms by (auto simp: compaction_refusal_def compaction_None provably_foreign_def)
qed

lemma gc_None: "describe_gc_unsupported_flags reader writer = None \<longleftrightarrow>
    (reader OR writer) AND NOT (SUPPORTED OR FLAG_BASE_PATHS) = 0"
  by (simp add: describe_gc_unsupported_flags_def SUPPORTED_FOR_GC_def Let_def)

text \<open>
  C29: An admitted compaction copies nothing that belongs elsewhere. When the gate admits a dataset, no
  flag outside the supported ones and base paths is set; and where base paths is set, the table's
  location is known, the bases its data files resolve through were all read and every one lies inside
  the table, and every declared base outside the table is neither declared a dataset root nor one the
  object store found or could not answer for.
\<close>

theorem admitted_compaction_stays_inside_the_table:
  assumes "manifest_feature_flags (dh_manifest ds) = (reader, writer)"
    and "fst (compaction_refusal root_probe ds loc gl) = None"
  shows "(reader OR writer) AND NOT (SUPPORTED OR FLAG_BASE_PATHS) = 0 \<and>
    ((reader OR writer) AND FLAG_BASE_PATHS \<noteq> 0 \<longrightarrow> loc \<noteq> [] \<and>
      (\<exists>paths. data_file_base_paths ds = Inr paths \<and> (\<forall>p\<in>set paths. own loc p)) \<and>
      (\<exists>refs. manifest_base_path_refs ds = Inr refs \<and> no_foreign_root root_probe loc refs))"
proof -
  let ?probe = "\<lambda>path. if own loc path then Inr True else root_probe path"
  obtain g gl1 where g: "gather_compaction_bases ds ?probe gl = (g, gl1)" by force
  obtain outer gl2 where fo: "outside_the_table ds g loc gl1 = (outer, gl2)" by force
  let ?flag = "(reader OR writer) AND FLAG_BASE_PATHS \<noteq> 0"
  let ?owned = "list_ex (\<lambda>b. own loc (be_path b)) (cb_bases g)"
  let ?clean = "cb_bases outer = [] \<and> cb_data_resolves_through_a_base outer = Some False"
  have cases: "describe_gc_unsupported_flags reader writer = None \<and>
      (?flag \<longrightarrow> loc \<noteq> [] \<and> (if ?owned then provably_foreign (Some outer) \<or> ?clean else provably_foreign (Some g)))"
    using assms(2) compaction_refusal_verdict [OF assms(1) g fo] by simp
  have "loc \<noteq> [] \<and> (\<exists>paths. data_file_base_paths ds = Inr paths \<and> (\<forall>p\<in>set paths. own loc p)) \<and>
      (\<exists>refs. manifest_base_path_refs ds = Inr refs \<and> no_foreign_root root_probe loc refs)" if ?flag
  proof -
    have "cb_bases g \<noteq> []" using cases that by (auto simp: provably_foreign_def split: if_splits)
    then obtain refs where refs: "manifest_base_path_refs ds = Inr refs" and ev: "cb_bases g = map (evidence_of ?probe) refs"
      using gather_evidence [of ds ?probe gl] g by (auto split: sum.splits)
    show ?thesis
    proof (cases ?owned)
      case True
      note out = outside_answers [of ds g loc gl1, unfolded fo fst_conv]
      from cases that True have "provably_foreign (Some outer) \<or> ?clean" by simp
      from foreign_evidence_admits [OF this out(1) [unfolded ev] refl] out(2) refs cases that
      show ?thesis by blast
    next
      case False
      then have own: "cb_bases g = filter (\<lambda>b. \<not> own loc (be_path b)) (map (evidence_of ?probe) refs)"
        unfolding ev by (auto simp: list_ex_iff intro!: filter_True [symmetric])
      from cases that False have "provably_foreign (Some g)" by simp
      then have "cb_data_resolves_through_a_base g = Some False \<and> no_foreign_root root_probe loc refs"
        using foreign_evidence_admits [OF _ own refl] by blast
      then show ?thesis
        using gather_resolves_nowhere [of ds ?probe gl] g refs cases that by auto
    qed
  qed
  with cases gc_None show ?thesis by blast
qed

theorem admitted_compaction_stays_inside_the_table_witness:
  "let base = \<lparr>bh_path = ''s3://blobs/media'', bh_is_dataset_root = False, bh_name = None\<rparr>;
       ds = \<lparr>dh_manifest = [72, 16, 80, 16], dh_base_paths = Some (Inr [(0, base)]), dh_fragments = Inr [Inr [None]]\<rparr> in
   fst (compaction_refusal (\<lambda>_. Inr False) ds ''s3://lake/t'' \<lparr>gl_reported = [], gl_warnings = []\<rparr>) = None \<and>
   data_file_base_paths ds = Inr []"
proof -
  let ?base = "\<lparr>bh_path = ''s3://blobs/media'', bh_is_dataset_root = False, bh_name = None\<rparr>"
  let ?ds = "\<lparr>dh_manifest = [72, 16, 80, 16], dh_base_paths = Some (Inr [(0, ?base)]), dh_fragments = Inr [Inr [None]]\<rparr>"
  have flags: "manifest_feature_flags (dh_manifest ?ds) = (16, 16)" by code_simp
  have admitted: "fst (compaction_refusal (\<lambda>_. Inr False) ?ds ''s3://lake/t'' \<lparr>gl_reported = [], gl_warnings = []\<rparr>) = None"
    by code_simp
  have "\<exists>paths. data_file_base_paths ?ds = Inr paths \<and> (\<forall>p\<in>set paths. own ''s3://lake/t'' p)"
    using admitted_compaction_stays_inside_the_table [OF flags admitted] by (simp add: supported_values)
  moreover have "data_file_base_paths ?ds = Inr []" by code_simp
  ultimately show ?thesis using admitted by (simp add: Let_def)
qed

text \<open>
  A branch compacts like its table. Where every declared base of a dataset lies inside its table
  and every data file resolves through such a base, the base-paths flag is not held against it: the
  gate's answer depends on the other flags alone, whatever a probe would have answered.
\<close>

theorem branch_is_judged_without_its_own_bases:
  assumes "manifest_feature_flags (dh_manifest ds) = (reader, writer)" "loc \<noteq> []"
    and "manifest_base_path_refs ds = Inr refs" "refs \<noteq> []" "\<forall>ref\<in>set refs. own loc (bp_path ref)"
    and "data_file_base_paths ds = Inr paths" "\<forall>p\<in>set paths. own loc p"
  shows "fst (compaction_refusal root_probe ds loc gl) = None \<longleftrightarrow>
    (reader OR writer) AND NOT (SUPPORTED OR FLAG_BASE_PATHS) = 0"
proof -
  let ?probe = "\<lambda>path. if own loc path then Inr True else root_probe path"
  obtain g gl1 where g: "gather_compaction_bases ds ?probe gl = (g, gl1)" by force
  obtain outer gl2 where fo: "outside_the_table ds g loc gl1 = (outer, gl2)" by force
  have ev: "cb_bases g = map (evidence_of ?probe) refs"
    using gather_evidence [of ds ?probe gl] g assms(3) by simp
  then have owned: "list_ex (\<lambda>b. own loc (be_path b)) (cb_bases g)"
    using assms(4,5) by (cases refs) (auto simp: evidence_of_def)
  have "cb_bases outer = [] \<and> cb_data_resolves_through_a_base outer = Some False"
    using fo ev assms(5-7) by (auto simp: outside_the_table_def list_ex_iff filter_empty_conv evidence_of_def)
  then show ?thesis
    using compaction_refusal_verdict [OF assms(1) g fo] owned assms(2) gc_None by auto
qed

theorem branch_is_judged_without_its_own_bases_witness:
  "let base = \<lparr>bh_path = ''s3://lake/t'', bh_is_dataset_root = True, bh_name = None\<rparr>;
       ds = \<lparr>dh_manifest = [72, 16, 80, 16], dh_base_paths = Some (Inr [(0, base)]), dh_fragments = Inr [Inr [Some 0]]\<rparr> in
   fst (compaction_refusal (\<lambda>_. Inl ''403 Forbidden'') ds ''s3://lake/t'' \<lparr>gl_reported = [], gl_warnings = []\<rparr>) = None"
proof -
  let ?base = "\<lparr>bh_path = ''s3://lake/t'', bh_is_dataset_root = True, bh_name = None\<rparr>"
  let ?ds = "\<lparr>dh_manifest = [72, 16, 80, 16], dh_base_paths = Some (Inr [(0, ?base)]), dh_fragments = Inr [Inr [Some 0]]\<rparr>"
  have flags: "manifest_feature_flags (dh_manifest ?ds) = (16, 16)" by code_simp
  have refs: "manifest_base_path_refs ?ds = Inr [\<lparr>bp_path = ''s3://lake/t'', bp_is_root = True, bp_name = None\<rparr>]"
    by code_simp
  have paths: "data_file_base_paths ?ds = Inr [''s3://lake/t'']" by code_simp
  have own: "own ''s3://lake/t'' ''s3://lake/t''" by code_simp
  show ?thesis
    using branch_is_judged_without_its_own_bases [OF flags _ refs _ _ paths] own
    by (simp add: Let_def supported_values)
qed

end
