(* ===== verification/Due_Work.thy ===== *)
theory Due_Work
  imports Table_Names Compaction_Gate
begin

text \<open>
  Which tables a bring-your-own job should compact or reindex: \<^verbatim>\<open>lakehouse_kit/maintenance_due.py\<close>, the due
  records and the clone list; \<^verbatim>\<open>maintenance/services/index_health.py\<close> and \<^verbatim>\<open>maintenance/services/due.py\<close>, the
  evaluation that writes or deletes a table's record. The plan of Lance's own compaction, the
  described indices and their statistics are what pylance answers.
\<close>

section \<open>The records\<close>

record compaction_due =
  cd_fragments :: nat
  cd_candidate_fragments :: nat
  cd_tasks :: nat
  cd_target_rows_per_fragment :: "int option"

record index_due =
  id_name :: string
  id_unindexed_rows :: int
  id_deltas :: int
  id_num_indices_to_merge :: "int option"

record due_record =
  du_table :: string
  du_uuid :: string
  du_location :: string
  du_version :: int
  du_compaction :: "compaction_due option"
  du_indices :: "index_due list"
  du_policy :: "string option"
  du_clones :: "string list"
  du_evaluated_at :: int

record clone_list =
  cl_taken_at :: int
  cl_protected :: "string list"
  cl_pinned :: "(string \<times> string list) list"
  cl_referrers :: "(string \<times> string list) list"

definition clones_taken :: "base_refs \<Rightarrow> int \<Rightarrow> clone_list" where
  "clones_taken refs t = \<lparr>cl_taken_at = t, cl_protected = sort (bs_protected refs),
     cl_pinned = map (\<lambda>(root, tags). (root, sort tags)) (bs_pinned refs),
     cl_referrers = map (\<lambda>(root, datasets). (root, sort datasets)) (bs_referrers refs)\<rparr>"

definition clone_refs :: "clone_list \<Rightarrow> base_refs" where
  "clone_refs cl = \<lparr>bs_protected = cl_protected cl, bs_pinned = cl_pinned cl, bs_unreadable = [], bs_findings = [],
     bs_referrers = cl_referrers cl\<rparr>"

definition clones_of :: "clone_list \<Rightarrow> string \<Rightarrow> string list" where
  "clones_of cl location = (case is_protected (clone_refs cl) location of
     None \<Rightarrow> [] | Some root \<Rightarrow> (case map_of (cl_referrers cl) root of None \<Rightarrow> [] | Some ds \<Rightarrow> ds))"

definition due_prefix :: string where
  "due_prefix = ''_maintenance_due''"

definition due_key :: "(string \<Rightarrow> string) \<Rightarrow> string \<Rightarrow> string" where
  "due_key hex uuid = record_key hex due_prefix ''table'' uuid"

definition write_due :: "(string \<Rightarrow> string) \<Rightarrow> due_record \<Rightarrow> due_record world \<Rightarrow> unit result \<times> due_record world" where
  "write_due hex r w = put_record (due_key hex (du_uuid r)) r w"

definition read_due :: "(string \<Rightarrow> string) \<Rightarrow> string \<Rightarrow> due_record world \<Rightarrow> due_record option result \<times> due_record world" where
  "read_due hex uuid w = get_record (due_key hex uuid) w"

definition delete_due :: "root \<Rightarrow> (string \<Rightarrow> string) \<Rightarrow> string \<Rightarrow> due_record world \<Rightarrow> bool result \<times> due_record world" where
  "delete_due rt hex uuid w = delete_record rt (due_key hex uuid) w"

definition list_due :: "due_record world \<Rightarrow> due_record list result \<times> due_record world" where
  "list_due w = (case list_records due_prefix False w of
     (Inl e, w1) \<Rightarrow> (Inl e, w1) | (Inr rs, w1) \<Rightarrow> (Inr (sort_key du_table rs), w1))"

definition is_a_record :: "string \<Rightarrow> bool" where
  "is_a_record name = (prefix ''table-'' name \<and> suffix ''.json'' name)"

definition due_record_name :: "(string \<Rightarrow> string) \<Rightarrow> string \<Rightarrow> string" where
  "due_record_name hex uuid = base_name (due_key hex uuid)"

definition due_record_names :: "due_record world \<Rightarrow> string list result \<times> due_record world" where
  "due_record_names w = (case list_under due_prefix w of
     (Inl e, w1) \<Rightarrow> (Inl e, w1) | (Inr keys, w1) \<Rightarrow> (Inr (remdups (filter is_a_record (map base_name keys))), w1))"

definition read_due_named :: "string \<Rightarrow> due_record world \<Rightarrow> due_record option result \<times> due_record world" where
  "read_due_named name w = get_record (due_prefix @ ''/'' @ name) w"

section \<open>Index health\<close>

definition default_max_deltas :: int where
  "default_max_deltas = 4"

record index_description =
  ix_name :: string
  ix_type :: string

record index_stats =
  ixs_num_unindexed_rows :: "int option"
  ixs_num_indices :: "int option"

record indexed_dataset =
  xd_indices :: "index_description list option"
  xd_stats :: "string \<Rightarrow> index_stats option"

definition readable_stats :: "indexed_dataset \<Rightarrow> index_description \<Rightarrow> (string \<times> index_stats) option" where
  "readable_stats xd ix = (let name = ix_name ix in
     if name = [] \<or> prefix ''__'' name then None
     else if map lower_char (strip (ix_type ix)) = ''json'' then None
     else map_option (\<lambda>st. (name, st)) (xd_stats xd name))"

definition or_zero :: "int option \<Rightarrow> int" where
  "or_zero v = (case v of None \<Rightarrow> 0 | Some n \<Rightarrow> n)"

text \<open>One index's due entry; the model's \<^verbatim>\<open>ge=0\<close> refuses a negative count.\<close>

definition index_due_of :: "int \<Rightarrow> string \<times> index_stats \<Rightarrow> index_due option result" where
  "index_due_of max_deltas = (\<lambda>(name, st).
     let unindexed = or_zero (ixs_num_unindexed_rows st); deltas = or_zero (ixs_num_indices st) in
     if unindexed > 0 \<or> deltas > max_deltas then
       (if unindexed < 0 \<or> deltas < 0 then Inl ValueError
        else Inr (Some \<lparr>id_name = name, id_unindexed_rows = unindexed, id_deltas = deltas,
          id_num_indices_to_merge = (if deltas > max_deltas then Some deltas else None)\<rparr>))
     else Inr None)"

definition due_indices :: "int \<Rightarrow> indexed_dataset \<Rightarrow> index_due list result" where
  "due_indices max_deltas xd = (case xd_indices xd of
       None \<Rightarrow> Inr []
     | Some described \<Rightarrow> map_sum id (List.map_filter id)
         (each (index_due_of max_deltas) (List.map_filter (readable_stats xd) described)))"

section \<open>The evaluation\<close>

record due_question =
  dq_table :: string
  dq_uuid :: string
  dq_location :: string
  dq_policy :: "string option"
  dq_compact_enabled :: bool
  dq_optimize_indices_enabled :: bool
  dq_target_rows_per_fragment :: "int option"
  dq_clones :: "string list"

definition due_question_of :: "(json \<Rightarrow> string) \<Rightarrow> dataset_plan \<Rightarrow> string \<Rightarrow> string \<Rightarrow> string \<Rightarrow> string list \<Rightarrow> due_question" where
  "due_question_of repr plan table uuid location clones = \<lparr>dq_table = table, dq_uuid = uuid, dq_location = location,
     dq_policy = winner repr plan table, dq_compact_enabled = dp_compact_enabled plan,
     dq_optimize_indices_enabled = dp_optimize_indices_enabled plan,
     dq_target_rows_per_fragment = dp_target_rows_per_fragment plan, dq_clones = clones\<rparr>"

text \<open>
  What the opened dataset answers: the handle the compaction gate reads, the fragments each task of
  \<^verbatim>\<open>Compaction.plan\<close> would rewrite, its indices, its fragments and its version. \<open>dd_log\<close> is what the process
  has logged of the gate before; no verdict depends on it.
\<close>

record due_dataset =
  dd_handle :: dataset_handle
  dd_root_probe :: "string \<Rightarrow> string + bool"
  dd_log :: gate_log
  dd_plan :: "int option \<Rightarrow> nat list result"
  dd_indexed :: indexed_dataset
  dd_fragments :: nat
  dd_version :: int

text \<open>\<^verbatim>\<open>compaction_due\<close>: a target of zero is no target.\<close>

definition compaction_due_of :: "due_dataset \<Rightarrow> due_question \<Rightarrow> compaction_due option result" where
  "compaction_due_of ds q =
     (if \<not> dq_compact_enabled q then Inr None
      else if fst (compaction_refusal (dd_root_probe ds) (dd_handle ds) (dq_location q) (dd_log ds)) \<noteq> None then Inr None
      else (case dd_plan ds (case dq_target_rows_per_fragment q of Some n \<Rightarrow> if n = 0 then None else Some n | None \<Rightarrow> None) of
          Inl e \<Rightarrow> Inl e
        | Inr tasks \<Rightarrow>
           (if tasks = [] then Inr None
            else if sum_list tasks = 0 then Inl ValueError
            else Inr (Some \<lparr>cd_fragments = dd_fragments ds, cd_candidate_fragments = sum_list tasks,
              cd_tasks = length tasks, cd_target_rows_per_fragment = dq_target_rows_per_fragment q\<rparr>))))"

definition evaluate_due :: "(string \<Rightarrow> due_dataset result) \<Rightarrow> due_question \<Rightarrow> int \<Rightarrow> due_record option result" where
  "evaluate_due open_at q t = (case open_at (dq_location q) of Inl e \<Rightarrow> Inl e
     | Inr ds \<Rightarrow> (case compaction_due_of ds q of Inl e \<Rightarrow> Inl e
       | Inr compaction \<Rightarrow>
          (case (if dq_optimize_indices_enabled q then due_indices default_max_deltas (dd_indexed ds) else Inr []) of
             Inl e \<Rightarrow> Inl e
           | Inr indices \<Rightarrow>
              (if compaction = None \<and> indices = [] then Inr None
               else if dd_version ds < 1 then Inl ValueError
               else Inr (Some \<lparr>du_table = dq_table q, du_uuid = dq_uuid q, du_location = dq_location q, du_version = dd_version ds,
                 du_compaction = compaction, du_indices = indices, du_policy = dq_policy q, du_clones = dq_clones q,
                 du_evaluated_at = t\<rparr>)))))"

definition refresh_due ::
    "root \<Rightarrow> (string \<Rightarrow> string) \<Rightarrow> (string \<Rightarrow> due_dataset result) \<Rightarrow> due_question \<Rightarrow> int \<Rightarrow> due_record world
      \<Rightarrow> due_verdict \<times> due_record world" where
  "refresh_due rt hex open_at q t w = (case evaluate_due open_at q t of
       Inl _ \<Rightarrow> (Is_failed, w)
     | Inr None \<Rightarrow> (case delete_due rt hex (dq_uuid q) w of (Inl _, w1) \<Rightarrow> (Is_failed, w1) | (Inr _, w1) \<Rightarrow> (Is_clear, w1))
     | Inr (Some r) \<Rightarrow> (case write_due hex r w of (Inl _, w1) \<Rightarrow> (Is_failed, w1) | (Inr _, w1) \<Rightarrow> (Is_due, w1)))"

section \<open>What a due record says\<close>

text \<open>What makes a table due, over what its dataset answers.\<close>

definition compaction_needed :: "due_dataset \<Rightarrow> due_question \<Rightarrow> nat list \<Rightarrow> bool" where
  "compaction_needed ds q tasks \<longleftrightarrow> dq_compact_enabled q \<and> tasks \<noteq> [] \<and>
     fst (compaction_refusal (dd_root_probe ds) (dd_handle ds) (dq_location q) (dd_log ds)) = None"

definition index_needed :: "due_dataset \<Rightarrow> due_question \<Rightarrow> index_description \<Rightarrow> bool" where
  "index_needed ds q ix \<longleftrightarrow> dq_optimize_indices_enabled q \<and>
     (\<exists>described st. xd_indices (dd_indexed ds) = Some described \<and> ix \<in> set described \<and>
        ix_name ix \<noteq> [] \<and> \<not> prefix ''__'' (ix_name ix) \<and> map lower_char (strip (ix_type ix)) \<noteq> ''json'' \<and>
        xd_stats (dd_indexed ds) (ix_name ix) = Some st \<and>
        (or_zero (ixs_num_unindexed_rows st) > 0 \<or> or_zero (ixs_num_indices st) > default_max_deltas))"

lemma each_map_filter_Nil:
  "each f xs = Inr ys \<Longrightarrow> List.map_filter id ys = [] \<longleftrightarrow> (\<forall>x\<in>set xs. f x = Inr None)"
proof (induction f xs arbitrary: ys rule: each.induct)
  case (2 f x xs)
  then show ?case
    by (cases "f x"; cases "each f xs") (auto simp: map_filter_def split: option.splits if_splits)
qed (simp add: map_filter_def)

lemma index_due_of_None [simp]:
  "index_due_of m (name, st) = Inr None \<longleftrightarrow>
   or_zero (ixs_num_unindexed_rows st) \<le> 0 \<and> or_zero (ixs_num_indices st) \<le> m"
  by (auto simp: index_due_of_def Let_def)

lemma readable_stats_Some [simp]:
  "readable_stats xd ix = Some (name, st) \<longleftrightarrow> name = ix_name ix \<and> ix_name ix \<noteq> [] \<and> \<not> prefix ''__'' (ix_name ix) \<and>
     map lower_char (strip (ix_type ix)) \<noteq> ''json'' \<and> xd_stats xd (ix_name ix) = Some st"
  by (auto simp: readable_stats_def Let_def)

lemma due_indices_Nil:
  assumes "due_indices default_max_deltas (dd_indexed ds) = Inr indices" "dq_optimize_indices_enabled q"
  shows "indices = [] \<longleftrightarrow> (\<forall>ix. \<not> index_needed ds q ix)"
proof (cases "xd_indices (dd_indexed ds)")
  case None
  then show ?thesis using assms by (auto simp: due_indices_def index_needed_def)
next
  case (Some described)
  let ?f = "index_due_of default_max_deltas" and ?xs = "List.map_filter (readable_stats (dd_indexed ds)) described"
  obtain ys where ys: "each ?f ?xs = Inr ys" "indices = List.map_filter id ys"
    using assms(1) Some by (cases "each ?f ?xs") (auto simp: due_indices_def)
  have "indices = [] \<longleftrightarrow> (\<forall>x\<in>set ?xs. ?f x = Inr None)"
    unfolding ys(2) by (rule each_map_filter_Nil [OF ys(1)])
  also have "\<dots> \<longleftrightarrow> (\<forall>ix. \<not> index_needed ds q ix)"
    using assms(2) Some by (fastforce simp: in_map_filter index_needed_def Ball_def not_less)
  finally show ?thesis .
qed

definition due_needed :: "due_dataset \<Rightarrow> due_question \<Rightarrow> nat list \<Rightarrow> bool" where
  "due_needed ds q tasks \<longleftrightarrow> compaction_needed ds q tasks \<or> (\<exists>ix. index_needed ds q ix)"

definition plan_target :: "due_question \<Rightarrow> int option" where
  "plan_target q = (case dq_target_rows_per_fragment q of Some n \<Rightarrow> if n = 0 then None else Some n | None \<Rightarrow> None)"

definition answers_well :: "due_dataset \<Rightarrow> due_question \<Rightarrow> nat list \<Rightarrow> bool" where
  "answers_well ds q tasks \<longleftrightarrow> dd_plan ds (plan_target q) = Inr tasks \<and> (tasks = [] \<or> sum_list tasks \<noteq> 0) \<and>
     \<not> isl (due_indices default_max_deltas (dd_indexed ds)) \<and> 1 \<le> dd_version ds"

lemma evaluate_due_needed:
  assumes "open_at (dq_location q) = Inr ds" "answers_well ds q tasks"
  shows "\<exists>r. evaluate_due open_at q t = Inr r \<and>
    (case r of None \<Rightarrow> \<not> due_needed ds q tasks
     | Some r \<Rightarrow> due_needed ds q tasks \<and> du_uuid r = dq_uuid q \<and> du_location r = dq_location q \<and>
         du_version r = dd_version ds \<and> du_clones r = dq_clones q)"
proof -
  from assms(2) obtain indices where ix: "due_indices default_max_deltas (dd_indexed ds) = Inr indices"
    by (cases "due_indices default_max_deltas (dd_indexed ds)") (auto simp: answers_well_def)
  have c: "\<exists>c. compaction_due_of ds q = Inr c \<and> (c = None \<longleftrightarrow> \<not> compaction_needed ds q tasks)"
    using assms(2) by (auto simp: compaction_due_of_def compaction_needed_def answers_well_def plan_target_def)
  have i: "(if dq_optimize_indices_enabled q then indices else []) = [] \<longleftrightarrow> (\<forall>ix. \<not> index_needed ds q ix)"
    using due_indices_Nil [OF ix, of q] by (auto simp: index_needed_def)
  from c obtain c where "compaction_due_of ds q = Inr c" "c = None \<longleftrightarrow> \<not> compaction_needed ds q tasks" by blast
  with i ix assms show ?thesis
    by (cases "dq_optimize_indices_enabled q") (auto simp: evaluate_due_def due_needed_def answers_well_def)
qed

text \<open>
  C27: a table has a due record exactly when it is due. On a store and a dataset that answer, one
  evaluation leaves the table's record in place, at the version it was measured at, if its policy and
  layout admit a compaction Lance's planner has a task for, or an index has rows it does not cover
  or more deltas than tolerated; and else leaves none. No other record changes.
\<close>

theorem due_record_mirrors_need:
  assumes "pending w = []" "open_at (dq_location q) = Inr ds" "answers_well ds q tasks"
    "refresh_due rt hex open_at q t w = (verdict, w')"
  shows "verdict = (if due_needed ds q tasks then Is_due else Is_clear) \<and>
    (case lookup w' (due_key hex (dq_uuid q)) of
       None \<Rightarrow> \<not> due_needed ds q tasks
     | Some c \<Rightarrow> due_needed ds q tasks \<and> (\<exists>r. c = Json r \<and> du_uuid r = dq_uuid q \<and> du_location r = dq_location q \<and>
         du_version r = dd_version ds \<and> du_clones r = dq_clones q)) \<and>
    (\<forall>k. k \<noteq> due_key hex (dq_uuid q) \<longrightarrow> lookup w' k = lookup w k)"
proof -
  obtain r where r: "evaluate_due open_at q t = Inr r"
    "case r of None \<Rightarrow> \<not> due_needed ds q tasks
     | Some r \<Rightarrow> due_needed ds q tasks \<and> du_uuid r = dq_uuid q \<and> du_location r = dq_location q \<and>
         du_version r = dd_version ds \<and> du_clones r = dq_clones q"
    using evaluate_due_needed [where open_at = open_at and q = q and ds = ds and t = t, OF assms(2,3)] by blast
  show ?thesis
  proof (cases r)
    case None
    obtain b w1 where "delete_record rt (due_key hex (dq_uuid q)) w = (Inr b, w1)"
      "\<And>k. lookup w1 k = (if k = due_key hex (dq_uuid q) then None else lookup w k)"
      using quiet_endsE [OF delete_record_ends assms(1)] by blast
    with r None assms(4) show ?thesis
      by (auto simp: refresh_due_def delete_due_def)
  next
    case (Some r')
    with r assms(1,4) show ?thesis
      by (auto simp: refresh_due_def write_due_def put_record_def)
  qed
qed

definition idle_dataset :: "nat list \<Rightarrow> due_dataset" where
  "idle_dataset tasks = \<lparr>dd_handle = \<lparr>dh_manifest = [], dh_base_paths = None, dh_fragments = Inr []\<rparr>,
     dd_root_probe = (\<lambda>_. Inr False), dd_log = \<lparr>gl_reported = [], gl_warnings = []\<rparr>, dd_plan = (\<lambda>_. Inr tasks),
     dd_indexed = \<lparr>xd_indices = Some [], xd_stats = (\<lambda>_. None)\<rparr>, dd_fragments = 5, dd_version = 7\<rparr>"

definition small_question :: due_question where
  "small_question = \<lparr>dq_table = ''ns$t'', dq_uuid = ''u'', dq_location = ''s3://b/t'', dq_policy = None, dq_compact_enabled = True,
     dq_optimize_indices_enabled = True, dq_target_rows_per_fragment = None, dq_clones = []\<rparr>"

theorem due_record_mirrors_need_witness:
  "lookup (snd (refresh_due S3 id (\<lambda>_. Inr (idle_dataset [2, 3])) small_question 9 \<lparr>objects = [], clock = 0, pending = []\<rparr>))
     (due_key id ''u'') \<noteq> None"
proof -
  have "answers_well (idle_dataset [2, 3]) small_question [2, 3]"
    by (simp add: answers_well_def idle_dataset_def due_indices_def map_filter_def)
  moreover have "compaction_needed (idle_dataset [2, 3]) small_question [2, 3]"
    by code_simp
  moreover have "dq_uuid small_question = ''u''"
    by (simp add: small_question_def)
  ultimately show ?thesis
    using due_record_mirrors_need [of "\<lparr>objects = [], clock = 0, pending = []\<rparr>" "\<lambda>_. Inr (idle_dataset [2, 3])" small_question
        "idle_dataset [2, 3]" "[2, 3]" S3 id 9, OF _ _ _ surjective_pairing]
    by (simp add: due_needed_def split: option.splits)
qed

section \<open>The clone list\<close>

lemma sort_sort [simp]: "sort (sort xs) = sort (xs :: 'a :: linorder list)"
  by (simp add: sorted_sort_id)

lemma map_of_map_snd: "map_of (map (\<lambda>(k, v). (k, f v)) kv) k = map_option f (map_of kv k)"
  by (induction kv) auto

lemma clones_taken_roots: "roots_of (clone_refs (clones_taken refs t)) = roots_of refs"
  by (simp add: roots_of_def clone_refs_def clones_taken_def comp_def split_beta)

text \<open>
  the commit judge decides as the pre-pass would. A compaction or any other rewrite judged
  against the clone list a sweep wrote is refused exactly where the references the sweep took refuse
  it, and the clones a due record carries are those references' referrers of the root that protects it.
\<close>

theorem clone_list_judges_as_the_pre_pass:
  "rewrite_refusal (clone_refs (clones_taken refs t)) location tags = rewrite_refusal refs location tags \<and>
   set (clones_of (clones_taken refs t) location) =
     (case is_protected refs location of None \<Rightarrow> {}
      | Some root \<Rightarrow> set (case map_of (bs_referrers refs) root of None \<Rightarrow> [] | Some ds \<Rightarrow> ds))"
proof
  have p: "is_protected (clone_refs (clones_taken refs t)) location = is_protected refs location"
    by (simp add: is_protected_def clones_taken_roots)
  have pins: "pin_tags (clone_refs (clones_taken refs t)) root = map_option sort (pin_tags refs root)" for root
    by (simp add: pin_tags_def clone_refs_def clones_taken_def map_of_map_snd)
  have referrers: "map_of (cl_referrers (clones_taken refs t)) root = map_option sort (map_of (bs_referrers refs) root)" for root
    by (simp add: clones_taken_def map_of_map_snd)
  have "sort xs = [] \<longleftrightarrow> xs = []" for xs :: "string list"
    by (metis set_empty set_sort)
  then show "rewrite_refusal (clone_refs (clones_taken refs t)) location tags = rewrite_refusal refs location tags"
    by (simp add: rewrite_refusal_def p pins Let_def option.case_eq_if option.map_sel split: option.split)
  show "set (clones_of (clones_taken refs t) location) =
     (case is_protected refs location of None \<Rightarrow> {}
      | Some root \<Rightarrow> set (case map_of (bs_referrers refs) root of None \<Rightarrow> [] | Some ds \<Rightarrow> ds))"
    by (simp add: clones_of_def p referrers option.case_eq_if option.map_sel)
qed

end
