(* ===== verification/Vending.thy ===== *)
theory Vending
  imports Trash Locations
begin

text \<open>
  The credential a maintenance pass is signed with: \<^verbatim>\<open>service_kit/storage_options.py\<close>, the key pair and the other
  options of a store, and \<^verbatim>\<open>maintenance/services/credentials.py\<close>, what the catalog's vending door answers
  and which answers stop the dataset. The answer of the door, or that it could not be reached, is an
  argument; so is the pod's identity token.
\<close>

section \<open>Storage options\<close>

record key_pair =
  kp_access_key_id :: string
  kp_secret_access_key :: string
  kp_session_token :: "string option"

type_synonym flat_options = "(string \<times> string) list"

record storage_options =
  so_key_pair :: "key_pair option"
  so_options :: flat_options

definition credential_aliases :: "(string \<times> string) list" where
  "credential_aliases = [(''aws_access_key_id'', ''access_key_id''),
     (''aws_secret_access_key'', ''secret_access_key''), (''aws_session_token'', ''session_token'')]"

definition credential_keys :: "string list" where
  "credential_keys = concat (map (\<lambda>(a, b). [a, b]) credential_aliases)"

text \<open>\<^verbatim>\<open>_one_field\<close>: the non-empty values under the two spellings, as a set.\<close>

definition one_field :: "flat_options \<Rightarrow> string \<times> string \<Rightarrow> string option result" where
  "one_field flat aliases = (let values = remdups (List.map_filter (\<lambda>k. case map_of flat k of
       None \<Rightarrow> None | Some v \<Rightarrow> if v = [] then None else Some v) [fst aliases, snd aliases]) in
     if length values > 1 then Inl ValueError else Inr (case values of [] \<Rightarrow> None | v # _ \<Rightarrow> Some v))"

definition split_flat :: "flat_options \<Rightarrow> (key_pair option \<times> flat_options) result" where
  "split_flat flat = (case each (one_field flat) credential_aliases of
       Inl e \<Rightarrow> Inl e
     | Inr found \<Rightarrow>
        (let access = found ! 0; secret = found ! 1; token = found ! 2;
             options = filter (\<lambda>(k, _). k \<notin> set credential_keys) flat in
         if access = None \<and> secret = None \<and> token = None then Inr (None, options)
         else (case (access, secret) of
             (Some a, Some s) \<Rightarrow> Inr (Some \<lparr>kp_access_key_id = a, kp_secret_access_key = s, kp_session_token = token\<rparr>, options)
           | _ \<Rightarrow> Inl ValueError)))"

definition from_flat :: "flat_options \<Rightarrow> storage_options result" where
  "from_flat flat = map_sum id (\<lambda>(pair, options). \<lparr>so_key_pair = pair, so_options = options\<rparr>) (split_flat flat)"

definition with_options :: "flat_options \<Rightarrow> storage_options \<Rightarrow> storage_options" where
  "with_options extra so = so\<lparr>so_options := fold (\<lambda>(k, v). AList.update k v) extra (so_options so)\<rparr>"

definition in_clear :: "storage_options \<Rightarrow> flat_options" where
  "in_clear so = (case so_key_pair so of
       None \<Rightarrow> so_options so
     | Some pair \<Rightarrow>
        fold (\<lambda>(k, v). AList.update k v)
          ([(''aws_access_key_id'', kp_access_key_id pair), (''aws_secret_access_key'', kp_secret_access_key pair)] @
           (case kp_session_token pair of Some t \<Rightarrow> if t = [] then [] else [(''aws_session_token'', t)] | None \<Rightarrow> []))
          (so_options so))"

text \<open>
  \<^verbatim>\<open>endpoint_scheme\<close>: \<^verbatim>\<open>urlsplit\<close> drops leading controls and blanks and every tab and line break, and takes
  what stands before the first colon when it is a letter followed by letters, digits, \<^verbatim>\<open>+\<close>, \<^verbatim>\<open>-\<close> and \<^verbatim>\<open>.\<close>.
\<close>

definition scheme_char :: "char \<Rightarrow> bool" where
  "scheme_char c = (is_letter c \<or> is_digit c \<or> c \<in> set ''+-.'')"

definition endpoint_scheme :: "string \<Rightarrow> string" where
  "endpoint_scheme endpoint = (if endpoint = [] then ''https''
     else (let url = filter (\<lambda>c. c \<notin> set [CHR 0x09, CHR 0x0A, CHR 0x0D]) (dropWhile (\<lambda>c. of_char c \<le> (32::nat)) endpoint);
               scheme = takeWhile (\<lambda>c. c \<noteq> CHR '':'') url in
           if scheme \<noteq> url \<and> scheme \<noteq> [] \<and> is_letter (hd scheme) \<and> list_all scheme_char scheme
           then map lower_char scheme else []))"

definition allow_http_for :: "string \<Rightarrow> string" where
  "allow_http_for endpoint = (if endpoint_scheme endpoint = ''http'' then ''true'' else ''false'')"

section \<open>The vending door\<close>

record response =
  rs_status :: int
  rs_json :: "json option"

datatype reply = Unreachable | Answered response

text \<open>\<^verbatim>\<open>_problem\<close>, \<^verbatim>\<open>table_not_governed\<close> and \<^verbatim>\<open>table_in_invalid_state\<close>; the codes are the specification's.\<close>

definition problem_code :: "response \<Rightarrow> int option" where
  "problem_code r = (case rs_json r of Some (JObj answer) \<Rightarrow> as_int (dict_get answer ''code'') | _ \<Rightarrow> None)"

definition absent_codes :: "int list" where
  "absent_codes = [1, 4]"

definition invalid_table_state :: int where
  "invalid_table_state = 19"

definition table_not_governed :: "response \<Rightarrow> bool" where
  "table_not_governed r = (rs_status r = 404 \<and>
     (case problem_code r of None \<Rightarrow> False | Some code \<Rightarrow> code \<in> set absent_codes))"

definition table_in_invalid_state :: "response \<Rightarrow> bool" where
  "table_in_invalid_state r = (rs_status r = 409 \<and> problem_code r = Some invalid_table_state)"

record vended =
  vd_storage_options :: storage_options
  vd_location :: "string option"

text \<open>
  The body of an answer below 400: \<^verbatim>\<open>.get\<close> of a JSON value that is no object is an \<^verbatim>\<open>AttributeError\<close>.
\<close>

definition read_vended :: "(json \<Rightarrow> string) \<Rightarrow> json \<Rightarrow> vended option result" where
  "read_vended repr payload = (case payload of
       JObj answer \<Rightarrow>
        (if dict_get answer ''mode'' \<noteq> Some (JStr ''direct'') then Inr None
         else (case (if truthy (dict_get answer ''credentials'') then the (dict_get answer ''credentials'') else JObj []) of
             JObj creds \<Rightarrow> (case dict_get creds ''storage_options'' of
                 Some (JObj options) \<Rightarrow> (case from_flat (map (\<lambda>(k, v). (k, py_str repr v)) options) of
                     Inl _ \<Rightarrow> Inr None
                   | Inr so \<Rightarrow> Inr (Some \<lparr>vd_storage_options = so,
                       vd_location = (if truthy (dict_get answer ''location'')
                         then Some (py_str repr (the (dict_get answer ''location''))) else None)\<rparr>))
               | _ \<Rightarrow> Inr None)
           | _ \<Rightarrow> Inl AttributeError))
     | _ \<Rightarrow> Inl AttributeError)"

definition vend :: "(json \<Rightarrow> string) \<Rightarrow> string option \<Rightarrow> reply \<Rightarrow> vended option result" where
  "vend repr token door = (case token of
       None \<Rightarrow> Inl MaintenanceUnauthenticated
     | Some _ \<Rightarrow> (case door of
         Unreachable \<Rightarrow> Inr None
       | Answered r \<Rightarrow>
          (if rs_status r = 401 then Inl MaintenanceUnauthenticated
           else if rs_status r = 403 then Inl MaintenanceDenied
           else if table_not_governed r then Inl TableNotGoverned
           else if table_in_invalid_state r then Inl MaintenanceDenied
           else if 500 \<le> rs_status r then Inl VendUndecided
           else if 400 \<le> rs_status r then Inr None
           else (case rs_json r of None \<Rightarrow> Inr None | Some payload \<Rightarrow> read_vended repr payload))))"

text \<open>\<^verbatim>\<open>_refuse_a_credential_that_does_not_cover\<close> and \<^verbatim>\<open>_at_own_store\<close>.\<close>

definition covers_dataset :: "string \<Rightarrow> string option \<Rightarrow> bool" where
  "covers_dataset uri location = (case location of
       None \<Rightarrow> True
     | Some l \<Rightarrow> normalise uri = decoded_path l \<or> prefix (decoded_path l @ ''/'') (normalise uri))"

definition at_own_store :: "string \<Rightarrow> storage_options \<Rightarrow> storage_options" where
  "at_own_store endpoint so =
     (if map_of (so_options so) ''endpoint'' = None then so
      else with_options [(''endpoint'', endpoint), (''allow_http'', allow_http_for endpoint)] so)"

datatype tier = Ambient | Scoped

record vend_settings =
  vs_catalog_url :: string
  vs_s3_endpoint :: string
  vs_token :: "string option"

text \<open>\<^verbatim>\<open>write_options_for\<close>: the tier it counts, and the options the pass is signed with.\<close>

definition write_options_for ::
    "(json \<Rightarrow> string) \<Rightarrow> vend_settings \<Rightarrow> reply \<Rightarrow> storage_options \<Rightarrow> string \<Rightarrow> (tier option \<times> storage_options) result" where
  "write_options_for repr st door fallback uri =
     (if vs_catalog_url st = [] then Inr (None, fallback)
      else (case vend repr (vs_token st) door of
          Inl e \<Rightarrow> Inl e
        | Inr None \<Rightarrow> Inr (Some Ambient, fallback)
        | Inr (Some v) \<Rightarrow>
           (if covers_dataset uri (vd_location v)
            then Inr (Some Scoped, at_own_store (vs_s3_endpoint st) (vd_storage_options v))
            else Inl GovernedElsewhere)))"

section \<open>Options and their flat map\<close>

definition well_formed_options :: "storage_options \<Rightarrow> bool" where
  "well_formed_options so \<longleftrightarrow> (\<forall>k\<in>set credential_keys. k \<notin> fst ` set (so_options so)) \<and>
     (case so_key_pair so of None \<Rightarrow> True
      | Some p \<Rightarrow> kp_access_key_id p \<noteq> [] \<and> kp_secret_access_key p \<noteq> [] \<and> kp_session_token p \<noteq> Some [])"

definition credential_options :: "key_pair \<Rightarrow> flat_options" where
  "credential_options pair = [(''aws_access_key_id'', kp_access_key_id pair), (''aws_secret_access_key'', kp_secret_access_key pair)] @
     (case kp_session_token pair of None \<Rightarrow> [] | Some t \<Rightarrow> if t = [] then [] else [(''aws_session_token'', t)])"

lemma well_formed_fresh:
  "well_formed_options so \<Longrightarrow> k \<in> set credential_keys \<Longrightarrow> map_of (so_options so) k = None \<and> k \<notin> fst ` set (so_options so)"
  by (auto simp: well_formed_options_def map_of_eq_None_iff)

lemma well_formed_filter:
  "well_formed_options so \<Longrightarrow> filter (\<lambda>(k, _). k \<notin> set credential_keys) (so_options so) = so_options so"
  by (auto simp: well_formed_options_def filter_id_conv)

lemma in_clear_appends:
  assumes "well_formed_options so" "so_key_pair so = Some pair"
  shows "in_clear so = so_options so @ credential_options pair"
proof -
  have "k \<notin> fst ` set (so_options so)" if "k \<in> {''aws_access_key_id'', ''aws_secret_access_key'', ''aws_session_token''}" for k
    using well_formed_fresh [OF assms(1), of k] that by (auto simp: credential_keys_def credential_aliases_def)
  then show ?thesis
    using assms(2) by (auto simp: in_clear_def credential_options_def update_fresh image_Un split: option.splits)
qed

lemma one_field_past_options:
  assumes "well_formed_options so" "al \<in> set credential_aliases"
  shows "one_field (so_options so @ creds) al = one_field creds al"
proof -
  have "fst al \<in> set credential_keys" "snd al \<in> set credential_keys"
    unfolding credential_keys_def by (cases al, auto intro!: bexI [OF _ assms(2)])+
  then have "map_of (so_options so) (fst al) = None" "map_of (so_options so) (snd al) = None"
    using well_formed_fresh [OF assms(1)] by blast+
  then have "map_of (so_options so @ creds) k = map_of creds k" if "k = fst al \<or> k = snd al" for k
    using that by (auto simp: map_add_def split: option.splits)
  then show ?thesis
    by (simp add: one_field_def map_filter_def del: map_of_append)
qed

lemma each_cong: "(\<And>x. x \<in> set xs \<Longrightarrow> f x = g x) \<Longrightarrow> each f xs = each g xs"
  by (induction xs) (auto split: sum.splits)

lemma split_past_options:
  assumes "well_formed_options so"
  shows "each (one_field (so_options so @ creds)) credential_aliases = each (one_field creds) credential_aliases"
  by (intro each_cong one_field_past_options [OF assms])

lemma credential_options_split:
  assumes "kp_access_key_id pair \<noteq> []" "kp_secret_access_key pair \<noteq> []" "kp_session_token pair \<noteq> Some []"
  shows "each (one_field (credential_options pair)) credential_aliases =
    Inr [Some (kp_access_key_id pair), Some (kp_secret_access_key pair), kp_session_token pair]"
  using assms by (cases "kp_session_token pair")
    (simp_all add: credential_aliases_def one_field_def credential_options_def map_filter_def)

lemma credential_options_are_credentials:
  "filter (\<lambda>(k, _). k \<notin> set credential_keys) (credential_options pair) = []"
  by (simp add: credential_options_def credential_keys_def credential_aliases_def split: option.splits)

text \<open>
  options survive their flat map. The map that Lance is handed, read back, gives the same
  key pair and the same other options: nothing of the credential is lost, joined with another's or left
  among the options.
\<close>

theorem flat_options_round_trip:
  assumes "well_formed_options so"
  shows "from_flat (in_clear so) = Inr so"
proof (cases "so_key_pair so")
  case None
  have "each (one_field (so_options so)) credential_aliases = Inr [None, None, None]"
    using split_past_options [OF assms, of "[]"] by (simp add: credential_aliases_def one_field_def map_filter_def)
  with None well_formed_filter [OF assms] show ?thesis
    by (cases so) (simp add: in_clear_def from_flat_def split_flat_def)
next
  case (Some pair)
  with assms have "kp_access_key_id pair \<noteq> []" "kp_secret_access_key pair \<noteq> []" "kp_session_token pair \<noteq> Some []"
    by (auto simp: well_formed_options_def)
  note split = credential_options_split [OF this]
  have "from_flat (so_options so @ credential_options pair) = Inr \<lparr>so_key_pair = Some pair, so_options = so_options so\<rparr>"
    using well_formed_filter [OF assms]
    by (simp add: from_flat_def split_flat_def split_past_options [OF assms] split credential_options_are_credentials)
  with Some show ?thesis
    by (simp add: in_clear_appends [OF assms Some])
qed

definition vended_pair :: storage_options where
  "vended_pair = \<lparr>so_key_pair = Some \<lparr>kp_access_key_id = ''AK'', kp_secret_access_key = ''SK'', kp_session_token = Some ''T''\<rparr>,
     so_options = [(''endpoint'', ''http://store''), (''region'', ''eu'')]\<rparr>"

theorem flat_options_round_trip_witness: "from_flat (in_clear vended_pair) = Inr vended_pair"
  by (rule flat_options_round_trip) code_simp

section \<open>Which answers sign a pass\<close>

text \<open>An answer of the door, as against none.\<close>

definition refuses :: "response \<Rightarrow> bool" where
  "refuses r \<longleftrightarrow> rs_status r = 401 \<or> rs_status r = 403 \<or> table_not_governed r \<or> table_in_invalid_state r \<or> 500 \<le> rs_status r"

text \<open>
  C26: a refusal of the vending door is never signed around. Where the catalog has a door,
  a pass gets options only if the pod could present its token and the door either was not reached or gave
  an answer that is no refusal: not 401, 403 or a failure to decide, not the absence of the table, not the
  state that refuses it. Options counted as scoped are the ones the door vended for a location that covers
  the dataset, and any others are the fallback.
\<close>

theorem refused_vend_signs_nothing:
  assumes "vs_catalog_url st \<noteq> []" "write_options_for repr st door fallback uri = Inr (t, options)"
  shows "vs_token st \<noteq> None \<and> (\<forall>r. door = Answered r \<longrightarrow> \<not> refuses r) \<and>
    (if t = Some Scoped
     then \<exists>v. vend repr (vs_token st) door = Inr (Some v) \<and> covers_dataset uri (vd_location v) \<and>
       options = at_own_store (vs_s3_endpoint st) (vd_storage_options v)
     else t = Some Ambient \<and> options = fallback)"
  using assms
  by (auto simp: write_options_for_def vend_def refuses_def split: option.splits sum.splits if_splits reply.splits)

definition vending :: vend_settings where
  "vending = \<lparr>vs_catalog_url = ''http://catalog'', vs_s3_endpoint = ''http://store'', vs_token = Some ''jwt''\<rparr>"

definition vend_answer :: "(string \<times> json) list \<Rightarrow> string \<Rightarrow> reply" where
  "vend_answer options location = Answered \<lparr>rs_status = 200, rs_json = Some (JObj [(''mode'', JStr ''direct''),
     (''credentials'', JObj [(''storage_options'', JObj options)]), (''location'', JStr location)])\<rparr>"

definition ambient_options :: storage_options where
  "ambient_options = \<lparr>so_key_pair = None, so_options = [(''endpoint'', ''http://store'')]\<rparr>"

theorem refused_vend_signs_nothing_witness:
  "\<exists>v. vend (\<lambda>_. []) (Some ''jwt'') (vend_answer [(''access_key_id'', JStr ''AK''), (''secret_access_key'', JStr ''SK'')] ''s3://b/u1'')
     = Inr (Some v) \<and> covers_dataset ''s3://b/u1/tree/x'' (vd_location v)"
proof -
  let ?door = "vend_answer [(''access_key_id'', JStr ''AK''), (''secret_access_key'', JStr ''SK'')] ''s3://b/u1''"
  have "\<exists>o'. write_options_for (\<lambda>_. []) vending ?door ambient_options ''s3://b/u1/tree/x'' = Inr (Some Scoped, o')"
    by (rule exI [of _ "\<lparr>so_key_pair = Some \<lparr>kp_access_key_id = ''AK'', kp_secret_access_key = ''SK'', kp_session_token = None\<rparr>,
      so_options = []\<rparr>"]) code_simp
  then obtain o' where "write_options_for (\<lambda>_. []) vending ?door ambient_options ''s3://b/u1/tree/x'' = Inr (Some Scoped, o')"
    by blast
  from refused_vend_signs_nothing [OF _ this] show ?thesis
    by (auto simp: vending_def)
qed

text \<open>
  a vend that carries no credential is counted as scoped. Half a key pair is read as no vend,
  since the pod's own chain would sign in its place; an answer with no key at all passes, and the pass is
  signed by that chain while it is reported as signed by a credential of its table.
\<close>

theorem keyless_vend_counts_as_scoped:
  "write_options_for (\<lambda>_. []) vending (vend_answer [(''region'', JStr ''eu'')] ''s3://b/u1'') ambient_options ''s3://b/u1'' =
     Inr (Some Scoped, \<lparr>so_key_pair = None, so_options = [(''region'', ''eu'')]\<rparr>) \<and>
   write_options_for (\<lambda>_. []) vending (vend_answer [(''access_key_id'', JStr ''AK'')] ''s3://b/u1'') ambient_options ''s3://b/u1'' =
     Inr (Some Ambient, ambient_options)"
  by code_simp

end
