(* ===== verification/Committed_Files.thy ===== *)
theory Committed_Files
  imports Base_Reclaim
begin

text \<open>
  The files each commit added, recorded by the catalog (\<^verbatim>\<open>lakehouse_kit/file_identities.py\<close>) and read again
  by the sweep (\<^verbatim>\<open>maintenance/services/committed_files.py\<close>). \<open>head\<close> is the store's answer for one object;
  the retained versions, with what each names, are what pylance answers.
\<close>

section \<open>The records\<close>

record object_identity =
  oi_etag :: string
  oi_size :: nat

record committed_file =
  cf_path :: string
  cf_identity :: object_identity

record committed_files =
  cm_transaction_uuid :: string
  cm_files :: "committed_file list"

type_synonym head = "string \<Rightarrow> object_identity option result"

text \<open>\<^verbatim>\<open>stored_objects.identities\<close> of an S3 root: one HEAD of \<^verbatim>\<open><bucket>/<key>\<close> for each key.\<close>

definition identity_read :: "head \<Rightarrow> string \<Rightarrow> string \<Rightarrow> (string \<times> object_identity) option result" where
  "identity_read head uri key = (case head (rstrip_slash (remove_prefix ''s3://'' uri) @ ''/'' @ key) of
       Inl e \<Rightarrow> Inl e | Inr i \<Rightarrow> Inr (map_option (Pair key) i))"

definition identities :: "head \<Rightarrow> string \<Rightarrow> string list \<Rightarrow> (string \<times> object_identity) list result" where
  "identities head uri keys = map_sum id (List.map_filter id) (each (identity_read head uri) keys)"

definition identity_key :: "string \<Rightarrow> string \<Rightarrow> string" where
  "identity_key table_uuid transaction_uuid =
     file_identities_prefix @ ''/'' @ table_uuid @ ''/'' @ transaction_uuid @ ''.json''"

definition as_stored :: "head \<Rightarrow> string \<Rightarrow> string \<Rightarrow> string list \<Rightarrow> committed_files result" where
  "as_stored head root transaction_uuid paths = (case identities head root paths of
       Inl e \<Rightarrow> Inl e
     | Inr found \<Rightarrow> Inr \<lparr>cm_transaction_uuid = transaction_uuid, cm_files = List.map_filter (\<lambda>p.
         map_option (\<lambda>i. \<lparr>cf_path = p, cf_identity = i\<rparr>) (map_of found p)) paths\<rparr>)"

definition record_commit :: "string \<Rightarrow> committed_files \<Rightarrow> committed_files world \<Rightarrow> unit result \<times> committed_files world" where
  "record_commit table_uuid c w = (if cm_files c = [] then (Inr (), w)
     else put_record (identity_key table_uuid (cm_transaction_uuid c)) c w)"

definition recorded :: "string \<Rightarrow> committed_files world \<Rightarrow> committed_files list result \<times> committed_files world" where
  "recorded table_uuid w = list_records (file_identities_prefix @ ''/'' @ table_uuid) True w"

definition forget_commit :: "root \<Rightarrow> string \<Rightarrow> string \<Rightarrow> committed_files world \<Rightarrow> unit result \<times> committed_files world" where
  "forget_commit rt table_uuid transaction_uuid w = (case delete_record rt (identity_key table_uuid transaction_uuid) w of
       (Inl e, w1) \<Rightarrow> (Inl e, w1) | (Inr _, w1) \<Rightarrow> (Inr (), w1))"

section \<open>What a retained version names\<close>

record version_files =
  vf_bases :: "(int \<times> bool \<times> string) list"
  vf_fragments :: "fragment list"
  vf_indices :: "(int option \<times> string) list"
  vf_transaction :: "transaction option"

text \<open>\<^verbatim>\<open>_within\<close>: the directory of the table a base names, relative to its root.\<close>

definition within_root :: "string \<Rightarrow> string \<Rightarrow> string option" where
  "within_root root base_path = (let path = decoded_path base_path in
     if path = root then Some []
     else if prefix (root @ ''/'') path then Some (remove_prefix (root @ ''/'') path @ ''/'') else None)"

definition bases_within :: "string \<Rightarrow> version_files \<Rightarrow> (int \<times> string) list" where
  "bases_within root v = List.map_filter (\<lambda>(i, is_root, path).
     if is_root then map_option (Pair i) (within_root root path) else None) (vf_bases v)"

definition ref_at :: "string \<Rightarrow> (int \<times> string) list \<Rightarrow> int option \<Rightarrow> string option" where
  "ref_at ref inside base_id = (case base_id of None \<Rightarrow> Some ref | Some i \<Rightarrow> map_of inside i)"

definition files_of :: "(int option \<Rightarrow> string option) \<Rightarrow> fragment \<Rightarrow> string list" where
  "files_of at_base f =
     List.map_filter (\<lambda>d. map_option (\<lambda>here. here @ ''data/'' @ df_path d) (at_base (df_base_id d))) (fr_data_files f) @
     (case fr_deletion f of None \<Rightarrow> []
      | Some d \<Rightarrow> (case at_base (del_base_id d) of None \<Rightarrow> [] | Some here \<Rightarrow> [here @ del_path d]))"

definition named_by :: "(int \<Rightarrow> string) \<Rightarrow> string \<Rightarrow> string \<Rightarrow> version_files \<Rightarrow> string list" where
  "named_by repr_int ref root v = (let at_base = ref_at ref (bases_within root v) in
     concat (map (files_of at_base) (vf_fragments v)) @
     List.map_filter (\<lambda>(base_id, uuid). map_option (\<lambda>here. here @ ''_indices/'' @ uuid @ ''/'') (at_base base_id)) (vf_indices v) @
     (case vf_transaction v of None \<Rightarrow> []
      | Some t \<Rightarrow> [ref @ ''_transactions/'' @ repr_int (tx_read_version t) @ ''-'' @ tx_uuid t @ ''.txn'']))"

definition ref_directory :: "string option \<Rightarrow> string" where
  "ref_directory branch = (case branch of None \<Rightarrow> [] | Some b \<Rightarrow> branch_container @ ''/'' @ b @ ''/'')"

text \<open>\<^verbatim>\<open>path.rpartition("/")[0]\<close>: nothing where there is no slash.\<close>

definition head_of :: "string \<Rightarrow> string" where
  "head_of path = rev (drop 1 (dropWhile (\<lambda>c. c \<noteq> CHR ''/'') (rev path)))"

definition is_named :: "string list \<Rightarrow> string \<Rightarrow> bool" where
  "is_named hits path = (path \<in> set hits \<or> head_of path @ ''.lance'' \<in> set hits \<or>
     list_ex (\<lambda>d. suffix ''/'' d \<and> prefix d path) hits)"

type_synonym retained = "(string option \<times> version_files) list result"

definition named_by_a_retained_version ::
    "(int \<Rightarrow> string) \<Rightarrow> retained \<Rightarrow> string \<Rightarrow> string list \<Rightarrow> string list result" where
  "named_by_a_retained_version repr_int versions table_root paths = (case versions of
       Inl e \<Rightarrow> Inl e
     | Inr vs \<Rightarrow> Inr (filter (is_named (concat (map (\<lambda>(branch, v).
         named_by repr_int (ref_directory branch) (decoded_path table_root) v) vs))) paths))"

section \<open>The check\<close>

record file_check =
  fc_overwritten :: "string list"
  fc_forgotten :: nat

fun forget_each :: "root \<Rightarrow> string \<Rightarrow> committed_files list \<Rightarrow> committed_files world \<Rightarrow> unit result \<times> committed_files world" where
  "forget_each rt table_uuid [] w = (Inr (), w)"
| "forget_each rt table_uuid (c # cs) w = (case forget_commit rt table_uuid (cm_transaction_uuid c) w of
       (Inl e, w1) \<Rightarrow> (Inl e, w1) | (Inr _, w1) \<Rightarrow> forget_each rt table_uuid cs w1)"

definition is_overwritten :: "(string \<times> object_identity) list \<Rightarrow> string list \<Rightarrow> committed_file \<Rightarrow> bool" where
  "is_overwritten held_now hits f = (case map_of held_now (cf_path f) of
       Some i \<Rightarrow> i \<noteq> cf_identity f | None \<Rightarrow> cf_path f \<in> set hits)"

definition is_reclaimed :: "string list \<Rightarrow> string list \<Rightarrow> committed_files \<Rightarrow> bool" where
  "is_reclaimed absent hits c = list_all (\<lambda>f. cf_path f \<in> set absent \<and> cf_path f \<notin> set hits) (cm_files c)"

definition check_committed ::
    "root \<Rightarrow> head \<Rightarrow> (int \<Rightarrow> string) \<Rightarrow> retained \<Rightarrow> string \<Rightarrow> string \<Rightarrow> committed_files world
      \<Rightarrow> file_check result \<times> committed_files world" where
  "check_committed rt head repr_int versions table_root table_uuid w = (case recorded table_uuid w of
       (Inl e, w1) \<Rightarrow> (Inl e, w1)
     | (Inr committed, w1) \<Rightarrow>
        (let files = concat (map cm_files committed) in
         case identities head table_root (sort (remdups (map cf_path files))) of
           Inl e \<Rightarrow> (Inl e, w1)
         | Inr held_now \<Rightarrow>
            (let absent = filter (\<lambda>p. map_of held_now p = None) (remdups (map cf_path files)) in
             case (if absent = [] then Inr [] else named_by_a_retained_version repr_int versions table_root absent) of
               Inl e \<Rightarrow> (Inl e, w1)
             | Inr hits \<Rightarrow>
                (let overwritten = map cf_path (filter (is_overwritten held_now hits) files);
                     reclaimed = filter (is_reclaimed absent hits) committed in
                 case forget_each rt table_uuid reclaimed w1 of
                   (Inl e, w2) \<Rightarrow> (Inl e, w2)
                 | (Inr _, w2) \<Rightarrow> (Inr \<lparr>fc_overwritten = sort overwritten, fc_forgotten = length reclaimed\<rparr>, w2)))))"

section \<open>What is named, and what is forgotten\<close>

text \<open>The records of one table, each under the key of its commit.\<close>

definition holds_commit :: "string \<Rightarrow> committed_files world \<Rightarrow> string \<Rightarrow> committed_files \<Rightarrow> bool" where
  "holds_commit table_uuid w k c \<longleftrightarrow> lookup w k = Some (Json c) \<and> in_prefix (file_identities_prefix @ ''/'' @ table_uuid) k"

definition keyed_commits :: "string \<Rightarrow> committed_files world \<Rightarrow> bool" where
  "keyed_commits table_uuid w \<longleftrightarrow> distinct (map fst (objects w)) \<and>
     (\<forall>k c. holds_commit table_uuid w k c \<longrightarrow> k = identity_key table_uuid (cm_transaction_uuid c))"

definition names_file :: "(int \<Rightarrow> string) \<Rightarrow> retained \<Rightarrow> string \<Rightarrow> string \<Rightarrow> bool" where
  "names_file repr_int versions table_root path \<longleftrightarrow> (\<exists>vs branch v. versions = Inr vs \<and> (branch, v) \<in> set vs \<and>
     is_named (named_by repr_int (ref_directory branch) (decoded_path table_root) v) path)"

definition held_at :: "head \<Rightarrow> string \<Rightarrow> string \<Rightarrow> object_identity option" where
  "held_at head uri key = (case head (rstrip_slash (remove_prefix ''s3://'' uri) @ ''/'' @ key) of Inl _ \<Rightarrow> None | Inr i \<Rightarrow> i)"

text \<open>A file is not as committed: another object stands there, or none where a retained version names one.\<close>

definition tampered :: "head \<Rightarrow> (int \<Rightarrow> string) \<Rightarrow> retained \<Rightarrow> string \<Rightarrow> committed_file \<Rightarrow> bool" where
  "tampered head repr_int versions root f \<longleftrightarrow> (case held_at head root (cf_path f) of
     Some i \<Rightarrow> i \<noteq> cf_identity f | None \<Rightarrow> names_file repr_int versions root (cf_path f))"

definition gone_for_good :: "head \<Rightarrow> (int \<Rightarrow> string) \<Rightarrow> retained \<Rightarrow> string \<Rightarrow> committed_files \<Rightarrow> bool" where
  "gone_for_good head repr_int versions root c \<longleftrightarrow> (\<forall>f\<in>set (cm_files c).
     held_at head root (cf_path f) = None \<and> \<not> names_file repr_int versions root (cf_path f))"

lemma is_named_concat: "is_named (concat nss) path \<longleftrightarrow> (\<exists>ns\<in>set nss. is_named ns path)"
  by (auto simp: is_named_def list_ex_iff)

lemma map_of_map_filter_Pair:
  "map_of (List.map_filter (\<lambda>k. map_option (Pair k) (g k)) keys) k = (if k \<in> set keys then g k else None)"
  by (induction keys) (auto simp: map_filter_def split: option.splits)

lemma map_filter_id_map: "List.map_filter id (map f xs) = List.map_filter f xs"
  by (induction xs) (auto simp: map_filter_def)

lemma each_total: "each f xs = Inr ys \<Longrightarrow> ys = map (\<lambda>x. projr (f x)) xs \<and> (\<forall>x\<in>set xs. \<not> isl (f x))"
  by (induction xs arbitrary: ys) (auto split: sum.splits)

lemma identities_held:
  assumes "identities head uri keys = Inr held_now" "k \<in> set keys"
  shows "map_of held_now k = held_at head uri k"
proof -
  let ?g = "held_at head uri"
  obtain ys where ys: "each (identity_read head uri) keys = Inr ys" "held_now = List.map_filter id ys"
    using assms(1) by (cases "each (identity_read head uri) keys") (auto simp: identities_def)
  have "projr (identity_read head uri x) = map_option (Pair x) (?g x)" if "x \<in> set keys" for x
    using each_total [OF ys(1)] that by (auto simp: identity_read_def held_at_def split: sum.splits)
  then have "ys = map (\<lambda>x. map_option (Pair x) (?g x)) keys"
    using each_total [OF ys(1)] by auto
  then have "held_now = List.map_filter (\<lambda>x. map_option (Pair x) (?g x)) keys"
    by (simp add: ys(2) map_filter_id_map)
  then show ?thesis
    using assms(2) by (simp add: map_of_map_filter_Pair)
qed

lemma recorded_are_held:
  assumes "pending w = []" "distinct (map fst (objects w))" "recorded table_uuid w = (Inr cs, w')"
  shows "w' = w \<and> set cs = {c. \<exists>k. holds_commit table_uuid w k c}"
proof -
  have w': "w' = w" and cs: "map Json cs = map snd (filter (\<lambda>(k, _). in_prefix (file_identities_prefix @ ''/'' @ table_uuid) k) (objects w))"
    using assms(1,3) by (auto simp: recorded_def list_records_def access_def read_listed_strict split: sum.splits)
  have "c \<in> set cs \<longleftrightarrow> Json c \<in> set (map Json cs)" for c
    by (auto simp: image_iff)
  moreover have "Json c \<in> set (map Json cs) \<longleftrightarrow> (\<exists>k. holds_commit table_uuid w k c)" for c
    unfolding cs using map_of_eq_Some_iff [OF assms(2)]
    by (auto simp: holds_commit_def lookup_def image_iff split_beta)
  ultimately show ?thesis
    using w' by blast
qed

lemma forget_each_quiet:
  "pending w = [] \<Longrightarrow> \<exists>w'. forget_each rt table_uuid cs w = (Inr (), w') \<and>
    (\<forall>k. lookup w' k = (if k \<in> identity_key table_uuid ` cm_transaction_uuid ` set cs then None else lookup w k))"
proof (induction cs arbitrary: w)
  case (Cons c cs)
  obtain b w1 where w1: "delete_record rt (identity_key table_uuid (cm_transaction_uuid c)) w = (Inr b, w1)" "pending w1 = []"
    "\<And>k. lookup w1 k = (if k = identity_key table_uuid (cm_transaction_uuid c) then None else lookup w k)"
    using quiet_endsE [OF delete_record_ends Cons.prems] by blast
  from Cons.IH [OF w1(2)] w1(1,3) show ?case
    by (auto simp: forget_commit_def)
qed simp

text \<open>
  every recorded file is read again, and a record goes only with its files. When a table's check
  answers, it names exactly the recorded files that are not as committed: those the store
  holds as another object, and those it does not hold though a retained version of a ref names them. It
  deletes exactly the records none of whose files is held or named, and no other record.
\<close>

theorem committed_files_are_read_again:
  assumes "pending w = []" "keyed_commits table_uuid w"
    and "check_committed rt head repr_int versions root table_uuid w = (Inr found, w')"
  shows "set (fc_overwritten found) = {cf_path f |k c f. holds_commit table_uuid w k c \<and> f \<in> set (cm_files c) \<and>
      tampered head repr_int versions root f} \<and>
    (\<forall>k. lookup w' k = (if \<exists>c. holds_commit table_uuid w k c \<and> gone_for_good head repr_int versions root c
      then None else lookup w k))"
proof -
  obtain cs where cs: "recorded table_uuid w = (Inr cs, w)" "set cs = {c. \<exists>k. holds_commit table_uuid w k c}"
    using assms(3) recorded_are_held [OF assms(1)] assms(2)
    by (auto simp: check_committed_def keyed_commits_def split: sum.splits prod.splits) 
  let ?files = "concat (map cm_files cs)"
  let ?paths = "remdups (map cf_path ?files)"
  obtain held_now where held: "identities head root (sort ?paths) = Inr held_now"
    using assms(3) cs(1) by (auto simp: check_committed_def Let_def split: sum.splits)
  have at_path: "map_of held_now p = held_at head root p" if "p \<in> cf_path ` set ?files" for p
    using identities_held [OF held, of p] that by simp
  let ?absent = "filter (\<lambda>p. map_of held_now p = None) ?paths"
  obtain hits where hits: "(if ?absent = [] then Inr [] else named_by_a_retained_version repr_int versions root ?absent) = Inr hits"
    using assms(3) cs(1) held by (auto simp: check_committed_def Let_def split: sum.splits if_splits)
  have hit: "p \<in> set hits \<longleftrightarrow> p \<in> set ?absent \<and> names_file repr_int versions root p" for p
  proof (cases "?absent = []")
    case False
    then obtain vs where "versions = Inr vs" "hits = filter (is_named (concat (map (\<lambda>(branch, v).
        named_by repr_int (ref_directory branch) (decoded_path root) v) vs))) ?absent"
      using hits by (auto simp: named_by_a_retained_version_def split: sum.splits)
    moreover have "is_named (concat (map (\<lambda>(branch, v). named_by repr_int (ref_directory branch) (decoded_path root) v) vs)) p \<longleftrightarrow>
        names_file repr_int versions root p"
      unfolding is_named_concat names_file_def \<open>versions = Inr vs\<close> by (simp add: split_beta Bex_def)
    ultimately show ?thesis
      by simp
  qed (use hits in \<open>simp del: filter_empty_conv filter_False\<close>)
  let ?gone = "filter (is_reclaimed ?absent hits) cs"
  obtain w2 where w2: "forget_each rt table_uuid ?gone w = (Inr (), w2)"
    "\<And>k. lookup w2 k = (if k \<in> identity_key table_uuid ` cm_transaction_uuid ` set ?gone then None else lookup w k)"
    using forget_each_quiet [OF assms(1)] by blast
  have res: "found = \<lparr>fc_overwritten = sort (map cf_path (filter (is_overwritten held_now hits) ?files)), fc_forgotten = length ?gone\<rparr>"
    "w' = w2"
    using assms(3) cs(1) held hits w2(1) by (auto simp: check_committed_def Let_def)
  have ow: "is_overwritten held_now hits f \<longleftrightarrow> tampered head repr_int versions root f" if "f \<in> set ?files" for f
    using that at_path [of "cf_path f"] hit [of "cf_path f"] by (auto simp: is_overwritten_def tampered_def split: option.splits)
  have gone: "is_reclaimed ?absent hits c \<longleftrightarrow> gone_for_good head repr_int versions root c" if "c \<in> set cs" for c
  proof -
    have "cf_path f \<in> cf_path ` set ?files" if "f \<in> set (cm_files c)" for f
      using that \<open>c \<in> set cs\<close> by auto
    then show ?thesis
      using at_path hit by (auto simp: is_reclaimed_def gone_for_good_def list_all_iff)
  qed
  have "set (fc_overwritten found) = cf_path ` {f \<in> set ?files. tampered head repr_int versions root f}"
    using ow by (auto simp: res)
  moreover have "k \<in> identity_key table_uuid ` cm_transaction_uuid ` set ?gone \<longleftrightarrow>
      (\<exists>c. holds_commit table_uuid w k c \<and> gone_for_good head repr_int versions root c)" for k
    using gone cs(2) assms(2) by (fastforce simp: keyed_commits_def)
  ultimately show ?thesis
    using cs(2) w2(2) res(2) by auto
qed

definition one_commit :: committed_files where
  "one_commit = \<lparr>cm_transaction_uuid = ''x'', cm_files =
     [\<lparr>cf_path = ''data/a.lance'', cf_identity = \<lparr>oi_etag = ''e'', oi_size = 3\<rparr>\<rparr>]\<rparr>"

definition one_commit_world :: "committed_files world" where
  "one_commit_world = \<lparr>objects = [(''_file_identities/u/x.json'', Json one_commit)], clock = 0, pending = []\<rparr>"

definition read_with :: "object_identity option \<Rightarrow> file_check result \<times> committed_files world" where
  "read_with i = check_committed S3 (\<lambda>_. Inr i) (\<lambda>_. []) (Inr []) ''s3://b/t'' ''u'' one_commit_world"

theorem committed_files_are_read_again_witness:
  "\<exists>c f. holds_commit ''u'' one_commit_world ''_file_identities/u/x.json'' c \<and> f \<in> set (cm_files c) \<and>
     tampered (\<lambda>_. Inr (Some \<lparr>oi_etag = ''other'', oi_size = 3\<rparr>)) (\<lambda>_. []) (Inr []) ''s3://b/t'' f"
proof -
  let ?i = "Some \<lparr>oi_etag = ''other'', oi_size = 3\<rparr>"
  have "fst (read_with ?i) = Inr \<lparr>fc_overwritten = [''data/a.lance''], fc_forgotten = 0\<rparr>"
    by code_simp
  then have run: "read_with ?i = (Inr \<lparr>fc_overwritten = [''data/a.lance''], fc_forgotten = 0\<rparr>, snd (read_with ?i))"
    by (metis prod.collapse)
  have keyed: "keyed_commits ''u'' one_commit_world"
    by (simp add: keyed_commits_def holds_commit_def one_commit_world_def lookup_def one_commit_def identity_key_def
        file_identities_prefix_def)
  have "pending one_commit_world = []"
    by (simp add: one_commit_world_def)
  from committed_files_are_read_again [OF this keyed run [unfolded read_with_def], THEN conjunct1]
  have "''data/a.lance'' \<in> {cf_path f |k c f. holds_commit ''u'' one_commit_world k c \<and> f \<in> set (cm_files c) \<and>
      tampered (\<lambda>_. Inr ?i) (\<lambda>_. []) (Inr []) ''s3://b/t'' f}"
    by (metis file_check.select_convs(1) list.set_intros(1))
  then obtain k c f where "holds_commit ''u'' one_commit_world k c" "f \<in> set (cm_files c)"
      "tampered (\<lambda>_. Inr ?i) (\<lambda>_. []) (Inr []) ''s3://b/t'' f"
    by blast
  moreover from this(1) have "k = ''_file_identities/u/x.json''"
    by (simp add: holds_commit_def one_commit_world_def lookup_def split: if_splits)
  ultimately show ?thesis
    by blast
qed

end
