(* ===== verification/Sweep.thy ===== *)
theory Sweep
  imports Due_Work Vending Committed_Files
begin

text \<open>
  The maintenance tick: \<^verbatim>\<open>maintenance/services/sweep.py\<close>, with \<^verbatim>\<open>load_policies\<close> and \<^verbatim>\<open>buckets_to_sweep\<close> of
  \<^verbatim>\<open>plan.py\<close> and \<^verbatim>\<open>lakehouse_kit/warehouse_records.py\<close>. What the tick decides before it touches a dataset,
  the pass over one dataset, the budget between them, and the due records it clears at its end. The
  shuffle is a permutation given as an argument; metrics, spans, log lines and the uuids of the lineage
  events are left out.
\<close>

section \<open>The datasets a tick may touch\<close>

definition text_or_mark :: "(json \<Rightarrow> string) \<Rightarrow> dict \<Rightarrow> string \<Rightarrow> string" where
  "text_or_mark repr r name = (if truthy (dict_get r name) then py_str repr (the (dict_get r name)) else ''?'')"

definition trash_why :: "(json \<Rightarrow> string) \<Rightarrow> dict \<Rightarrow> string" where
  "trash_why repr r = ''in trash as '' @ text_or_mark repr r ''id'' @ '' (expires_at='' @ text_or_mark repr r ''expires_at'' @ '')''"

definition trashed_locations :: "(json \<Rightarrow> string) \<Rightarrow> dict list \<Rightarrow> (string \<times> string) list" where
  "trashed_locations repr records = dict_of (map (\<lambda>r. (decoded_path (py_str repr (the (dict_get r ''location''))), trash_why repr r))
     (filter (\<lambda>r. truthy (dict_get r ''location'')) records))"

text \<open>\<^verbatim>\<open>why_in_trash\<close>: one lookup for each prefix of the path's segments, the longest first.\<close>

definition why_in_trash :: "string \<Rightarrow> (string \<times> string) list \<Rightarrow> string option" where
  "why_in_trash uri trashed = (let segments = split_on (CHR ''/'') (decoded_path uri) in
     case List.map_filter (\<lambda>n. map_of trashed (join_with (CHR ''/'') (take n segments))) (rev [1..<Suc (length segments)]) of
       [] \<Rightarrow> None | why # _ \<Rightarrow> Some why)"

definition exclude_trashed :: "string list \<Rightarrow> (string \<times> string) list \<Rightarrow> string list \<times> dataset_result list" where
  "exclude_trashed found trashed =
     (let frozen = List.map_filter (\<lambda>uri. map_option (Pair uri) (why_in_trash uri trashed)) found in
      if frozen = [] then (found, [])
      else (filter (\<lambda>uri. uri \<notin> fst ` set frozen) found,
        map (\<lambda>(uri, why). (result_of uri)\<lparr>res_trashed := Some why\<rparr>) frozen))"

text \<open>\<^verbatim>\<open>_discover_all\<close>: a bucket whose walk raises is skipped.\<close>

definition discover_all :: "(string \<Rightarrow> string) \<Rightarrow> filesystem \<Rightarrow> nat \<Rightarrow> string list \<Rightarrow> string list" where
  "discover_all decode fs max_depth buckets = concat (map (\<lambda>b. case discover_datasets decode fs b max_depth of
     Inl _ \<Rightarrow> [] | Inr found \<Rightarrow> uris found) buckets)"

definition warehouses_prefix :: string where
  "warehouses_prefix = ''_warehouses''"

definition list_warehouse_records :: "dict world \<Rightarrow> dict list result \<times> dict world" where
  "list_warehouse_records w = (case list_records warehouses_prefix False w of
       (Inl e, w1) \<Rightarrow> (Inl e, w1)
     | (Inr rs, w1) \<Rightarrow> (Inr (filter (\<lambda>r. truthy (dict_get r ''id'')) rs), w1))"

definition is_deactivated :: "(json \<Rightarrow> string) \<Rightarrow> dict \<Rightarrow> bool" where
  "is_deactivated repr r =
     (map lower_char (case dict_get r ''status'' of None \<Rightarrow> ''active'' | Some v \<Rightarrow> py_str repr v) = ''deactivated'')"

definition maintainable_buckets :: "(json \<Rightarrow> string) \<Rightarrow> dict list \<Rightarrow> string list" where
  "maintainable_buckets repr records = sort (remdups (map (\<lambda>r. py_str repr (the (dict_get r ''bucket'')))
     (filter (\<lambda>r. truthy (dict_get r ''bucket'') \<and> \<not> is_deactivated repr r) records)))"

definition buckets_to_sweep :: "(json \<Rightarrow> string) \<Rightarrow> string list \<Rightarrow> dict world \<Rightarrow> string list \<times> dict world" where
  "buckets_to_sweep repr configured w = (case list_warehouse_records w of
       (Inl _, w1) \<Rightarrow> (configured, w1)
     | (Inr rs, w1) \<Rightarrow> (configured @ filter (\<lambda>b. b \<notin> set configured) (maintainable_buckets repr rs), w1))"

section \<open>The plan of a tick\<close>

record sweep_plan =
  sp_uris :: "string list"
  sp_decided :: "dataset_result list"
  sp_protected :: base_refs
  sp_clones :: clone_list
  sp_table_ids :: table_ids
  sp_due_judged :: "string list"
  sp_context :: plan_context

record sweep_world =
  sw_pass :: expiry_world
  sw_claims :: "location_claim world"
  sw_bases :: "base_record world"
  sw_control :: "dict world"
  sw_due :: "due_record world"
  sw_commits :: "committed_files world"
  sw_clones :: "clone_list world"

text \<open>
  The settings of the process and the answers it gets: of the store it lists, of pylance for a dataset
  opened with some storage options, of a root's manifest, of the vending door for a table.
\<close>

record 'e sweep_env =
  se_root :: root
  se_repr :: "json \<Rightarrow> string"
  se_hex :: "string \<Rightarrow> string"
  se_fromiso :: "string \<Rightarrow> int option"
  se_isofmt :: "int \<Rightarrow> string"
  se_repr_int :: "int \<Rightarrow> string"
  se_decode :: "string \<Rightarrow> string"
  se_fs :: filesystem
  se_max_depth :: nat
  se_sweep_buckets :: "string list"
  se_configured :: "string list"
  se_shuffle :: "string list \<Rightarrow> string list"
  se_now :: int
  se_older_than :: int
  se_min_versions :: int
  se_staged_grace :: int
  se_options :: storage_options
  se_vend :: vend_settings
  se_door :: "string \<Rightarrow> reply"
  se_open :: "storage_options \<Rightarrow> 'e expiry_env"
  se_base_paths :: "string \<Rightarrow> string + base_path_ref list"
  se_rows :: "string \<Rightarrow> manifest_row list option"
  se_registry :: base_registry
  se_dg_bases :: "base_record content \<Rightarrow> 'e"
  se_dg_claims :: "location_claim content \<Rightarrow> 'e"
  se_due_open :: "string \<Rightarrow> due_dataset result"
  se_head :: head
  se_versions :: "string \<Rightarrow> retained"

definition record_reader :: "'e sweep_env \<Rightarrow> base_record world \<Rightarrow> string \<Rightarrow> base_record option result" where
  "record_reader env b location = fst (read_base_record (se_registry env) (se_dg_bases env) location b)"

definition plan_sweep :: "'e sweep_env \<Rightarrow> sweep_world \<Rightarrow> sweep_plan result \<times> sweep_world" where
  "plan_sweep env w = (case list_policies (sw_control w) of
       (Inl e, c1) \<Rightarrow> (Inl e, w\<lparr>sw_control := c1\<rparr>)
     | (Inr policies, c1) \<Rightarrow> (case trash_list_all c1 of
         (Inl e, c2) \<Rightarrow> (Inl e, w\<lparr>sw_control := c2\<rparr>)
       | (Inr records, c2) \<Rightarrow> (case buckets_to_sweep (se_repr env) (se_sweep_buckets env) c2 of
           (buckets, c3) \<Rightarrow>
            (let w1 = w\<lparr>sw_control := c3\<rparr>;
                 found = discover_all (se_decode env) (se_fs env) (se_max_depth env) buckets in
             case protected_roots (se_base_paths env) found (se_configured env) (record_reader env (sw_bases w)) of
               Inl e \<Rightarrow> (Inl e, w1)
             | Inr protected \<Rightarrow>
                (case exclude_trashed found (trashed_locations (se_repr env) records) of
                   (kept_uris, decided) \<Rightarrow> (case due_record_names (sw_due w) of
                     (Inl e, d1) \<Rightarrow> (Inl e, w1\<lparr>sw_due := d1\<rparr>)
                   | (Inr judged, d1) \<Rightarrow>
                      (Inr \<lparr>sp_uris = se_shuffle env kept_uris, sp_decided = decided, sp_protected = protected,
                         sp_clones = clones_taken protected (se_now env),
                         sp_table_ids = table_ids_of (se_rows env) (map (\<lambda>b. ''s3://'' @ b) buckets),
                         sp_due_judged = judged,
                         sp_context = \<lparr>pc_policies = policies, pc_now = se_now env, pc_older_than = se_older_than env\<rparr>\<rparr>,
                       w1\<lparr>sw_due := d1\<rparr>)))))))"

section \<open>The pass over one dataset\<close>

record named_dataset =
  nd_table :: string
  nd_owners :: policy_owners

text \<open>\<^verbatim>\<open>_data_directories\<close>: any of the failures the source names leaves none this tick.\<close>

definition directory_failure :: "error \<Rightarrow> bool" where
  "directory_failure e = (e \<in> {UnreadableBaseRecordError, StoreError, ValueError})"

fun held_directories ::
    "claim_store \<Rightarrow> (location_claim content \<Rightarrow> 'e) \<Rightarrow> recorded_base list \<Rightarrow> string \<Rightarrow> location_claim world
      \<Rightarrow> recorded_base list result \<times> location_claim world" where
  "held_directories st dg [] table w = (Inr [], w)"
| "held_directories st dg (d # ds) table w = (case claimed_by st dg d table w of
       (Inl e, w1) \<Rightarrow> (Inl e, w1)
     | (Inr mine, w1) \<Rightarrow> (case held_directories st dg ds table w1 of
         (Inl e, w2) \<Rightarrow> (Inl e, w2)
       | (Inr rest, w2) \<Rightarrow> (Inr (if mine then d # rest else rest), w2)))"

definition none_if_unread :: "recorded_base list result \<Rightarrow> recorded_base list result" where
  "none_if_unread x = (case x of Inl e \<Rightarrow> if directory_failure e then Inr [] else Inl e | Inr ds \<Rightarrow> Inr ds)"

definition data_directories_of ::
    "'e sweep_env \<Rightarrow> table_ids \<Rightarrow> string \<Rightarrow> sweep_world \<Rightarrow> recorded_base list result \<times> sweep_world" where
  "data_directories_of env names uri w = (case named_at names uri of
       None \<Rightarrow> (Inr [], w)
     | Some table \<Rightarrow> (case se_base_paths env uri of
         Inl _ \<Rightarrow> (Inr [], w)
       | Inr declared \<Rightarrow>
          (if \<not> list_ex (\<lambda>ref. \<not> bp_is_root ref \<and> \<not> location_in_store uri (bp_path ref)) declared then (Inr [], w)
           else (case read_base_record (se_registry env) (se_dg_bases env) uri (sw_bases w) of
               (Inl e, b1) \<Rightarrow> (none_if_unread (Inl e), w\<lparr>sw_bases := b1\<rparr>)
             | (Inr r, b1) \<Rightarrow>
                (case held_directories (claims_of (se_registry env)) (se_dg_claims env) (recorded_directories r) table (sw_claims w) of
                   (x, c1) \<Rightarrow> (none_if_unread x, w\<lparr>sw_bases := b1, sw_claims := c1\<rparr>))))))"

record write_probe =
  wp_may_write :: bool
  wp_data_storage_version :: "string option"
  wp_mixed :: bool

text \<open>\<^verbatim>\<open>_probe_before_vending\<close>: any raise answers that expiry may write.\<close>

definition unread_probe :: "exc \<Rightarrow> write_probe" where
  "unread_probe x = \<lparr>wp_may_write = True, wp_data_storage_version = None, wp_mixed = mixes_data_file_versions
     (case flags_from_open_error (ex_message x) of None \<Rightarrow> 0 | Some flags \<Rightarrow> flags)\<rparr>"

definition probe_reclaimable :: "lance_table \<Rightarrow> expiry_policy \<Rightarrow> data_store \<Rightarrow> exc + bool" where
  "probe_reclaimable tbl policy d =
     (if xp_cleanup_enabled policy
      then map_sum id (\<lambda>n. xp_min_reclaimable policy \<le> n) (lt_explain tbl (xp_older_than policy) (xp_retain_versions policy) d)
      else Inr False)"

definition probe_stranded ::
    "'e expiry_env \<Rightarrow> lance_table \<Rightarrow> expiry_policy \<Rightarrow> recorded_base list \<Rightarrow> int \<Rightarrow> data_store \<Rightarrow> exc + bool" where
  "probe_stranded xe tbl policy directories tick d =
     (if xp_cleanup_enabled policy \<and> directories \<noteq> []
      then map_sum (xe_raised xe) (\<lambda>found. found \<noteq> []) (fst (unreferenced (lt_handle tbl d) directories tick d))
      else Inr False)"

definition probe_before_vending ::
    "'e expiry_env \<Rightarrow> string \<Rightarrow> expiry_policy \<Rightarrow> recorded_base list \<Rightarrow> int \<Rightarrow> data_store \<Rightarrow> write_probe" where
  "probe_before_vending xe uri policy directories tick d = (case xe_open xe uri d of
       Inl x \<Rightarrow> unread_probe x
     | Inr tbl \<Rightarrow> (case lt_config tbl of
         Inl x \<Rightarrow> unread_probe x
       | Inr keys \<Rightarrow> (case probe_reclaimable tbl policy d of
           Inl x \<Rightarrow> unread_probe x
         | Inr met \<Rightarrow> (case probe_stranded xe tbl policy directories tick d of
             Inl x \<Rightarrow> unread_probe x
           | Inr stranded \<Rightarrow> \<lparr>wp_may_write = (armed_keys keys \<noteq> [] \<or> met \<or> stranded),
               wp_data_storage_version = lt_data_storage_version tbl,
               wp_mixed = mixes_data_file_versions (fst (manifest_feature_flags (lt_manifest tbl)))\<rparr>))))"

text \<open>\<^verbatim>\<open>_VEND_ANSWERS\<close>: how each answer of the door that stops a dataset is recorded.\<close>

definition vend_answer_of :: "error \<Rightarrow> exc \<Rightarrow> string option \<Rightarrow> (dataset_result \<Rightarrow> dataset_result) option" where
  "vend_answer_of e x table_id =
     (if e = GovernedElsewhere then Some (refuse_by (Worded (ex_message x)) GOVERNED_ELSEWHERE)
      else if e = MaintenanceUnauthenticated then Some (refuse_by (Worded (ex_message x)) UNAUTHENTICATED)
      else if e = MaintenanceDenied then Some (park (Worded (ex_message x)) VEND_DENIED table_id)
      else if e = TableNotGoverned then Some (park (Worded (ex_message x)) TABLE_NOT_GOVERNED table_id)
      else if e = VendUndecided then
        Some (\<lambda>r. r\<lparr>res_error := Some (''maintain: '' @ ex_message x), res_error_type := Some (ex_type x)\<rparr>)
      else None)"

definition stopped_by_vend :: "write_probe \<Rightarrow> expiry_target \<Rightarrow> (dataset_result \<Rightarrow> dataset_result) \<Rightarrow> dataset_result" where
  "stopped_by_vend probe target answered = answered ((result_of (xt_uri target))
     \<lparr>res_data_storage_version := wp_data_storage_version probe, res_mixed_data_file_versions := wp_mixed probe\<rparr>)"

definition target_of ::
    "'e sweep_env \<Rightarrow> sweep_plan \<Rightarrow> named_dataset \<Rightarrow> recorded_base list \<Rightarrow> string \<Rightarrow> expiry_target" where
  "target_of env sweep nd directories uri = \<lparr>xt_uri = uri, xt_protected = sp_protected sweep, xt_table_id = Some (nd_table nd),
     xt_data_directories = directories, xt_now = pc_now (sp_context sweep),
     xt_history = Some \<lparr>th_root = se_root env, th_uuid = po_table_uuid (nd_owners nd)\<rparr>\<rparr>"

text \<open>
  The options a pass is signed with, and what the door's answer made of a dataset it stops; an
  exception that names no answer of the door leaves the pass.
\<close>

definition signed_with ::
    "'e sweep_env \<Rightarrow> write_probe \<Rightarrow> expiry_target \<Rightarrow> string \<Rightarrow> (exc + dataset_result) + storage_options" where
  "signed_with env probe target table =
     (if \<not> wp_may_write probe then Inr (se_options env)
      else (case write_options_for (se_repr env) (se_vend env) (se_door env table) (se_options env) (xt_uri target) of
          Inr (tier, options) \<Rightarrow> Inr options
        | Inl e \<Rightarrow> (let x = xe_raised (se_open env (se_options env)) e in
            Inl (case vend_answer_of e x (Some table) of
                None \<Rightarrow> Inl x
              | Some answered \<Rightarrow> Inr (stopped_by_vend probe target answered)))))"

definition expire_named ::
    "'e sweep_env \<Rightarrow> sweep_plan \<Rightarrow> named_dataset \<Rightarrow> dataset_plan \<Rightarrow> string \<Rightarrow> sweep_world
      \<Rightarrow> (exc + dataset_result) \<times> sweep_world" where
  "expire_named env sweep nd plan uri w = (case data_directories_of env (sp_table_ids sweep) uri w of
       (Inl e, w1) \<Rightarrow> (Inl (xe_raised (se_open env (se_options env)) e), w1)
     | (Inr directories, w1) \<Rightarrow>
        (let policy = expiry_policy_of (se_min_versions env) (se_staged_grace env) plan;
             target = target_of env sweep nd directories uri;
             probe = probe_before_vending (se_open env (se_options env)) uri policy directories (xt_now target) (xw_data (sw_pass w1)) in
         case signed_with env probe target (nd_table nd) of
           Inl stopped \<Rightarrow> (stopped, w1)
         | Inr options \<Rightarrow> (case expire_versions (se_open env options) target policy (sw_pass w1) of
             (x, p1) \<Rightarrow> (x, w1\<lparr>sw_pass := p1\<rparr>))))"

text \<open>\<^verbatim>\<open>name_dataset\<close>: a dataset no table names, and one whose owners cannot be read, is refused.\<close>

definition name_dataset ::
    "'e sweep_env \<Rightarrow> table_ids \<Rightarrow> string \<Rightarrow> location_claim world
      \<Rightarrow> (dataset_result + named_dataset) \<times> table_ids \<times> location_claim world" where
  "name_dataset env names uri c = (case table_of names uri of
       None \<Rightarrow> (Inl (refuse_by (No_row_names uri) UNNAMED ((result_of uri)\<lparr>res_due := Some Is_unnamed\<rparr>)), names, c)
     | Some table \<Rightarrow> (case policy_owners_of (claims_of (se_registry env)) (se_dg_claims env) names table c of
         (None, names1, c1) \<Rightarrow>
           (Inl (refuse_by (No_uuid_read table) UNIDENTIFIED_OWNER ((result_of uri)\<lparr>res_due := Some Is_failed\<rparr>)), names1, c1)
       | (Some owners, names1, c1) \<Rightarrow> (Inr \<lparr>nd_table = table, nd_owners = owners\<rparr>, names1, c1)))"

definition plan_for ::
    "'e sweep_env \<Rightarrow> sweep_plan \<Rightarrow> named_dataset \<Rightarrow> string \<Rightarrow> dict world \<Rightarrow> dataset_plan result \<times> dict world" where
  "plan_for env sweep nd uri c =
     (let plan = resolve_plan (se_repr env) (sp_context sweep) (nd_owners nd) uri in
      case dp_policy plan of
        None \<Rightarrow> (Inr plan, c)
      | Some policy \<Rightarrow>
         (case cadence_skip (se_hex env) (se_repr env) (se_fromiso env) policy (po_table_uuid (nd_owners nd)) uri
             (pc_now (sp_context sweep)) c of
            (Inl e, c1) \<Rightarrow> (Inl e, c1)
          | (Inr None, c1) \<Rightarrow> (Inr plan, c1)
          | (Inr (Some skipped), c1) \<Rightarrow> (Inr (if skipped = [] then plan else plan\<lparr>dp_skipped := Some skipped\<rparr>), c1)))"

definition evaluate_table ::
    "'e sweep_env \<Rightarrow> sweep_plan \<Rightarrow> named_dataset \<Rightarrow> dataset_plan \<Rightarrow> string \<Rightarrow> due_record world \<Rightarrow> due_verdict \<times> due_record world" where
  "evaluate_table env sweep nd plan uri d = (case named_at (sp_table_ids sweep) uri of
       None \<Rightarrow> (Is_unnamed, d)
     | Some _ \<Rightarrow> refresh_due (se_root env) (se_hex env) (se_due_open env)
         (due_question_of (se_repr env) plan (nd_table nd) (po_table_uuid (nd_owners nd)) uri (clones_of (sp_clones sweep) uri))
         (pc_now (sp_context sweep)) d)"

text \<open>\<^verbatim>\<open>_check_committed_files\<close>: the failures of the store and a record that is none are on the result.\<close>

definition check_table ::
    "'e sweep_env \<Rightarrow> sweep_plan \<Rightarrow> named_dataset \<Rightarrow> dataset_result \<Rightarrow> committed_files world
      \<Rightarrow> (exc + dataset_result) \<times> committed_files world" where
  "check_table env sweep nd r f = (case named_at (sp_table_ids sweep) (res_uri r) of
       None \<Rightarrow> (Inr r, f)
     | Some _ \<Rightarrow> (case check_committed (se_root env) (se_head env) (se_repr_int env) (se_versions env (res_uri r)) (res_uri r)
           (po_table_uuid (nd_owners nd)) f of
         (Inr found, f1) \<Rightarrow> (Inr (r\<lparr>res_overwritten_files := fc_overwritten found\<rparr>), f1)
       | (Inl e, f1) \<Rightarrow>
          (let x = xe_raised (se_open env (se_options env)) e in
           (if e \<in> {StoreError, FileNotFoundError, ValueError}
            then Inr (if res_error r = None
              then r\<lparr>res_error := Some (''committed files: '' @ ex_message x), res_error_type := Some (ex_type x)\<rparr> else r)
            else Inl x, f1))))"

text \<open>\<^verbatim>\<open>_stamp_cadence\<close>: only after a pass that could do something; a lost stamp is only logged.\<close>

definition stamp_cadence ::
    "'e sweep_env \<Rightarrow> named_dataset \<Rightarrow> dataset_plan \<Rightarrow> dataset_result \<Rightarrow> int \<Rightarrow> dict world \<Rightarrow> dict world" where
  "stamp_cadence env nd plan r tick c = (case dp_policy plan of
       None \<Rightarrow> c
     | Some policy \<Rightarrow>
        (if \<not> truthy (dict_get policy ''compact_interval_hours'') \<or> res_error r \<noteq> None \<or> res_refused r \<noteq> None \<or> res_skipped r \<noteq> None
         then c
         else snd (write_state (se_hex env) (se_repr env) policy (po_table_uuid (nd_owners nd)) (res_uri r) (se_isofmt env tick) c)))"

text \<open>A pass up to its expiry: the result of a dataset left alone, or what was named, planned and done.\<close>

definition begin_pass ::
    "'e sweep_env \<Rightarrow> sweep_plan \<Rightarrow> string \<Rightarrow> sweep_world
      \<Rightarrow> (exc + (dataset_result + named_dataset \<times> dataset_plan \<times> dataset_result)) \<times> sweep_plan \<times> sweep_world" where
  "begin_pass env sweep uri w = (case name_dataset env (sp_table_ids sweep) uri (sw_claims w) of
       (Inl refused, names, c1) \<Rightarrow> (Inr (Inl refused), sweep\<lparr>sp_table_ids := names\<rparr>, w\<lparr>sw_claims := c1\<rparr>)
     | (Inr nd, names, c1) \<Rightarrow>
        (let sweep1 = sweep\<lparr>sp_table_ids := names\<rparr>; w1 = w\<lparr>sw_claims := c1\<rparr> in
         case plan_for env sweep1 nd uri (sw_control w1) of
           (Inl e, k1) \<Rightarrow> (Inl (xe_raised (se_open env (se_options env)) e), sweep1, w1\<lparr>sw_control := k1\<rparr>)
         | (Inr plan, k1) \<Rightarrow>
            (let w2 = w1\<lparr>sw_control := k1\<rparr> in
             case dp_skipped plan of
               Some why \<Rightarrow> (Inr (Inl ((result_of uri)\<lparr>res_skipped := Some why\<rparr>)), sweep1, w2)
             | None \<Rightarrow> (case expire_named env sweep1 nd plan uri w2 of
                 (Inl x, w3) \<Rightarrow> (Inl x, sweep1, w3)
               | (Inr r, w3) \<Rightarrow> (Inr (Inr (nd, plan, r)), sweep1, w3)))))"

definition maintain_dataset ::
    "'e sweep_env \<Rightarrow> sweep_plan \<Rightarrow> string \<Rightarrow> sweep_world \<Rightarrow> (exc + dataset_result) \<times> sweep_plan \<times> sweep_world" where
  "maintain_dataset env sweep uri w = (case begin_pass env sweep uri w of
       (Inl x, s1, w1) \<Rightarrow> (Inl x, s1, w1)
     | (Inr (Inl r), s1, w1) \<Rightarrow> (Inr r, s1, w1)
     | (Inr (Inr (nd, plan, r)), s1, w1) \<Rightarrow>
        (case evaluate_table env s1 nd plan uri (sw_due w1) of
           (verdict, d1) \<Rightarrow>
            (case check_table env s1 nd (r\<lparr>res_due := Some verdict\<rparr>) (sw_commits w1) of
               (Inl x, f1) \<Rightarrow> (Inl x, s1, w1\<lparr>sw_due := d1, sw_commits := f1\<rparr>)
             | (Inr r1, f1) \<Rightarrow> (Inr r1, s1, w1\<lparr>sw_due := d1, sw_commits := f1,
                 sw_control := stamp_cadence env nd plan r1 (pc_now (sp_context s1)) (sw_control w1)\<rparr>))))"

definition expire_dataset ::
    "'e sweep_env \<Rightarrow> sweep_plan \<Rightarrow> string \<Rightarrow> sweep_world \<Rightarrow> (exc + dataset_result) \<times> sweep_plan \<times> sweep_world" where
  "expire_dataset env sweep uri w = (case begin_pass env sweep uri w of
       (Inl x, s1, w1) \<Rightarrow> (Inl x, s1, w1)
     | (Inr (Inl r), s1, w1) \<Rightarrow> (Inr r, s1, w1)
     | (Inr (Inr (nd, plan, r)), s1, w1) \<Rightarrow>
         (Inr r, s1, w1\<lparr>sw_control := stamp_cadence env nd plan r (pc_now (sp_context s1)) (sw_control w1)\<rparr>))"

section \<open>The tick\<close>

text \<open>\<^verbatim>\<open>execute_within_budget\<close>: \<open>readings i\<close> is the clock's answer before the \<open>i\<close>th item, from the start.\<close>

fun within_budget ::
    "(nat \<Rightarrow> int) \<Rightarrow> int \<Rightarrow> nat \<Rightarrow> ('a \<Rightarrow> 's \<Rightarrow> (exc + 'b) \<times> 's) \<Rightarrow> 'a list \<Rightarrow> 's \<Rightarrow> (exc + 'b list) \<times> 's" where
  "within_budget readings budget i run [] s = (Inr [], s)"
| "within_budget readings budget i run (x # xs) s =
     (if 0 < budget \<and> budget \<le> readings i then (Inr [], s)
      else (case run x s of
          (Inl e, s1) \<Rightarrow> (Inl e, s1)
        | (Inr r, s1) \<Rightarrow> (case within_budget readings budget (Suc i) run xs s1 of
            (Inl e, s2) \<Rightarrow> (Inl e, s2)
          | (Inr rs, s2) \<Rightarrow> (Inr (r # rs), s2))))"

text \<open>\<^verbatim>\<open>_is_stale\<close>: a claim that cannot be read keeps the record.\<close>

definition is_stale ::
    "'e sweep_env \<Rightarrow> due_record \<Rightarrow> table_ids \<Rightarrow> location_claim world \<Rightarrow> bool \<times> table_ids \<times> location_claim world" where
  "is_stale env r names c = (case named_at names (du_location r) of
       None \<Rightarrow> (True, names, c)
     | Some table \<Rightarrow> (case table_uuid (claims_of (se_registry env)) (se_dg_claims env) names table c of
         (Inl _, names1, c1) \<Rightarrow> (False, names1, c1)
       | (Inr uuid, names1, c1) \<Rightarrow> (uuid \<noteq> Some (du_uuid r), names1, c1)))"

fun stale_among ::
    "'e sweep_env \<Rightarrow> due_record list \<Rightarrow> table_ids \<Rightarrow> location_claim world \<Rightarrow> due_record list \<times> table_ids \<times> location_claim world" where
  "stale_among env [] names c = ([], names, c)"
| "stale_among env (r # rs) names c = (case is_stale env r names c of
       (stale, names1, c1) \<Rightarrow> (case stale_among env rs names1 c1 of
          (rest, names2, c2) \<Rightarrow> (if stale then r # rest else rest, names2, c2)))"

fun delete_each_due :: "root \<Rightarrow> (string \<Rightarrow> string) \<Rightarrow> due_record list \<Rightarrow> due_record world \<Rightarrow> unit result \<times> due_record world" where
  "delete_each_due rt hex [] d = (Inr (), d)"
| "delete_each_due rt hex (r # rs) d = (case delete_due rt hex (du_uuid r) d of
       (Inl e, d1) \<Rightarrow> (Inl e, d1) | (Inr _, d1) \<Rightarrow> delete_each_due rt hex rs d1)"

definition clear_stale_due ::
    "'e sweep_env \<Rightarrow> table_ids \<Rightarrow> string list \<Rightarrow> sweep_world \<Rightarrow> nat result \<times> sweep_world" where
  "clear_stale_due env names judged w =
     (if \<not> ti_complete names then (Inr 0, w)
      else (case list_due (sw_due w) of
          (Inl e, d1) \<Rightarrow> (Inl e, w\<lparr>sw_due := d1\<rparr>)
        | (Inr records, d1) \<Rightarrow>
           (case stale_among env (filter (\<lambda>r. due_record_name (se_hex env) (du_uuid r) \<in> set judged) records) names (sw_claims w) of
              (stale, _, c1) \<Rightarrow> (case delete_each_due (se_root env) (se_hex env) stale d1 of
                 (Inl e, d2) \<Rightarrow> (Inl e, w\<lparr>sw_claims := c1, sw_due := d2\<rparr>)
               | (Inr _, d2) \<Rightarrow> (Inr (length stale), w\<lparr>sw_claims := c1, sw_due := d2\<rparr>)))))"

definition clone_list_key :: string where
  "clone_list_key = due_prefix @ ''/state/clones.json''"

definition write_clone_list :: "clone_list \<Rightarrow> clone_list world \<Rightarrow> unit result \<times> clone_list world" where
  "write_clone_list cl k = put_record clone_list_key cl k"

definition read_clone_list :: "clone_list world \<Rightarrow> clone_list option result \<times> clone_list world" where
  "read_clone_list k = get_record clone_list_key k"

definition run_sweep ::
    "'e sweep_env \<Rightarrow> (nat \<Rightarrow> int) \<Rightarrow> int \<Rightarrow> sweep_world \<Rightarrow> (exc + dataset_result list) \<times> sweep_world" where
  "run_sweep env readings budget w =
     (let raised = xe_raised (se_open env (se_options env)) in
      case plan_sweep env w of
        (Inl e, w1) \<Rightarrow> (Inl (raised e), w1)
      | (Inr sweep, w1) \<Rightarrow> (case write_clone_list (sp_clones sweep) (sw_clones w1) of
          (Inl e, k1) \<Rightarrow> (Inl (raised e), w1\<lparr>sw_clones := k1\<rparr>)
        | (Inr _, k1) \<Rightarrow>
           (case within_budget readings budget 0 (\<lambda>uri (s, w). case maintain_dataset env s uri w of (x, s1, w1) \<Rightarrow> (x, (s1, w1)))
               (sp_uris sweep) (sweep, w1\<lparr>sw_clones := k1\<rparr>) of
              (Inl x, _, w2) \<Rightarrow> (Inl x, w2)
            | (Inr results, sweep2, w2) \<Rightarrow> (case clear_stale_due env (sp_table_ids sweep2) (sp_due_judged sweep) w2 of
                (Inl e, w3) \<Rightarrow> (Inl (raised e), w3)
              | (Inr _, w3) \<Rightarrow> (Inr (sp_decided sweep @ results), w3)))))"

section \<open>The events of a tick\<close>

datatype lane = Complete_lane | Fail_lane

definition did_material_work :: "dataset_result \<Rightarrow> bool" where
  "did_material_work r = (0 < res_old_versions_removed r \<or> 0 < res_base_files_removed r)"

definition lane_of :: "dataset_result \<Rightarrow> lane option" where
  "lane_of r = (let e = (case res_error r of None \<Rightarrow> [] | Some m \<Rightarrow> m) in
     if res_table_id r = None then None
     else if prefix ''maintain:'' e then Some Fail_lane
     else if \<not> prefix ''open:'' e \<and> did_material_work r then Some Complete_lane
     else None)"

definition emit_selection :: "dataset_result list \<Rightarrow> dataset_result list \<times> dataset_result list" where
  "emit_selection results = (filter (\<lambda>r. lane_of r = Some Complete_lane) results, filter (\<lambda>r. lane_of r = Some Fail_lane) results)"

section \<open>What is in the trash is left alone\<close>

lemma map_of_dict_of: "map_of (dict_of kv) k = None \<longleftrightarrow> k \<notin> fst ` set kv"
proof -
  have "map_of (fold (\<lambda>(k, v). AList.update k v) kv acc) k = None \<longleftrightarrow> k \<notin> fst ` set kv \<and> map_of acc k = None" for acc
    by (induction kv arbitrary: acc) (auto simp: update_conv' split: if_splits)
  then show ?thesis by (simp add: dict_of_def)
qed

lemma split_on_length: "Suc 0 \<le> length (split_on c s)"
  by (simp add: Suc_leI)

lemma under_is_a_leading_path:
  "path_under l p \<longleftrightarrow> (\<exists>n. 1 \<le> n \<and> n \<le> length (split_on (CHR ''/'') p) \<and> join_with (CHR ''/'') (take n (split_on (CHR ''/'') p)) = l)"
    (is "_ \<longleftrightarrow> ?R")
proof
  let ?segs = "split_on (CHR ''/'') p"
  assume "path_under l p"
  then consider "p = l" | r where "p = l @ CHR ''/'' # r"
    by (auto simp: path_under_def prefix_def)
  then show ?R
  proof cases
    case 1
    then show ?thesis
      by (intro exI [of _ "length ?segs"]) (simp add: join_split split_on_length)
  next
    case (2 r)
    then show ?thesis
      by (intro exI [of _ "length (split_on (CHR ''/'') l)"])
        (simp add: join_split split_on_split split_on_length)
  qed
next
  let ?segs = "split_on (CHR ''/'') p"
  assume ?R
  then obtain n where n: "1 \<le> n" "n \<le> length ?segs" "join_with (CHR ''/'') (take n ?segs) = l" by blast
  show "path_under l p"
  proof (cases "n = length ?segs")
    case True
    then show ?thesis using n by (simp add: join_split path_under_def)
  next
    case False
    have "take n ?segs \<noteq> []" using n False by (cases ?segs) auto
    moreover have "drop n ?segs \<noteq> []" using n(2) False by simp
    ultimately have "p = l @ CHR ''/'' # join_with (CHR ''/'') (drop n ?segs)"
      using join_with_append [of "take n ?segs" "drop n ?segs" "CHR ''/''"] n(3) by (simp add: join_split)
    then have "prefix (l @ ''/'') p" by (intro prefixI [of _ _ "join_with (CHR ''/'') (drop n ?segs)"]) simp
    then show ?thesis by (simp add: path_under_def)
  qed
qed

lemma map_filter_Nil: "List.map_filter f xs = [] \<longleftrightarrow> (\<forall>x\<in>set xs. f x = None)"
  by (induction xs) (auto simp: map_filter_def)

lemma why_in_trash_iff:
  "why_in_trash uri trashed = None \<longleftrightarrow> (\<forall>l. map_of trashed l \<noteq> None \<longrightarrow> \<not> path_under l (decoded_path uri))"
proof -
  let ?segs = "split_on (CHR ''/'') (decoded_path uri)"
  let ?hits = "List.map_filter (\<lambda>n. map_of trashed (join_with (CHR ''/'') (take n ?segs))) (rev [1..<Suc (length ?segs)])"
  have "why_in_trash uri trashed = None \<longleftrightarrow> ?hits = []"
    by (cases ?hits) (simp_all add: why_in_trash_def)
  also have "\<dots> \<longleftrightarrow> (\<forall>n\<in>set (rev [1..<Suc (length ?segs)]). map_of trashed (join_with (CHR ''/'') (take n ?segs)) = None)"
    by (rule map_filter_Nil)
  also have "\<dots> \<longleftrightarrow> (\<forall>n. 1 \<le> n \<and> n \<le> length ?segs \<longrightarrow> map_of trashed (join_with (CHR ''/'') (take n ?segs)) = None)"
    unfolding set_rev set_upt atLeastLessThanSuc_atLeastAtMost by auto
  finally show ?thesis
    unfolding under_is_a_leading_path by auto
qed

lemma why_in_trash_records:
  "why_in_trash uri (trashed_locations repr records) = None \<longleftrightarrow>
   (\<forall>r\<in>set records. truthy (dict_get r ''location'') \<longrightarrow>
      \<not> path_under (decoded_path (py_str repr (the (dict_get r ''location'')))) (decoded_path uri))"
  unfolding why_in_trash_iff trashed_locations_def map_of_dict_of by (auto simp: image_iff)

lemma exclude_trashed_kept:
  "exclude_trashed found trashed = (kept_uris, decided) \<Longrightarrow>
   kept_uris = filter (\<lambda>uri. why_in_trash uri trashed = None) found \<and>
   map res_uri decided = filter (\<lambda>uri. why_in_trash uri trashed \<noteq> None) found"
proof -
  let ?frozen = "List.map_filter (\<lambda>uri. map_option (Pair uri) (why_in_trash uri trashed)) found"
  have f: "map fst ?frozen = filter (\<lambda>uri. why_in_trash uri trashed \<noteq> None) found"
    by (induction found) (auto simp: map_filter_def)
  then have m: "u \<in> fst ` set ?frozen \<longleftrightarrow> u \<in> set found \<and> why_in_trash u trashed \<noteq> None" for u
    by (metis (mono_tags, lifting) list.set_map mem_Collect_eq set_filter)
  assume a: "exclude_trashed found trashed = (kept_uris, decided)"
  show ?thesis
  proof (cases "?frozen = []")
    case True
    with f m a show ?thesis
      by (auto simp: exclude_trashed_def Let_def filter_id_conv filter_empty_conv)
  next
    case False
    then have "kept_uris = filter (\<lambda>uri. uri \<notin> fst ` set ?frozen) found"
      "decided = map (\<lambda>(uri, why). (result_of uri)\<lparr>res_trashed := Some why\<rparr>) ?frozen"
      using a by (auto simp: exclude_trashed_def Let_def)
    moreover have "map res_uri (map (\<lambda>(uri, why). (result_of uri)\<lparr>res_trashed := Some why\<rparr>) ?frozen) = map fst ?frozen"
      by (simp add: comp_def split_beta result_of_def)
    ultimately show ?thesis
      using f m by (auto intro: filter_cong)
  qed
qed

lemma plan_sweep_uris:
  assumes "plan_sweep env w = (Inr sweep, w')"
  shows "\<exists>policies c1 records c2 found kept_uris. list_policies (sw_control w) = (Inr policies, c1) \<and>
    trash_list_all c1 = (Inr records, c2) \<and> sp_uris sweep = se_shuffle env kept_uris \<and>
    found = discover_all (se_decode env) (se_fs env) (se_max_depth env) (fst (buckets_to_sweep (se_repr env) (se_sweep_buckets env) c2)) \<and>
    exclude_trashed found (trashed_locations (se_repr env) records) = (kept_uris, sp_decided sweep)"
  using assms by (auto simp: plan_sweep_def Let_def split: prod.splits sum.splits)

text \<open>
  C25: a tick never touches what is in the trash. While the control root answers, no dataset of
  its plan is the location of any trash record, expired or not, or lies beneath one: neither a
  recoverable table nor a branch of one, in whichever spelling the record holds the location.
\<close>

theorem plan_spares_the_trash:
  assumes "plan_sweep env w = (Inr sweep, w')" "pending (sw_control w) = []"
    and "\<And>xs. set (se_shuffle env xs) = set xs"
    and "uri \<in> set (sp_uris sweep)"
    and "lookup (sw_control w) k = Some (Json r)" "in_prefix trash_prefix k" "truthy (dict_get r ''location'')"
  shows "\<not> path_under (decoded_path (py_str (se_repr env) (the (dict_get r ''location'')))) (decoded_path uri)"
proof -
  obtain policies c1 records c2 found kept_uris where p: "list_policies (sw_control w) = (Inr policies, c1)"
    "trash_list_all c1 = (Inr records, c2)" "sp_uris sweep = se_shuffle env kept_uris"
    "exclude_trashed found (trashed_locations (se_repr env) records) = (kept_uris, sp_decided sweep)"
    using plan_sweep_uris [OF assms(1)] by blast
  have "c1 = sw_control w"
    using p(1) assms(2) by (auto simp: list_policies_def list_records_def access_def split: sum.splits)
  moreover have "(k, Json r) \<in> set (objects (sw_control w))"
    using assms(5) by (auto simp: lookup_def dest: map_of_SomeD)
  ultimately have "r \<in> set records"
    using p(2) assms(2,6) by (auto simp: trash_list_all_def list_records_def access_def read_listed_tolerant in_map_filter
        json_of_def intro!: exI [of _ k] exI [of _ "Json r"])
  moreover have "uri \<in> set kept_uris"
    using assms(3,4) p(3) by simp
  ultimately show ?thesis
    using exclude_trashed_kept [OF p(4)] assms(7) by (auto simp: why_in_trash_records)
qed

section \<open>What a pass may write\<close>

text \<open>What the probe saw when it answers that expiry has nothing to write.\<close>

lemma probe_idle:
  assumes "\<not> wp_may_write (probe_before_vending xe uri policy directories tick d)"
  obtains tbl keys where "xe_open xe uri d = Inr tbl" "lt_config tbl = Inr keys" "armed_keys keys = []"
    "probe_reclaimable tbl policy d = Inr False" "probe_stranded xe tbl policy directories tick d = Inr False"
  using assms by (auto simp: probe_before_vending_def unread_probe_def split: sum.splits)

lemma reclaim_nothing_stranded:
  assumes "pending d = []" "fst (unreferenced th ds tick d) = Inr []"
  shows "snd (reclaim th ds tick d) = d"
proof -
  obtain l where "list_each ds d = (Inr l, d)"
    using list_each_quiet [OF assms(1)] by blast
  with assms(2) show ?thesis
    by (simp add: reclaim_def unreferenced_def)
qed

lemma reclaim_all_unmet:
  assumes "pending d = []" "xp_cleanup_enabled policy \<longrightarrow> \<not> enough_reclaimable r policy"
    "probe_stranded xe tbl policy (xt_data_directories target) (xt_now target) d = Inr False"
  shows "snd (snd (reclaim_all env tbl target policy r d)) = d"
proof -
  have "reclaim_versions env tbl target policy r d = (None, r, d)"
    using assms(2) by (auto simp: reclaim_versions_def)
  moreover have "snd (snd (reclaim_data_directories tbl target policy r d)) = d"
  proof (cases "xt_data_directories target = [] \<or> \<not> xp_cleanup_enabled policy")
    case True
    then show ?thesis by (auto simp: reclaim_data_directories_def Let_def)
  next
    case False
    then have "fst (unreferenced (lt_handle tbl d) (xt_data_directories target) (xt_now target) d) = Inr []"
      using assms(3) by (cases "fst (unreferenced (lt_handle tbl d) (xt_data_directories target) (xt_now target) d)")
        (auto simp: probe_stranded_def)
    from reclaim_nothing_stranded [OF assms(1) this] False show ?thesis
      by (auto simp: reclaim_data_directories_def Let_def split: prod.splits sum.splits)
  qed
  ultimately show ?thesis by (simp add: reclaim_all_def)
qed

lemma reclaim_under_history_data:
  assumes "snd (snd (reclaim_all env tbl target policy r (xw_data p))) = xw_data p"
    "reclaim_under_history env tbl target policy r p = (failure, r', p')"
  shows "xw_data p' = xw_data p"
  using assms by (auto simp: reclaim_under_history_def fence_held_def split: option.splits prod.splits sum.splits if_splits)

lemma idle_pass_writes_nothing:
  assumes "pending (xw_data p) = []" "expire_versions xe target policy p = (x, p')"
    "\<not> wp_may_write (probe_before_vending xe (xt_uri target) policy (xt_data_directories target) (xt_now target) (xw_data p))"
  shows "xw_data p' = xw_data p"
proof -
  obtain tbl keys where tbl: "xe_open xe (xt_uri target) (xw_data p) = Inr tbl" "lt_config tbl = Inr keys" "armed_keys keys = []"
    and met: "probe_reclaimable tbl policy (xw_data p) = Inr False"
    and str: "probe_stranded xe tbl policy (xt_data_directories target) (xt_now target) (xw_data p) = Inr False"
    using probe_idle [OF assms(3)] by blast
  obtain op where op: "open_target xe target (xw_data p) = Inr op" "op_table op = tbl"
    using tbl(1) by (cases "manifest_feature_flags (lt_manifest tbl)") (auto simp: open_target_def)
  have "disarm_commit_path_cleanup tbl (xw_data p) = (\<lparr>do_disarmed = False, do_error = None\<rparr>, xw_data p)"
    using tbl by (simp add: disarm_commit_path_cleanup_def disarm_def Let_def)
  moreover have "xw_data p1 = xw_data p" if c: "count_and_reclaim xe tbl target policy r p = (failure, r1, p1)" for r failure r1 p1
  proof (cases "xp_cleanup_enabled policy")
    case False
    then show ?thesis
      using c reclaim_under_history_data [OF reclaim_all_unmet [OF assms(1) _ str]] by (auto simp: count_and_reclaim_def)
  next
    case True
    then obtain n where n: "lt_explain tbl (xp_older_than policy) (xp_retain_versions policy) (xw_data p) = Inr n" "n < xp_min_reclaimable policy"
      using met by (auto simp: probe_reclaimable_def map_sum_def split: sum.splits)
    then have "\<not> enough_reclaimable (r\<lparr>res_reclaimable_versions := Some n\<rparr>) policy"
      by (simp add: enough_reclaimable_def)
    with c True n(1) show ?thesis
      using reclaim_under_history_data [OF reclaim_all_unmet [OF assms(1) _ str]] by (auto simp: count_and_reclaim_def)
  qed
  ultimately show ?thesis
    using assms(2) by (auto simp: expire_versions_def op Let_def split: sum.splits option.splits prod.splits)
qed

lemma data_directories_of_pass:
  "data_directories_of env names uri w = (x, w') \<Longrightarrow> sw_pass w' = sw_pass w"
  by (auto simp: data_directories_of_def split: option.splits sum.splits prod.splits if_splits)

lemma expire_named_writes:
  assumes "expire_named env sweep nd plan uri w = (x, w')" "pending (xw_data (sw_pass w)) = []"
    "xw_data (sw_pass w') \<noteq> xw_data (sw_pass w)"
  shows "\<exists>tier options. write_options_for (se_repr env) (se_vend env) (se_door env (nd_table nd)) (se_options env) uri = Inr (tier, options)"
proof -
  obtain directories w1 where d: "data_directories_of env (sp_table_ids sweep) uri w = (Inr directories, w1)"
    using assms(1,3) data_directories_of_pass by (fastforce simp: expire_named_def split: sum.splits prod.splits)
  have w1: "sw_pass w1 = sw_pass w"
    by (rule data_directories_of_pass [OF d])
  let ?policy = "expiry_policy_of (se_min_versions env) (se_staged_grace env) plan"
  let ?target = "target_of env sweep nd directories uri"
  let ?probe = "probe_before_vending (se_open env (se_options env)) uri ?policy directories (xt_now ?target) (xw_data (sw_pass w1))"
  obtain options p1 where s: "signed_with env ?probe ?target (nd_table nd) = Inr options"
      "expire_versions (se_open env options) ?target ?policy (sw_pass w1) = (x, p1)" "w' = w1\<lparr>sw_pass := p1\<rparr>"
    using assms(1,3) d w1 by (auto simp: expire_named_def Let_def split: sum.splits prod.splits)
  have t: "xt_uri ?target = uri" "xt_data_directories ?target = directories"
    by (simp_all add: target_of_def)
  show ?thesis
  proof (cases "wp_may_write ?probe")
    case True
    with s(1) t show ?thesis
      by (auto simp: signed_with_def Let_def split: sum.splits)
  next
    case False
    then have "options = se_options env"
      using s(1) by (simp add: signed_with_def)
    with False s(2,3) assms(2,3) w1 t show ?thesis
      using idle_pass_writes_nothing [of "sw_pass w1" "se_open env (se_options env)" ?target ?policy x p1] by simp
  qed
qed

lemma begin_pass_writes:
  assumes "begin_pass env sweep uri w = (x, sweep', w')" "pending (xw_data (sw_pass w)) = []"
    "xw_data (sw_pass w') \<noteq> xw_data (sw_pass w)"
  shows "\<exists>table owners names c tier options. table_of (sp_table_ids sweep) uri = Some table \<and>
    policy_owners_of (claims_of (se_registry env)) (se_dg_claims env) (sp_table_ids sweep) table (sw_claims w) = (Some owners, names, c) \<and>
    write_options_for (se_repr env) (se_vend env) (se_door env table) (se_options env) uri = Inr (tier, options)"
proof -
  obtain nd names c where nd: "name_dataset env (sp_table_ids sweep) uri (sw_claims w) = (Inr nd, names, c)"
    using assms(1,3) by (auto simp: begin_pass_def split: sum.splits prod.splits)
  obtain plan k1 y where e: "expire_named env (sweep\<lparr>sp_table_ids := names\<rparr>) nd plan uri (w\<lparr>sw_claims := c, sw_control := k1\<rparr>) = (y, w')"
    using assms(1,3) nd by (auto simp: begin_pass_def Let_def split: sum.splits prod.splits option.splits)
  from expire_named_writes [OF e] assms(2,3) nd show ?thesis
    by (auto simp: name_dataset_def split: option.splits prod.splits)
qed


text \<open>A root with a table that is kept, under the name \<open>t\<close>, and one that is in the trash.\<close>

definition swept_fs :: filesystem where
  "swept_fs = \<lparr>
     fs_list = (\<lambda>p. if p = ''b'' then Listed [\<lparr>e_path = ''b/t'', e_type = Directory\<rparr>, \<lparr>e_path = ''b/x'', e_type = Directory\<rparr>]
       else Absent),
     fs_info = (\<lambda>p. Inr (if p = ''b/t/_versions'' \<or> p = ''b/x/_versions'' then Directory else NotFound)),
     fs_is_s3 = True\<rparr>"

definition trashed_x :: dict where
  "trashed_x = [(''id'', JStr ''x''), (''location'', JStr ''s3://b/x'')]"

definition small_sweep_env :: "history_fence content sweep_env" where
  "small_sweep_env = \<lparr>se_root = S3, se_repr = (\<lambda>_. []), se_hex = id, se_fromiso = (\<lambda>_. None), se_isofmt = (\<lambda>_. []),
     se_repr_int = (\<lambda>_. []), se_decode = id, se_fs = swept_fs, se_max_depth = 3, se_sweep_buckets = [''b''], se_configured = [],
     se_shuffle = rev, se_now = 1000000000, se_older_than = 86400000000, se_min_versions = 1, se_staged_grace = 600000000,
     se_options = \<lparr>so_key_pair = None, so_options = []\<rparr>,
     se_vend = \<lparr>vs_catalog_url = [], vs_s3_endpoint = [], vs_token = None\<rparr>, se_door = (\<lambda>_. Unreachable),
     se_open = (\<lambda>_. small_expiry_env (Inr [])), se_base_paths = (\<lambda>_. Inr []),
     se_rows = (\<lambda>_. Some [\<lparr>mr_object_id = ''t'', mr_object_type = ''table'', mr_location = ''t'', mr_uuid = None\<rparr>]),
     se_registry = \<lparr>bg_root = S3, bg_hex = id\<rparr>, se_dg_bases = (\<lambda>_. NotObject), se_dg_claims = (\<lambda>_. NotObject),
     se_due_open = (\<lambda>_. Inl StoreError), se_head = (\<lambda>_. Inr None), se_versions = (\<lambda>_. Inr [])\<rparr>"

definition claim_on_t :: location_claim where
  "claim_on_t = \<lparr>lc_location = ''b/t'', lc_table = ''t'', lc_segments = [''b'', ''t''], lc_uuid = Some ''u'', lc_claimed_at = 0,
     lc_token = None, lc_released_at = None, lc_fence = None\<rparr>"

definition small_sweep_world :: sweep_world where
  "small_sweep_world = \<lparr>sw_pass = small_expiry_world,
     sw_claims = \<lparr>objects = [(claim_key \<lparr>cl_root = S3, cl_hex = id\<rparr> ''b/t'', Json claim_on_t)], clock = 0, pending = []\<rparr>,
     sw_bases = \<lparr>objects = [], clock = 0, pending = []\<rparr>,
     sw_control = \<lparr>objects = [(''_trash/x.json'', Json trashed_x)], clock = 0, pending = []\<rparr>,
     sw_due = \<lparr>objects = [], clock = 0, pending = []\<rparr>, sw_commits = \<lparr>objects = [], clock = 0, pending = []\<rparr>,
     sw_clones = \<lparr>objects = [], clock = 0, pending = []\<rparr>\<rparr>"

definition small_sweep_plan :: sweep_plan where
  "small_sweep_plan = projr (fst (plan_sweep small_sweep_env small_sweep_world))"

lemma small_sweep_planned:
  "\<not> isl (fst (plan_sweep small_sweep_env small_sweep_world))" "sp_uris small_sweep_plan = [''s3://b/t'']"
  by code_simp+

theorem plan_spares_the_trash_witness:
  "sp_uris small_sweep_plan = [''s3://b/t''] \<and> \<not> path_under (decoded_path ''s3://b/x'') (decoded_path ''s3://b/t'')"
proof -
  have "plan_sweep small_sweep_env small_sweep_world = (Inr small_sweep_plan, snd (plan_sweep small_sweep_env small_sweep_world))"
    using small_sweep_planned(1) unfolding small_sweep_plan_def
    by (cases "plan_sweep small_sweep_env small_sweep_world"; cases "fst (plan_sweep small_sweep_env small_sweep_world)") auto
  moreover have "lookup (sw_control small_sweep_world) ''_trash/x.json'' = Some (Json trashed_x)" "pending (sw_control small_sweep_world) = []"
    by (simp_all add: small_sweep_world_def lookup_def)
  moreover have "in_prefix trash_prefix ''_trash/x.json''" "set (se_shuffle small_sweep_env xs) = set xs" for xs
    by (simp_all add: in_prefix_def trash_prefix_def suffix_def small_sweep_env_def)
  ultimately show ?thesis
    using plan_spares_the_trash [of small_sweep_env small_sweep_world small_sweep_plan _ "''s3://b/t''" "''_trash/x.json''" trashed_x]
      small_sweep_planned(2) by (simp add: trashed_x_def small_sweep_env_def)
qed


end
