(* ===== verification/Drift_Sources.thy ===== *)
theory Drift_Sources
  imports Table_Names Sweep
begin

text \<open>
  The first half of \<^verbatim>\<open>maintenance/services/reconcile.py\<close>: the readers of the three stores the drift report
  compares, and \<^verbatim>\<open>load_sources\<close>, which pairs each with the reason it failed. A registry is listed and its
  records opened one by one, so a record that goes away in between is one the scan could not read.

  What OpenFGA answers for a page, what ListBuckets answers and what the manifests hold are arguments; the
  manifests are read twice, once for their namespaces and once for their tables. The six reads that
  \<^verbatim>\<open>asyncio.gather\<close> runs together are taken in the order the code lists them. Wording is left out: a
  reason is the value the text is made of.
\<close>

section \<open>What a scan could not see\<close>

datatype record_defect =
    Unreadable_record string | Not_an_object string | Missing_keys string "string list" | Blank_keys string "string list"

datatype source_failure =
    Fga_absent | No_bucket_client | Read_failed string error | Storage_unreachable error

datatype scan_note =
    Record_skipped record_defect | Tuple_pages_left | Buckets_paged nat | Root_unread string error
  | Registry_unread source_failure | Discovery_failed error | Depth_limit string | Bytes_not_looked_for string string
  | Storage_unopened error | File_scan_note "scan_reason option"

record incomplete_scan =
  in_source :: string
  in_reason :: scan_note

text \<open>\<^verbatim>\<open>xs or []\<close>.\<close>

definition or_empty :: "'a list option \<Rightarrow> 'a list" where
  "or_empty x = (case x of None \<Rightarrow> [] | Some xs \<Rightarrow> xs)"

text \<open>\<^verbatim>\<open>sorted({...})\<close> of pairs.\<close>

definition sort_pairs :: "('a::linorder \<times> 'b::linorder) list \<Rightarrow> ('a \<times> 'b) list" where
  "sort_pairs xs = sort_key fst (sort_key snd (remdups xs))"

lemma set_sort_pairs [simp]: "set (sort_pairs xs) = set xs"
  by (simp add: sort_pairs_def)

section \<open>The registries\<close>

definition judge_record :: "string list \<Rightarrow> string list \<Rightarrow> string \<Rightarrow> dict content option \<Rightarrow> record_defect + dict" where
  "judge_record required non_empty path found = (case found of
       Some (Json r) \<Rightarrow>
         (let absent = filter (\<lambda>k. dict_get r k = None) required; blank = filter (\<lambda>k. \<not> truthy (dict_get r k)) non_empty in
          if absent \<noteq> [] then Inl (Missing_keys path absent)
          else if blank \<noteq> [] then Inl (Blank_keys path blank) else Inr r)
     | Some NotObject \<Rightarrow> Inl (Not_an_object path)
     | _ \<Rightarrow> Inl (Unreadable_record path))"

fun open_records ::
    "string list \<Rightarrow> string list \<Rightarrow> string list \<Rightarrow> dict world \<Rightarrow> (dict list \<times> record_defect list) \<times> dict world" where
  "open_records required non_empty [] w = (([], []), w)"
| "open_records required non_empty (path # paths) w = (case access w of
       (opened, w1) \<Rightarrow> (case open_records required non_empty paths w1 of
         ((records, skipped), w2) \<Rightarrow>
           (case judge_record required non_empty path (if opened then lookup w1 path else None) of
              Inl defect \<Rightarrow> ((records, defect # skipped), w2)
            | Inr r \<Rightarrow> ((r # records, skipped), w2))))"

definition list_json_records ::
    "string \<Rightarrow> string list \<Rightarrow> string list \<Rightarrow> dict world \<Rightarrow> (dict list \<times> record_defect list) result \<times> dict world" where
  "list_json_records pre required non_empty w = (case access w of
       (False, w1) \<Rightarrow> (Inl StoreError, w1)
     | (True, w1) \<Rightarrow>
        (case open_records required non_empty (filter (in_prefix pre) (map fst (objects w1))) w1 of
           (found, w2) \<Rightarrow> (Inr found, w2)))"

definition registry_source ::
    "string \<Rightarrow> string \<Rightarrow> string list \<Rightarrow> string list \<Rightarrow> dict world
      \<Rightarrow> (dict list option \<times> source_failure option \<times> incomplete_scan list) \<times> dict world" where
  "registry_source source_name pre required non_empty w = (case list_json_records pre required non_empty w of
       (Inl e, w1) \<Rightarrow> ((None, Some (Read_failed source_name e), []), w1)
     | (Inr (records, skipped), w1) \<Rightarrow>
         ((Some records, None, map (\<lambda>d. \<lparr>in_source = source_name, in_reason = Record_skipped d\<rparr>) skipped), w1))"

section \<open>The manifests\<close>

definition namespaces_in :: "manifest_row list \<Rightarrow> string list" where
  "namespaces_in rs = sort (remdups (map mr_object_id (filter (\<lambda>r.
     mr_object_type r = ''namespace'' \<and> mr_object_id r \<noteq> [] \<and> catalog_delimiter \<notin> set (mr_object_id r)) rs)))"

text \<open>A location of \<^verbatim>\<open>None\<close> does not compare with a text, so two rows of one table that differ in that are a TypeError.\<close>

definition tables_in :: "manifest_row list \<Rightarrow> (string \<times> string option) list result" where
  "tables_in rs = (let found = map (\<lambda>r. (mr_object_id r, mr_location r))
       (filter (\<lambda>r. mr_object_type r = ''table'' \<and> mr_object_id r \<noteq> []) rs) in
     if list_ex (\<lambda>(table, location). location = [] \<and> list_ex (\<lambda>(t, l). t = table \<and> l \<noteq> []) found) found then Inl TypeError
     else Inr (map (\<lambda>(table, location). (table, if location = [] then None else Some location)) (sort_pairs found)))"

fun top_level_namespaces_across ::
    "(string \<Rightarrow> manifest_row list result) \<Rightarrow> string list \<Rightarrow> (string \<times> string) list \<times> (string \<times> error) list" where
  "top_level_namespaces_across rows [] = ([], [])"
| "top_level_namespaces_across rows (root # roots) =
     (case top_level_namespaces_across rows roots of (found, unreadable) \<Rightarrow>
       (case rows root of
          Inl e \<Rightarrow> (found, (root, e) # unreadable)
        | Inr rs \<Rightarrow> (sort_pairs (map (\<lambda>n. (n, root)) (namespaces_in rs) @ found), unreadable)))"

record table_scan =
  ts_found :: "(string \<times> string) list"
  ts_unreadable :: "(string \<times> error) list"
  ts_locations :: "(string \<times> string \<times> string option) list"

definition scan_root :: "(string \<Rightarrow> manifest_row list result) \<Rightarrow> string \<Rightarrow> table_scan \<Rightarrow> table_scan" where
  "scan_root rows root scan = (case (case rows root of Inl e \<Rightarrow> Inl e | Inr rs \<Rightarrow> tables_in rs) of
       Inl e \<Rightarrow> scan\<lparr>ts_unreadable := ts_unreadable scan @ [(root, e)]\<rparr>
     | Inr found \<Rightarrow> scan\<lparr>ts_found := ts_found scan @ map (\<lambda>(table, _). (table, root)) found,
         ts_locations := fold (\<lambda>(table, location). AList.update table (root, location)) found (ts_locations scan)\<rparr>)"

definition tables_across :: "(string \<Rightarrow> manifest_row list result) \<Rightarrow> string list \<Rightarrow> table_scan" where
  "tables_across rows roots =
     (let scan = fold (scan_root rows) roots \<lparr>ts_found = [], ts_unreadable = [], ts_locations = []\<rparr> in
      scan\<lparr>ts_found := sort_pairs (ts_found scan)\<rparr>)"

definition resolved :: "string \<Rightarrow> string \<Rightarrow> string" where
  "resolved root location = (if sublist ''://'' location then location
     else rstrip_slash root @ ''/'' @ dropWhile (\<lambda>c. c = CHR ''/'') location)"

section \<open>The uuids\<close>

text \<open>A claim speaks for a table that is still there: one that records a uuid and was not released.\<close>

definition live_uuid :: "location_claim \<Rightarrow> string option" where
  "live_uuid c = (if lc_released_at c = None then lc_uuid c else None)"

fun live_uuids ::
    "claim_store \<Rightarrow> (location_claim content \<Rightarrow> 'e) \<Rightarrow> (string \<times> string \<times> string option) list \<Rightarrow> location_claim world
      \<Rightarrow> (string \<times> string) list result \<times> location_claim world" where
  "live_uuids st dg [] w = (Inr [], w)"
| "live_uuids st dg ((table, root, None) # registered) w = live_uuids st dg registered w"
| "live_uuids st dg ((table, root, Some location) # registered) w = (case claim_read st dg (resolved root location) w of
       (Inl e, w1) \<Rightarrow> (Inl e, w1)
     | (Inr found, w1) \<Rightarrow> (case live_uuids st dg registered w1 of
         (Inl e, w2) \<Rightarrow> (Inl e, w2)
       | (Inr live, w2) \<Rightarrow> (Inr (case Option.bind found (live_uuid \<circ> cr_claim) of
           None \<Rightarrow> live | Some uuid \<Rightarrow> (table, uuid) # live), w2)))"

definition uuids_of ::
    "claim_store \<Rightarrow> (location_claim content \<Rightarrow> 'e) \<Rightarrow> (string \<times> string \<times> string option) list \<Rightarrow> dict list
      \<Rightarrow> location_claim world \<Rightarrow> ((string \<times> string) list \<times> string list) result \<times> location_claim world" where
  "uuids_of st dg registered trash_records w = (case live_uuids st dg registered w of
       (Inl e, w1) \<Rightarrow> (Inl e, w1)
     | (Inr live, w1) \<Rightarrow> (Inr (live, List.map_filter object_uuid trash_records), w1))"

section \<open>The tuples\<close>

type_synonym tuple_counts = "(string \<times> (string \<times> nat) list) list"

record fga_tuple =
  ft_user :: string
  ft_relation :: string
  ft_object :: string

definition bookkeeping_relations :: "string list" where
  "bookkeeping_relations = [''admin_revision'']"

definition max_tuple_pages :: nat where
  "max_tuple_pages = 200"

text \<open>\<^verbatim>\<open>s.partition(":")\<close>.\<close>

definition object_type_of :: "string \<Rightarrow> string" where
  "object_type_of s = takeWhile (\<lambda>c. c \<noteq> CHR '':'') s"

definition object_id_of :: "string \<Rightarrow> string" where
  "object_id_of s = tl (dropWhile (\<lambda>c. c \<noteq> CHR '':'') s)"

definition counted :: "tuple_counts \<Rightarrow> string \<Rightarrow> (string \<times> nat) list" where
  "counted counts t = or_empty (map_of counts t)"

definition count_of :: "(string \<times> nat) list \<Rightarrow> string \<Rightarrow> nat" where
  "count_of counts k = (case map_of counts k of None \<Rightarrow> 0 | Some n \<Rightarrow> n)"

definition count_tuple :: "fga_tuple \<Rightarrow> tuple_counts \<Rightarrow> tuple_counts" where
  "count_tuple item counts = (let t = object_type_of (ft_object item); i = object_id_of (ft_object item) in
     if i = [] \<or> ft_relation item \<in> set bookkeeping_relations then counts
     else AList.update t (AList.update i (count_of (counted counts t) i + 1) (counted counts t)) counts)"

type_synonym tuple_pages = "string option \<Rightarrow> (fga_tuple list \<times> string option) result"

fun scan_pages :: "nat \<Rightarrow> tuple_pages \<Rightarrow> string option \<Rightarrow> tuple_counts \<Rightarrow> (tuple_counts \<times> bool) result" where
  "scan_pages 0 pages token counts = Inr (counts, True)"
| "scan_pages (Suc n) pages token counts = (case pages token of
       Inl e \<Rightarrow> Inl e
     | Inr (page, cursor) \<Rightarrow> (let counted_now = fold count_tuple page counts in
         if cursor \<in> {None, Some []} then Inr (counted_now, False) else scan_pages n pages cursor counted_now))"

definition scan_tuples :: "tuple_pages \<Rightarrow> (tuple_counts \<times> bool) result" where
  "scan_tuples pages = scan_pages max_tuple_pages pages None []"

section \<open>Every source\<close>

record sources =
  sc_tuples :: "tuple_counts option"
  sc_tuples_error :: "source_failure option"
  sc_project_records :: "dict list option"
  sc_project_records_error :: "source_failure option"
  sc_warehouse_records :: "dict list option"
  sc_warehouse_records_error :: "source_failure option"
  sc_trash :: "dict list option"
  sc_trash_error :: "source_failure option"
  sc_bindings :: "dict list option"
  sc_bindings_error :: "source_failure option"
  sc_namespaces :: "(string \<times> string) list option"
  sc_namespaces_error :: "source_failure option"
  sc_tables :: "(string \<times> string) list option"
  sc_table_locations :: "(string \<times> string \<times> string option) list option"
  sc_tables_error :: "source_failure option"
  sc_table_uuids :: "(string \<times> string) list option"
  sc_trashed_uuids :: "string list option"
  sc_uuids_error :: "source_failure option"
  sc_buckets :: "string list option"
  sc_buckets_error :: "source_failure option"
  sc_incomplete :: "incomplete_scan list"

record 'e recon_env =
  re_repr :: "json \<Rightarrow> string"
  re_claims :: claim_store
  re_dg :: "location_claim content \<Rightarrow> 'e"
  re_pages :: "tuple_pages option"
  re_buckets :: "(string list \<times> bool) result option"
  re_namespace_rows :: "string \<Rightarrow> manifest_row list result"
  re_table_rows :: "string \<Rightarrow> manifest_row list result"

record recon_world =
  rw_control :: "dict world"
  rw_claims :: "location_claim world"

definition fga_source :: "tuple_pages option \<Rightarrow> tuple_counts option \<times> source_failure option \<times> incomplete_scan list" where
  "fga_source client = (case client of
       None \<Rightarrow> (None, Some Fga_absent, [])
     | Some pages \<Rightarrow> (case scan_tuples pages of
         Inl e \<Rightarrow> (None, Some (Read_failed ''fga:tuples'' e), [])
       | Inr (scan, left) \<Rightarrow>
           (Some scan, None, if left then [\<lparr>in_source = ''fga:tuples'', in_reason = Tuple_pages_left\<rparr>] else [])))"

definition bucket_source :: "(string list \<times> bool) result option \<Rightarrow> string list option \<times> source_failure option \<times> incomplete_scan list" where
  "bucket_source client = (case client of
       None \<Rightarrow> (None, Some No_bucket_client, [])
     | Some (Inl e) \<Rightarrow> (None, Some (Read_failed ''storage:buckets'' e), [])
     | Some (Inr (listed, paged)) \<Rightarrow> (let names = sort (filter (\<lambda>n. n \<noteq> []) listed) in
         (Some names, None, if paged then [\<lparr>in_source = ''storage:buckets'', in_reason = Buckets_paged (length names)\<rparr>] else [])))"

text \<open>The shared root first, then every root the warehouse records name.\<close>

definition roots_to_scan :: "(json \<Rightarrow> string) \<Rightarrow> string \<Rightarrow> dict list option \<Rightarrow> string list" where
  "roots_to_scan repr namespace_root warehouses =
     (let warehouse_roots = sort (remdups (map (\<lambda>r. py_str repr (the (dict_get r ''root_uri'')))
            (filter (\<lambda>r. truthy (dict_get r ''root_uri'')) (or_empty warehouses)))) in
      namespace_root # filter (\<lambda>r. r \<noteq> namespace_root) warehouse_roots)"

definition unread_roots :: "string \<Rightarrow> (string \<times> error) list \<Rightarrow> incomplete_scan list" where
  "unread_roots source_name unreadable =
     map (\<lambda>(root, e). \<lparr>in_source = source_name @ '':'' @ root, in_reason = Root_unread root e\<rparr>) unreadable"

text \<open>The registries, in the order of the \<^verbatim>\<open>gather\<close>.\<close>

definition load_registries :: "'e recon_env \<Rightarrow> recon_world \<Rightarrow> sources \<times> recon_world" where
  "load_registries env w =
     (case fga_source (re_pages env) of (tuples, tuples_error, n0) \<Rightarrow>
      case registry_source ''registry:projects'' ''_projects'' [''id''] [] (rw_control w) of ((projects, projects_error, n1), c1) \<Rightarrow>
      case registry_source ''registry:warehouses'' ''_warehouses'' [''id'', ''bucket'', ''project''] [] c1 of
        ((warehouses, warehouses_error, n2), c2) \<Rightarrow>
      case registry_source ''registry:bindings'' ''_warehouses/bindings'' [''top_ns'', ''warehouse_id''] [] c2 of
        ((bindings, bindings_error, n3), c3) \<Rightarrow>
      case bucket_source (re_buckets env) of (buckets, buckets_error, n4) \<Rightarrow>
      case registry_source ''registry:trash'' ''_trash'' [''id'', ''location''] [''id''] c3 of ((trash, trash_error, n5), c4) \<Rightarrow>
        (\<lparr>sc_tuples = tuples, sc_tuples_error = tuples_error, sc_project_records = projects,
          sc_project_records_error = projects_error, sc_warehouse_records = warehouses,
          sc_warehouse_records_error = warehouses_error, sc_trash = trash, sc_trash_error = trash_error,
          sc_bindings = bindings, sc_bindings_error = bindings_error, sc_namespaces = None, sc_namespaces_error = None,
          sc_tables = None, sc_table_locations = None, sc_tables_error = None, sc_table_uuids = None,
          sc_trashed_uuids = None, sc_uuids_error = None, sc_buckets = buckets, sc_buckets_error = buckets_error,
          sc_incomplete = n0 @ n1 @ n2 @ n3 @ n4 @ n5\<rparr>, w\<lparr>rw_control := c4\<rparr>))"

definition load_catalog :: "'e recon_env \<Rightarrow> string \<Rightarrow> sources \<Rightarrow> sources" where
  "load_catalog env namespace_root s =
     (let roots = roots_to_scan (re_repr env) namespace_root (sc_warehouse_records s);
          scan = tables_across (re_table_rows env) roots in
      case top_level_namespaces_across (re_namespace_rows env) roots of (namespaces, unreadable) \<Rightarrow>
        s\<lparr>sc_namespaces := Some namespaces, sc_tables := Some (ts_found scan),
          sc_table_locations := Some (ts_locations scan),
          sc_incomplete := sc_incomplete s @ unread_roots ''catalog:namespaces'' unreadable
            @ unread_roots ''catalog:tables'' (ts_unreadable scan)\<rparr>)"

definition load_uuids :: "'e recon_env \<Rightarrow> sources \<Rightarrow> recon_world \<Rightarrow> sources \<times> recon_world" where
  "load_uuids env s w = (case (sc_table_locations s, sc_trash s) of
       (Some locations, Some trash_records) \<Rightarrow>
         (case uuids_of (re_claims env) (re_dg env) locations trash_records (rw_claims w) of
            (Inl e, c1) \<Rightarrow> (s\<lparr>sc_uuids_error := Some (Read_failed ''claims:uuids'' e)\<rparr>, w\<lparr>rw_claims := c1\<rparr>)
          | (Inr (live, trashed), c1) \<Rightarrow>
              (s\<lparr>sc_table_uuids := Some live, sc_trashed_uuids := Some trashed\<rparr>, w\<lparr>rw_claims := c1\<rparr>))
     | _ \<Rightarrow> (s, w))"

definition load_sources :: "'e recon_env \<Rightarrow> string \<Rightarrow> recon_world \<Rightarrow> sources \<times> recon_world" where
  "load_sources env namespace_root w = (case load_registries env w of
     (s, w1) \<Rightarrow> load_uuids env (load_catalog env namespace_root s) w1)"

end
