(* ===== verification/Drift_Report.thy ===== *)
theory Drift_Report
  imports Drift_Sources
begin

text \<open>
  The second half of \<^verbatim>\<open>maintenance/services/reconcile.py\<close>: one pure detector per category of drift, the
  report that runs each where its inputs were read, the walk of the storage behind the last three categories, and
  \<^verbatim>\<open>reconcile\<close>, which composes them. The moment of the report and its metric are left out. A report's step
  raises \<open>KeyError\<close> where the code indexes a record by a field.
\<close>

section \<open>The detectors\<close>

record ghost_object =
  gh_kind :: string
  gh_id :: string
  gh_tuples :: nat

definition fga_object :: "ghost_object \<Rightarrow> string" where
  "fga_object g = gh_kind g @ '':'' @ gh_id g"

definition ghosts :: "string \<Rightarrow> (string \<times> nat) list \<Rightarrow> string list \<Rightarrow> string list \<Rightarrow> ghost_object list" where
  "ghosts kind tuple_counts record_ids exclude =
     map (\<lambda>(i, n). \<lparr>gh_kind = kind, gh_id = i, gh_tuples = n\<rparr>)
       (filter (\<lambda>(i, _). i \<notin> set record_ids \<and> i \<notin> set exclude) (sort_key fst tuple_counts))"

definition unreferenced_projects :: "string list \<Rightarrow> (string \<times> nat) list \<Rightarrow> string list" where
  "unreferenced_projects record_ids tuple_counts = filter (\<lambda>p. count_of tuple_counts p = 0) (sort (remdups record_ids))"

definition trashed_keys :: "string list \<Rightarrow> string list" where
  "trashed_keys trashed = map decoded_path trashed"

definition unregistered_datasets :: "string list \<Rightarrow> table_ids \<Rightarrow> string list \<Rightarrow> string list" where
  "unregistered_datasets discovered names trashed = sort (remdups (map rstrip_slash
     (filter (\<lambda>uri. normalise uri \<notin> set (trashed_keys trashed) \<and> table_of names uri = None) discovered)))"

definition manifest_names :: "(string \<times> string \<times> string option) list \<Rightarrow> table_ids" where
  "manifest_names registered = no_tables\<lparr>ti_by_location := dict_of (List.map_filter (\<lambda>(table, root, location).
     case location of None \<Rightarrow> None | Some l \<Rightarrow> Some (normalise (resolved root l), table)) registered)\<rparr>"

record absent_dataset =
  ad_table :: string
  ad_root :: string
  ad_location :: string

definition absent_datasets ::
    "(string \<times> string \<times> string option) list \<Rightarrow> string list \<Rightarrow> string list \<Rightarrow> absent_dataset list" where
  "absent_datasets registered discovered trashed =
     sort_key ad_table (sort_key ad_location (List.map_filter (\<lambda>(table, root, location). case location of
         None \<Rightarrow> None
       | Some l \<Rightarrow> (let found = rstrip_slash (resolved root l) in
           if found \<in> set discovered \<or> normalise found \<in> set (trashed_keys trashed) then None
           else Some \<lparr>ad_table = table, ad_root = root, ad_location = found\<rparr>)) registered))"

text \<open>\<^verbatim>\<open>governed.get(uuids.get(table, ""))\<close>.\<close>

definition ungoverned_tables ::
    "(string \<times> string) list \<Rightarrow> (string \<times> string) list \<Rightarrow> (string \<times> nat) list \<Rightarrow> (string \<times> string) list" where
  "ungoverned_tables tables uuids governed = sort_key fst (sort_key snd (filter (\<lambda>(table, _).
     count_of governed (case map_of uuids table of None \<Rightarrow> [] | Some u \<Rightarrow> u) = 0) tables))"

definition unbound_namespaces :: "(string \<times> string) list \<Rightarrow> string list \<Rightarrow> (string \<times> string) list" where
  "unbound_namespaces namespaces bound =
     filter (\<lambda>(n, _). n \<notin> set bound) (sort_key fst (sort_key snd namespaces))"

record orphaned_record =
  ot_id :: string
  ot_uuid :: string
  ot_kind :: string
  ot_location :: string

definition orphaned_trash :: "(json \<Rightarrow> string) \<Rightarrow> dict list \<Rightarrow> string list \<Rightarrow> orphaned_record list" where
  "orphaned_trash repr records claimed = sort_key ot_location (sort_key ot_id (List.map_filter (\<lambda>r.
     let location = text_field repr [] ''location'' r; bucket = before_slash (remove_prefix ''s3://'' location) in
     if prefix ''s3://'' location \<and> bucket \<noteq> [] \<and> bucket \<notin> set claimed
     then map_option (\<lambda>uuid. \<lparr>ot_id = record_id repr r, ot_uuid = uuid, ot_kind = record_kind repr r,
       ot_location = location\<rparr>) (object_uuid r)
     else None) records))"

definition orphan_buckets :: "string list \<Rightarrow> string list \<Rightarrow> string list \<Rightarrow> string list" where
  "orphan_buckets buckets claimed platform = filter (\<lambda>b. b \<notin> set claimed \<and> b \<notin> set platform) (sort buckets)"

text \<open>A binding whose warehouse has no record, as its namespace and that warehouse.\<close>

definition dangling_of :: "(json \<Rightarrow> string) \<Rightarrow> string list \<Rightarrow> dict \<Rightarrow> (string \<times> string) option result" where
  "dangling_of repr warehouse_ids b = (case item_str repr b ''warehouse_id'' of
       Inl e \<Rightarrow> Inl e
     | Inr wid \<Rightarrow> if wid \<in> set warehouse_ids then Inr None
         else map_sum id (\<lambda>top_ns. Some (top_ns, wid)) (item_str repr b ''top_ns''))"

definition dangling_bindings :: "(json \<Rightarrow> string) \<Rightarrow> dict list \<Rightarrow> string list \<Rightarrow> (string \<times> string) list result" where
  "dangling_bindings repr bindings warehouse_ids =
     map_sum id (\<lambda>found. sort_key fst (sort_key snd (List.map_filter id found)))
       (each (dangling_of repr warehouse_ids) bindings)"

section \<open>The report\<close>

record report =
  rp_ghost_projects :: "ghost_object list"
  rp_ghost_warehouses :: "ghost_object list"
  rp_unreferenced_projects :: "string list"
  rp_unbound_namespaces :: "(string \<times> string) list"
  rp_ungoverned_tables :: "(string \<times> string) list"
  rp_ghost_tables :: "ghost_object list"
  rp_orphan_buckets :: "string list"
  rp_orphaned_trash :: "orphaned_record list"
  rp_dangling_bindings :: "(string \<times> string) list"
  rp_unregistered_datasets :: "string list"
  rp_absent_datasets :: "absent_dataset list"
  rp_orphan_files :: "orphan_file list"
  rp_orphan_files_blocking :: nat
  rp_bytes_by_bucket :: "(string \<times> nat) list"
  rp_files_by_bucket :: "(string \<times> nat) list"
  rp_excluded_datasets :: "scan_reason option list"
  rp_unavailable :: "(string \<times> source_failure) list"
  rp_skipped :: "skipped_category list"
  rp_incomplete :: "incomplete_scan list"
  rp_counts :: "(string \<times> nat) list"
  rp_total :: nat

definition empty_report :: "incomplete_scan list \<Rightarrow> report" where
  "empty_report notes = \<lparr>rp_ghost_projects = [], rp_ghost_warehouses = [], rp_unreferenced_projects = [],
     rp_unbound_namespaces = [], rp_ungoverned_tables = [], rp_ghost_tables = [], rp_orphan_buckets = [],
     rp_orphaned_trash = [], rp_dangling_bindings = [], rp_unregistered_datasets = [], rp_absent_datasets = [],
     rp_orphan_files = [], rp_orphan_files_blocking = 0, rp_bytes_by_bucket = [], rp_files_by_bucket = [],
     rp_excluded_datasets = [], rp_unavailable = [], rp_skipped = [], rp_incomplete = notes, rp_counts = [],
     rp_total = 0\<rparr>"

text \<open>What a purge is gated on: the report as \<^const>\<open>report_is_clean\<close> reads it.\<close>

definition purge_view :: "report \<Rightarrow> drift_report" where
  "purge_view r = \<lparr>dr_counts = rp_counts r, dr_orphan_files_blocking = rp_orphan_files_blocking r, dr_total = rp_total r,
     dr_unavailable = map fst (rp_unavailable r), dr_incomplete = map in_source (rp_incomplete r),
     dr_skipped = rp_skipped r\<rparr>"

definition categories :: "string list" where
  "categories = [''ghost_projects'', ''ghost_warehouses'', ''unreferenced_projects'', ''unbound_namespaces'',
     ''orphan_buckets'', ''orphaned_trash'', ''ghost_tables'', ''dangling_bindings'', ''ungoverned_tables'',
     ''unregistered_datasets'', ''absent_datasets'', ''orphan_files'']"

definition first_failure :: "source_failure option list \<Rightarrow> source_failure option" where
  "first_failure reasons = (case List.find (\<lambda>r. r \<noteq> None) reasons of None \<Rightarrow> None | Some r \<Rightarrow> r)"

definition mark_unavailable :: "string \<Rightarrow> source_failure \<Rightarrow> report \<Rightarrow> report" where
  "mark_unavailable category why r = r\<lparr>rp_unavailable := rp_unavailable r @ [(category, why)]\<rparr>"

definition mark_skipped :: "string \<Rightarrow> bool \<Rightarrow> report \<Rightarrow> report" where
  "mark_skipped category gap r = r\<lparr>rp_skipped := rp_skipped r @ [\<lparr>sk_category = category, sk_coverage_gap = gap\<rparr>]\<rparr>"

definition mark_counted :: "string \<Rightarrow> nat \<Rightarrow> report \<Rightarrow> report" where
  "mark_counted category n r = r\<lparr>rp_counts := AList.update category n (rp_counts r)\<rparr>"

text \<open>\<^verbatim>\<open>report.<category> = _run_category(...)\<close>, with \<open>assign\<close> for the field.\<close>

definition run_category ::
    "string \<Rightarrow> source_failure option list \<Rightarrow> 'f list result \<Rightarrow> ('f list \<Rightarrow> report \<Rightarrow> report) \<Rightarrow> report \<Rightarrow> report result" where
  "run_category category inputs detect assign r = (case first_failure inputs of
       Some why \<Rightarrow> Inr (assign [] (mark_unavailable category why r))
     | None \<Rightarrow> (case detect of
         Inl e \<Rightarrow> Inl e
       | Inr findings \<Rightarrow> Inr (assign findings (mark_counted category (length findings) r))))"

fun run_steps :: "(report \<Rightarrow> report result) list \<Rightarrow> report \<Rightarrow> report result" where
  "run_steps [] r = Inr r"
| "run_steps (step # steps) r = (case step r of Inl e \<Rightarrow> Inl e | Inr r1 \<Rightarrow> run_steps steps r1)"

record recon_settings =
  rs_warehouses_enabled :: bool
  rs_fga_root_object :: string
  rs_default_warehouse_object :: string
  rs_control_root :: string
  rs_namespace_root :: string
  rs_platform_buckets :: "string list"
  rs_orphan_scan_enabled :: bool
  rs_sweep_buckets :: "string list"
  rs_max_depth :: nat

definition by_type :: "sources \<Rightarrow> string \<Rightarrow> (string \<times> nat) list" where
  "by_type s t = (case sc_tuples s of None \<Rightarrow> [] | Some counts \<Rightarrow> counted counts t)"

definition ids_of :: "(json \<Rightarrow> string) \<Rightarrow> string \<Rightarrow> dict list option \<Rightarrow> string list result" where
  "ids_of repr field records = each (\<lambda>r. item_str repr r field) (or_empty records)"

definition platform_root :: "recon_settings \<Rightarrow> string \<Rightarrow> string list" where
  "platform_root cfg t = (if object_type_of (rs_fga_root_object cfg) = t then [object_id_of (rs_fga_root_object cfg)] else [])"

definition with_claimed ::
    "(json \<Rightarrow> string) \<Rightarrow> sources \<Rightarrow> (string list \<Rightarrow> 'f list) \<Rightarrow> 'f list result" where
  "with_claimed repr s detect = map_sum id detect (ids_of repr ''bucket'' (sc_warehouse_records s))"

definition report_steps ::
    "(json \<Rightarrow> string) \<Rightarrow> recon_settings \<Rightarrow> string list \<Rightarrow> sources \<Rightarrow> string list \<Rightarrow> string list
      \<Rightarrow> (report \<Rightarrow> report result) list" where
  "report_steps repr cfg platform s project_ids warehouse_ids =
     [run_category ''ghost_projects'' [sc_tuples_error s, sc_project_records_error s]
        (Inr (ghosts ''project'' (by_type s ''project'') project_ids (platform_root cfg ''project'')))
        (\<lambda>f. rp_ghost_projects_update (\<lambda>_. f)),
      run_category ''ghost_warehouses'' [sc_tuples_error s, sc_warehouse_records_error s]
        (Inr (ghosts ''warehouse'' (by_type s ''warehouse'') warehouse_ids
          (object_id_of (rs_default_warehouse_object cfg) # platform_root cfg ''warehouse'')))
        (\<lambda>f. rp_ghost_warehouses_update (\<lambda>_. f)),
      run_category ''unreferenced_projects'' [sc_tuples_error s, sc_project_records_error s]
        (Inr (unreferenced_projects project_ids (by_type s ''project''))) (\<lambda>f. rp_unreferenced_projects_update (\<lambda>_. f)),
      (if \<not> rs_warehouses_enabled cfg then (\<lambda>r. Inr (mark_skipped ''unbound_namespaces'' False r))
       else run_category ''unbound_namespaces'' [sc_namespaces_error s, sc_bindings_error s, sc_warehouse_records_error s]
         (map_sum id (unbound_namespaces (or_empty (sc_namespaces s))) (ids_of repr ''top_ns'' (sc_bindings s)))
         (\<lambda>f. rp_unbound_namespaces_update (\<lambda>_. f))),
      run_category ''ghost_tables'' [sc_tables_error s, sc_tuples_error s, sc_trash_error s, sc_uuids_error s]
        (Inr (ghosts ''table'' (by_type s ''table'') (map snd (or_empty (sc_table_uuids s))) (or_empty (sc_trashed_uuids s))))
        (\<lambda>f. rp_ghost_tables_update (\<lambda>_. f)),
      run_category ''ungoverned_tables'' [sc_tables_error s, sc_tuples_error s, sc_uuids_error s]
        (Inr (ungoverned_tables (or_empty (sc_tables s)) (or_empty (sc_table_uuids s)) (by_type s ''table'')))
        (\<lambda>f. rp_ungoverned_tables_update (\<lambda>_. f)),
      run_category ''orphan_buckets'' [sc_buckets_error s, sc_warehouse_records_error s]
        (with_claimed repr s (\<lambda>claimed. orphan_buckets (or_empty (sc_buckets s)) claimed platform))
        (\<lambda>f. rp_orphan_buckets_update (\<lambda>_. f)),
      run_category ''orphaned_trash'' [sc_trash_error s, sc_warehouse_records_error s]
        (with_claimed repr s (\<lambda>claimed. orphaned_trash repr (or_empty (sc_trash s)) (claimed @ platform)))
        (\<lambda>f. rp_orphaned_trash_update (\<lambda>_. f)),
      run_category ''dangling_bindings'' [sc_bindings_error s, sc_warehouse_records_error s]
        (dangling_bindings repr (or_empty (sc_bindings s)) warehouse_ids) (\<lambda>f. rp_dangling_bindings_update (\<lambda>_. f))]"

definition gating_total :: "(string \<times> nat) list \<Rightarrow> nat" where
  "gating_total counts = sum_list (map snd (filter (\<lambda>(name, _). name \<notin> set non_gating_categories) counts))"

definition build_report :: "(json \<Rightarrow> string) \<Rightarrow> recon_settings \<Rightarrow> string list \<Rightarrow> sources \<Rightarrow> report result" where
  "build_report repr cfg platform s =
     (case ids_of repr ''id'' (sc_project_records s) of
        Inl e \<Rightarrow> Inl e
      | Inr project_ids \<Rightarrow> (case ids_of repr ''id'' (sc_warehouse_records s) of
          Inl e \<Rightarrow> Inl e
        | Inr warehouse_ids \<Rightarrow>
            map_sum id (\<lambda>r. r\<lparr>rp_total := gating_total (rp_counts r)\<rparr>)
              (run_steps (report_steps repr cfg platform s project_ids warehouse_ids) (empty_report (sc_incomplete s)))))"

section \<open>The walk of the storage\<close>

record storage_door =
  sd_fs :: "filesystem result"
  sd_decode :: "string \<Rightarrow> string"
  sd_list_tree :: "string \<Rightarrow> tree_listing"
  sd_open_dataset :: "string \<Rightarrow> string + lance_ds"

definition note_incomplete :: "string \<Rightarrow> scan_note \<Rightarrow> report \<Rightarrow> report" where
  "note_incomplete source note r = r\<lparr>rp_incomplete := rp_incomplete r @ [\<lparr>in_source = source, in_reason = note\<rparr>]\<rparr>"

definition scannable_buckets :: "(json \<Rightarrow> string) \<Rightarrow> recon_settings \<Rightarrow> sources \<Rightarrow> report \<Rightarrow> string list \<times> report" where
  "scannable_buckets repr cfg s r = (case sc_warehouse_records_error s of
       Some why \<Rightarrow> (rs_sweep_buckets cfg, note_incomplete ''registry:warehouses'' (Registry_unread why) r)
     | None \<Rightarrow> (fold (\<lambda>rec buckets. let bucket = text_field repr [] ''bucket'' rec in
           if bucket \<noteq> [] \<and> bucket \<notin> set buckets then buckets @ [bucket] else buckets)
         (or_empty (sc_warehouse_records s)) (rs_sweep_buckets cfg), r))"

text \<open>The loop over the buckets: what was found, the buckets that were reached, and the notes of the rest.\<close>

definition walk_bucket ::
    "storage_door \<Rightarrow> filesystem \<Rightarrow> nat \<Rightarrow> string \<Rightarrow> string list \<times> string list \<times> report \<Rightarrow> string list \<times> string list \<times> report" where
  "walk_bucket door fs depth bucket acc = (case acc of (found, walked, r) \<Rightarrow>
     (case discover_datasets (sd_decode door) fs bucket depth of
        Inl e \<Rightarrow> (found, walked, note_incomplete (''storage:'' @ bucket) (Discovery_failed e) r)
      | Inr d \<Rightarrow> (found @ uris d, walked @ [bucket],
          fold (\<lambda>p. note_incomplete (''storage:'' @ bucket) (Depth_limit p)) (truncated d) r)))"

definition registration_drift :: "(json \<Rightarrow> string) \<Rightarrow> sources \<Rightarrow> string list \<Rightarrow> string list \<Rightarrow> report \<Rightarrow> report" where
  "registration_drift repr s datasets walked_buckets r =
     (case first_failure [sc_tables_error s, sc_trash_error s] of
        Some why \<Rightarrow> mark_unavailable ''absent_datasets'' why (mark_unavailable ''unregistered_datasets'' why r)
      | None \<Rightarrow>
         (let trashed = map (\<lambda>rec. py_str repr (the (dict_get rec ''location'')))
                (filter (\<lambda>rec. truthy (dict_get rec ''location'')) (or_empty (sc_trash s)));
              registered = or_empty (sc_table_locations s);
              unregistered = unregistered_datasets datasets (manifest_names registered) trashed;
              candidates = absent_datasets registered (map rstrip_slash datasets) trashed;
              absent = filter (\<lambda>f. list_ex (\<lambda>b. prefix (''s3://'' @ b @ ''/'') (ad_location f)) walked_buckets) candidates;
              r1 = mark_counted ''unregistered_datasets'' (length unregistered)
                (r\<lparr>rp_unregistered_datasets := unregistered\<rparr>);
              r2 = mark_counted ''absent_datasets'' (length absent) (r1\<lparr>rp_absent_datasets := absent\<rparr>) in
          fold (\<lambda>f. note_incomplete ''catalog:tables'' (Bytes_not_looked_for (ad_table f) (ad_location f)))
            (filter (\<lambda>f. f \<notin> set absent) candidates) r2))"

definition roll_up :: "(string \<times> nat) list \<Rightarrow> (string \<times> nat) list" where
  "roll_up by_dataset = fold (\<lambda>(uri, value) totals. let bucket = before_slash (remove_prefix ''s3://'' uri) in
     AList.update bucket (count_of totals bucket + value) totals) by_dataset []"

definition blocks_the_purge :: "orphan_file \<Rightarrow> bool" where
  "blocks_the_purge f = (of_reclaimable_by_lance f \<noteq> Some True)"

definition file_drift :: "orphan_report \<Rightarrow> report \<Rightarrow> report" where
  "file_drift scan r =
     (let blocking = length (filter blocks_the_purge (or_orphans scan));
          r1 = mark_counted ''orphan_files'' (length (or_orphans scan)) (r\<lparr>rp_orphan_files := or_orphans scan\<rparr>);
          r2 = r1\<lparr>rp_orphan_files_blocking := blocking, rp_total := rp_total r1 + blocking\<rparr>;
          r3 = fold (\<lambda>n. note_incomplete ''storage:datasets'' (File_scan_note n)) (or_incomplete scan) r2 in
      r3\<lparr>rp_excluded_datasets := or_excluded scan, rp_bytes_by_bucket := roll_up (or_bytes_by_dataset scan),
        rp_files_by_bucket := roll_up (or_files_by_dataset scan)\<rparr>)"

definition orphan_category :: "(json \<Rightarrow> string) \<Rightarrow> recon_settings \<Rightarrow> storage_door \<Rightarrow> sources \<Rightarrow> report \<Rightarrow> report" where
  "orphan_category repr cfg door s r =
     (if \<not> rs_orphan_scan_enabled cfg then
        mark_skipped ''absent_datasets'' False (mark_skipped ''unregistered_datasets'' False (mark_skipped ''orphan_files'' True r))
      else (case sd_fs door of
          Inl e \<Rightarrow> note_incomplete ''storage:datasets'' (Storage_unopened e)
            (mark_unavailable ''orphan_files'' (Storage_unreachable e) r)
        | Inr fs \<Rightarrow>
           (case scannable_buckets repr cfg s r of (buckets, r1) \<Rightarrow>
            case fold (walk_bucket door fs (rs_max_depth cfg)) buckets ([], [], r1) of (datasets, walked, r2) \<Rightarrow>
              file_drift
                (scan_datasets fs (sd_list_tree door) (sd_open_dataset door)
                  (map (\<lambda>uri. (uri, remove_prefix ''s3://'' uri)) datasets))
                (registration_drift repr s datasets walked r2))))"

section \<open>The reconcile\<close>

definition bucket_of_root :: "string \<Rightarrow> string option" where
  "bucket_of_root root = (if prefix ''s3://'' root
     then (let bucket = before_slash (strip_slashes (remove_prefix ''s3://'' root)) in if bucket = [] then None else Some bucket)
     else None)"

definition platform_of :: "recon_settings \<Rightarrow> string list" where
  "platform_of cfg = filter (\<lambda>b. b \<noteq> []) (rs_platform_buckets cfg)
     @ List.map_filter bucket_of_root [rs_control_root cfg, rs_namespace_root cfg]"

definition reconcile ::
    "'e recon_env \<Rightarrow> recon_settings \<Rightarrow> storage_door \<Rightarrow> recon_world \<Rightarrow> (report result \<times> sources) \<times> recon_world" where
  "reconcile env cfg door w = (case load_sources env (rs_namespace_root cfg) w of
     (s, w1) \<Rightarrow> ((map_sum id (orphan_category (re_repr env) cfg door s)
       (build_report (re_repr env) cfg (platform_of cfg) s), s), w1))"

section \<open>What a step of the report leaves\<close>

lemma run_category_cases:
  assumes "run_category c inputs detect assign r = Inr r'"
  obtains (unread) why where "first_failure inputs = Some why" "r' = assign [] (mark_unavailable c why r)"
  | (checked) fs where "first_failure inputs = None" "detect = Inr fs" "r' = assign fs (mark_counted c (length fs) r)"
  using assms by (auto simp: run_category_def split: option.splits sum.splits)

definition keeps :: "(report \<Rightarrow> 'b) \<Rightarrow> (report \<Rightarrow> report result) \<Rightarrow> bool" where
  "keeps F step \<longleftrightarrow> (\<forall>r r'. step r = Inr r' \<longrightarrow> F r' = F r)"

lemma run_category_keeps:
  assumes "\<And>fs r. F (assign fs r) = F r" "\<And>why r. F (mark_unavailable c why r) = F r" "\<And>n r. F (mark_counted c n r) = F r"
  shows "keeps F (run_category c inputs detect assign)"
  by (auto simp: keeps_def assms elim: run_category_cases)

lemma run_steps_keeps: "list_all (keeps F) steps \<Longrightarrow> run_steps steps r = Inr r' \<Longrightarrow> F r' = F r"
  by (induction steps r rule: run_steps.induct) (auto simp: keeps_def split: sum.splits)

lemma run_steps_append: "run_steps (xs @ ys) r = (case run_steps xs r of Inl e \<Rightarrow> Inl e | Inr r1 \<Rightarrow> run_steps ys r1)"
  by (induction xs r rule: run_steps.induct) (auto split: sum.splits)

lemma run_steps_nth:
  assumes "run_steps steps r = Inr r'" "i < length steps"
    "list_all (keeps F) (take i steps)" "list_all (keeps F) (drop (Suc i) steps)"
  obtains ra rb where "(steps ! i) ra = Inr rb" "F ra = F r" "F r' = F rb"
proof -
  have "run_steps (take i steps @ steps ! i # drop (Suc i) steps) r = Inr r'"
    using assms(1,2) by (simp add: id_take_nth_drop [symmetric])
  then obtain ra rb where *: "run_steps (take i steps) r = Inr ra" "(steps ! i) ra = Inr rb"
      "run_steps (drop (Suc i) steps) rb = Inr r'"
    by (auto simp: run_steps_append split: sum.splits)
  show thesis
    by (rule that [OF *(2) run_steps_keeps [OF assms(3) *(1)] run_steps_keeps [OF assms(4) *(3)]])
qed

text \<open>What one category of the report reads: whether it was counted, whether it was unavailable, and its findings.\<close>

definition reading :: "string \<Rightarrow> (report \<Rightarrow> 'f) \<Rightarrow> report \<Rightarrow> nat option \<times> source_failure option \<times> 'f" where
  "reading c F r = (map_of (rp_counts r) c, map_of (rp_unavailable r) c, F r)"

lemma map_of_snoc: "map_of (kv @ [(k, v)]) k' = (case map_of kv k' of None \<Rightarrow> if k' = k then Some v else None | Some u \<Rightarrow> Some u)"
  by (simp add: map_add_def split: option.splits)

lemma run_category_reads:
  assumes "run_category c inputs detect assign ra = Inr rb" "reading c F ra = (None, None, dflt)"
    "\<And>fs r. F (assign fs r) = fs" "\<And>fs r. rp_counts (assign fs r) = rp_counts r"
    "\<And>fs r. rp_unavailable (assign fs r) = rp_unavailable r"
  shows "reading c F rb = (case first_failure inputs of
      Some why \<Rightarrow> (None, Some why, [])
    | None \<Rightarrow> (Some (length (projr detect)), None, projr detect))"
  using assms by (cases rule: run_category_cases [OF assms(1)])
    (auto simp: reading_def mark_unavailable_def mark_counted_def map_of_snoc simp del: map_of_append split: option.splits)

definition outcome :: "source_failure option list \<Rightarrow> 'f list \<Rightarrow> nat option \<times> source_failure option \<times> 'f list" where
  "outcome inputs findings = (case first_failure inputs of
      Some why \<Rightarrow> (None, Some why, []) | None \<Rightarrow> (Some (length findings), None, findings))"

lemma keeps_reading [simp]:
  assumes "c \<noteq> c'" "\<And>fs r. F (assign fs r) = F r" "\<And>fs r. rp_counts (assign fs r) = rp_counts r"
    "\<And>fs r. rp_unavailable (assign fs r) = rp_unavailable r"
    "\<And>u r. F (rp_unavailable_update u r) = F r" "\<And>u r. F (rp_counts_update u r) = F r"
  shows "keeps (reading c F) (run_category c' inputs detect assign)"
  by (rule run_category_keeps)
    (auto simp: reading_def assms mark_unavailable_def mark_counted_def map_of_snoc simp del: map_of_append split: option.splits)

lemma keeps_skip [simp]:
  assumes "\<And>u r. F (rp_skipped_update u r) = F r"
  shows "keeps (reading c F) (\<lambda>r. Inr (mark_skipped c' gap r))"
  by (simp add: keeps_def reading_def mark_skipped_def assms)

lemma keeps_if [simp]: "keeps F step1 \<Longrightarrow> keeps F step2 \<Longrightarrow> keeps F (if b then step1 else step2)"
  by simp

lemma built_from:
  assumes "build_report repr cfg platform s = Inr r"
  obtains ps ws r0 where "ids_of repr ''id'' (sc_project_records s) = Inr ps" "ids_of repr ''id'' (sc_warehouse_records s) = Inr ws"
    "run_steps (report_steps repr cfg platform s ps ws) (empty_report (sc_incomplete s)) = Inr r0"
    "r = r0\<lparr>rp_total := gating_total (rp_counts r0)\<rparr>"
proof -
  obtain ps ws where *: "ids_of repr ''id'' (sc_project_records s) = Inr ps" "ids_of repr ''id'' (sc_warehouse_records s) = Inr ws"
    using assms by (auto simp: build_report_def split: sum.splits)
  with assms obtain r0 where "run_steps (report_steps repr cfg platform s ps ws) (empty_report (sc_incomplete s)) = Inr r0"
    "r = r0\<lparr>rp_total := gating_total (rp_counts r0)\<rparr>"
    by (cases "run_steps (report_steps repr cfg platform s ps ws) (empty_report (sc_incomplete s))") (auto simp: build_report_def)
  with * that show thesis by blast
qed

lemma built_reading:
  assumes built: "build_report repr cfg platform s = Inr r"
    and step: "\<And>ps ws. report_steps repr cfg platform s ps ws ! i = run_category c inputs (detect ps ws) assign"
    and i: "i < 9"
    and F: "\<And>r u. F (rp_total_update u r) = F r" "\<And>notes. F (empty_report notes) = []"
    and others: "\<And>ps ws. list_all (keeps (reading c F)) (take i (report_steps repr cfg platform s ps ws))"
      "\<And>ps ws. list_all (keeps (reading c F)) (drop (Suc i) (report_steps repr cfg platform s ps ws))"
    and put: "\<And>fs r. F (assign fs r) = fs" "\<And>fs r. rp_counts (assign fs r) = rp_counts r"
      "\<And>fs r. rp_unavailable (assign fs r) = rp_unavailable r"
  obtains ps ws where "ids_of repr ''id'' (sc_project_records s) = Inr ps" "ids_of repr ''id'' (sc_warehouse_records s) = Inr ws"
    "reading c F r = outcome inputs (projr (detect ps ws))"
proof -
  obtain ps ws r0 where b: "ids_of repr ''id'' (sc_project_records s) = Inr ps" "ids_of repr ''id'' (sc_warehouse_records s) = Inr ws"
    "run_steps (report_steps repr cfg platform s ps ws) (empty_report (sc_incomplete s)) = Inr r0"
    "r = r0\<lparr>rp_total := gating_total (rp_counts r0)\<rparr>"
    using built by (rule built_from)
  have n: "i < length (report_steps repr cfg platform s ps ws)"
    using i by (simp add: report_steps_def)
  obtain ra rb where *: "run_category c inputs (detect ps ws) assign ra = Inr rb"
      "reading c F ra = reading c F (empty_report (sc_incomplete s))" "reading c F r0 = reading c F rb"
    by (rule run_steps_nth [OF b(3) n others]) (simp add: step)
  have e: "reading c F (empty_report (sc_incomplete s)) = (None, None, [])"
    by (simp add: reading_def F) (simp add: empty_report_def)
  have "reading c F r = outcome inputs (projr (detect ps ws))"
    using run_category_reads [OF *(1) trans [OF *(2) e] put] *(3) b(4) F(1) by (simp add: outcome_def reading_def)
  with b(1,2) that show thesis by blast
qed

lemmas step_simps = report_steps_def empty_report_def

lemma built_ghost_projects:
  assumes "build_report repr cfg platform s = Inr r"
  obtains ps where "ids_of repr ''id'' (sc_project_records s) = Inr ps"
    "reading ''ghost_projects'' rp_ghost_projects r = outcome [sc_tuples_error s, sc_project_records_error s]
      (ghosts ''project'' (by_type s ''project'') ps (platform_root cfg ''project''))"
  by (rule built_reading [OF assms, of 0 _ _ _ _ rp_ghost_projects], simp add: report_steps_def) (auto simp: step_simps)

lemma built_ghost_warehouses:
  assumes "build_report repr cfg platform s = Inr r"
  obtains ws where "ids_of repr ''id'' (sc_warehouse_records s) = Inr ws"
    "reading ''ghost_warehouses'' rp_ghost_warehouses r = outcome [sc_tuples_error s, sc_warehouse_records_error s]
      (ghosts ''warehouse'' (by_type s ''warehouse'') ws
        (object_id_of (rs_default_warehouse_object cfg) # platform_root cfg ''warehouse''))"
  by (rule built_reading [OF assms, of 1 _ _ _ _ rp_ghost_warehouses], simp add: report_steps_def) (auto simp: step_simps)

lemma built_unreferenced_projects:
  assumes "build_report repr cfg platform s = Inr r"
  obtains ps where "ids_of repr ''id'' (sc_project_records s) = Inr ps"
    "reading ''unreferenced_projects'' rp_unreferenced_projects r = outcome [sc_tuples_error s, sc_project_records_error s]
      (unreferenced_projects ps (by_type s ''project''))"
  by (rule built_reading [OF assms, of 2 _ _ _ _ rp_unreferenced_projects], simp add: report_steps_def) (auto simp: step_simps)

lemma built_ghost_tables:
  assumes "build_report repr cfg platform s = Inr r"
  shows "reading ''ghost_tables'' rp_ghost_tables r =
    outcome [sc_tables_error s, sc_tuples_error s, sc_trash_error s, sc_uuids_error s]
      (ghosts ''table'' (by_type s ''table'') (map snd (or_empty (sc_table_uuids s))) (or_empty (sc_trashed_uuids s)))"
  by (rule built_reading [OF assms, of 4 _ _ _ _ rp_ghost_tables], simp add: report_steps_def) (auto simp: step_simps)

lemma built_ungoverned_tables:
  assumes "build_report repr cfg platform s = Inr r"
  shows "reading ''ungoverned_tables'' rp_ungoverned_tables r =
    outcome [sc_tables_error s, sc_tuples_error s, sc_uuids_error s]
      (ungoverned_tables (or_empty (sc_tables s)) (or_empty (sc_table_uuids s)) (by_type s ''table''))"
  by (rule built_reading [OF assms, of 5 _ _ _ _ rp_ungoverned_tables], simp add: report_steps_def) (auto simp: step_simps)

lemma built_orphan_buckets:
  assumes "build_report repr cfg platform s = Inr r"
  shows "reading ''orphan_buckets'' rp_orphan_buckets r = outcome [sc_buckets_error s, sc_warehouse_records_error s]
    (projr (with_claimed repr s (\<lambda>claimed. orphan_buckets (or_empty (sc_buckets s)) claimed platform)))"
  by (rule built_reading [OF assms, of 6 _ _ _ _ rp_orphan_buckets], simp add: report_steps_def) (auto simp: step_simps)

lemma built_orphaned_trash:
  assumes "build_report repr cfg platform s = Inr r"
  shows "reading ''orphaned_trash'' rp_orphaned_trash r = outcome [sc_trash_error s, sc_warehouse_records_error s]
    (projr (with_claimed repr s (\<lambda>claimed. orphaned_trash repr (or_empty (sc_trash s)) (claimed @ platform))))"
  by (rule built_reading [OF assms, of 7 _ _ _ _ rp_orphaned_trash], simp add: report_steps_def) (auto simp: step_simps)

lemma built_dangling_bindings:
  assumes "build_report repr cfg platform s = Inr r"
  obtains ws where "ids_of repr ''id'' (sc_warehouse_records s) = Inr ws"
    "reading ''dangling_bindings'' rp_dangling_bindings r = outcome [sc_bindings_error s, sc_warehouse_records_error s]
      (projr (dangling_bindings repr (or_empty (sc_bindings s)) ws))"
  by (rule built_reading [OF assms, of 8 _ _ _ _ rp_dangling_bindings], simp add: report_steps_def) (auto simp: step_simps)

section \<open>Every category is accounted for\<close>

definition accounted :: "report \<Rightarrow> string list" where
  "accounted r = map fst (rp_counts r) @ map fst (rp_unavailable r) @ map sk_category (rp_skipped r)"

text \<open>A report's account grew by exactly the categories \<open>cs\<close>.\<close>

definition accounts_for :: "string list \<Rightarrow> report \<Rightarrow> report \<Rightarrow> bool" where
  "accounts_for cs r r' \<longleftrightarrow> (distinct (cs @ accounted r) \<longrightarrow>
     distinct (accounted r') \<and> set (accounted r') = set cs \<union> set (accounted r))"

lemma accounts_for_same: "accounted r' = accounted r \<Longrightarrow> accounts_for [] r r'"
  by (simp add: accounts_for_def)

lemma accounts_for_trans: "accounts_for cs r r1 \<Longrightarrow> accounts_for ds r1 r2 \<Longrightarrow> accounts_for (cs @ ds) r r2"
  unfolding accounts_for_def by (auto simp: Int_Un_distrib)

lemma accounts_for_marks:
  "accounts_for [c] r (mark_counted c n r)" "accounts_for [c] r (mark_unavailable c why r)" "accounts_for [c] r (mark_skipped c gap r)"
  by (auto simp: accounts_for_def accounted_def mark_counted_def mark_unavailable_def mark_skipped_def update_keys)

lemma accounted_kept [simp]:
  "accounted (rp_total_update u r) = accounted r" "accounted (rp_incomplete_update v r) = accounted r"
  "accounted (rp_unregistered_datasets_update w r) = accounted r" "accounted (rp_absent_datasets_update x r) = accounted r"
  "accounted (rp_orphan_files_update y r) = accounted r" "accounted (rp_orphan_files_blocking_update z r) = accounted r"
  "accounted (rp_bytes_by_bucket_update b r) = accounted r" "accounted (rp_files_by_bucket_update c r) = accounted r"
  "accounted (rp_excluded_datasets_update d r) = accounted r"
  by (simp_all add: accounted_def)

definition accounts_step :: "string \<Rightarrow> (report \<Rightarrow> report result) \<Rightarrow> bool" where
  "accounts_step c step \<longleftrightarrow> (\<forall>r r'. step r = Inr r' \<longrightarrow> accounts_for [c] r r')"

lemma accounts_step_category:
  assumes "\<And>fs r. rp_counts (assign fs r) = rp_counts r" "\<And>fs r. rp_unavailable (assign fs r) = rp_unavailable r"
    "\<And>fs r. rp_skipped (assign fs r) = rp_skipped r"
  shows "accounts_step c (run_category c inputs detect assign)"
proof -
  have "accounted (assign fs r) = accounted r" for fs r
    by (simp add: assms accounted_def)
  then have "accounts_for [c] r (assign fs r') = accounts_for [c] r r'" for r fs r'
    by (simp add: accounts_for_def)
  then show ?thesis
    by (auto simp: accounts_step_def accounts_for_marks elim: run_category_cases)
qed

lemma accounts_step_skip: "accounts_step c (\<lambda>r. Inr (mark_skipped c gap r))"
  by (simp add: accounts_step_def accounts_for_marks)

lemma run_steps_account:
  "list_all2 accounts_step cs steps \<Longrightarrow> run_steps steps r = Inr r' \<Longrightarrow> accounts_for cs r r'"
proof (induction cs steps arbitrary: r rule: list_all2_induct)
  case (Cons c cs step steps)
  then obtain r1 where r1: "step r = Inr r1" "run_steps steps r1 = Inr r'"
    by (auto split: sum.splits)
  with Cons(1) Cons(3) [OF r1(2)] show ?case
    using accounts_for_trans [of "[c]" r r1 cs r'] by (simp add: accounts_step_def)
qed (simp add: accounts_for_same)

definition store_categories :: "string list" where
  "store_categories = [''ghost_projects'', ''ghost_warehouses'', ''unreferenced_projects'', ''unbound_namespaces'',
     ''ghost_tables'', ''ungoverned_tables'', ''orphan_buckets'', ''orphaned_trash'', ''dangling_bindings'']"

lemma steps_account: "list_all2 accounts_step store_categories (report_steps repr cfg platform s ps ws)"
  by (simp add: store_categories_def report_steps_def accounts_step_category accounts_step_skip)

lemma built_accounts:
  assumes "build_report repr cfg platform s = Inr r"
  shows "accounts_for store_categories (empty_report (sc_incomplete s)) r"
proof -
  obtain ps ws r0 where b: "run_steps (report_steps repr cfg platform s ps ws) (empty_report (sc_incomplete s)) = Inr r0"
    "r = r0\<lparr>rp_total := gating_total (rp_counts r0)\<rparr>"
    using assms by (rule built_from)
  show ?thesis
    using run_steps_account [OF steps_account b(1)] b(2) by (simp add: accounts_for_def)
qed

lemma fold_same: "(\<And>x r. F (f x r) = F r) \<Longrightarrow> F (fold f xs r) = F r"
  by (induction xs arbitrary: r) auto

lemma accounted_note [simp]: "accounted (note_incomplete source note r) = accounted r"
  by (simp add: note_incomplete_def)

lemma accounted_notes [simp]: "accounted (fold (\<lambda>x. note_incomplete (so x) (no x)) xs r) = accounted r"
  by (rule fold_same) simp

lemma accounts_drift: "accounts_for [''unregistered_datasets'', ''absent_datasets''] r (registration_drift repr s datasets walked r)"
proof (cases "first_failure [sc_tables_error s, sc_trash_error s]")
  case (Some why)
  then show ?thesis
    using accounts_for_trans [OF accounts_for_marks(2) accounts_for_marks(2)] by (simp add: registration_drift_def)
next
  case None
  have "accounts_for [a] r (mark_counted a n (r\<lparr>rp_unregistered_datasets := u\<rparr>))"
    "accounts_for [a] r (mark_counted a n (r\<lparr>rp_absent_datasets := v\<rparr>))" for a n u v and r :: report
    using accounts_for_marks(1) [of a "r\<lparr>rp_unregistered_datasets := u\<rparr>" n]
      accounts_for_marks(1) [of a "r\<lparr>rp_absent_datasets := v\<rparr>" n]
    by (simp_all add: accounts_for_def)
  note one = this
  have "accounts_for [a, b] r (mark_counted b m (mark_counted a n (r\<lparr>rp_unregistered_datasets := u\<rparr>)\<lparr>rp_absent_datasets := v\<rparr>))"
    for a b n m u v
    using accounts_for_trans [OF one(1) one(2)] by simp
  then show ?thesis
    using None by (simp add: registration_drift_def Let_def accounts_for_def)
qed

lemma accounts_files: "accounts_for [''orphan_files''] r (file_drift scan r)"
proof -
  have "accounts_for [a] r (mark_counted a n (r\<lparr>rp_orphan_files := u\<rparr>))" for a n u
    using accounts_for_marks(1) [of a "r\<lparr>rp_orphan_files := u\<rparr>" n] by (simp add: accounts_for_def)
  then show ?thesis
    by (simp add: file_drift_def Let_def accounts_for_def)
qed

lemma walk_bucket_keeps:
  assumes "\<And>source note r. F (note_incomplete source note r) = F r"
  shows "F (snd (snd (fold (walk_bucket door fs depth) buckets acc))) = F (snd (snd acc))"
  by (rule fold_same [where F = "\<lambda>acc. F (snd (snd acc))"])
    (auto simp: walk_bucket_def assms fold_same [of F] split: prod.splits sum.splits)

lemma scannable_keeps:
  assumes "\<And>source note r. F (note_incomplete source note r) = F r"
  shows "F (snd (scannable_buckets repr cfg s r)) = F r"
  by (simp add: scannable_buckets_def assms split: option.splits)

lemma orphan_category_cases:
  assumes "orphan_category repr cfg door s r = r'"
  obtains (off) "\<not> rs_orphan_scan_enabled cfg"
      "r' = mark_skipped ''absent_datasets'' False (mark_skipped ''unregistered_datasets'' False (mark_skipped ''orphan_files'' True r))"
  | (unopened) e where "rs_orphan_scan_enabled cfg" "sd_fs door = Inl e"
      "r' = note_incomplete ''storage:datasets'' (Storage_unopened e) (mark_unavailable ''orphan_files'' (Storage_unreachable e) r)"
  | (walked) fs buckets r1 datasets walked r2 where "rs_orphan_scan_enabled cfg" "sd_fs door = Inr fs"
      "scannable_buckets repr cfg s r = (buckets, r1)"
      "fold (walk_bucket door fs (rs_max_depth cfg)) buckets ([], [], r1) = (datasets, walked, r2)"
      "r' = file_drift (scan_datasets fs (sd_list_tree door) (sd_open_dataset door)
        (map (\<lambda>uri. (uri, remove_prefix ''s3://'' uri)) datasets)) (registration_drift repr s datasets walked r2)"
  using assms by (auto simp: orphan_category_def split: if_splits sum.splits prod.splits)

definition storage_categories :: "recon_settings \<Rightarrow> storage_door \<Rightarrow> string list" where
  "storage_categories cfg door = (if rs_orphan_scan_enabled cfg \<and> (\<exists>e. sd_fs door = Inl e) then [''orphan_files'']
     else [''unregistered_datasets'', ''absent_datasets'', ''orphan_files''])"

lemma orphan_accounts: "accounts_for (storage_categories cfg door) r (orphan_category repr cfg door s r)"
proof (rule orphan_category_cases [OF refl, of cfg repr door s r], goal_cases off unopened walked)
  case off
  show ?thesis
    unfolding off(2) using off(1) accounts_for_trans [OF accounts_for_trans [OF accounts_for_marks(3) accounts_for_marks(3)] accounts_for_marks(3)]
    by (auto simp: storage_categories_def accounts_for_def)
next
  case (unopened e)
  have "accounts_for [''orphan_files''] r (note_incomplete a b (mark_unavailable ''orphan_files'' why r))" for a b why
    using accounts_for_marks(2) [of "''orphan_files''" r why] by (simp add: accounts_for_def)
  with unopened show ?thesis by (simp add: storage_categories_def)
next
  case (walked fs buckets r1 datasets wb r2)
  have "accounted r1 = accounted r" "accounted r2 = accounted r1"
    using walk_bucket_keeps [of accounted door fs "rs_max_depth cfg" buckets "([], [], r1)"]
      scannable_keeps [of accounted repr cfg s r] walked by simp_all
  with walked(1,2,5) show ?thesis
    using accounts_for_trans [OF accounts_drift accounts_files]
    by (simp add: storage_categories_def accounts_for_def)
qed

section \<open>Loaded records carry what the report indexes\<close>

definition carries :: "string list \<Rightarrow> dict \<Rightarrow> bool" where
  "carries fields_wanted r \<longleftrightarrow> (\<forall>k\<in>set fields_wanted. dict_get r k \<noteq> None)"

lemma judge_record_carries: "judge_record required non_empty path found = Inr r \<Longrightarrow> carries required r"
  by (auto simp: judge_record_def carries_def Let_def filter_empty_conv split: option.splits content.splits if_splits)

lemma open_records_carry:
  "open_records required non_empty paths w = ((records, skipped), w') \<Longrightarrow> \<forall>r\<in>set records. carries required r"
  by (induction required non_empty paths w arbitrary: records skipped w' rule: open_records.induct)
    (auto split: prod.splits sum.splits dest: judge_record_carries)

lemma registry_source_carries:
  "registry_source source_name pre required non_empty w = ((found, err, notes), w') \<Longrightarrow>
    (\<forall>r\<in>set (or_empty found). carries required r) \<and> (found = None \<longleftrightarrow> err \<noteq> None)"
  by (auto simp: registry_source_def list_json_records_def or_empty_def dest: open_records_carry
      split: sum.splits prod.splits bool.splits)

definition well_formed :: "sources \<Rightarrow> bool" where
  "well_formed s \<longleftrightarrow> (\<forall>r\<in>set (or_empty (sc_project_records s)). carries [''id''] r) \<and>
     (\<forall>r\<in>set (or_empty (sc_warehouse_records s)). carries [''id'', ''bucket'', ''project''] r) \<and>
     (\<forall>r\<in>set (or_empty (sc_bindings s)). carries [''top_ns'', ''warehouse_id''] r)"

lemma well_formed_kept [simp]:
  "well_formed (sc_namespaces_update a s) = well_formed s" "well_formed (sc_tables_update b s) = well_formed s"
  "well_formed (sc_table_locations_update c s) = well_formed s" "well_formed (sc_table_uuids_update d s) = well_formed s"
  "well_formed (sc_trashed_uuids_update e s) = well_formed s" "well_formed (sc_uuids_error_update f s) = well_formed s"
  "well_formed (sc_incomplete_update g s) = well_formed s"
  by (simp_all add: well_formed_def)

lemma registries_well_formed: "well_formed (fst (load_registries env w))"
  by (auto simp: load_registries_def well_formed_def split: prod.splits dest!: registry_source_carries)

lemma sources_well_formed: "well_formed (fst (load_sources env namespace_root w))"
  using registries_well_formed [of env w]
  by (cases "load_registries env w")
    (simp add: load_sources_def load_uuids_def load_catalog_def Let_def split: prod.splits option.splits sum.splits)

lemma ids_of_carried: "\<forall>r\<in>set (or_empty records). carries ks r \<Longrightarrow> k \<in> set ks \<Longrightarrow> \<exists>ids. ids_of repr k records = Inr ids"
proof -
  have "\<forall>r\<in>set rs. carries ks r \<Longrightarrow> k \<in> set ks \<Longrightarrow> \<exists>ids. each (\<lambda>r. item_str repr r k) rs = Inr ids" for rs
    by (induction rs) (auto simp: carries_def item_str_def)
  then show "\<forall>r\<in>set (or_empty records). carries ks r \<Longrightarrow> k \<in> set ks \<Longrightarrow> \<exists>ids. ids_of repr k records = Inr ids"
    by (simp add: ids_of_def)
qed

lemma run_category_total: "(first_failure inputs = None \<Longrightarrow> \<exists>fs. detect = Inr fs) \<Longrightarrow> \<exists>r'. run_category c inputs detect assign r = Inr r'"
  by (cases "first_failure inputs") (auto simp: run_category_def)

lemma run_steps_total: "\<forall>step\<in>set steps. \<forall>r. \<exists>r'. step r = Inr r' \<Longrightarrow> \<exists>r'. run_steps steps r = Inr r'"
proof (induction steps r rule: run_steps.induct)
  case (2 step steps r)
  then obtain r1 where "step r = Inr r1" by fastforce
  with "2" show ?case by auto
qed simp

lemma dangling_total:
  assumes "\<forall>r\<in>set bindings. carries [''top_ns'', ''warehouse_id''] r"
  shows "\<exists>fs. dangling_bindings repr bindings ws = Inr fs"
proof -
  have "\<forall>r\<in>set bs. carries [''top_ns'', ''warehouse_id''] r \<Longrightarrow> \<exists>fs. each (dangling_of repr ws) bs = Inr fs" for bs
    by (induction bs) (auto simp: carries_def dangling_of_def item_str_def)
  with assms show ?thesis by (fastforce simp: dangling_bindings_def)
qed

lemma build_report_total:
  assumes "well_formed s"
  shows "\<exists>r. build_report repr cfg platform s = Inr r"
proof -
  have w: "\<forall>r\<in>set (or_empty (sc_project_records s)). carries [''id''] r"
    "\<forall>r\<in>set (or_empty (sc_warehouse_records s)). carries [''id'', ''bucket'', ''project''] r"
    "\<forall>r\<in>set (or_empty (sc_bindings s)). carries [''top_ns'', ''warehouse_id''] r"
    using assms by (simp_all add: well_formed_def)
  obtain ps ws bs ts where ids: "ids_of repr ''id'' (sc_project_records s) = Inr ps" "ids_of repr ''id'' (sc_warehouse_records s) = Inr ws"
    "ids_of repr ''bucket'' (sc_warehouse_records s) = Inr bs" "ids_of repr ''top_ns'' (sc_bindings s) = Inr ts"
    using ids_of_carried [OF w(1), of "''id''" repr] ids_of_carried [OF w(2), of "''id''" repr]
      ids_of_carried [OF w(2), of "''bucket''" repr] ids_of_carried [OF w(3), of "''top_ns''" repr] by auto
  have "\<forall>step\<in>set (report_steps repr cfg platform s ps ws). \<forall>r. \<exists>r'. step r = Inr r'"
    using ids(3,4) dangling_total [OF w(3)]
    by (simp add: report_steps_def with_claimed_def run_category_total)
  then obtain r0 where "run_steps (report_steps repr cfg platform s ps ws) (empty_report (sc_incomplete s)) = Inr r0"
    using run_steps_total by blast
  with ids(1,2) show ?thesis by (simp add: build_report_def)
qed

lemma all_categories:
  "set (store_categories @ [''orphan_files'']) = set categories - {''unregistered_datasets'', ''absent_datasets''}"
  "set (store_categories @ [''unregistered_datasets'', ''absent_datasets'', ''orphan_files'']) = set categories"
  by code_simp+

text \<open>
  C16: A reconcile always reports, whatever the stores answer. Each category is either counted, or
  unavailable, or skipped, and in one of the three ways only; the exception is the storage that cannot be opened,
  where the two categories of registration are in none.
\<close>

theorem report_accounts_for_every_category:
  "\<exists>r. fst (fst (reconcile env cfg door w)) = Inr r \<and> distinct (accounted r) \<and>
     set (accounted r) = (if rs_orphan_scan_enabled cfg \<and> (\<exists>e. sd_fs door = Inl e)
       then set categories - {''unregistered_datasets'', ''absent_datasets''} else set categories)"
proof -
  obtain s w1 where s: "load_sources env (rs_namespace_root cfg) w = (s, w1)"
    by fastforce
  then have "well_formed s"
    using sources_well_formed [of env "rs_namespace_root cfg" w] by simp
  then obtain r0 where b: "build_report (re_repr env) cfg (platform_of cfg) s = Inr r0"
    using build_report_total by blast
  let ?r = "orphan_category (re_repr env) cfg door s r0"
  have a: "accounts_for (store_categories @ storage_categories cfg door) (empty_report (sc_incomplete s)) ?r"
    by (rule accounts_for_trans [OF built_accounts [OF b] orphan_accounts])
  have e: "accounted (empty_report n) = []" for n
    by (simp add: accounted_def empty_report_def)
  have d: "distinct (store_categories @ storage_categories cfg door)"
    by (simp add: store_categories_def storage_categories_def)
  have *: "distinct (accounted ?r)" "set (accounted ?r) = set (store_categories @ storage_categories cfg door)"
    using a d unfolding accounts_for_def e by simp_all
  have "set (store_categories @ storage_categories cfg door) = (if rs_orphan_scan_enabled cfg \<and> (\<exists>e. sd_fs door = Inl e)
      then set categories - {''unregistered_datasets'', ''absent_datasets''} else set categories)"
    unfolding storage_categories_def
    by (cases "rs_orphan_scan_enabled cfg \<and> (\<exists>e. sd_fs door = Inl e)")
      (simp_all only: if_P if_not_P all_categories not_False_eq_True)
  with * b s show ?thesis
    by (simp add: reconcile_def)
qed

section \<open>What a clean report says\<close>

text \<open>A field that the walk of the storage leaves as it was.\<close>

definition store_field :: "(report \<Rightarrow> 'f) \<Rightarrow> bool" where
  "store_field F \<longleftrightarrow> (\<forall>r. (\<forall>u. F (rp_unavailable_update u r) = F r) \<and> (\<forall>u. F (rp_skipped_update u r) = F r) \<and>
     (\<forall>u. F (rp_counts_update u r) = F r) \<and> (\<forall>u. F (rp_incomplete_update u r) = F r) \<and> (\<forall>u. F (rp_total_update u r) = F r) \<and>
     (\<forall>u. F (rp_unregistered_datasets_update u r) = F r) \<and> (\<forall>u. F (rp_absent_datasets_update u r) = F r) \<and>
     (\<forall>u. F (rp_orphan_files_update u r) = F r) \<and> (\<forall>u. F (rp_orphan_files_blocking_update u r) = F r) \<and>
     (\<forall>u. F (rp_bytes_by_bucket_update u r) = F r) \<and> (\<forall>u. F (rp_files_by_bucket_update u r) = F r) \<and>
     (\<forall>u. F (rp_excluded_datasets_update u r) = F r))"

lemma reading_marks:
  assumes "store_field F"
  shows "c \<noteq> c' \<Longrightarrow> reading c F (mark_counted c' n r) = reading c F r"
    "c \<noteq> c' \<Longrightarrow> reading c F (mark_unavailable c' why r) = reading c F r"
    "reading c F (mark_skipped c' gap r) = reading c F r"
    "reading c F (note_incomplete source note r) = reading c F r"
  using assms by (auto simp: store_field_def reading_def mark_counted_def mark_unavailable_def mark_skipped_def
      note_incomplete_def map_of_snoc simp del: map_of_append split: option.splits)

lemma reading_fields:
  assumes "store_field F"
  shows "reading c F (rp_total_update u r) = reading c F r" "reading c F (rp_unregistered_datasets_update v r) = reading c F r"
    "reading c F (rp_absent_datasets_update w r) = reading c F r" "reading c F (rp_orphan_files_update x r) = reading c F r"
    "reading c F (rp_orphan_files_blocking_update y r) = reading c F r" "reading c F (rp_bytes_by_bucket_update b r) = reading c F r"
    "reading c F (rp_files_by_bucket_update f r) = reading c F r" "reading c F (rp_excluded_datasets_update e r) = reading c F r"
  using assms by (simp_all add: store_field_def reading_def)

lemma reading_orphan_category:
  assumes F: "store_field F" and c: "c \<notin> set [''unregistered_datasets'', ''absent_datasets'', ''orphan_files'']"
  shows "reading c F (orphan_category repr cfg door s r) = reading c F r"
proof -
  note m = reading_marks [OF F] and f = reading_fields [OF F] and n = fold_same [of "reading c F", OF reading_marks(4) [OF F]]
  have drift: "reading c F (registration_drift repr s ds wb r) = reading c F r" for ds wb r
    using c by (simp add: registration_drift_def Let_def m f n split: option.splits)
  have files: "reading c F (file_drift scan r) = reading c F r" for scan r
    using c by (simp add: file_drift_def Let_def m f n)
  show ?thesis
  proof (rule orphan_category_cases [OF refl, of cfg repr door s r], goal_cases off unopened walked)
    case (walked fs buckets r1 datasets wb r2)
    then have "reading c F r1 = reading c F r" "reading c F r2 = reading c F r1"
      using walk_bucket_keeps [of "reading c F", OF m(4), of door fs "rs_max_depth cfg" buckets "([], [], r1)"]
        scannable_keeps [of "reading c F", OF m(4), of repr cfg s r] by simp_all
    with walked(5) show ?case by (simp add: files drift)
  qed (use c in \<open>simp_all add: m\<close>)
qed

lemma total_drift: "rp_total (registration_drift repr s datasets walked r) = rp_total r"
proof -
  have "rp_total (note_incomplete a b r) = rp_total r" for a b r
    by (simp add: note_incomplete_def)
  note n = this fold_same [of rp_total, OF this]
  show ?thesis
    by (simp add: registration_drift_def Let_def n mark_counted_def mark_unavailable_def split: option.splits)
qed

lemma file_drift_totals:
  "rp_total (file_drift scan r) = rp_total r + length (filter blocks_the_purge (rp_orphan_files (file_drift scan r)))"
proof -
  have "rp_total (note_incomplete a b r) = rp_total r" "rp_orphan_files (note_incomplete a b r) = rp_orphan_files r" for a b r
    by (simp_all add: note_incomplete_def)
  note n = this fold_same [of rp_total, OF this(1)] fold_same [of rp_orphan_files, OF this(2)]
  show ?thesis
    by (simp add: file_drift_def Let_def n mark_counted_def)
qed

lemma incomplete_notes: "set (rp_incomplete r) \<subseteq> set (rp_incomplete (fold (\<lambda>x. note_incomplete (so x) (no x)) xs r))"
proof (induction xs arbitrary: r)
  case (Cons x xs)
  have "set (rp_incomplete r) \<subseteq> set (rp_incomplete (note_incomplete (so x) (no x) r))"
    by (auto simp: note_incomplete_def)
  with Cons [of "note_incomplete (so x) (no x) r"] show ?case by auto
qed simp

lemma incomplete_grows:
  "set (rp_incomplete r) \<subseteq> set (rp_incomplete (orphan_category repr cfg door s r))"
proof -
  have noted: "set (rp_incomplete r) \<subseteq> set (rp_incomplete (note_incomplete a b r))" for a b r
    by (auto simp: note_incomplete_def)

  have drift: "set (rp_incomplete r) \<subseteq> set (rp_incomplete (registration_drift repr s ds wb r))" for ds wb r
    by (auto simp: registration_drift_def Let_def mark_counted_def mark_unavailable_def intro: subsetD [OF incomplete_notes] split: option.splits)
  have files: "set (rp_incomplete r) \<subseteq> set (rp_incomplete (file_drift scan r))" for scan r
    by (auto simp: file_drift_def Let_def mark_counted_def intro: subsetD [OF incomplete_notes])
  have walk: "set (rp_incomplete (snd (snd acc))) \<subseteq> set (rp_incomplete (snd (snd (fold (walk_bucket door fs depth) bs acc))))" for fs depth bs acc
  proof (induction bs arbitrary: acc)
    case (Cons b bs)
    have "set (rp_incomplete (snd (snd acc))) \<subseteq> set (rp_incomplete (snd (snd (walk_bucket door fs depth b acc))))"
      by (auto simp: walk_bucket_def intro: subsetD [OF noted] subsetD [OF incomplete_notes] split: prod.splits sum.splits)
    with Cons [of "walk_bucket door fs depth b acc"] show ?case by auto
  qed simp
  show ?thesis
  proof (rule orphan_category_cases [OF refl, of cfg repr door s r], goal_cases off unopened walked)
    case (walked fs buckets r1 datasets wb r2)
    have "set (rp_incomplete r) \<subseteq> set (rp_incomplete r1)"
      using walked(3) by (auto simp: scannable_buckets_def intro: subsetD [OF noted] split: option.splits)
    also have "\<dots> \<subseteq> set (rp_incomplete r2)"
      using walk [of "([], [], r1)" fs "rs_max_depth cfg" buckets] walked(4) by simp
    finally show ?case
      unfolding walked(5) using drift files by blast
  qed (auto simp: mark_skipped_def mark_unavailable_def note_incomplete_def)
qed

lemma each_set: "each f xs = Inr ys \<Longrightarrow> y \<in> set ys \<longleftrightarrow> (\<exists>x\<in>set xs. f x = Inr y)"
proof -
  assume "each f xs = Inr ys"
  then have "Inr ` set ys = f ` set xs" using each_answers [of f xs ys] by (metis list.set_map)
  then show "y \<in> set ys \<longleftrightarrow> (\<exists>x\<in>set xs. f x = Inr y)" by (metis (no_types, lifting) image_iff sum.inject(2))
qed

lemma first_failure_None: "first_failure reasons = None \<longleftrightarrow> (\<forall>x\<in>set reasons. x = None)"
  by (induction reasons) (auto simp: first_failure_def)

lemma clean_category:
  assumes "reading c F r = outcome inputs fs" "map_of (rp_unavailable r) c = None" "gating_total (rp_counts r) = 0"
    "c \<notin> set non_gating_categories"
  shows "fs = [] \<and> (\<forall>x\<in>set inputs. x = None)"
proof -
  have i: "first_failure inputs = None" "map_of (rp_counts r) c = Some (length fs)"
    using assms(1,2) by (auto simp: reading_def outcome_def split: option.splits)
  have "(c, length fs) \<in> set (rp_counts r)" using i(2) by (rule map_of_SomeD)
  with assms(3,4) have "length fs = 0" by (force simp: gating_total_def)
  with i(1) show ?thesis by (simp add: first_failure_None)
qed

lemma checked_inputs:
  assumes "reading c F r = outcome inputs fs" "map_of (rp_unavailable r) c = None"
  shows "\<forall>x\<in>set inputs. x = None"
  using assms by (auto simp: reading_def outcome_def first_failure_None [symmetric] split: option.splits)

lemma built_incomplete:
  assumes "build_report repr cfg platform s = Inr r"
  shows "rp_incomplete r = sc_incomplete s"
proof -
  obtain ps ws r0 where b: "run_steps (report_steps repr cfg platform s ps ws) (empty_report (sc_incomplete s)) = Inr r0"
    "r = r0\<lparr>rp_total := gating_total (rp_counts r0)\<rparr>"
    using assms by (rule built_from)
  have "keeps rp_incomplete (\<lambda>r. Inr (mark_skipped c gap r))" for c gap
    by (simp add: keeps_def mark_skipped_def)
  then have "list_all (keeps rp_incomplete) (report_steps repr cfg platform s ps ws)"
    by (simp add: report_steps_def run_category_keeps mark_unavailable_def mark_counted_def)
  from run_steps_keeps [OF this b(1)] b(2) show ?thesis by (simp add: empty_report_def)
qed

text \<open>The stores agree: what each half of a pair of stores names, the other names too.\<close>

definition has_record :: "(json \<Rightarrow> string) \<Rightarrow> string \<Rightarrow> dict list option \<Rightarrow> string \<Rightarrow> bool" where
  "has_record repr field records v \<longleftrightarrow> (\<exists>r\<in>set (or_empty records). item_str repr r field = Inr v)"

definition stores_agree :: "(json \<Rightarrow> string) \<Rightarrow> recon_settings \<Rightarrow> sources \<Rightarrow> bool" where
  "stores_agree repr cfg s \<longleftrightarrow>
     (\<forall>(p, _)\<in>set (by_type s ''project''). has_record repr ''id'' (sc_project_records s) p \<or> p \<in> set (platform_root cfg ''project'')) \<and>
     (\<forall>p. has_record repr ''id'' (sc_project_records s) p \<longrightarrow> count_of (by_type s ''project'') p > 0) \<and>
     (\<forall>(v, _)\<in>set (by_type s ''warehouse''). has_record repr ''id'' (sc_warehouse_records s) v \<or>
        v = object_id_of (rs_default_warehouse_object cfg) \<or> v \<in> set (platform_root cfg ''warehouse'')) \<and>
     (\<forall>b\<in>set (or_empty (sc_buckets s)). has_record repr ''bucket'' (sc_warehouse_records s) b \<or> b \<in> set (platform_of cfg)) \<and>
     (\<forall>b\<in>set (or_empty (sc_bindings s)). \<forall>v. item_str repr b ''warehouse_id'' = Inr v \<longrightarrow>
        has_record repr ''id'' (sc_warehouse_records s) v)"

definition every_source_read :: "sources \<Rightarrow> bool" where
  "every_source_read s \<longleftrightarrow> sc_incomplete s = [] \<and> sc_tuples_error s = None \<and> sc_project_records_error s = None \<and>
     sc_warehouse_records_error s = None \<and> sc_trash_error s = None \<and> sc_bindings_error s = None \<and>
     sc_tables_error s = None \<and> sc_uuids_error s = None \<and> sc_buckets_error s = None"

lemma ghosts_none: "ghosts kind counts ids excl = [] \<Longrightarrow> (i, n) \<in> set counts \<Longrightarrow> i \<in> set ids \<or> i \<in> set excl"
  by (force simp: ghosts_def filter_empty_conv)

lemma not_dangling:
  assumes "dangling_bindings repr bindings ws = Inr []" "b \<in> set bindings" "item_str repr b ''warehouse_id'' = Inr v"
  shows "v \<in> set ws"
proof (rule ccontr)
  assume v: "v \<notin> set ws"
  obtain found where found: "each (dangling_of repr ws) bindings = Inr found"
    using assms(1) by (cases "each (dangling_of repr ws) bindings") (simp_all add: dangling_bindings_def)
  then have "set (sort_key fst (sort_key snd (List.map_filter id found))) = {}"
    using assms(1) by (simp add: dangling_bindings_def)
  then have none: "List.map_filter id found = []" by simp
  from found assms(2) have "dangling_of repr ws b \<in> Inr ` set found"
    using each_answers [OF found] by (metis list.set_map imageI)
  then obtain x where x: "x \<in> set found" "dangling_of repr ws b = Inr x" by auto
  then obtain y where "x = Some y"
    using v assms(3) by (cases "item_str repr b ''top_ns''") (auto simp: dangling_of_def)
  with x(1) none in_map_filter [of y id found] show False by simp
qed

lemma clean_view:
  assumes "report_is_clean (purge_view r) = None"
  shows "rp_total r = 0" "rp_unavailable r = []" "rp_incomplete r = []" "\<forall>k\<in>set (rp_skipped r). \<not> sk_coverage_gap k"
proof -
  have empty_sort: "sort xs = [] \<longleftrightarrow> xs = []" for xs :: "string list"
    by (metis set_empty set_sort)
  show "rp_total r = 0" "rp_unavailable r = []" "rp_incomplete r = []" "\<forall>k\<in>set (rp_skipped r). \<not> sk_coverage_gap k"
    using assms by (auto simp: report_is_clean_def purge_view_def Let_def empty_sort filter_empty_conv split: if_splits)
qed

lemma clean_walk:
  assumes "report_is_clean (purge_view (orphan_category repr cfg door s r0)) = None"
  shows "rp_total r0 = 0 \<and> (\<forall>f\<in>set (rp_orphan_files (orphan_category repr cfg door s r0)). of_reclaimable_by_lance f = Some True)"
proof (rule orphan_category_cases [OF refl, of cfg repr door s r0], goal_cases off unopened walked)
  case off
  then show ?case using clean_view(4) [OF assms] by (simp add: mark_skipped_def)
next
  case (unopened e)
  then show ?case using clean_view(3) [OF assms] by (simp add: note_incomplete_def)
next
  case (walked fs buckets r1 datasets wb r2)
  have n: "rp_total (note_incomplete a b r) = rp_total r" for a b r
    by (simp add: note_incomplete_def)
  have t: "rp_total r1 = rp_total r0" "rp_total r2 = rp_total r1"
    using walk_bucket_keeps [of rp_total, OF n, of door fs "rs_max_depth cfg" buckets "([], [], r1)"]
      scannable_keeps [of rp_total, OF n, of repr cfg s r0] walked(3,4) by simp_all
  let ?scan = "scan_datasets fs (sd_list_tree door) (sd_open_dataset door) (map (\<lambda>uri. (uri, remove_prefix ''s3://'' uri)) datasets)"
  from clean_view(1) [OF assms] have "rp_total r0 + length (filter blocks_the_purge
      (rp_orphan_files (orphan_category repr cfg door s r0))) = 0"
    unfolding walked(5) using file_drift_totals [of ?scan "registration_drift repr s datasets wb r2"] t by (simp add: total_drift)
  then show ?case by (simp add: filter_empty_conv blocks_the_purge_def)
qed

lemma has_record_ids:
  "ids_of repr field records = Inr ids \<Longrightarrow> v \<in> set ids \<longleftrightarrow> has_record repr field records v"
  using each_set [of "\<lambda>r. item_str repr r field" "or_empty records" ids v] by (simp add: ids_of_def has_record_def)

lemma gating_names:
  "''ghost_projects'' \<notin> set non_gating_categories" "''ghost_warehouses'' \<notin> set non_gating_categories"
  "''unreferenced_projects'' \<notin> set non_gating_categories" "''orphan_buckets'' \<notin> set non_gating_categories"
  "''dangling_bindings'' \<notin> set non_gating_categories"
  by (simp_all add: non_gating_categories_def)

lemma clean_projects:
  assumes "build_report repr cfg platform s = Inr r" "gating_total (rp_counts r) = 0"
    "\<forall>c\<in>set store_categories. map_of (rp_unavailable r) c = None"
  shows "(\<forall>(p, _)\<in>set (by_type s ''project''). has_record repr ''id'' (sc_project_records s) p \<or> p \<in> set (platform_root cfg ''project'')) \<and>
    (\<forall>p. has_record repr ''id'' (sc_project_records s) p \<longrightarrow> count_of (by_type s ''project'') p > 0) \<and>
    sc_project_records_error s = None"
proof -
  obtain ps where ps: "ids_of repr ''id'' (sc_project_records s) = Inr ps"
    "reading ''ghost_projects'' rp_ghost_projects r = outcome [sc_tuples_error s, sc_project_records_error s]
      (ghosts ''project'' (by_type s ''project'') ps (platform_root cfg ''project''))"
    using assms(1) by (rule built_ghost_projects)
  obtain ps' where "ids_of repr ''id'' (sc_project_records s) = Inr ps'" and
    up: "reading ''unreferenced_projects'' rp_unreferenced_projects r = outcome [sc_tuples_error s, sc_project_records_error s]
      (unreferenced_projects ps' (by_type s ''project''))"
    using assms(1) by (rule built_unreferenced_projects)
  with ps(1) have same: "ps' = ps" by simp
  have "ghosts ''project'' (by_type s ''project'') ps (platform_root cfg ''project'') = []" "sc_project_records_error s = None"
    using clean_category [OF ps(2) _ assms(2) gating_names(1)] assms(3) by (simp_all add: store_categories_def)
  moreover have "unreferenced_projects ps (by_type s ''project'') = []"
    using clean_category [OF up _ assms(2) gating_names(3)] assms(3) same by (simp add: store_categories_def)
  ultimately show ?thesis
    using ghosts_none [of "''project''" "by_type s ''project''" ps] has_record_ids [OF ps(1)]
    by (auto simp: unreferenced_projects_def filter_empty_conv)
qed

lemma clean_warehouses:
  assumes "build_report repr cfg platform s = Inr r" "gating_total (rp_counts r) = 0"
    "\<forall>c\<in>set store_categories. map_of (rp_unavailable r) c = None"
  shows "(\<forall>(v, _)\<in>set (by_type s ''warehouse''). has_record repr ''id'' (sc_warehouse_records s) v \<or>
      v = object_id_of (rs_default_warehouse_object cfg) \<or> v \<in> set (platform_root cfg ''warehouse'')) \<and>
    sc_warehouse_records_error s = None"
proof -
  obtain ws where ws: "ids_of repr ''id'' (sc_warehouse_records s) = Inr ws"
    "reading ''ghost_warehouses'' rp_ghost_warehouses r = outcome [sc_tuples_error s, sc_warehouse_records_error s]
      (ghosts ''warehouse'' (by_type s ''warehouse'') ws
        (object_id_of (rs_default_warehouse_object cfg) # platform_root cfg ''warehouse''))"
    using assms(1) by (rule built_ghost_warehouses)
  have "ghosts ''warehouse'' (by_type s ''warehouse'') ws
      (object_id_of (rs_default_warehouse_object cfg) # platform_root cfg ''warehouse'') = []" "sc_warehouse_records_error s = None"
    using clean_category [OF ws(2) _ assms(2) gating_names(2)] assms(3) by (simp_all add: store_categories_def)
  then show ?thesis
    using ghosts_none [of "''warehouse''" "by_type s ''warehouse''" ws] has_record_ids [OF ws(1)] by fastforce
qed

lemma clean_buckets:
  assumes "build_report repr cfg platform s = Inr r" "gating_total (rp_counts r) = 0"
    "\<forall>c\<in>set store_categories. map_of (rp_unavailable r) c = None" "well_formed s"
  shows "(\<forall>b\<in>set (or_empty (sc_buckets s)). has_record repr ''bucket'' (sc_warehouse_records s) b \<or> b \<in> set platform) \<and>
    sc_buckets_error s = None"
proof -
  obtain bs where bs: "ids_of repr ''bucket'' (sc_warehouse_records s) = Inr bs"
    using assms(4) ids_of_carried [of "sc_warehouse_records s" "[''id'', ''bucket'', ''project'']" "''bucket''" repr]
    by (auto simp: well_formed_def)
  have "orphan_buckets (or_empty (sc_buckets s)) bs platform = []" "sc_buckets_error s = None"
    using clean_category [OF built_orphan_buckets [OF assms(1)] _ assms(2) gating_names(4)] assms(3) bs
    by (simp_all add: store_categories_def with_claimed_def)
  then show ?thesis
    using has_record_ids [OF bs] by (auto simp: orphan_buckets_def filter_empty_conv)
qed

lemma clean_bindings:
  assumes "build_report repr cfg platform s = Inr r" "gating_total (rp_counts r) = 0"
    "\<forall>c\<in>set store_categories. map_of (rp_unavailable r) c = None" "well_formed s"
  shows "(\<forall>b\<in>set (or_empty (sc_bindings s)). \<forall>v. item_str repr b ''warehouse_id'' = Inr v \<longrightarrow>
      has_record repr ''id'' (sc_warehouse_records s) v) \<and> sc_bindings_error s = None"
proof -
  obtain ws where ws: "ids_of repr ''id'' (sc_warehouse_records s) = Inr ws"
    "reading ''dangling_bindings'' rp_dangling_bindings r = outcome [sc_bindings_error s, sc_warehouse_records_error s]
      (projr (dangling_bindings repr (or_empty (sc_bindings s)) ws))"
    using assms(1) by (rule built_dangling_bindings)
  obtain found where "dangling_bindings repr (or_empty (sc_bindings s)) ws = Inr found"
    using assms(4) dangling_total [of "or_empty (sc_bindings s)" repr ws] by (auto simp: well_formed_def)
  moreover have "projr (dangling_bindings repr (or_empty (sc_bindings s)) ws) = []" "sc_bindings_error s = None"
    using clean_category [OF ws(2) _ assms(2) gating_names(5)] assms(3) by (simp_all add: store_categories_def)
  ultimately show ?thesis
    using not_dangling [of repr "or_empty (sc_bindings s)" ws] has_record_ids [OF ws(1)] by auto
qed


text \<open>An estate of one project with one warehouse, which holds the table \<open>t\<close> on its own root.\<close>

definition one_warehouse :: "unit recon_env" where
  "one_warehouse = \<lparr>re_repr = (\<lambda>_. []), re_claims = \<lparr>cl_root = S3, cl_hex = id\<rparr>, re_dg = (\<lambda>_. ()),
     re_pages = Some (\<lambda>_. Inr ([\<lparr>ft_user = ''user:a'', ft_relation = ''admin'', ft_object = ''project:p''\<rparr>,
       \<lparr>ft_user = ''project:p'', ft_relation = ''project'', ft_object = ''warehouse:w''\<rparr>,
       \<lparr>ft_user = ''user:a'', ft_relation = ''owner'', ft_object = ''table:u''\<rparr>], None)),
     re_buckets = Some (Inr ([''b'', ''w''], False)), re_namespace_rows = (\<lambda>_. Inr []),
     re_table_rows = (\<lambda>root. Inr (if root = ''s3://w''
       then [\<lparr>mr_object_id = ''t'', mr_object_type = ''table'', mr_location = ''t'', mr_uuid = None\<rparr>] else []))\<rparr>"

definition one_warehouse_world :: recon_world where
  "one_warehouse_world = \<lparr>
     rw_control = \<lparr>objects = [(''_projects/p.json'', Json [(''id'', JStr ''p'')]),
       (''_warehouses/w.json'', Json [(''id'', JStr ''w''), (''bucket'', JStr ''w''), (''project'', JStr ''p''),
          (''root_uri'', JStr ''s3://w'')])], clock = 0, pending = []\<rparr>,
     rw_claims = \<lparr>objects = [(claim_key \<lparr>cl_root = S3, cl_hex = id\<rparr> ''s3://w/t'',
       Json \<lparr>lc_location = ''w/t'', lc_table = ''t'', lc_segments = [''w'', ''t''], lc_uuid = Some ''u'', lc_claimed_at = 0,
         lc_token = None, lc_released_at = None, lc_fence = None\<rparr>)], clock = 0, pending = []\<rparr>\<rparr>"

definition small_recon_settings :: recon_settings where
  "small_recon_settings = \<lparr>rs_warehouses_enabled = True, rs_fga_root_object = ''warehouse:lance_catalog'',
     rs_default_warehouse_object = ''warehouse:lance_catalog'', rs_control_root = ''s3://b'', rs_namespace_root = ''s3://b'',
     rs_platform_buckets = [], rs_orphan_scan_enabled = True, rs_sweep_buckets = [''b''], rs_max_depth = 3\<rparr>"

definition empty_storage :: storage_door where
  "empty_storage = \<lparr>sd_fs = Inr \<lparr>fs_list = (\<lambda>_. Listed []), fs_info = (\<lambda>_. Inr NotFound), fs_is_s3 = True\<rparr>,
     sd_decode = id, sd_list_tree = (\<lambda>_. Tree []), sd_open_dataset = (\<lambda>_. Inl ''none'')\<rparr>"

definition one_warehouse_run :: "(report result \<times> sources) \<times> recon_world" where
  "one_warehouse_run = reconcile one_warehouse small_recon_settings empty_storage one_warehouse_world"

lemma one_warehouse_clean:
  "\<not> isl (fst (fst one_warehouse_run))" "report_is_clean (purge_view (projr (fst (fst one_warehouse_run)))) = None"
  "by_type (snd (fst one_warehouse_run)) ''project'' = [(''p'', 1)]"
  by code_simp+


end
