(* ===== verification/Drift_Repair.thy ===== *)
theory Drift_Repair
  imports Drift_Report
begin

text \<open>
  The three passes that act on a drift report: \<^verbatim>\<open>maintenance/services/repair.py\<close> revokes the tuples of objects the
  report found gone, \<^verbatim>\<open>rebuild.py\<close> writes the tenancy pointers the registries justify, and \<^verbatim>\<open>tombstones.py\<close>
  removes the trash records whose location a probe found empty. OpenFGA's answers, the probe and the removal of a
  record are arguments, as they are parameters in the code or services behind it.
\<close>

section \<open>Repair\<close>

definition revocable :: "string list" where
  "revocable = [''ghost_projects'', ''ghost_warehouses'', ''ghost_tables'']"

definition subtracted_from :: "(string \<times> string list) list" where
  "subtracted_from = [(''ghost_projects'', [''registry:projects'']), (''ghost_warehouses'', [''registry:warehouses'']),
     (''ghost_tables'', [''catalog:tables'', ''registry:trash''])]"

datatype repair_refusal = Not_an_absent_object | Read_in_part "incomplete_scan list"

record revoked_object =
  rv_fga_object :: string
  rv_tuples :: nat
  rv_justified_by :: string

record repair_report =
  rr_enabled :: bool
  rr_dry_run :: bool
  rr_revoked :: "revoked_object list"
  rr_refused :: "(string \<times> repair_refusal) list"
  rr_capped :: nat
  rr_error :: "error option"

text \<open>\<^verbatim>\<open>getattr(report, name, None)\<close> for the categories that are refused: whether anything was found.\<close>

definition refusable :: "report \<Rightarrow> (string \<times> bool) list" where
  "refusable r = [(''absent_datasets'', rp_absent_datasets r \<noteq> []), (''unregistered_datasets'', rp_unregistered_datasets r \<noteq> []),
     (''ungoverned_tables'', rp_ungoverned_tables r \<noteq> []), (''unbound_namespaces'', rp_unbound_namespaces r \<noteq> []),
     (''unreferenced_projects'', rp_unreferenced_projects r \<noteq> []), (''orphan_buckets'', rp_orphan_buckets r \<noteq> []),
     (''orphan_files'', rp_orphan_files r \<noteq> []), (''orphaned_trash'', rp_orphaned_trash r \<noteq> []),
     (''dangling_bindings'', rp_dangling_bindings r \<noteq> [])]"

definition ghosts_found :: "report \<Rightarrow> string \<Rightarrow> ghost_object list" where
  "ghosts_found r category = (if category = ''ghost_projects'' then rp_ghost_projects r
     else if category = ''ghost_warehouses'' then rp_ghost_warehouses r
     else if category = ''ghost_tables'' then rp_ghost_tables r else [])"

definition read_in_part :: "report \<Rightarrow> string \<Rightarrow> incomplete_scan list" where
  "read_in_part r category = filter (\<lambda>n. list_ex (\<lambda>p. prefix p (in_source n)) (or_empty (map_of subtracted_from category)))
     (rp_incomplete r)"

definition plan_category ::
    "report \<Rightarrow> string \<Rightarrow> revoked_object list \<times> (string \<times> repair_refusal) list \<Rightarrow> revoked_object list \<times> (string \<times> repair_refusal) list" where
  "plan_category r category plan = (case plan of (planned, refused) \<Rightarrow>
     (let findings = ghosts_found r category; hit = read_in_part r category in
      if findings = [] then plan
      else if hit \<noteq> [] then (planned, AList.update category (Read_in_part hit) refused)
      else (planned @ map (\<lambda>g. \<lparr>rv_fga_object = fga_object g, rv_tuples = gh_tuples g, rv_justified_by = category\<rparr>) findings,
        refused)))"

definition plan_repair :: "report \<Rightarrow> revoked_object list \<times> (string \<times> repair_refusal) list" where
  "plan_repair r = fold (plan_category r) revocable
     ([], map (\<lambda>(name, _). (name, Not_an_absent_object)) (filter snd (refusable r)))"

record act_settings =
  as_enabled :: bool
  as_dry_run :: bool
  as_max_per_tick :: nat

text \<open>\<open>client\<close> is what a revoke of an object answers, \<open>None\<close> where no client is wired in.\<close>

fun act_on_each :: "('a \<Rightarrow> unit result) \<Rightarrow> 'a list \<Rightarrow> 'a list \<times> error option" where
  "act_on_each act [] = ([], None)"
| "act_on_each act (x # xs) = (case act_on_each act xs of (finished, err) \<Rightarrow> (case act x of
       Inl e \<Rightarrow> (finished, Some (case err of None \<Rightarrow> e | Some later \<Rightarrow> later))
     | Inr _ \<Rightarrow> (x # finished, err)))"

definition repair_drift :: "act_settings \<Rightarrow> (string \<Rightarrow> unit result) option \<Rightarrow> report \<Rightarrow> repair_report" where
  "repair_drift st client r = (case client of
       None \<Rightarrow> \<lparr>rr_enabled = as_enabled st, rr_dry_run = as_dry_run st, rr_revoked = [], rr_refused = [], rr_capped = 0,
         rr_error = None\<rparr>
     | Some end_tuples \<Rightarrow>
         (if \<not> as_enabled st then \<lparr>rr_enabled = False, rr_dry_run = as_dry_run st, rr_revoked = [], rr_refused = [],
            rr_capped = 0, rr_error = None\<rparr>
          else (case plan_repair r of (planned, refused) \<Rightarrow>
            (let head = take (as_max_per_tick st) planned;
                 out = \<lparr>rr_enabled = True, rr_dry_run = as_dry_run st, rr_revoked = head, rr_refused = refused,
                   rr_capped = length planned - as_max_per_tick st, rr_error = None\<rparr> in
             if as_dry_run st then out
             else (case act_on_each (end_tuples \<circ> rv_fga_object) head of
               (finished, err) \<Rightarrow> out\<lparr>rr_revoked := finished, rr_error := err\<rparr>)))))"

section \<open>Rebuild\<close>

datatype why_unjustified = Needs_an_admin "json option" | Names_no_project

record rebuilt_tuple =
  rb_tuple :: fga_tuple
  rb_justified_by :: string

record rebuild_report =
  rbr_enabled :: bool
  rbr_dry_run :: bool
  rbr_written :: "rebuilt_tuple list"
  rbr_unjustified :: "(string \<times> why_unjustified) list"
  rbr_capped :: nat
  rbr_error :: "error option"

text \<open>\<^verbatim>\<open>record.get(k) in stranded\<close>: an array or an object cannot be looked up in a set.\<close>

definition is_among :: "json option \<Rightarrow> string list \<Rightarrow> bool result" where
  "is_among v stranded = (case v of
       Some (JStr s) \<Rightarrow> Inr (s \<in> set stranded)
     | Some (JList _) \<Rightarrow> Inl TypeError
     | Some (JObj _) \<Rightarrow> Inl TypeError
     | _ \<Rightarrow> Inr False)"

definition needs_an_admin :: "dict \<Rightarrow> why_unjustified" where
  "needs_an_admin r = Needs_an_admin (if truthy (dict_get r ''created_by'') then dict_get r ''created_by'' else None)"

definition warehouse_tenancy :: "(json \<Rightarrow> string) \<Rightarrow> dict \<Rightarrow> rebuilt_tuple option" where
  "warehouse_tenancy repr r =
     (if \<not> truthy (dict_get r ''id'') \<or> \<not> truthy (dict_get r ''project'') then None
      else (let warehouse = py_str repr (the (dict_get r ''id'')); project = py_str repr (the (dict_get r ''project'')) in
        Some \<lparr>rb_tuple = \<lparr>ft_user = ''project:'' @ project, ft_relation = ''project'', ft_object = ''warehouse:'' @ warehouse\<rparr>,
          rb_justified_by = ''_warehouses/'' @ warehouse @ ''.json''\<rparr>))"

definition opt_text :: "(json \<Rightarrow> string) \<Rightarrow> json option \<Rightarrow> string" where
  "opt_text repr v = (case v of None \<Rightarrow> ''None'' | Some j \<Rightarrow> py_str repr j)"

fun stranded_records :: "string \<Rightarrow> string list \<Rightarrow> dict list \<Rightarrow> dict list result" where
  "stranded_records field stranded [] = Inr []"
| "stranded_records field stranded (r # rs) = (case is_among (dict_get r field) stranded of
       Inl e \<Rightarrow> Inl e
     | Inr b \<Rightarrow> map_sum id (\<lambda>rest. if b then r # rest else rest) (stranded_records field stranded rs))"

definition plan_warehouse ::
    "(json \<Rightarrow> string) \<Rightarrow> dict \<Rightarrow> rebuilt_tuple list \<times> (string \<times> why_unjustified) list
      \<Rightarrow> rebuilt_tuple list \<times> (string \<times> why_unjustified) list" where
  "plan_warehouse repr r plan = (case plan of (planned, unjustified) \<Rightarrow> (case warehouse_tenancy repr r of
       None \<Rightarrow> (planned, AList.update (''warehouse:'' @ opt_text repr (dict_get r ''id'')) Names_no_project unjustified)
     | Some pointer \<Rightarrow> (planned @ [pointer], unjustified)))"

definition plan_rebuild ::
    "(json \<Rightarrow> string) \<Rightarrow> report \<Rightarrow> sources \<Rightarrow> (rebuilt_tuple list \<times> (string \<times> why_unjustified) list) result" where
  "plan_rebuild repr r s = (let stranded = rp_unreferenced_projects r in
     case stranded_records ''id'' stranded (or_empty (sc_project_records s)) of
       Inl e \<Rightarrow> Inl e
     | Inr projects \<Rightarrow> (case stranded_records ''project'' stranded (or_empty (sc_warehouse_records s)) of
         Inl e \<Rightarrow> Inl e
       | Inr warehouses \<Rightarrow> Inr (fold (plan_warehouse repr) warehouses
           ([], fold (\<lambda>p. AList.update (''project:'' @ opt_text repr (dict_get p ''id'')) (needs_an_admin p)) projects []))))"

definition rebuild_tuples ::
    "(json \<Rightarrow> string) \<Rightarrow> act_settings \<Rightarrow> (fga_tuple list \<Rightarrow> unit result) option \<Rightarrow> report \<Rightarrow> sources \<Rightarrow> rebuild_report result" where
  "rebuild_tuples repr st client r s =
     (let out = \<lparr>rbr_enabled = as_enabled st, rbr_dry_run = as_dry_run st, rbr_written = [], rbr_unjustified = [],
        rbr_capped = 0, rbr_error = None\<rparr> in
      case client of
        None \<Rightarrow> Inr out
      | Some write_tuples \<Rightarrow>
         (if \<not> as_enabled st then Inr out
          else map_sum id (\<lambda>(planned, unjustified).
            (let head = take (as_max_per_tick st) planned;
                 told = out\<lparr>rbr_unjustified := unjustified, rbr_capped := length planned - as_max_per_tick st\<rparr> in
             if head = [] \<or> as_dry_run st then told\<lparr>rbr_written := head\<rparr>
             else (case write_tuples (map rb_tuple head) of
               Inl e \<Rightarrow> told\<lparr>rbr_error := Some e\<rparr> | Inr _ \<Rightarrow> told\<lparr>rbr_written := head\<rparr>))) (plan_rebuild repr r s)))"

section \<open>Tombstones\<close>

datatype tombstone_refusal = Unreadable_location string error | Still_holds string nat

record tombstone =
  tb_id :: string
  tb_uuid :: string
  tb_kind :: string
  tb_location :: string
  tb_probed_objects :: nat

record tombstone_report =
  tr_enabled :: bool
  tr_dry_run :: bool
  tr_swept :: "tombstone list"
  tr_refused :: "(string \<times> tombstone_refusal) list"
  tr_capped :: nat
  tr_error :: "error option"

definition plan_tombstone ::
    "(string \<Rightarrow> nat result) \<Rightarrow> orphaned_record \<Rightarrow> tombstone list \<times> (string \<times> tombstone_refusal) list
      \<Rightarrow> tombstone list \<times> (string \<times> tombstone_refusal) list" where
  "plan_tombstone probe f plan = (case plan of (planned, refused) \<Rightarrow> (case probe (ot_location f) of
       Inl e \<Rightarrow> (planned, AList.update (ot_id f) (Unreadable_location (ot_location f) e) refused)
     | Inr n \<Rightarrow> (if n \<noteq> 0 then (planned, AList.update (ot_id f) (Still_holds (ot_location f) n) refused)
         else (planned @ [\<lparr>tb_id = ot_id f, tb_uuid = ot_uuid f, tb_kind = ot_kind f, tb_location = ot_location f,
           tb_probed_objects = n\<rparr>], refused))))"

definition plan_tombstones ::
    "(string \<Rightarrow> nat result) \<Rightarrow> orphaned_record list \<Rightarrow> tombstone list \<times> (string \<times> tombstone_refusal) list" where
  "plan_tombstones probe findings = fold (plan_tombstone probe) findings ([], [])"

definition sweep_tombstones ::
    "act_settings \<Rightarrow> (string \<Rightarrow> nat result) \<Rightarrow> (tombstone \<Rightarrow> unit result) \<Rightarrow> report \<Rightarrow> tombstone_report" where
  "sweep_tombstones st probe remove r =
     (let out = \<lparr>tr_enabled = as_enabled st, tr_dry_run = as_dry_run st, tr_swept = [], tr_refused = [], tr_capped = 0,
        tr_error = None\<rparr>; findings = rp_orphaned_trash r in
      if \<not> as_enabled st then out
      else (case plan_tombstones probe (take (as_max_per_tick st) findings) of (planned, refused) \<Rightarrow>
        (let told = out\<lparr>tr_refused := refused, tr_capped := length findings - as_max_per_tick st\<rparr> in
         if planned = [] \<or> as_dry_run st then told\<lparr>tr_swept := planned\<rparr>
         else (case act_on_each remove planned of
           (finished, err) \<Rightarrow> told\<lparr>tr_swept := finished, tr_error := err\<rparr>))))"

section \<open>What a repair plans\<close>

lemma planned_iff:
  "rv \<in> set (fst (plan_repair r)) \<longleftrightarrow> (\<exists>c g. c \<in> set revocable \<and> g \<in> set (ghosts_found r c) \<and> read_in_part r c = [] \<and>
     rv = \<lparr>rv_fga_object = fga_object g, rv_tuples = gh_tuples g, rv_justified_by = c\<rparr>)"
proof -
  have one: "rv \<in> set (fst (plan_category r c plan)) \<longleftrightarrow> rv \<in> set (fst plan) \<or> (\<exists>g. g \<in> set (ghosts_found r c) \<and>
      read_in_part r c = [] \<and> rv = \<lparr>rv_fga_object = fga_object g, rv_tuples = gh_tuples g, rv_justified_by = c\<rparr>)" for c plan
    by (auto simp: plan_category_def Let_def split: prod.splits)
  have all: "rv \<in> set (fst (fold (plan_category r) cs plan)) \<longleftrightarrow> rv \<in> set (fst plan) \<or> (\<exists>c g. c \<in> set cs \<and>
      g \<in> set (ghosts_found r c) \<and> read_in_part r c = [] \<and>
      rv = \<lparr>rv_fga_object = fga_object g, rv_tuples = gh_tuples g, rv_justified_by = c\<rparr>)" for cs plan
    by (induction cs arbitrary: plan) (auto simp: one)
  show ?thesis by (simp add: plan_repair_def all)
qed

lemma reconciled_from:
  assumes "reconcile env cfg door w = ((Inr r, s), w')"
  obtains r0 where "build_report (re_repr env) cfg (platform_of cfg) s = Inr r0" "r = orphan_category (re_repr env) cfg door s r0"
    "load_sources env (rs_namespace_root cfg) w = (s, w')"
  using assms by (cases "build_report (re_repr env) cfg (platform_of cfg) s") (auto simp: reconcile_def split: prod.splits)

lemma reconciled_incomplete:
  assumes "reconcile env cfg door w = ((Inr r, s), w')"
  shows "set (sc_incomplete s) \<subseteq> set (rp_incomplete r)"
  by (rule reconciled_from [OF assms]) (metis built_incomplete incomplete_grows)

lemma reconciled_ghost_tables:
  assumes "reconcile env cfg door w = ((Inr r, s), w')"
  shows "reading ''ghost_tables'' rp_ghost_tables r =
    outcome [sc_tables_error s, sc_tuples_error s, sc_trash_error s, sc_uuids_error s]
      (ghosts ''table'' (by_type s ''table'') (map snd (or_empty (sc_table_uuids s))) (or_empty (sc_trashed_uuids s)))"
  by (rule reconciled_from [OF assms])
    (simp add: reading_orphan_category built_ghost_tables store_field_def)

lemma reconciled_ungoverned:
  assumes "reconcile env cfg door w = ((Inr r, s), w')"
  shows "reading ''ungoverned_tables'' rp_ungoverned_tables r =
    outcome [sc_tables_error s, sc_tuples_error s, sc_uuids_error s]
      (ungoverned_tables (or_empty (sc_tables s)) (or_empty (sc_table_uuids s)) (by_type s ''table''))"
  by (rule reconciled_from [OF assms])
    (simp add: reading_orphan_category built_ungoverned_tables store_field_def)

lemma set_ghosts:
  "g \<in> set (ghosts kind counts ids excl) \<longleftrightarrow> (\<exists>i n. (i, n) \<in> set counts \<and> i \<notin> set ids \<and> i \<notin> set excl \<and>
     g = \<lparr>gh_kind = kind, gh_id = i, gh_tuples = n\<rparr>)"
  by (auto simp: ghosts_def)

text \<open>The tables a repair plans to revoke, as the sources say them.\<close>

definition table_is_planned :: "report \<Rightarrow> string \<Rightarrow> bool" where
  "table_is_planned r u \<longleftrightarrow> (\<exists>rv\<in>set (fst (plan_repair r)). rv_fga_object rv = ''table:'' @ u \<and> rv_justified_by rv = ''ghost_tables'')"

lemma table_is_planned_iff:
  assumes "reconcile env cfg door w = ((Inr r, s), w')"
  shows "table_is_planned r u \<longleftrightarrow> first_failure [sc_tables_error s, sc_tuples_error s, sc_trash_error s, sc_uuids_error s] = None \<and>
    u \<in> fst ` set (by_type s ''table'') \<and> u \<notin> snd ` set (or_empty (sc_table_uuids s)) \<and>
    u \<notin> set (or_empty (sc_trashed_uuids s)) \<and> read_in_part r ''ghost_tables'' = []"
proof -
  have g: "rp_ghost_tables r = (if first_failure [sc_tables_error s, sc_tuples_error s, sc_trash_error s, sc_uuids_error s] = None
      then ghosts ''table'' (by_type s ''table'') (map snd (or_empty (sc_table_uuids s))) (or_empty (sc_trashed_uuids s)) else [])"
    using reconciled_ghost_tables [OF assms] by (auto simp: reading_def outcome_def split: option.splits)
  have "table_is_planned r u \<longleftrightarrow> (\<exists>g\<in>set (rp_ghost_tables r). fga_object g = ''table:'' @ u) \<and> read_in_part r ''ghost_tables'' = []"
    (is "_ \<longleftrightarrow> ?found \<and> ?whole")
  proof
    assume "table_is_planned r u"
    then obtain rv where rv: "rv \<in> set (fst (plan_repair r))" "rv_fga_object rv = ''table:'' @ u" "rv_justified_by rv = ''ghost_tables''"
      unfolding table_is_planned_def by blast
    from rv(1) obtain c g where c: "g \<in> set (ghosts_found r c)" "read_in_part r c = []"
        "rv = \<lparr>rv_fga_object = fga_object g, rv_tuples = gh_tuples g, rv_justified_by = c\<rparr>"
      unfolding planned_iff by blast
    have "c = ''ghost_tables''" "fga_object g = ''table:'' @ u"
      using rv(2,3) c(3) by simp_all
    then show "?found \<and> ?whole" using c(1,2) unfolding ghosts_found_def by auto
  next
    assume *: "?found \<and> ?whole"
    then obtain g where g: "g \<in> set (rp_ghost_tables r)" "fga_object g = ''table:'' @ u" by blast
    have "\<lparr>rv_fga_object = fga_object g, rv_tuples = gh_tuples g, rv_justified_by = ''ghost_tables''\<rparr> \<in> set (fst (plan_repair r))"
      unfolding planned_iff using * g(1)
      by (intro exI [of _ "''ghost_tables''"] exI [of _ g]) (simp add: ghosts_found_def revocable_def)
    then show "table_is_planned r u"
      unfolding table_is_planned_def by (rule bexI [rotated]) (simp add: g(2))
  qed
  moreover have "(\<exists>g\<in>set (ghosts ''table'' (by_type s ''table'') ids excl). fga_object g = ''table:'' @ u) \<longleftrightarrow>
      u \<in> fst ` set (by_type s ''table'') \<and> u \<notin> set ids \<and> u \<notin> set excl" for ids excl
    unfolding Bex_def set_ghosts by (force simp: fga_object_def)
  note this [of "map snd (or_empty (sc_table_uuids s))" "or_empty (sc_trashed_uuids s)"]
  ultimately show ?thesis
    unfolding g by (cases "first_failure [sc_tables_error s, sc_tuples_error s, sc_trash_error s, sc_uuids_error s] = None")
      (simp_all only: if_True if_False list.set_map list.set bex_simps simp_thms conj_assoc)
qed

section \<open>What the sources say of the estate\<close>

text \<open>What a root's manifest records of its tables, where it can be read.\<close>

definition recorded :: "(string \<Rightarrow> manifest_row list result) \<Rightarrow> string \<Rightarrow> (string \<times> string option) list result" where
  "recorded rows root = (case rows root of Inl e \<Rightarrow> Inl e | Inr rs \<Rightarrow> tables_in rs)"

lemma scan_root_recorded: "scan_root rows root scan = (case recorded rows root of
     Inl e \<Rightarrow> scan\<lparr>ts_unreadable := ts_unreadable scan @ [(root, e)]\<rparr>
   | Inr found \<Rightarrow> scan\<lparr>ts_found := ts_found scan @ map (\<lambda>(table, _). (table, root)) found,
       ts_locations := fold (\<lambda>(table, location). AList.update table (root, location)) found (ts_locations scan)\<rparr>)"
  by (simp add: scan_root_def recorded_def)

lemma scan_unreadable:
  "ts_unreadable (fold (scan_root rows) roots scan) = [] \<longleftrightarrow>
     ts_unreadable scan = [] \<and> (\<forall>root\<in>set roots. \<exists>found. recorded rows root = Inr found)"
  by (induction roots arbitrary: scan) (auto simp: scan_root_recorded split: sum.splits)

lemma located_row:
  "map_of (fold (\<lambda>(table, location). AList.update table (root, location)) found ls) t =
     (if t \<in> fst ` set found then map_option (Pair root) (map_of (rev found) t) else map_of ls t)"
proof (induction found arbitrary: ls)
  case (Cons x found)
  have "map_of (rev found) t = None \<longleftrightarrow> t \<notin> fst ` set found"
    by (simp add: map_of_eq_None_iff)
  with Cons show ?case
    by (cases x) (auto simp: map_add_def split: option.splits)
qed simp

lemma located_root:
  assumes "recorded rows root = Inr found" "t \<in> fst ` set found"
  shows "\<exists>l. map_of (ts_locations (scan_root rows root scan)) t = Some (root, l) \<and> (t, l) \<in> set found"
proof -
  obtain l where l: "map_of (rev found) t = Some l"
    using assms(2) by (cases "map_of (rev found) t") (auto simp: map_of_eq_None_iff)
  with assms show ?thesis
    using map_of_SomeD [OF l] by (auto simp: scan_root_recorded located_row)
qed

lemma located_last:
  assumes "root \<in> set roots" "recorded rows root = Inr found" "t \<in> fst ` set found"
  shows "\<exists>root' found' l. root' \<in> set roots \<and> recorded rows root' = Inr found' \<and> (t, l) \<in> set found' \<and>
    map_of (ts_locations (fold (scan_root rows) roots scan)) t = Some (root', l)"
  using assms
proof (induction roots arbitrary: scan rule: rev_induct)
  case (snoc x roots)
  show ?case
  proof (cases "\<exists>fx. recorded rows x = Inr fx \<and> t \<in> fst ` set fx")
    case True
    then obtain fx where fx: "recorded rows x = Inr fx" "t \<in> fst ` set fx" by blast
    from located_root [OF fx, of "fold (scan_root rows) roots scan"] fx(1) show ?thesis by auto
  next
    case False
    then have "map_of (ts_locations (scan_root rows x sc)) t = map_of (ts_locations sc) t" for sc
      by (auto simp: scan_root_recorded located_row split: sum.splits)
    moreover have "root \<in> set roots" using False snoc.prems by auto
    ultimately show ?thesis using snoc.IH [OF _ snoc.prems(2,3), of scan] by auto
  qed
qed simp

lemma in_tables:
  "tables_in rs = Inr found \<Longrightarrow> row \<in> set rs \<Longrightarrow> mr_object_type row = ''table'' \<Longrightarrow> mr_object_id row \<noteq> [] \<Longrightarrow>
    mr_location row \<noteq> [] \<Longrightarrow> (mr_object_id row, Some (mr_location row)) \<in> set found"
  by (force simp: tables_in_def Let_def split: if_splits)

lemma live_uuids_quiet:
  assumes "live_uuids st dg registered w = (Inr live, w')" "pending w = []" "(t, root, Some l) \<in> set registered"
    "lookup w (claim_key st (resolved root l)) = Some (Json c)" "live_uuid c = Some u"
  shows "u \<in> snd ` set live"
  using assms
proof (induction st dg registered w arbitrary: live w' rule: live_uuids.induct)
  case (3 st dg table root' l' registered w)
  then obtain found w1 where f: "claim_read st dg (resolved root' l') w = (Inr found, w1)"
    by (auto split: prod.splits sum.splits)
  then have q: "w1 = w" "found = (case lookup w (claim_key st (resolved root' l')) of
      Some (Json c) \<Rightarrow> Some \<lparr>cr_claim = c, cr_etag = dg (Json c)\<rparr> | _ \<Rightarrow> None)"
    using "3.prems"(2) by (auto simp: claim_read_def read_json_at_def access_def split: option.splits content.splits)
  with f "3.prems"(1) obtain rest where r: "live_uuids st dg registered w = (Inr rest, w')"
      "live = (case Option.bind found (live_uuid \<circ> cr_claim) of None \<Rightarrow> rest | Some uuid \<Rightarrow> (table, uuid) # rest)"
    by (auto split: prod.splits sum.splits)
  have "u \<in> snd ` set rest" if "(t, root, Some l) \<in> set registered"
    using "3.IH" [OF f [symmetric]] f q(1) r(1) "3.prems"(2,4,5) that by auto
  with "3.prems"(3,4,5) q(2) r(2) show ?case
    by (auto split: option.splits)
qed auto

lemma open_records_quiet:
  assumes "open_records required non_empty paths w = ((records, []), w')" "pending w = []"
  shows "w' = w \<and> (\<forall>p\<in>set paths. \<exists>r\<in>set records. lookup w p = Some (Json r))"
  using assms
proof (induction paths arbitrary: records)
  case (Cons p paths)
  obtain rs sk w2 where rest: "open_records required non_empty paths w = ((rs, sk), w2)"
    by (metis surj_pair)
  have a: "access w = (True, w)" using Cons.prems(2) by (simp add: access_def)
  with Cons.prems(1) rest obtain r where r: "judge_record required non_empty p (lookup w p) = Inr r" "sk = []" "records = r # rs" "w' = w2"
    by (auto split: sum.splits)
  have "lookup w p = Some (Json r)"
    using r(1) by (auto simp: judge_record_def Let_def split: option.splits content.splits if_splits)
  with Cons.IH [of rs] rest r(2,3,4) Cons.prems(2) show ?case by auto
qed auto

lemma registry_quiet:
  assumes "registry_source source_name pre required non_empty w = ((found, err, skips_seen), w')" "pending w = []"
  shows "pending w' = [] \<and> objects w' = objects w"
proof -
  have "pending w2 = [] \<and> objects w2 = objects w1" if "open_records required non_empty ps w1 = (x, w2)" "pending w1 = []" for ps x w1 w2
    using that by (induction ps arbitrary: x w1) (fastforce simp: access_def split: prod.splits sum.splits)+
  with assms show ?thesis
    by (auto simp: registry_source_def list_json_records_def access_def split: prod.splits sum.splits)
qed

lemma registry_whole:
  assumes "registry_source source_name pre required non_empty w = ((found, None, []), w')" "pending w = []"
    "lookup w k = Some x" "in_prefix pre k"
  shows "\<exists>r\<in>set (or_empty found). x = Json r"
proof -
  obtain records w2 where o: "open_records required non_empty (filter (in_prefix pre) (map fst (objects w))) w = ((records, []), w2)"
      "found = Some records"
    using assms(1,2) by (auto simp: registry_source_def list_json_records_def access_def split: prod.splits sum.splits)
  have "k \<in> set (filter (in_prefix pre) (map fst (objects w)))"
    using assms(3,4) by (force simp: lookup_def dest: map_of_SomeD)
  with open_records_quiet [OF o(1) assms(2)] o(2) assms(3) show ?thesis
    by (fastforce simp: or_empty_def)
qed

text \<open>What the sources hold where nobody else writes while they are read.\<close>

lemma loaded_trash:
  assumes "load_sources env ns w = (s, w')" "sc_trash_error s = None" "pending (rw_control w) = []"
    "\<forall>n\<in>set (sc_incomplete s). in_source n \<noteq> ''registry:trash''"
    "lookup (rw_control w) k = Some x" "in_prefix ''_trash'' k"
  shows "\<exists>r\<in>set (or_empty (sc_trash s)). x = Json r"
proof -
  obtain s0 w0 where l: "load_registries env w = (s0, w0)" by fastforce
  have s0: "sc_trash s0 = sc_trash s" "sc_trash_error s0 = sc_trash_error s" "set (sc_incomplete s0) \<subseteq> set (sc_incomplete s)"
    using assms(1) l by (auto simp: load_sources_def load_uuids_def load_catalog_def Let_def split: prod.splits option.splits sum.splits)
  obtain x1 c1 x2 c2 x3 c3 found err skips_seen c4 where c:
      "registry_source ''registry:projects'' ''_projects'' [''id''] [] (rw_control w) = (x1, c1)"
      "registry_source ''registry:warehouses'' ''_warehouses'' [''id'', ''bucket'', ''project''] [] c1 = (x2, c2)"
      "registry_source ''registry:bindings'' ''_warehouses/bindings'' [''top_ns'', ''warehouse_id''] [] c2 = (x3, c3)"
      "registry_source ''registry:trash'' ''_trash'' [''id'', ''location''] [''id''] c3 = ((found, err, skips_seen), c4)"
    by (metis surj_pair)
  have "pending c1 = [] \<and> objects c1 = objects (rw_control w)"
    using registry_quiet [of _ _ _ _ "rw_control w" "fst x1" "fst (snd x1)" "snd (snd x1)" c1] c(1) assms(3) by simp
  moreover have "pending c2 = [] \<and> objects c2 = objects c1" if "pending c1 = []"
    using registry_quiet [of _ _ _ _ c1 "fst x2" "fst (snd x2)" "snd (snd x2)" c2] c(2) that by simp
  moreover have "pending c3 = [] \<and> objects c3 = objects c2" if "pending c2 = []"
    using registry_quiet [of _ _ _ _ c2 "fst x3" "fst (snd x3)" "snd (snd x3)" c3] c(3) that by simp
  ultimately have q: "pending c3 = []" "lookup c3 k = Some x"
    using assms(5) by (simp_all add: lookup_def)
  have x4: "found = sc_trash s0" "err = sc_trash_error s0" "set skips_seen \<subseteq> set (sc_incomplete s0)"
    using l c by (auto simp: load_registries_def split: prod.splits)
  have "in_source n = ''registry:trash''" if "n \<in> set skips_seen" for n
    using c(4) that by (auto simp: registry_source_def split: prod.splits sum.splits)
  with x4(3) s0(3) assms(4) have "\<forall>n\<in>set skips_seen. False" by blast
  then have "skips_seen = []" by (cases skips_seen) auto
  with c(4) x4(2) s0(2) assms(2) have "registry_source ''registry:trash'' ''_trash'' [''id'', ''location''] [''id''] c3 = ((found, None, []), c4)"
    by simp
  from registry_whole [OF this q(1) q(2) assms(6)] show ?thesis
    unfolding x4(1) s0(1) .
qed

lemma loaded_tables:
  assumes "load_sources env ns w = (s, w')"
  shows "sc_table_locations s = Some (ts_locations (tables_across (re_table_rows env)
      (roots_to_scan (re_repr env) ns (sc_warehouse_records s))))"
    "set (unread_roots ''catalog:tables'' (ts_unreadable (tables_across (re_table_rows env)
      (roots_to_scan (re_repr env) ns (sc_warehouse_records s))))) \<subseteq> set (sc_incomplete s)"
    "sc_tables s = Some (ts_found (tables_across (re_table_rows env) (roots_to_scan (re_repr env) ns (sc_warehouse_records s))))"
  using assms by (auto simp: load_sources_def load_uuids_def load_catalog_def Let_def split: prod.splits option.splits sum.splits)

lemma loaded_uuids:
  assumes "load_sources env ns w = (s, w')"
  shows "case sc_trash s of
      None \<Rightarrow> sc_table_uuids s = None \<and> sc_trashed_uuids s = None \<and> sc_uuids_error s = None
    | Some tr \<Rightarrow> (case fst (live_uuids (re_claims env) (re_dg env) (or_empty (sc_table_locations s)) (rw_claims w)) of
        Inl e \<Rightarrow> sc_uuids_error s = Some (Read_failed ''claims:uuids'' e) \<and> sc_table_uuids s = None
      | Inr live \<Rightarrow> sc_uuids_error s = None \<and> sc_table_uuids s = Some live \<and>
          sc_trashed_uuids s = Some (List.map_filter object_uuid tr))"
proof -
  obtain s0 w0 where l: "load_registries env w = (s0, w0)" by fastforce
  then have "rw_claims w0 = rw_claims w" "sc_table_uuids s0 = None" "sc_trashed_uuids s0 = None" "sc_uuids_error s0 = None"
    by (auto simp: load_registries_def split: prod.splits)
  with assms l show ?thesis
    by (auto simp: load_sources_def load_uuids_def load_catalog_def uuids_of_def or_empty_def Let_def
        split: prod.splits option.splits sum.splits)
qed

lemma loaded_trash_error:
  assumes "load_sources env ns w = (s, w')"
  shows "sc_trash s = None \<longleftrightarrow> sc_trash_error s \<noteq> None" "sc_tables_error s = None"
    "sc_warehouse_records s = None \<longleftrightarrow> sc_warehouse_records_error s \<noteq> None"
proof -
  obtain s0 w0 where l: "load_registries env w = (s0, w0)" by fastforce
  have "sc_trash s0 = None \<longleftrightarrow> sc_trash_error s0 \<noteq> None" "sc_tables_error s0 = None"
      "sc_warehouse_records s0 = None \<longleftrightarrow> sc_warehouse_records_error s0 \<noteq> None"
    using l by (auto simp: load_registries_def split: prod.splits dest!: registry_source_carries)
  with assms l show "sc_trash s = None \<longleftrightarrow> sc_trash_error s \<noteq> None" "sc_tables_error s = None"
    "sc_warehouse_records s = None \<longleftrightarrow> sc_warehouse_records_error s \<noteq> None"
    by (auto simp: load_sources_def load_uuids_def load_catalog_def Let_def split: prod.splits option.splits sum.splits)
qed

lemma read_whole:
  assumes "read_in_part r ''ghost_tables'' = []" "set (sc_incomplete s) \<subseteq> set (rp_incomplete r)"
  shows "\<forall>n\<in>set (sc_incomplete s). in_source n \<noteq> ''registry:trash'' \<and> \<not> prefix ''catalog:tables'' (in_source n)"
proof
  fix n assume "n \<in> set (sc_incomplete s)"
  with assms have n: "\<not> prefix ''catalog:tables'' (in_source n)" "\<not> prefix ''registry:trash'' (in_source n)"
    by (auto simp: read_in_part_def subtracted_from_def or_empty_def filter_empty_conv)
  from n(2) have "in_source n \<noteq> ''registry:trash''" by (metis prefix_order.refl)
  with n(1) show "in_source n \<noteq> ''registry:trash'' \<and> \<not> prefix ''catalog:tables'' (in_source n)" by simp
qed

lemma loaded_roots_read:
  assumes "load_sources env ns w = (s, w')" "\<forall>n\<in>set (sc_incomplete s). \<not> prefix ''catalog:tables'' (in_source n)"
    "root \<in> set (roots_to_scan (re_repr env) ns (sc_warehouse_records s))"
  shows "\<exists>found. recorded (re_table_rows env) root = Inr found"
proof -
  let ?scan = "tables_across (re_table_rows env) (roots_to_scan (re_repr env) ns (sc_warehouse_records s))"
  have "\<not> v \<in> set (ts_unreadable ?scan)" for v
  proof
    assume "v \<in> set (ts_unreadable ?scan)"
    then have "\<lparr>in_source = ''catalog:tables'' @ '':'' @ fst v, in_reason = Root_unread (fst v) (snd v)\<rparr> \<in> set (sc_incomplete s)"
      using loaded_tables(2) [OF assms(1)] by (force simp: unread_roots_def)
    with assms(2) show False by fastforce
  qed
  then have "ts_unreadable ?scan = []" by (cases "ts_unreadable ?scan") auto
  with assms(3) show ?thesis
    using scan_unreadable by (simp add: tables_across_def Let_def)
qed

text \<open>No two rows of the scanned manifests are the same table.\<close>

definition each_table_recorded_once :: "(string \<Rightarrow> manifest_row list result) \<Rightarrow> string list \<Rightarrow> bool" where
  "each_table_recorded_once rows roots \<longleftrightarrow> (\<forall>root\<in>set roots. \<forall>root'\<in>set roots. \<forall>found found' t l l'.
     recorded rows root = Inr found \<and> recorded rows root' = Inr found' \<and> (t, l) \<in> set found \<and> (t, l') \<in> set found' \<longrightarrow>
     root = root' \<and> l = l')"

lemma located_row_once:
  assumes "each_table_recorded_once rows roots" "root \<in> set roots" "recorded rows root = Inr found" "(t, l) \<in> set found"
  shows "(t, root, l) \<in> set (ts_locations (tables_across rows roots))"
proof -
  have "t \<in> fst ` set found" using assms(4) by force
  from located_last [OF assms(2,3) this, of "\<lparr>ts_found = [], ts_unreadable = [], ts_locations = []\<rparr>"]
  obtain root' found' l' where "root' \<in> set roots" "recorded rows root' = Inr found'" "(t, l') \<in> set found'"
      "map_of (ts_locations (tables_across rows roots)) t = Some (root', l')"
    by (auto simp: tables_across_def Let_def)
  moreover from this assms have "root = root' \<and> l = l'"
    unfolding each_table_recorded_once_def by blast
  ultimately show ?thesis by (auto dest: map_of_SomeD)
qed


definition with_a_ghost :: "unit recon_env" where
  "with_a_ghost = one_warehouse\<lparr>re_pages := Some (\<lambda>_. Inr ([\<lparr>ft_user = ''user:a'', ft_relation = ''owner'', ft_object = ''table:u''\<rparr>,
     \<lparr>ft_user = ''user:a'', ft_relation = ''owner'', ft_object = ''table:lost''\<rparr>], None))\<rparr>"

definition with_a_ghost_run :: "(report result \<times> sources) \<times> recon_world" where
  "with_a_ghost_run = reconcile with_a_ghost small_recon_settings empty_storage one_warehouse_world"

lemma with_a_ghost_planned:
  "\<not> isl (fst (fst with_a_ghost_run))" "table_is_planned (projr (fst (fst with_a_ghost_run))) ''lost''"
  "\<not> table_is_planned (projr (fst (fst with_a_ghost_run))) ''u''"
  "roots_to_scan (re_repr with_a_ghost) ''s3://b'' (sc_warehouse_records (snd (fst with_a_ghost_run))) = [''s3://b'', ''s3://w'']"
  by code_simp+


section \<open>Where a source that was not read takes a grant\<close>

text \<open>
  C18: An unread warehouse registry costs a live table its grants. A registry that cannot be listed leaves only the
  shared root to scan, no source says so, and the grants of every table on a warehouse's own root are planned for
  revocation: whatever the other roots hold, the plan holds each object with tuples that no table of the shared root and
  no trash record is, unless a catalog or trash source was itself read in part.
\<close>

theorem unread_registry_takes_the_grants_of_warehouses:
  assumes "reconcile env cfg door w = ((Inr r, s), w')" "sc_warehouse_records_error s \<noteq> None"
    "sc_tuples_error s = None" "sc_trash_error s = None" "sc_uuids_error s = None" "read_in_part r ''ghost_tables'' = []"
  shows "roots_to_scan (re_repr env) (rs_namespace_root cfg) (sc_warehouse_records s) = [rs_namespace_root cfg] \<and>
    (\<forall>u. u \<in> fst ` set (by_type s ''table'') \<and> u \<notin> snd ` set (or_empty (sc_table_uuids s)) \<and>
       u \<notin> set (or_empty (sc_trashed_uuids s)) \<longrightarrow> table_is_planned r u)"
proof -
  have l: "load_sources env (rs_namespace_root cfg) w = (s, w')"
    by (rule reconciled_from [OF assms(1)])
  have "sc_warehouse_records s = None" "sc_tables_error s = None"
    using loaded_trash_error [OF l] assms(2) by auto
  with assms(3-6) show ?thesis
    unfolding table_is_planned_iff [OF assms(1)] by (simp add: roots_to_scan_def or_empty_def first_failure_None)
qed

definition registry_down_world :: recon_world where
  "registry_down_world = one_warehouse_world\<lparr>rw_control := (rw_control one_warehouse_world)\<lparr>pending :=
     [\<lparr>others = id, elapsed = 0, answers = True\<rparr>, \<lparr>others = id, elapsed = 0, answers = True\<rparr>,
      \<lparr>others = id, elapsed = 0, answers = False\<rparr>]\<rparr>\<rparr>"

definition registry_down_run :: "(report result \<times> sources) \<times> recon_world" where
  "registry_down_run = reconcile one_warehouse small_recon_settings empty_storage registry_down_world"

lemma registry_down_planned:
  "\<not> isl (fst (fst registry_down_run))" "sc_warehouse_records_error (snd (fst registry_down_run)) \<noteq> None"
  "sc_tuples_error (snd (fst registry_down_run)) = None" "sc_trash_error (snd (fst registry_down_run)) = None"
  "sc_uuids_error (snd (fst registry_down_run)) = None" "read_in_part (projr (fst (fst registry_down_run))) ''ghost_tables'' = []"
  "''u'' \<in> set (map fst (by_type (snd (fst registry_down_run)) ''table''))"
  "sc_table_uuids (snd (fst registry_down_run)) = Some []" "sc_trashed_uuids (snd (fst registry_down_run)) = Some []"
  by code_simp+

text \<open>The table \<open>u\<close> of the warehouse \<open>w\<close> is live: its claim stands, and its manifest row is there.\<close>

theorem unread_registry_takes_the_grants_of_warehouses_witness:
  "table_is_planned (projr (fst (fst registry_down_run))) ''u'' \<and>
   re_table_rows one_warehouse ''s3://w'' = Inr [\<lparr>mr_object_id = ''t'', mr_object_type = ''table'', mr_location = ''t'', mr_uuid = None\<rparr>] \<and>
   (\<exists>c. lookup (rw_claims registry_down_world) (claim_key (re_claims one_warehouse) ''s3://w/t'') = Some (Json c) \<and> live_uuid c = Some ''u'')"
proof -
  have run: "reconcile one_warehouse small_recon_settings empty_storage registry_down_world =
      ((Inr (projr (fst (fst registry_down_run))), snd (fst registry_down_run)), snd registry_down_run)"
    using registry_down_planned(1) by (cases "fst (fst registry_down_run)") (auto simp: registry_down_run_def prod_eq_iff)
  have "table_is_planned (projr (fst (fst registry_down_run))) ''u''"
    using unread_registry_takes_the_grants_of_warehouses [OF run registry_down_planned(2-6)] registry_down_planned(7-9)
    by (simp add: or_empty_def)
  then show ?thesis
    by (simp add: one_warehouse_def registry_down_world_def one_warehouse_world_def lookup_def live_uuid_def)
qed

lemma no_blank_count: "map_of (counted counts t) [] = None \<Longrightarrow> map_of (counted (count_tuple item counts) t) [] = None"
  by (auto simp: count_tuple_def counted_def Let_def or_empty_def)

lemma scan_no_blank:
  "scan_pages n pages token counts = Inr (scan, left) \<Longrightarrow> map_of (counted counts t) [] = None \<Longrightarrow> map_of (counted scan t) [] = None"
proof (induction n pages token counts rule: scan_pages.induct)
  case (2 n pages token counts)
  then obtain page cursor where p: "pages token = Inr (page, cursor)" by (auto split: sum.splits)
  have "map_of (counted (fold count_tuple page counts) t) [] = None"
    using "2.prems"(2) by (induction page arbitrary: counts) (auto simp: no_blank_count)
  with "2.IH" [OF p refl refl] "2.prems"(1) p show ?case by (auto simp: Let_def split: if_splits)
qed simp

lemma loaded_no_blank:
  assumes "load_sources env ns w = (s, w')"
  shows "count_of (by_type s t) [] = 0"
proof -
  obtain s0 w0 where l: "load_registries env w = (s0, w0)" by fastforce
  then have "sc_tuples s0 = fst (fga_source (re_pages env))" by (auto simp: load_registries_def split: prod.splits)
  with assms l have "sc_tuples s = fst (fga_source (re_pages env))"
    by (auto simp: load_sources_def load_uuids_def load_catalog_def Let_def split: prod.splits option.splits sum.splits)
  then have "map_of (by_type s t) [] = None"
    by (auto simp: by_type_def fga_source_def scan_tuples_def counted_def or_empty_def
        dest!: scan_no_blank [where t = t] split: option.splits sum.splits prod.splits)
  then show ?thesis by (simp add: count_of_def)
qed

text \<open>
  C21: An unread trash index ungoverns the estate. The uuids are looked up only beside the trash, and the category of
  ungoverned tables does not ask for it, so with the trash unread and OpenFGA answering, the report names every table of
  the catalog as ungoverned, whatever grants they hold.
\<close>

theorem unread_trash_ungoverns_the_estate:
  assumes "reconcile env cfg door w = ((Inr r, s), w')" "sc_trash_error s \<noteq> None" "sc_tuples_error s = None"
  shows "set (rp_ungoverned_tables r) = set (or_empty (sc_tables s)) \<and>
    map_of (rp_counts r) ''ungoverned_tables'' = Some (length (or_empty (sc_tables s)))"
proof -
  have l: "load_sources env (rs_namespace_root cfg) w = (s, w')"
    by (rule reconciled_from [OF assms(1)])
  have n: "sc_table_uuids s = None" "sc_uuids_error s = None" "sc_tables_error s = None"
    using loaded_trash_error [OF l] loaded_uuids [OF l] assms(2) by auto
  have none: "or_empty (None :: (string \<times> string) list option) = []" by (simp add: or_empty_def)
  from reconciled_ungoverned [OF assms(1)] n assms(3) show ?thesis
    by (simp add: reading_def outcome_def first_failure_def ungoverned_tables_def none loaded_no_blank [OF l] split_def)
qed

text \<open>The trash is listed last of the registries, and the store refuses.\<close>

definition trash_down_run :: "(report result \<times> sources) \<times> recon_world" where
  "trash_down_run = reconcile one_warehouse small_recon_settings empty_storage
     (one_warehouse_world\<lparr>rw_control := (rw_control one_warehouse_world)\<lparr>pending :=
       replicate 5 \<lparr>others = id, elapsed = 0, answers = True\<rparr> @ [\<lparr>others = id, elapsed = 0, answers = False\<rparr>]\<rparr>\<rparr>)"

lemma trash_down:
  "\<not> isl (fst (fst trash_down_run))" "sc_trash_error (snd (fst trash_down_run)) \<noteq> None"
  "sc_tuples_error (snd (fst trash_down_run)) = None" "sc_tables (snd (fst trash_down_run)) = Some [(''t'', ''s3://w'')]"
  "by_type (snd (fst trash_down_run)) ''table'' = [(''u'', 1)]"
  by code_simp+

theorem unread_trash_ungoverns_the_estate_witness:
  "set (rp_ungoverned_tables (projr (fst (fst trash_down_run)))) = {(''t'', ''s3://w'')} \<and>
   by_type (snd (fst trash_down_run)) ''table'' = [(''u'', 1)]"
proof -
  have run: "reconcile one_warehouse small_recon_settings empty_storage
      (one_warehouse_world\<lparr>rw_control := (rw_control one_warehouse_world)\<lparr>pending :=
        replicate 5 \<lparr>others = id, elapsed = 0, answers = True\<rparr> @ [\<lparr>others = id, elapsed = 0, answers = False\<rparr>]\<rparr>\<rparr>) =
      ((Inr (projr (fst (fst trash_down_run))), snd (fst trash_down_run)), snd trash_down_run)"
    using trash_down(1) by (cases "fst (fst trash_down_run)") (auto simp: trash_down_run_def prod_eq_iff simp del: replicate.simps)
  from unread_trash_ungoverns_the_estate [OF run trash_down(2,3)] trash_down(4,5) show ?thesis
    by (simp add: or_empty_def)
qed

section \<open>Rebuild and tombstones\<close>

lemma stranded_records_only:
  "stranded_records field stranded rs = Inr found \<Longrightarrow> r \<in> set found \<Longrightarrow>
    r \<in> set rs \<and> (\<exists>v. dict_get r field = Some (JStr v) \<and> v \<in> set stranded)"
proof (induction rs arbitrary: found)
  case (Cons x rs)
  then obtain b rest where "is_among (dict_get x field) stranded = Inr b" "stranded_records field stranded rs = Inr rest"
      "found = (if b then x # rest else rest)"
    by (cases "is_among (dict_get x field) stranded"; cases "stranded_records field stranded rs") auto
  with Cons show ?case
    by (auto simp: is_among_def split: if_splits option.splits json.splits)
qed simp

lemma planned_pointers:
  "t \<in> set (fst (fold (plan_warehouse repr) ws plan)) \<longleftrightarrow> t \<in> set (fst plan) \<or> (\<exists>r\<in>set ws. warehouse_tenancy repr r = Some t)"
  by (induction ws arbitrary: plan) (auto simp: plan_warehouse_def split: prod.splits option.splits)


definition stranded_estate :: sources where
  "stranded_estate = (snd (fst one_warehouse_run))\<lparr>sc_tuples := Some []\<rparr>"

definition stranded_report :: report where
  "stranded_report = (empty_report [])\<lparr>rp_unreferenced_projects := [''p'']\<rparr>"

definition stranded_pointer :: rebuilt_tuple where
  "stranded_pointer = \<lparr>rb_tuple = \<lparr>ft_user = ''project:p'', ft_relation = ''project'', ft_object = ''warehouse:w''\<rparr>,
     rb_justified_by = ''_warehouses/w.json''\<rparr>"

lemma stranded_rebuilt:
  "rebuild_tuples (\<lambda>_. []) \<lparr>as_enabled = True, as_dry_run = True, as_max_per_tick = 5\<rparr> (Some (\<lambda>_. Inr ())) stranded_report stranded_estate =
     Inr \<lparr>rbr_enabled = True, rbr_dry_run = True, rbr_written = [stranded_pointer],
       rbr_unjustified = [(''project:p'', Needs_an_admin None)], rbr_capped = 0, rbr_error = None\<rparr>"
  by code_simp


definition tombstone_of :: "orphaned_record \<Rightarrow> tombstone" where
  "tombstone_of f = \<lparr>tb_id = ot_id f, tb_uuid = ot_uuid f, tb_kind = ot_kind f, tb_location = ot_location f, tb_probed_objects = 0\<rparr>"

lemma planned_tombstones:
  "fst (plan_tombstones probe findings) = map tombstone_of (filter (\<lambda>f. probe (ot_location f) = Inr 0) findings)"
proof -
  have "fst (fold (plan_tombstone probe) fs plan) = fst plan @ map tombstone_of (filter (\<lambda>f. probe (ot_location f) = Inr 0) fs)" for fs plan
    by (induction fs arbitrary: plan) (auto simp: plan_tombstone_def tombstone_of_def split: prod.splits sum.splits)
  then show ?thesis by (simp add: plan_tombstones_def)
qed

lemma act_on_each_acts: "fst (act_on_each act xs) = filter (\<lambda>x. \<exists>v. act x = Inr v) xs"
  by (induction xs) (auto split: prod.splits sum.splits)

text \<open>
  C20: A trash record goes only once its bytes are known to be gone. What a sweep removes are the records, among the
  first of the report's up to the cap, whose location a probe answered zero objects for, in the report's order, and of
  those the ones whose removal was answered; a location that holds objects or cannot be read keeps its record.
\<close>

theorem tombstones_go_only_where_nothing_is_left:
  "tr_swept (sweep_tombstones st probe remove r) =
     (if as_enabled st then filter (\<lambda>t. as_dry_run st \<or> (\<exists>v. remove t = Inr v))
        (map tombstone_of (filter (\<lambda>f. probe (ot_location f) = Inr 0) (take (as_max_per_tick st) (rp_orphaned_trash r))))
      else [])"
proof -
  let ?head = "take (as_max_per_tick st) (rp_orphaned_trash r)"
  obtain planned refused where p: "plan_tombstones probe ?head = (planned, refused)" by fastforce
  have "planned = map tombstone_of (filter (\<lambda>f. probe (ot_location f) = Inr 0) ?head)"
    using planned_tombstones [of probe ?head] p by simp
  then show ?thesis
    using p act_on_each_acts [of remove planned] by (auto simp: sweep_tombstones_def Let_def split: prod.splits)
qed

text \<open>
  C22: What every reader of the sources relies on: a record that was loaded carries each field the report indexes it
  by, whatever lies in the registries.
\<close>

theorem loaded_records_carry_their_fields:
  "(\<forall>r\<in>set (or_empty (sc_project_records (fst (load_sources env ns w)))). dict_get r ''id'' \<noteq> None) \<and>
   (\<forall>r\<in>set (or_empty (sc_warehouse_records (fst (load_sources env ns w)))).
     dict_get r ''id'' \<noteq> None \<and> dict_get r ''bucket'' \<noteq> None \<and> dict_get r ''project'' \<noteq> None) \<and>
   (\<forall>r\<in>set (or_empty (sc_bindings (fst (load_sources env ns w)))). dict_get r ''top_ns'' \<noteq> None \<and> dict_get r ''warehouse_id'' \<noteq> None)"
  using sources_well_formed [of env ns w] by (simp add: well_formed_def carries_def)

text \<open>The estate of one warehouse, with a second project record that carries no id: it is not loaded.\<close>

definition odd_record_world :: recon_world where
  "odd_record_world = one_warehouse_world\<lparr>rw_control := (rw_control one_warehouse_world)\<lparr>objects :=
     (''_projects/odd.json'', Json [(''name'', JStr ''odd'')]) # objects (rw_control one_warehouse_world)\<rparr>\<rparr>"

definition odd_record_sources :: sources where
  "odd_record_sources = fst (load_sources one_warehouse ''s3://b'' odd_record_world)"

lemma odd_record_is_set_aside: "map (\<lambda>r. map fst r) (or_empty (sc_project_records odd_record_sources)) = [[''id'']]"
  by code_simp

theorem loaded_records_carry_their_fields_witness:
  "length (or_empty (sc_project_records odd_record_sources)) = 1 \<and>
   dict_get (hd (or_empty (sc_project_records odd_record_sources))) ''id'' \<noteq> None"
proof -
  obtain r where r: "or_empty (sc_project_records odd_record_sources) = [r]"
    using odd_record_is_set_aside by (auto simp: map_eq_Cons_conv)
  then have "r \<in> set (or_empty (sc_project_records (fst (load_sources one_warehouse ''s3://b'' odd_record_world))))"
    by (simp add: odd_record_sources_def)
  then have "dict_get r ''id'' \<noteq> None"
    using loaded_records_carry_their_fields [of one_warehouse "''s3://b''" odd_record_world] by blast
  with r show ?thesis by simp
qed

end
