(* ===== verification/Trash_Release.thy ===== *)
theory Trash_Release
  imports Purge Sweep
begin

text \<open>
  \<^verbatim>\<open>maintenance/services/trash_release.py\<close>: once a drop is past its deadline, the grants on the dropped object
  are revoked and the record stamped, unless the object stands again. What the manifests hold, what OpenFGA removes and
  the parsing of a date are arguments. Time is in microseconds. Logging is left out, and a reason is the value its
  text is made of.
\<close>

definition settle :: int where
  "settle = 15 * 60 * 1000000"

datatype hold_reason = Keeps_no_uuid | Manifest_not_read | Stands_again | Under_no_root string | Release_revoke_failed error

record released_record =
  rl_kind :: string
  rl_id :: string
  rl_uuid :: string
  rl_expires_at :: string
  rl_tuples_revoked :: nat
  rl_marked :: bool

record held_record =
  hr_kind :: string
  hr_id :: string
  hr_uuid :: "string option"
  hr_reason :: hold_reason

datatype blocked_release = Fga_unwired | Registry_unreadable error

record trash_release_report =
  tl_ran :: bool
  tl_reason :: "blocked_release option"
  tl_released :: "released_record list"
  tl_held :: "held_record list"

record grant_event =
  ge_object :: string
  ge_name :: string
  ge_relation :: string
  ge_subject :: string

record removed_tuple =
  rm_user :: string
  rm_relation :: string

record release_world =
  lw_control :: "dict world"
  lw_revoked :: "string list"
  lw_events :: "grant_event list"

record 'e release_env =
  le_root :: root
  le_dg :: "dict content \<Rightarrow> 'e"
  le_hex :: "string \<Rightarrow> string"
  le_repr :: "json \<Rightarrow> string"
  le_fromiso :: "string \<Rightarrow> int option"
  le_isofmt :: "int \<Rightarrow> string"
  le_rows :: "string \<Rightarrow> manifest_row list option"
  le_fga_enabled :: bool
  le_client :: "(string \<Rightarrow> removed_tuple list result) option"
  le_sweep_buckets :: "string list"
  le_time :: int

text \<open>\<^verbatim>\<open>roots_read\<close>: the swept buckets and every warehouse's, as the tolerant listing of the registry gives them.\<close>

definition roots_read :: "'e release_env \<Rightarrow> dict world \<Rightarrow> string list result \<times> dict world" where
  "roots_read env c = (case list_warehouse_records c of
       (Inl e, c1) \<Rightarrow> (Inl e, c1)
     | (Inr records, c1) \<Rightarrow>
        (let buckets = le_sweep_buckets env @ map (\<lambda>r. py_str (le_repr env) (the (dict_get r ''bucket'')))
               (filter (\<lambda>r. truthy (dict_get r ''bucket'')) records) in
         (Inr (map (\<lambda>b. ''s3://'' @ b) (filter (\<lambda>b. b \<noteq> []) buckets)), c1)))"

definition why_held :: "(json \<Rightarrow> string) \<Rightarrow> string list \<Rightarrow> liveness option \<Rightarrow> dict \<Rightarrow> hold_reason option" where
  "why_held repr roots live r =
     (if object_uuid r = None then Some Keeps_no_uuid
      else case live of
        None \<Rightarrow> Some Manifest_not_read
      | Some live \<Rightarrow>
          (if still_registered repr r live then Some Stands_again
           else (let location = record_location repr r in
             if record_kind repr r = ''table'' \<and> location \<noteq> [] \<and> \<not> list_ex (\<lambda>root. location_within root location) roots
             then Some (Under_no_root location) else None)))"

text \<open>\<^verbatim>\<open>fga.names_someone\<close>.\<close>

definition names_someone :: "string \<Rightarrow> bool" where
  "names_someone user = (prefix ''user:'' user \<or> CHR ''#'' \<in> set user)"

definition revoke_for_release :: "'e release_env \<Rightarrow> string \<Rightarrow> release_world \<Rightarrow> removed_tuple list result \<times> release_world" where
  "revoke_for_release env obj w =
     (if \<not> le_fga_enabled env then (Inr [], w)
      else (case le_client env of
          None \<Rightarrow> (Inl AttributeError, w)
        | Some end_tuples \<Rightarrow> (case end_tuples obj of
            Inl e \<Rightarrow> (Inl e, w)
          | Inr removed \<Rightarrow> (Inr removed, w\<lparr>lw_revoked := lw_revoked w @ [obj]\<rparr>))))"

definition announce_grants :: "string \<Rightarrow> string \<Rightarrow> removed_tuple list \<Rightarrow> release_world \<Rightarrow> release_world" where
  "announce_grants obj obj_id removed w = w\<lparr>lw_events := lw_events w @
     map (\<lambda>t. \<lparr>ge_object = obj, ge_name = obj_id, ge_relation = rm_relation t, ge_subject = rm_user t\<rparr>)
       (filter (\<lambda>t. names_someone (rm_user t)) removed)\<rparr>"

definition release_one ::
    "'e release_env \<Rightarrow> string list \<Rightarrow> liveness option \<Rightarrow> dict \<Rightarrow> release_world \<Rightarrow> (held_record + released_record) \<times> release_world" where
  "release_one env roots live r w =
     (let repr = le_repr env; kind = record_kind repr r; obj_id = record_id repr r;
          held_for = (\<lambda>uuid reason. \<lparr>hr_kind = kind, hr_id = obj_id, hr_uuid = uuid, hr_reason = reason\<rparr>) in
      case why_held repr roots live r of
        Some reason \<Rightarrow> (Inl (held_for (object_uuid r) reason), w)
      | None \<Rightarrow>
         (let uuid = the (object_uuid r); obj = object_of kind uuid in
          case revoke_for_release env obj w of
            (Inl e, w1) \<Rightarrow> (Inl (held_for (Some uuid) (Release_revoke_failed e)), w1)
          | (Inr removed, w1) \<Rightarrow>
             (let w2 = announce_grants obj obj_id removed w1 in
              case mark_released (le_root env) (le_dg env) (le_hex env) (le_isofmt env) kind uuid (le_time env) (lw_control w2) of
                (marked, c) \<Rightarrow> (Inr \<lparr>rl_kind = kind, rl_id = obj_id, rl_uuid = uuid,
                    rl_expires_at = text_field repr [] ''expires_at'' r, rl_tuples_revoked = length removed,
                    rl_marked = (marked = Inr True)\<rparr>, w2\<lparr>lw_control := c\<rparr>))))"

fun release_each ::
    "'e release_env \<Rightarrow> string list \<Rightarrow> liveness option \<Rightarrow> dict list \<Rightarrow> trash_release_report \<Rightarrow> release_world
      \<Rightarrow> trash_release_report \<times> release_world" where
  "release_each env roots live [] out w = (out, w)"
| "release_each env roots live (r # rs) out w = (case release_one env roots live r w of
     (Inl h, w1) \<Rightarrow> release_each env roots live rs (out\<lparr>tl_held := tl_held out @ [h]\<rparr>) w1
   | (Inr d, w1) \<Rightarrow> release_each env roots live rs (out\<lparr>tl_released := tl_released out @ [d]\<rparr>) w1)"

definition nothing_released :: trash_release_report where
  "nothing_released = \<lparr>tl_ran = False, tl_reason = None, tl_released = [], tl_held = []\<rparr>"

definition due_for_release :: "'e release_env \<Rightarrow> dict list \<Rightarrow> dict list" where
  "due_for_release env records = filter (\<lambda>r. \<not> is_released r) (expired (le_fromiso env) (le_time env - settle) records)"

definition release_expired_trash :: "'e release_env \<Rightarrow> release_world \<Rightarrow> trash_release_report \<times> release_world" where
  "release_expired_trash env w =
     (if le_fga_enabled env \<and> le_client env = None then (nothing_released\<lparr>tl_reason := Some Fga_unwired\<rparr>, w)
      else (case trash_list_all (lw_control w) of
          (Inl e, c1) \<Rightarrow> (nothing_released\<lparr>tl_reason := Some (Registry_unreadable e)\<rparr>, w\<lparr>lw_control := c1\<rparr>)
        | (Inr records, c1) \<Rightarrow> (case roots_read env c1 of
            (Inl e, c2) \<Rightarrow> (nothing_released\<lparr>tl_reason := Some (Registry_unreadable e)\<rparr>, w\<lparr>lw_control := c2\<rparr>)
          | (Inr roots, c2) \<Rightarrow>
              (let due = due_for_release env records; ran = nothing_released\<lparr>tl_ran := True\<rparr>; w2 = w\<lparr>lw_control := c2\<rparr> in
               if due = [] then (ran, w2)
               else release_each env roots (liveness_across (le_rows env) roots) due ran w2))))"

section \<open>What a release may take\<close>

text \<open>A record past its deadline by the settling time, of a known object that no manifest read shows standing.\<close>

definition lost_for_good :: "'e release_env \<Rightarrow> string list \<Rightarrow> dict \<Rightarrow> bool" where
  "lost_for_good env roots r \<longleftrightarrow>
     (\<exists>raw deadline. dict_get r ''expires_at'' = Some (JStr raw) \<and> le_fromiso env raw = Some deadline \<and>
        deadline + settle \<le> le_time env) \<and>
     (\<exists>live. liveness_across (le_rows env) roots = Some live \<and> \<not> still_registered (le_repr env) r live) \<and>
     (record_kind (le_repr env) r = ''table'' \<and> record_location (le_repr env) r \<noteq> [] \<longrightarrow>
        (\<exists>root\<in>set roots. location_within root (record_location (le_repr env) r)))"

lemma why_held_None:
  "why_held repr roots live r = None \<Longrightarrow> \<exists>l u. live = Some l \<and> object_uuid r = Some u \<and> \<not> still_registered repr r l \<and>
     (record_kind repr r = ''table'' \<and> record_location repr r \<noteq> [] \<longrightarrow>
       (\<exists>root\<in>set roots. location_within root (record_location repr r)))"
  by (auto simp: why_held_def Let_def list_ex_iff split: option.splits if_splits)

lemma release_one_revokes:
  assumes "release_one env roots live r w = (x, w')"
  shows "lw_revoked w' = lw_revoked w \<or> (\<exists>u. object_uuid r = Some u \<and> why_held (le_repr env) roots live r = None \<and>
      lw_revoked w' = lw_revoked w @ [object_of (record_kind (le_repr env) r) u])"
  using assms
  by (auto simp: release_one_def Let_def revoke_for_release_def announce_grants_def
      split: option.splits sum.splits prod.splits if_splits dest: why_held_None)

lemma release_each_revokes:
  assumes "release_each env roots live rs out w = (out', w')" "obj \<in> set (lw_revoked w') - set (lw_revoked w)"
  shows "\<exists>r\<in>set rs. \<exists>u. object_uuid r = Some u \<and> why_held (le_repr env) roots live r = None \<and>
    obj = object_of (record_kind (le_repr env) r) u"
  using assms
proof (induction env roots live rs out w rule: release_each.induct)
  case (2 env roots live r rs out w)
  obtain x w1 where x: "release_one env roots live r w = (x, w1)" by fastforce
  note one = release_one_revokes [OF x]
  show ?case
  proof (cases "obj \<in> set (lw_revoked w1)")
    case True
    with "2.prems"(2) one show ?thesis by auto
  next
    case False
    with "2.prems" "2.IH" x show ?thesis by (cases x) (auto 4 4)
  qed
qed simp

lemma due_is_past:
  "r \<in> set (due_for_release env records) \<Longrightarrow> \<exists>raw deadline. dict_get r ''expires_at'' = Some (JStr raw) \<and>
    le_fromiso env raw = Some deadline \<and> deadline + settle \<le> le_time env"
  by (auto simp: due_for_release_def expired_def is_due_def split: option.splits json.splits)

text \<open>
  C14: A release takes grants from nobody whose object stands. Every object a tick revokes is the object of a record in
  the trash, past its deadline by the settling time, that the manifests of the roots it read show as gone, and, where
  the record is of a table with a location, one that lies under such a root.
\<close>

theorem release_revokes_only_lost_objects:
  assumes "release_expired_trash env w = (out, w')" "obj \<in> set (lw_revoked w') - set (lw_revoked w)"
    "trash_list_all (lw_control w) = (Inr records, c)" "roots_read env c = (Inr roots, c')"
  shows "\<exists>r\<in>set records. \<exists>u. object_uuid r = Some u \<and> obj = object_of (record_kind (le_repr env) r) u \<and>
    \<not> is_released r \<and> lost_for_good env roots r"
proof -
  have run: "release_each env roots (liveness_across (le_rows env) roots) (due_for_release env records)
      (nothing_released\<lparr>tl_ran := True\<rparr>) (w\<lparr>lw_control := c'\<rparr>) = (out, w')"
    using assms by (auto simp: release_expired_trash_def Let_def split: if_splits)
  from release_each_revokes [OF run, of obj] assms(2) obtain r u where r: "r \<in> set (due_for_release env records)"
      "object_uuid r = Some u" "why_held (le_repr env) roots (liveness_across (le_rows env) roots) r = None"
      "obj = object_of (record_kind (le_repr env) r) u"
    by auto
  have "r \<in> set records" "\<not> is_released r"
    using r(1) by (simp_all add: due_for_release_def expired_def)
  moreover have "lost_for_good env roots r"
    using due_is_past [OF r(1)] why_held_None [OF r(3)] by (auto simp: lost_for_good_def)
  ultimately show ?thesis using r(2,4) by blast
qed

text \<open>A table dropped for good, and a namespace that stands again on the root of a warehouse.\<close>

definition gone_table :: dict where
  "gone_table = [(''id'', JStr ''ns$t''), (''kind'', JStr ''table''), (''uuid'', JStr ''u''), (''location'', JStr ''s3://b/t''),
     (''expires_at'', JStr ''d'')]"

definition standing_namespace :: dict where
  "standing_namespace = [(''id'', JStr ''ns''), (''kind'', JStr ''namespace''), (''uuid'', JStr ''n''), (''location'', JStr []),
     (''expires_at'', JStr ''d'')]"

definition small_release_env :: "dict content release_env" where
  "small_release_env = \<lparr>le_root = S3, le_dg = id, le_hex = id, le_repr = (\<lambda>_. []), le_fromiso = (\<lambda>_. Some 0), le_isofmt = (\<lambda>_. ''now''),
     le_rows = (\<lambda>root. Some (if root = ''s3://w'' then [\<lparr>mr_object_id = ''ns'', mr_object_type = ''namespace'', mr_location = [],
       mr_uuid = Some ''n''\<rparr>] else [])), le_fga_enabled = True,
     le_client = Some (\<lambda>_. Inr [\<lparr>rm_user = ''user:a'', rm_relation = ''owner''\<rparr>]), le_sweep_buckets = [''b''], le_time = settle\<rparr>"

definition release_world_of :: "dict content \<Rightarrow> dict \<Rightarrow> release_world" where
  "release_world_of warehouse trashed = \<lparr>lw_control = \<lparr>objects = [(''_warehouses/w.json'', warehouse), (''_trash/x.json'', Json trashed)],
     clock = 0, pending = []\<rparr>, lw_revoked = [], lw_events = []\<rparr>"

definition read_registry :: "dict content" where
  "read_registry = Json [(''id'', JStr ''w''), (''bucket'', JStr ''w'')]"

lemma small_releases:
  "lw_revoked (snd (release_expired_trash small_release_env (release_world_of read_registry gone_table))) = [''table:u'']"
  "lw_revoked (snd (release_expired_trash small_release_env (release_world_of read_registry standing_namespace))) = []"
  "lw_revoked (snd (release_expired_trash small_release_env (release_world_of Undecodable standing_namespace))) = [''namespace:n'']"
  "fst (trash_list_all (lw_control (release_world_of read_registry gone_table))) = Inr [gone_table]"
  "fst (roots_read small_release_env (snd (trash_list_all (lw_control (release_world_of read_registry gone_table))))) =
     Inr [''s3://b'', ''s3://w'']"
  "fst (roots_read small_release_env (snd (trash_list_all (lw_control (release_world_of Undecodable standing_namespace))))) =
     Inr [''s3://b'']"
  by code_simp+

theorem release_revokes_only_lost_objects_witness:
  "lw_revoked (snd (release_expired_trash small_release_env (release_world_of read_registry gone_table))) = [''table:u''] \<and>
   lost_for_good small_release_env [''s3://b'', ''s3://w''] gone_table"
proof -
  let ?w = "release_world_of read_registry gone_table"
  have revoked: "''table:u'' \<in> set (lw_revoked (snd (release_expired_trash small_release_env ?w))) - set (lw_revoked ?w)"
    using small_releases(1) by (simp add: release_world_of_def)
  have listed: "trash_list_all (lw_control ?w) = (Inr [gone_table], snd (trash_list_all (lw_control ?w)))"
    using small_releases(4) by (simp add: prod_eq_iff)
  have roots: "roots_read small_release_env (snd (trash_list_all (lw_control ?w))) = (Inr [''s3://b'', ''s3://w''],
      snd (roots_read small_release_env (snd (trash_list_all (lw_control ?w)))))"
    using small_releases(5) by (simp add: prod_eq_iff)
  from release_revokes_only_lost_objects [OF surjective_pairing revoked listed roots] small_releases(1) show ?thesis by auto
qed

section \<open>A root that is not asked\<close>

lemma liveness_elsewhere: "root \<notin> set roots \<Longrightarrow> liveness_across (rows(root := x)) roots = liveness_across rows roots"
proof -
  have "root \<notin> set rs \<Longrightarrow> liveness_over (rows(root := x)) rs live = liveness_over rows rs live" for rs live
    by (induction rows rs live rule: liveness_over.induct) (auto simp: manifest_liveness_def split: option.splits)
  then show "root \<notin> set roots \<Longrightarrow> liveness_across (rows(root := x)) roots = liveness_across rows roots"
    by (simp add: liveness_across_def)
qed

lemma le_rows_kept:
  "le_root (le_rows_update f env) = le_root env" "le_dg (le_rows_update f env) = le_dg env" "le_hex (le_rows_update f env) = le_hex env"
  "le_repr (le_rows_update f env) = le_repr env" "le_isofmt (le_rows_update f env) = le_isofmt env"
  "le_time (le_rows_update f env) = le_time env" "le_fga_enabled (le_rows_update f env) = le_fga_enabled env"
  "le_client (le_rows_update f env) = le_client env" "le_fromiso (le_rows_update f env) = le_fromiso env"
  "le_sweep_buckets (le_rows_update f env) = le_sweep_buckets env" "le_rows (le_rows_update f env) = f (le_rows env)"
  by simp_all

lemma release_each_elsewhere: "release_each (le_rows_update f env) roots live rs out w = release_each env roots live rs out w"
proof (induction rs arbitrary: out w)
  case (Cons r rs)
  have "release_one (le_rows_update f env) roots live r w = release_one env roots live r w"
    unfolding release_one_def revoke_for_release_def le_rows_kept ..
  then show ?case by (simp add: Cons split: prod.splits sum.splits)
qed simp

text \<open>
  A warehouse record that cannot be read costs what stands on its root. The registry is listed by the reading that
  skips such a record, so its root is not among those asked, and whatever that root's manifest holds, a namespace or a
  table that stands again included, the tick releases the same records.
\<close>

theorem unread_warehouse_is_not_asked:
  assumes "trash_list_all (lw_control w) = (Inr records, c)" "roots_read env c = (Inr roots, c')" "root \<notin> set roots"
  shows "release_expired_trash (env\<lparr>le_rows := (le_rows env)(root := x)\<rparr>) w = release_expired_trash env w"
proof -
  have same: "roots_read (le_rows_update f env) = roots_read env" "due_for_release (le_rows_update f env) = due_for_release env" for f
    unfolding fun_eq_iff roots_read_def due_for_release_def le_rows_kept by simp_all
  show ?thesis
    unfolding release_expired_trash_def le_rows_kept same release_each_elsewhere
    using assms by (simp add: liveness_elsewhere Let_def)
qed

theorem unread_warehouse_is_not_asked_witness:
  "release_expired_trash (small_release_env\<lparr>le_rows := (le_rows small_release_env)(''s3://w'' := None)\<rparr>)
     (release_world_of Undecodable standing_namespace) =
   release_expired_trash small_release_env (release_world_of Undecodable standing_namespace) \<and>
   lw_revoked (snd (release_expired_trash small_release_env (release_world_of Undecodable standing_namespace))) = [''namespace:n''] \<and>
   le_rows small_release_env ''s3://w'' = Some [\<lparr>mr_object_id = ''ns'', mr_object_type = ''namespace'', mr_location = [], mr_uuid = Some ''n''\<rparr>]"
proof -
  let ?w = "release_world_of Undecodable standing_namespace"
  have listed: "trash_list_all (lw_control ?w) = (Inr [standing_namespace], lw_control ?w)"
    by (simp add: trash_list_all_def list_records_def access_def release_world_of_def trash_prefix_def in_prefix_def suffix_def)
  have roots: "roots_read small_release_env (lw_control ?w) = (Inr [''s3://b''], snd (roots_read small_release_env (lw_control ?w)))"
    using small_releases(6) unfolding listed by (simp add: prod_eq_iff)
  show ?thesis
    using unread_warehouse_is_not_asked [OF listed roots, of "''s3://w''" None] small_releases(3) by (simp add: small_release_env_def)
qed

end
