(* ===== verification/Floor.thy ===== *)
theory Floor
  imports Table_Names Sweep
begin

text \<open>
  \<^verbatim>\<open>maintenance/services/floor.py\<close>: one metadata commit on a dataset whose leftover files lie above the listing
  floor of Lance's cleanup, so that the next sweep can see them. What pylance answers of a dataset's versions, whether
  its configuration can be read and what a commit answers are arguments; the stamps the commits leave in the datasets'
  configurations are the state. Time is in microseconds, and a stamp is the time as text.
\<close>

datatype floor_refusal =
    Frozen_by_trash string | Named_by_no_row | Floor_unreadable | Already_raised string | Floor_covers_these
  | Vend_refused error | Commit_failed error

record floor_raise =
  fr_dataset :: string
  fr_orphan_files :: nat
  fr_orphan_bytes :: nat
  fr_floor_before :: int
  fr_version :: "nat option"
  fr_refused :: "floor_refusal option"

datatype floor_error = Trash_index_unread error | Manifest_unread

record floor_report =
  fp_enabled :: bool
  fp_dry_run :: bool
  fp_raised :: "floor_raise list"
  fp_refused :: "floor_raise list"
  fp_capped :: nat
  fp_error :: "floor_error option"

record floor_env =
  fe_enabled :: bool
  fe_dry_run :: bool
  fe_max_per_tick :: nat
  fe_repr :: "json \<Rightarrow> string"
  fe_vend :: vend_settings
  fe_door :: "string \<Rightarrow> reply"
  fe_options :: storage_options
  fe_versions :: "string \<Rightarrow> int list result"
  fe_config_reads :: "string \<Rightarrow> bool"
  fe_commit :: "storage_options \<Rightarrow> string \<Rightarrow> nat result"
  fe_stamp :: string

record floor_world =
  fw_control :: "dict world"
  fw_stamps :: "(string \<times> string) list"

text \<open>\<^verbatim>\<open>by_dataset.setdefault(orphan.dataset, []).append(orphan)\<close>, then the datasets whose every orphan is decided.\<close>

definition group_orphan :: "orphan_file \<Rightarrow> (string \<times> orphan_file list) list \<Rightarrow> (string \<times> orphan_file list) list" where
  "group_orphan f groups = AList.update (of_dataset f)
     ((case map_of groups (of_dataset f) of None \<Rightarrow> [] | Some fs \<Rightarrow> fs) @ [f]) groups"

definition eligible :: "orphan_file list \<Rightarrow> (string \<times> orphan_file list) list" where
  "eligible orphans = List.map_filter (\<lambda>(uri, found).
     let stranded = filter (\<lambda>f. of_reclaimable_by_lance f = Some False) found in
     if stranded \<noteq> [] \<and> list_all (\<lambda>f. of_reclaimable_by_lance f \<noteq> None) found then Some (uri, stranded) else None)
     (fold group_orphan orphans [])"

definition outcome_of :: "string \<Rightarrow> orphan_file list \<Rightarrow> floor_raise" where
  "outcome_of uri found = \<lparr>fr_dataset = uri, fr_orphan_files = length found, fr_orphan_bytes = sum_list (map of_size_bytes found),
     fr_floor_before = (if found = [] then 0 else Min (set (map of_mtime_epoch found))), fr_version = None, fr_refused = None\<rparr>"

definition set_aside_trashed ::
    "(string \<times> orphan_file list) list \<Rightarrow> (string \<times> string) list \<Rightarrow> (string \<times> orphan_file list) list \<times> floor_raise list" where
  "set_aside_trashed groups trashed = (let ordered = sort_key fst groups in
     (filter (\<lambda>(uri, _). why_in_trash uri trashed = None) ordered,
      List.map_filter (\<lambda>(uri, found). map_option (\<lambda>why. (outcome_of uri found)\<lparr>fr_refused := Some (Frozen_by_trash why)\<rparr>)
        (why_in_trash uri trashed)) ordered))"

definition set_aside_unnamed ::
    "(string \<times> orphan_file list) list \<Rightarrow> table_ids \<Rightarrow> (string \<times> string \<times> orphan_file list) list \<times> floor_raise list" where
  "set_aside_unnamed candidates names =
     (List.map_filter (\<lambda>(uri, found). map_option (\<lambda>table. (uri, table, found)) (table_of names uri)) candidates,
      List.map_filter (\<lambda>(uri, found). if table_of names uri = None
        then Some ((outcome_of uri found)\<lparr>fr_refused := Some Named_by_no_row\<rparr>) else None) candidates)"

definition current_floor :: "floor_env \<Rightarrow> string \<Rightarrow> int option" where
  "current_floor env uri = (case fe_versions env uri of
       Inl _ \<Rightarrow> None | Inr stamps \<Rightarrow> if stamps = [] then None else Some (Min (set stamps)))"

definition already_raised :: "floor_env \<Rightarrow> string \<Rightarrow> floor_world \<Rightarrow> string option" where
  "already_raised env uri w = (if fe_config_reads env uri then map_of (fw_stamps w) uri else None)"

text \<open>The exceptions of the vend that refuse a raise; another one leaves the pass.\<close>

definition denies_a_raise :: "error \<Rightarrow> bool" where
  "denies_a_raise e = (e \<in> set [MaintenanceDenied, MaintenanceUnauthenticated, GovernedElsewhere, TableNotGoverned, VendUndecided])"

definition raise_one ::
    "floor_env \<Rightarrow> string \<Rightarrow> string \<Rightarrow> orphan_file list \<Rightarrow> floor_world \<Rightarrow> floor_raise result \<times> floor_world" where
  "raise_one env uri table found w = (let outcome = outcome_of uri found in
     case current_floor env uri of
       None \<Rightarrow> (Inr (outcome\<lparr>fr_refused := Some Floor_unreadable\<rparr>), w)
     | Some floor_time \<Rightarrow> (let measured = outcome\<lparr>fr_floor_before := floor_time\<rparr> in
        case already_raised env uri w of
          Some stamp \<Rightarrow> (Inr (measured\<lparr>fr_refused := Some (Already_raised stamp)\<rparr>), w)
        | None \<Rightarrow>
           (if list_all (\<lambda>f. listed_at_or_below (of_mtime_epoch f) floor_time) found
            then (Inr (measured\<lparr>fr_refused := Some Floor_covers_these\<rparr>), w)
            else (case write_options_for (fe_repr env) (fe_vend env) (fe_door env table) (fe_options env) uri of
                Inl e \<Rightarrow> if denies_a_raise e then (Inr (measured\<lparr>fr_refused := Some (Vend_refused e)\<rparr>), w) else (Inl e, w)
              | Inr (tier, options) \<Rightarrow>
                 (if fe_dry_run env then (Inr measured, w)
                  else (case fe_commit env options uri of
                      Inl e \<Rightarrow> (Inr (measured\<lparr>fr_refused := Some (Commit_failed e)\<rparr>), w)
                    | Inr version \<Rightarrow> (Inr (measured\<lparr>fr_version := Some version\<rparr>),
                        w\<lparr>fw_stamps := AList.update uri (fe_stamp env) (fw_stamps w)\<rparr>)))))))"

definition add_outcome :: "floor_raise \<Rightarrow> floor_report \<Rightarrow> floor_report" where
  "add_outcome o' r = (if fr_refused o' \<noteq> None then r\<lparr>fp_refused := fp_refused r @ [o']\<rparr>
     else r\<lparr>fp_raised := fp_raised r @ [o']\<rparr>)"

fun raise_each ::
    "floor_env \<Rightarrow> (string \<times> string \<times> orphan_file list) list \<Rightarrow> floor_report \<Rightarrow> floor_world \<Rightarrow> floor_report result \<times> floor_world" where
  "raise_each env [] r w = (Inr r, w)"
| "raise_each env ((uri, table, found) # rest) r w = (case raise_one env uri table found w of
       (Inl e, w1) \<Rightarrow> (Inl e, w1)
     | (Inr o', w1) \<Rightarrow> raise_each env rest (add_outcome o' r) w1)"

definition raise_listing_floors ::
    "floor_env \<Rightarrow> orphan_file list \<Rightarrow> table_ids \<Rightarrow> floor_world \<Rightarrow> floor_report result \<times> floor_world" where
  "raise_listing_floors env orphans names w =
     (let r = \<lparr>fp_enabled = fe_enabled env, fp_dry_run = fe_dry_run env, fp_raised = [], fp_refused = [], fp_capped = 0,
        fp_error = None\<rparr> in
      if \<not> fe_enabled env then (Inr r, w)
      else (case trash_list_all (fw_control w) of
          (Inl e, c) \<Rightarrow> (Inr (r\<lparr>fp_error := Some (Trash_index_unread e)\<rparr>), w\<lparr>fw_control := c\<rparr>)
        | (Inr records, c) \<Rightarrow> (let w1 = w\<lparr>fw_control := c\<rparr> in
           if \<not> ti_complete names then (Inr (r\<lparr>fp_error := Some Manifest_unread\<rparr>), w1)
           else (case set_aside_trashed (eligible orphans) (trashed_locations (fe_repr env) records) of (untrashed, trashed) \<Rightarrow>
             (case set_aside_unnamed untrashed names of (candidates, unnamed) \<Rightarrow>
               (case raise_each env (take (fe_max_per_tick env) (sort_key fst candidates))
                   (r\<lparr>fp_refused := trashed @ unnamed\<rparr>) w1 of
                  (Inl e, w2) \<Rightarrow> (Inl e, w2)
                | (Inr r2, w2) \<Rightarrow> (Inr (r2\<lparr>fp_capped := length candidates - fe_max_per_tick env\<rparr>), w2)))))))"

section \<open>What a raise may write\<close>

lemma grouped:
  "map_of (fold group_orphan orphans groups) uri =
     (let more_of = filter (\<lambda>f. of_dataset f = uri) orphans in
      case map_of groups uri of
        None \<Rightarrow> if more_of = [] then None else Some more_of
      | Some fs \<Rightarrow> Some (fs @ more_of))"
  by (induction orphans arbitrary: groups) (auto simp: group_orphan_def Let_def split: option.splits)

lemma grouped_distinct: "distinct (map fst groups) \<Longrightarrow> distinct (map fst (fold group_orphan orphans groups))"
  by (induction orphans arbitrary: groups) (auto simp: group_orphan_def distinct_update)

lemma in_eligible:
  assumes "(uri, found) \<in> set (eligible orphans)"
  shows "found = filter (\<lambda>f. of_dataset f = uri \<and> of_reclaimable_by_lance f = Some False) orphans \<and> found \<noteq> [] \<and>
    (\<forall>f\<in>set orphans. of_dataset f = uri \<longrightarrow> of_reclaimable_by_lance f \<noteq> None)"
proof -
  obtain fs where fs: "(uri, fs) \<in> set (fold group_orphan orphans [])" "found = filter (\<lambda>f. of_reclaimable_by_lance f = Some False) fs"
      "found \<noteq> []" "list_all (\<lambda>f. of_reclaimable_by_lance f \<noteq> None) fs"
    using assms by (auto simp: eligible_def in_map_filter Let_def split: if_splits)
  have "map_of (fold group_orphan orphans []) uri = Some fs"
    using fs(1) grouped_distinct [of "[]" orphans] by simp
  then have "fs = filter (\<lambda>f. of_dataset f = uri) orphans"
    by (simp add: grouped Let_def split: if_splits)
  with fs(2-4) show ?thesis
    by (auto simp: list_all_iff)
qed

text \<open>A dataset whose stranded files lie above its floor, that no raise was stamped on and the door vended for.\<close>

definition earns_a_raise :: "floor_env \<Rightarrow> floor_world \<Rightarrow> string \<Rightarrow> string \<Rightarrow> orphan_file list \<Rightarrow> bool" where
  "earns_a_raise env w uri table found \<longleftrightarrow> \<not> fe_dry_run env \<and> already_raised env uri w = None \<and>
     (\<exists>floor_time. current_floor env uri = Some floor_time \<and>
       (\<exists>f\<in>set found. \<not> listed_at_or_below (of_mtime_epoch f) floor_time)) \<and>
     (\<exists>tier options. write_options_for (fe_repr env) (fe_vend env) (fe_door env table) (fe_options env) uri = Inr (tier, options))"

lemma earns_same:
  assumes "map_of (fw_stamps w1) uri = map_of (fw_stamps w) uri"
  shows "earns_a_raise env w1 uri table found = earns_a_raise env w uri table found"
  unfolding earns_a_raise_def already_raised_def assms ..

lemma raise_one_stamps:
  assumes "raise_one env uri table found w = (x, w')"
  shows "fw_stamps w' = fw_stamps w \<or>
    (fw_stamps w' = AList.update uri (fe_stamp env) (fw_stamps w) \<and> earns_a_raise env w uri table found)"
  using assms by (auto simp: raise_one_def earns_a_raise_def list_all_iff Let_def split: option.splits if_splits sum.splits prod.splits)

lemma raise_each_stamps:
  assumes "raise_each env cs r w = (x, w')" "map_of (fw_stamps w') uri \<noteq> map_of (fw_stamps w) uri"
  shows "\<exists>table found. (uri, table, found) \<in> set cs \<and> earns_a_raise env w uri table found"
  using assms
proof (induction env cs r w rule: raise_each.induct)
  case (2 env u table found rest r w)
  obtain y w1 where y: "raise_one env u table found w = (y, w1)" by fastforce
  show ?case
  proof (cases "map_of (fw_stamps w1) uri = map_of (fw_stamps w) uri")
    case True
    with "2.prems" y obtain o' where o': "y = Inr o'" by (cases y) auto
    with "2.prems"(1) y have "raise_each env rest (add_outcome o' r) w1 = (x, w')" by simp
    from "2.IH" [OF y [symmetric] o' this] "2.prems"(2) True obtain t fs where
        "(uri, t, fs) \<in> set rest" "earns_a_raise env w1 uri t fs" by auto
    then show ?thesis unfolding earns_same [OF True] by auto
  next
    case False
    then have "u = uri" "earns_a_raise env w u table found"
      using raise_one_stamps [OF y] by (auto split: if_splits)
    then show ?thesis by auto
  qed
qed simp

text \<open>
  C17: A commit for the sweep's sake is written on nobody's frozen or unknown bytes. A dataset that a pass stamps is in
  no trash record's location, is a table some manifest row names, holds a file Lance cannot list and none that is
  undecided, was not raised before, still has such a file above its floor, and was vended for by the catalog.
\<close>

theorem floor_is_raised_only_where_it_must:
  assumes "raise_listing_floors env orphans names w = (x, w')" "map_of (fw_stamps w') uri \<noteq> map_of (fw_stamps w) uri"
  shows "fe_enabled env \<and> ti_complete names \<and>
    (\<exists>records c. trash_list_all (fw_control w) = (Inr records, c) \<and> why_in_trash uri (trashed_locations (fe_repr env) records) = None) \<and>
    (\<forall>f\<in>set orphans. of_dataset f = uri \<longrightarrow> of_reclaimable_by_lance f \<noteq> None) \<and>
    (\<exists>table. table_of names uri = Some table \<and> earns_a_raise env w uri table
      (filter (\<lambda>f. of_dataset f = uri \<and> of_reclaimable_by_lance f = Some False) orphans))"
proof -
  have on: "fe_enabled env" using assms by (auto simp: raise_listing_floors_def Let_def split: if_splits)
  obtain records c where listed: "trash_list_all (fw_control w) = (Inr records, c)"
    using assms on by (cases "trash_list_all (fw_control w)"; cases "fst (trash_list_all (fw_control w))")
      (auto simp: raise_listing_floors_def Let_def)
  have whole: "ti_complete names"
    using assms on listed by (auto simp: raise_listing_floors_def Let_def split: if_splits)
  let ?groups = "eligible orphans" and ?trashed = "trashed_locations (fe_repr env) records"
  let ?candidates = "fst (set_aside_unnamed (fst (set_aside_trashed ?groups ?trashed)) names)"
  obtain r0 y where run: "raise_each env (take (fe_max_per_tick env) (sort_key fst ?candidates)) r0 (w\<lparr>fw_control := c\<rparr>) = (y, w')"
    using assms(1) on listed whole
    by (auto simp: raise_listing_floors_def Let_def split: prod.splits sum.splits)
  from raise_each_stamps [OF run, of uri] assms(2) obtain table found where t: "(uri, table, found) \<in> set ?candidates"
      "earns_a_raise env (w\<lparr>fw_control := c\<rparr>) uri table found"
    by (auto dest: in_set_takeD)
  from t(1) have named: "table_of names uri = Some table" "(uri, found) \<in> set (fst (set_aside_trashed ?groups ?trashed))"
    by (auto simp: set_aside_unnamed_def in_map_filter split: prod.splits)
  from named(2) have free: "why_in_trash uri ?trashed = None" "(uri, found) \<in> set ?groups"
    by (auto simp: set_aside_trashed_def Let_def)
  have "earns_a_raise env w uri table found"
    using t(2) earns_same [of "w\<lparr>fw_control := c\<rparr>" uri w] by simp
  with in_eligible [OF free(2)] on whole listed named(1) free(1) show ?thesis by auto
qed

definition stranded_file :: orphan_file where
  "stranded_file = \<lparr>of_dataset = ''s3://b/t'', of_path = ''_transactions/1.txn'', of_kind = Transactions, of_size_bytes = 7,
     of_reclaimable_by_lance = Some False, of_mtime_epoch = 5000000\<rparr>"

definition small_floor_env :: floor_env where
  "small_floor_env = \<lparr>fe_enabled = True, fe_dry_run = False, fe_max_per_tick = 5, fe_repr = (\<lambda>_. []),
     fe_vend = \<lparr>vs_catalog_url = [], vs_s3_endpoint = [], vs_token = None\<rparr>, fe_door = (\<lambda>_. Unreachable),
     fe_options = \<lparr>so_key_pair = None, so_options = []\<rparr>, fe_versions = (\<lambda>_. Inr [3000000]), fe_config_reads = (\<lambda>_. True),
     fe_commit = (\<lambda>_ _. Inr 2), fe_stamp = ''6''\<rparr>"

definition small_floor_names :: table_ids where
  "small_floor_names = no_tables\<lparr>ti_by_location := [(''b/t'', ''ns$t'')]\<rparr>"

definition small_floor_world :: floor_world where
  "small_floor_world = \<lparr>fw_control = \<lparr>objects = [(''_trash/x.json'', Json trashed_x)], clock = 0, pending = []\<rparr>, fw_stamps = []\<rparr>"

lemma small_floor_raised:
  "fw_stamps (snd (raise_listing_floors small_floor_env [stranded_file] small_floor_names small_floor_world)) = [(''s3://b/t'', ''6'')]"
  by code_simp

theorem floor_is_raised_only_where_it_must_witness:
  "fw_stamps (snd (raise_listing_floors small_floor_env [stranded_file] small_floor_names small_floor_world)) = [(''s3://b/t'', ''6'')] \<and>
   (\<exists>table. table_of small_floor_names ''s3://b/t'' = Some table)"
  using floor_is_raised_only_where_it_must [OF surjective_pairing, where uri = "''s3://b/t''" and env = small_floor_env
      and orphans = "[stranded_file]" and names = small_floor_names and w = small_floor_world] small_floor_raised
  by (auto simp: small_floor_world_def)

end
