(* ===== verification/Outbox.thy ===== *)
theory Outbox
  imports Prelude
begin

text \<open>
  \<^verbatim>\<open>lakehouse_kit/outbox.py\<close>: the durable outbox of bus events. A producer stages the full event
  before its publish and drops it once the publish returned; whatever is left is drained by a relay,
  oldest first and a bounded number at a time.

  An \<open>outbox\<close> is the files under the outbox prefix by name (with their payload and modification
  time), what the bus has accepted, and the metric counters. An operation of the store or the bus
  may fail; whether it does is an argument. \<^verbatim>\<open>json.loads\<close> is the argument \<open>loads\<close> (\<open>None\<close> when
  it raises \<^verbatim>\<open>ValueError\<close> or \<^verbatim>\<open>TypeError\<close>), and \<open>repr\<close> is \<^verbatim>\<open>str()\<close> of a JSON array or object.
\<close>

section \<open>Keys\<close>

text \<open>
  The event type a payload carries. A payload that does not parse has none; a payload that parses to
  a truthy value that is not an object has no \<^verbatim>\<open>.get\<close>, and raises.
\<close>

definition event_type :: "(string \<Rightarrow> json option) \<Rightarrow> (json \<Rightarrow> string) \<Rightarrow> string \<Rightarrow> string result" where
  "event_type loads repr event_json = (case loads event_json of
       None \<Rightarrow> Inr []
     | Some j \<Rightarrow>
         if \<not> truthy (Some j) then Inr []
         else (case j of
             JObj kv \<Rightarrow>
               (case dict_get kv ''eventType'' of
                  None \<Rightarrow> Inr []
                | Some v \<Rightarrow> if truthy (Some v) then Inr (map upper_char (strip (py_str repr v))) else Inr [])
           | _ \<Rightarrow> Inl AttributeError))"

definition object_key :: "(string \<Rightarrow> json option) \<Rightarrow> (json \<Rightarrow> string) \<Rightarrow> string \<Rightarrow> string \<Rightarrow> string result" where
  "object_key loads repr run_id event_json = (case event_type loads repr event_json of
       Inl e \<Rightarrow> Inl e
     | Inr t \<Rightarrow> Inr (if t \<noteq> [] then run_id @ ''@'' @ t else run_id))"

section \<open>The outbox\<close>

record staged_file =
  sf_payload :: string
  sf_mtime :: "int option"

record outbox =
  ob_files :: "(string \<times> staged_file) list"
  ob_bus :: "string list"
  ob_staged :: nat
  ob_stage_failed :: nat
  ob_published :: nat
  ob_publish_failed :: nat

definition file_name :: "string \<Rightarrow> string" where
  "file_name key = key @ ''.json''"

definition stage_event ::
  "(string \<Rightarrow> json option) \<Rightarrow> (json \<Rightarrow> string) \<Rightarrow> bool \<Rightarrow> int \<Rightarrow> string \<Rightarrow> string \<Rightarrow> outbox \<Rightarrow> unit result \<times> outbox" where
  "stage_event loads repr ok now run_id event_json ob = (case object_key loads repr run_id event_json of
       Inl e \<Rightarrow> (Inl e, ob)
     | Inr key \<Rightarrow>
         if ok then (Inr (), ob\<lparr>ob_files :=
             AList.update (file_name key) \<lparr>sf_payload = event_json, sf_mtime = Some now\<rparr> (ob_files ob)\<rparr>)
         else (Inl StoreError, ob))"

text \<open>A delete of an absent object is no error.\<close>

definition drop_event :: "bool \<Rightarrow> string \<Rightarrow> outbox \<Rightarrow> unit result \<times> outbox" where
  "drop_event ok key ob =
     (if ok then (Inr (), ob\<lparr>ob_files := AList.delete (file_name key) (ob_files ob)\<rparr>) else (Inl StoreError, ob))"

definition read_event :: "outbox \<Rightarrow> string \<Rightarrow> string option" where
  "read_event ob key = map_option sf_payload (map_of (ob_files ob) (file_name key))"

text \<open>The listing is not recursive, and stable on equal modification times.\<close>

definition file_age :: "string \<times> staged_file \<Rightarrow> int" where
  "file_age f = (case sf_mtime (snd f) of None \<Rightarrow> 0 | Some t \<Rightarrow> t)"

definition staged_infos :: "outbox \<Rightarrow> (string \<times> staged_file) list" where
  "staged_infos ob =
     sort_key file_age (filter (\<lambda>f. CHR ''/'' \<notin> set (fst f) \<and> suffix ''.json'' (fst f)) (ob_files ob))"

definition resolve_event :: "outbox \<Rightarrow> string \<Rightarrow> (string \<times> string) option" where
  "resolve_event ob run_id = (case read_event ob run_id of
       Some payload \<Rightarrow> Some (run_id, payload)
     | None \<Rightarrow>
         (case filter (\<lambda>f. prefix (run_id @ ''@'') (fst f)) (staged_infos ob) of
            [] \<Rightarrow> None
          | matches \<Rightarrow>
              (let key = remove_suffix ''.json'' (fst (last matches)) in
               map_option (Pair key) (read_event ob key))))"

text \<open>The age is in nanoseconds, which the source divides by \<^verbatim>\<open>1e9\<close>.\<close>

definition backlog :: "int \<Rightarrow> outbox \<Rightarrow> nat \<times> int" where
  "backlog time_ns ob = (case staged_infos ob of
       [] \<Rightarrow> (0, 0)
     | oldest # _ \<Rightarrow>
         (length (staged_infos ob), if file_age oldest \<noteq> 0 then max 0 (time_ns - file_age oldest) else 0))"

text \<open>
  \<^verbatim>\<open>list_events\<close>: \<open>vanished\<close> says which listed objects a concurrent drop has removed by the time
  they are opened.
\<close>

definition list_events :: "(string \<Rightarrow> bool) \<Rightarrow> nat option \<Rightarrow> outbox \<Rightarrow> (string \<times> string) list" where
  "list_events vanished limit ob =
     (let infos = (case limit of None \<Rightarrow> staged_infos ob | Some n \<Rightarrow> take n (staged_infos ob)) in
      map (\<lambda>f. (remove_suffix ''.json'' (fst f), sf_payload (snd f)))
        (filter (\<lambda>f. \<not> vanished (fst f)) infos))"

section \<open>Publishing\<close>

text \<open>
  What the store and the bus answer one \<^verbatim>\<open>_publish_staged\<close>: the stage, the publish and the drop,
  each accepted or refused.
\<close>

record publish_answers =
  pa_stage :: bool
  pa_publish :: bool
  pa_drop :: bool

definition publish_event :: "bool \<Rightarrow> string \<Rightarrow> outbox \<Rightarrow> unit result \<times> outbox" where
  "publish_event ok event_json ob =
     (if ok then (Inr (), ob\<lparr>ob_bus := ob_bus ob @ [event_json]\<rparr>) else (Inl PublishError, ob))"

text \<open>
  \<^verbatim>\<open>_publish_staged\<close>, with the outbox after each of its effects in order, so that a crash between
  two of them leaves one of the listed outboxes.
\<close>

definition publish_staged ::
  "(string \<Rightarrow> json option) \<Rightarrow> (json \<Rightarrow> string) \<Rightarrow> publish_answers \<Rightarrow> int \<Rightarrow> bool \<Rightarrow> string \<Rightarrow> string \<Rightarrow> outbox
    \<Rightarrow> unit result \<times> outbox list" where
  "publish_staged loads repr pa now configured key event_json ob =
     (let (staged, ob1) =
        (if \<not> configured then (False, ob)
         else case stage_event loads repr (pa_stage pa) now key event_json ob of
             (Inr _, o1) \<Rightarrow> (True, o1\<lparr>ob_staged := ob_staged o1 + 1\<rparr>)
           | (Inl _, o1) \<Rightarrow> (False, o1\<lparr>ob_stage_failed := ob_stage_failed o1 + 1\<rparr>)) in
      case publish_event (pa_publish pa) event_json ob1 of
        (Inl e, ob2) \<Rightarrow>
          (let ob3 = (if staged then ob2\<lparr>ob_publish_failed := ob_publish_failed ob2 + 1\<rparr> else ob2) in
           (Inl e, [ob1, ob3]))
      | (Inr _, ob2) \<Rightarrow>
          (let ob3 = ob2\<lparr>ob_published := ob_published ob2 + 1\<rparr> in
           if staged then
             (case object_key loads repr key event_json of
                Inl _ \<Rightarrow> (Inr (), [ob1, ob3])
              | Inr k \<Rightarrow> (Inr (), [ob1, ob3, snd (drop_event (pa_drop pa) k ob3)]))
           else (Inr (), [ob1, ob3])))"

text \<open>
  The two lanes, each over its own outbox: any bus event under its producer's key, and a lineage
  event under its run id. An outbox is configured when its URI is not empty.
\<close>

definition publish_with_outbox ::
  "(string \<Rightarrow> json option) \<Rightarrow> (json \<Rightarrow> string) \<Rightarrow> publish_answers \<Rightarrow> int \<Rightarrow> string \<Rightarrow> string \<Rightarrow> string \<Rightarrow> outbox
    \<Rightarrow> unit result \<times> outbox list" where
  "publish_with_outbox loads repr pa now outbox_uri key event_json ob =
     publish_staged loads repr pa now (outbox_uri \<noteq> []) key event_json ob"

definition publish_lineage_with_outbox ::
  "(string \<Rightarrow> json option) \<Rightarrow> (json \<Rightarrow> string) \<Rightarrow> publish_answers \<Rightarrow> int \<Rightarrow> string \<Rightarrow> string \<Rightarrow> string \<Rightarrow> outbox
    \<Rightarrow> unit result \<times> outbox list" where
  "publish_lineage_with_outbox loads repr pa now outbox_uri run_id event_json ob =
     publish_staged loads repr pa now (outbox_uri \<noteq> []) run_id event_json ob"

section \<open>Keys keep events apart\<close>

text \<open>
  No event of a run can overwrite another. For run ids without an \<^verbatim>\<open>@\<close>, two events whose
  staged objects have the same name belong to the same run and carry the same event type, so a
  run's COMPLETE and its FAIL, and the events of different runs, are always staged as different
  objects.
\<close>

theorem object_key_separates_events:
  assumes "object_key loads repr r1 e1 = Inr k" "object_key loads repr r2 e2 = Inr k"
    and "CHR ''@'' \<notin> set r1" "CHR ''@'' \<notin> set r2"
  shows "r1 = r2 \<and> event_type loads repr e1 = event_type loads repr e2"
proof -
  obtain t1 t2 where t: "event_type loads repr e1 = Inr t1" "event_type loads repr e2 = Inr t2"
    using assms(1,2) by (auto simp: object_key_def split: sum.splits)
  have eq: "(if t1 \<noteq> [] then r1 @ CHR ''@'' # t1 else r1) = (if t2 \<noteq> [] then r2 @ CHR ''@'' # t2 else r2)"
    using assms(1,2) t by (auto simp: object_key_def split: if_splits)
  show ?thesis
  proof (cases "t1 \<noteq> [] \<and> t2 \<noteq> []")
    case True
    with eq first_sep_unique [of r1 "CHR ''@''" t1 r2 t2] assms(3,4) t show ?thesis by simp
  next
    case False
    with eq assms(3,4) t show ?thesis by (auto split: if_splits)
  qed
qed

theorem object_key_separates_events_witness:
  "let loads = (\<lambda>s. Some (JObj [(''eventType'', JStr s)])) in
   object_key loads (\<lambda>_. []) ''run'' ''complete'' \<noteq> object_key loads (\<lambda>_. []) ''run'' ''fail''"
proof -
  let ?loads = "\<lambda>s. Some (JObj [(''eventType'', JStr s)])"
  have "object_key ?loads (\<lambda>_. []) ''run'' ''complete'' = Inr ''run@COMPLETE''" by code_simp
  moreover have "event_type ?loads (\<lambda>_. []) ''complete'' \<noteq> event_type ?loads (\<lambda>_. []) ''fail''" by code_simp
  ultimately show ?thesis
    using object_key_separates_events [of ?loads "\<lambda>_. []" "''run''" "''complete''" "''run@COMPLETE''" "''run''" "''fail''"]
    by (auto simp: Let_def)
qed

section \<open>Nothing is lost\<close>

text \<open>
  C35: An event is never lost between its stage and its delivery, on either lane. Once
  \<^verbatim>\<open>publish_with_outbox\<close> or \<^verbatim>\<open>publish_lineage_with_outbox\<close> has staged an event under its key, then wherever the process stops, the event is still staged in full
  or the bus has accepted it; it is raised as failed only while it is still staged; and no other
  staged event is touched.
\<close>

theorem staged_event_survives_or_is_published:
  assumes "(x, obs) \<in> {publish_with_outbox loads repr pa now uri run_id e ob,
      publish_lineage_with_outbox loads repr pa now uri run_id e ob}"
    and "uri \<noteq> []" and "object_key loads repr run_id e = Inr k" "pa_stage pa" "ob' \<in> set obs"
  shows "(read_event ob' k = Some e \<or> e \<in> set (ob_bus ob')) \<and>
    (x = Inr () \<or> read_event (last obs) k = Some e) \<and>
    (\<forall>name. name \<noteq> file_name k \<longrightarrow> map_of (ob_files ob') name = map_of (ob_files ob) name)"
  using assms
  by (auto simp: publish_with_outbox_def publish_lineage_with_outbox_def publish_staged_def stage_event_def
      publish_event_def drop_event_def read_event_def Let_def
      split: if_splits)

theorem staged_event_survives_or_is_published_witness:
  "let ob = \<lparr>ob_files = [], ob_bus = [], ob_staged = 0, ob_stage_failed = 0, ob_published = 0, ob_publish_failed = 0\<rparr>;
       pa = \<lparr>pa_stage = True, pa_publish = False, pa_drop = True\<rparr> in
   read_event (last (snd (publish_lineage_with_outbox (\<lambda>_. None) (\<lambda>_. []) pa 9 ''s3://ob'' ''run'' ''body'' ob))) ''run'' = Some ''body''"
proof -
  let ?ob = "\<lparr>ob_files = [], ob_bus = [], ob_staged = 0, ob_stage_failed = 0, ob_published = 0, ob_publish_failed = 0\<rparr>"
  let ?pa = "\<lparr>pa_stage = True, pa_publish = False, pa_drop = True\<rparr>"
  let ?run = "publish_lineage_with_outbox (\<lambda>_. None) (\<lambda>_. []) ?pa 9 ''s3://ob'' ''run'' ''body'' ?ob"
  have fst: "fst ?run = Inl PublishError" by code_simp
  have obs: "snd ?run \<noteq> []" by code_simp
  have key: "object_key (\<lambda>_. None) (\<lambda>_. []) ''run'' ''body'' = Inr ''run''" by code_simp
  have "fst ?run = Inr () \<or> read_event (last (snd ?run)) ''run'' = Some ''body''"
    using staged_event_survives_or_is_published
      [of "fst ?run" "snd ?run" "\<lambda>_. None" "\<lambda>_. []" ?pa 9 "''s3://ob''" "''run''" "''body''" ?ob, OF _ _ key _ last_in_set [OF obs]]
    by simp
  with fst show ?thesis by (simp add: Let_def)
qed

section \<open>The drain is bounded and oldest first\<close>

definition event_of :: "string \<times> staged_file \<Rightarrow> string \<times> string" where
  "event_of f = (remove_suffix ''.json'' (fst f), sf_payload (snd f))"

definition listed :: "string \<times> staged_file \<Rightarrow> bool" where
  "listed f = (CHR ''/'' \<notin> set (fst f) \<and> suffix ''.json'' (fst f))"

lemma staged_infos_set: "set (staged_infos ob) = {f \<in> set (ob_files ob). listed f}"
  by (auto simp: staged_infos_def listed_def)

lemma remove_suffix_inj:
  "suffix t a \<Longrightarrow> suffix t b \<Longrightarrow> remove_suffix t a = remove_suffix t b \<Longrightarrow> a = b"
  by (auto simp: suffix_def)

lemma event_of_inj:
  assumes "distinct (map fst (ob_files ob))" "f \<in> set (ob_files ob)" "g \<in> set (ob_files ob)"
    and "listed f" "listed g" "event_of f = event_of g"
  shows "f = g"
proof -
  have "fst f = fst g"
    using assms(4-6) by (auto simp: event_of_def listed_def dest: remove_suffix_inj)
  then show ?thesis
    using assms(1-3) by (auto simp: distinct_map dest: inj_onD)
qed

lemma list_events_take:
  "list_events vanished (Some n) ob =
   map event_of (filter (\<lambda>f. \<not> vanished (fst f)) (take n (staged_infos ob)))"
  by (simp add: list_events_def event_of_def)

lemma staged_infos_order:
  assumes "y \<in> set (take n (staged_infos ob))" "z \<in> set (drop n (staged_infos ob))"
  shows "file_age y \<le> file_age z"
proof -
  have "sorted (map file_age (take n (staged_infos ob) @ drop n (staged_infos ob)))"
    unfolding append_take_drop_id by (simp add: staged_infos_def)
  then show ?thesis
    using assms unfolding map_append sorted_append by auto
qed

text \<open>
  A relay tick is bounded, and the events at risk longest drain first. With a limit \<open>n\<close>,
  \<^verbatim>\<open>list_events\<close> yields at most \<open>n\<close> events, each with the key that drops it; and an event that is
  staged, listed, still there and not yielded is left behind only by a full tick, and is no older
  than any event yielded.
\<close>

theorem drain_is_bounded_and_oldest_first:
  assumes "distinct (map fst (ob_files ob))" "f \<in> set (ob_files ob)" "listed f" "\<not> vanished (fst f)"
    and "event_of f \<notin> set (list_events vanished (Some n) ob)"
  shows "length (list_events vanished (Some n) ob) \<le> n \<and> n < length (staged_infos ob) \<and>
    (\<forall>g\<in>set (ob_files ob). listed g \<longrightarrow> event_of g \<in> set (list_events vanished (Some n) ob) \<longrightarrow>
       file_age g \<le> file_age f)"
proof -
  have notin: "f \<notin> set (take n (staged_infos ob))"
    using assms(4,5) by (auto simp: list_events_take)
  have "f \<in> set (take n (staged_infos ob) @ drop n (staged_infos ob))"
    using assms(2,3) unfolding append_take_drop_id by (simp add: staged_infos_set)
  with notin have late: "f \<in> set (drop n (staged_infos ob))" unfolding set_append by blast
  have "file_age g \<le> file_age f"
    if g: "g \<in> set (ob_files ob)" "listed g" "event_of g \<in> set (list_events vanished (Some n) ob)" for g
  proof -
    obtain y where y: "y \<in> set (take n (staged_infos ob))" "event_of g = event_of y"
      using g(3) by (auto simp: list_events_take)
    then have "y \<in> set (staged_infos ob)" by (auto dest: in_set_takeD)
    then have "y \<in> set (ob_files ob)" "listed y" by (simp_all add: staged_infos_set)
    then have "g = y"
      using g y(2) by (intro event_of_inj [OF assms(1)])
    with y(1) late show ?thesis by (auto intro: staged_infos_order)
  qed
  moreover have "length (list_events vanished (Some n) ob) \<le> length (take n (staged_infos ob))"
    unfolding list_events_take length_map by (rule length_filter_le)
  moreover have "n < length (staged_infos ob)"
    using late by (cases "n < length (staged_infos ob)") auto
  ultimately show ?thesis by auto
qed

theorem drain_is_bounded_and_oldest_first_witness:
  "let old = (''a.json'', \<lparr>sf_payload = ''A'', sf_mtime = Some 1\<rparr>); new = (''b.json'', \<lparr>sf_payload = ''B'', sf_mtime = Some 2\<rparr>);
       ob = \<lparr>ob_files = [new, old], ob_bus = [], ob_staged = 0, ob_stage_failed = 0, ob_published = 0, ob_publish_failed = 0\<rparr> in
   list_events (\<lambda>_. False) (Some 1) ob = [(''a'', ''A'')] \<and> file_age old \<le> file_age new"
proof -
  let ?old = "(''a.json'', \<lparr>sf_payload = ''A'', sf_mtime = Some 1\<rparr>)"
  let ?new = "(''b.json'', \<lparr>sf_payload = ''B'', sf_mtime = Some 2\<rparr>)"
  let ?ob = "\<lparr>ob_files = [?new, ?old], ob_bus = [], ob_staged = 0, ob_stage_failed = 0, ob_published = 0, ob_publish_failed = 0\<rparr>"
  have run: "list_events (\<lambda>_. False) (Some 1) ?ob = [(''a'', ''A'')]" by code_simp
  have "listed ?old" "listed ?new" "event_of ?old = (''a'', ''A'')" "event_of ?new = (''b'', ''B'')"
    by code_simp+
  then show ?thesis
    using drain_is_bounded_and_oldest_first [of ?ob ?new "\<lambda>_. False" 1] run
    by (auto simp: Let_def)
qed

end
