(* ===== verification/Warehouse_Registry.thy ===== *)
theory Warehouse_Registry
  imports Records "HOL-Library.Multiset"
begin

text \<open>
  \<^verbatim>\<open>lakehouse_kit/warehouse_registry.py\<close>: from a project to the root of its one active warehouse,
  through a bounded positive cache. Times are microseconds of the process's monotonic clock, and an
  argument; the cache is threaded through the resolver.
\<close>

section \<open>The positive cache\<close>

type_synonym cache_key = "string \<times> string \<times> string"
type_synonym cache_entries = "(cache_key \<times> int \<times> string) list"

record ttl_cache =
  tc_max :: nat
  tc_entries :: cache_entries

definition max_cache_entries :: nat where
  "max_cache_entries = 512"

definition ttl_get :: "cache_key \<Rightarrow> int \<Rightarrow> ttl_cache \<Rightarrow> string option \<times> ttl_cache" where
  "ttl_get key now c = (case map_of (tc_entries c) key of
       None \<Rightarrow> (None, c)
     | Some (expires, value) \<Rightarrow>
         if now \<ge> expires then (None, c\<lparr>tc_entries := AList.delete key (tc_entries c)\<rparr>)
         else (Some value, c))"

text \<open>\<^verbatim>\<open>min(entries, key=expiry)\<close>: the first of the entries that expire soonest.\<close>

definition soonest :: "cache_entries \<Rightarrow> cache_key" where
  "soonest es = fst (hd (sort_key (\<lambda>e. fst (snd e)) es))"

lemma soonest_in: "es \<noteq> [] \<Longrightarrow> soonest es \<in> fst ` set es"
proof -
  assume "es \<noteq> []"
  then have "sort_key (\<lambda>e. fst (snd e)) es \<noteq> []" by (metis length_0_conv length_sort)
  then have "hd (sort_key (\<lambda>e. fst (snd e)) es) \<in> set es" by (metis hd_in_set set_sort)
  then show ?thesis by (auto simp: soonest_def)
qed

lemma length_delete_less: "k \<in> fst ` set es \<Longrightarrow> length (AList.delete k es) < length es"
  using length_filter_less [of _ es "\<lambda>(k', _). k \<noteq> k'"]
  by (force simp: AList.delete_eq)

function evict :: "nat \<Rightarrow> cache_entries \<Rightarrow> cache_entries" where
  "evict n es = (if n < length es then evict n (AList.delete (soonest es) es) else es)"
  by auto
termination
  by (relation "measure (\<lambda>(_, es). length es)") (auto intro!: length_delete_less soonest_in)

declare evict.simps [simp del]

definition ttl_set :: "cache_key \<Rightarrow> string \<Rightarrow> int \<Rightarrow> int \<Rightarrow> ttl_cache \<Rightarrow> ttl_cache" where
  "ttl_set key value now ttl c =
     (if ttl \<le> 0 then c\<lparr>tc_entries := AList.delete key (tc_entries c)\<rparr>
      else c\<lparr>tc_entries := evict (tc_max c)
        (AList.update key (now + ttl, value) (filter (\<lambda>e. fst (snd e) > now) (tc_entries c)))\<rparr>)"

definition ttl_clear :: "ttl_cache \<Rightarrow> ttl_cache" where
  "ttl_clear c = c\<lparr>tc_entries := []\<rparr>"

section \<open>Resolving a project\<close>

definition registry_prefix :: string where
  "registry_prefix = ''_warehouses''"

definition is_primary :: "dict \<Rightarrow> bool" where
  "is_primary r = (case dict_get r ''primary'' of
       Some (JBool b) \<Rightarrow> b
     | Some (JStr s) \<Rightarrow> map lower_char (strip s) = ''true''
     | _ \<Rightarrow> False)"

text \<open>\<^verbatim>\<open>(record.get(k) or default) == value\<close> on strings.\<close>

definition field_is :: "dict \<Rightarrow> string \<Rightarrow> string \<Rightarrow> string \<Rightarrow> bool" where
  "field_is r k fallback value =
     ((if truthy (dict_get r k) then the (dict_get r k) else JStr fallback) = JStr value)"

type_synonym warehouse_match = "string \<times> string \<times> bool"

definition warehouse_match :: "(json \<Rightarrow> string) \<Rightarrow> string \<Rightarrow> string \<Rightarrow> dict \<Rightarrow> warehouse_match option" where
  "warehouse_match repr project serving r =
     (if dict_get r ''project'' \<noteq> Some (JStr project) then None
      else if \<not> field_is r ''status'' ''active'' ''active'' then None
      else if \<not> field_is r ''serving'' [] serving then None
      else (case dict_get r ''root_uri'' of
          Some (JStr u) \<Rightarrow>
            if u \<noteq> [] then
              Some (case dict_get r ''id'' of None \<Rightarrow> [] | Some i \<Rightarrow> py_str repr i, rstrip_slash u, is_primary r)
            else None
        | _ \<Rightarrow> None))"

definition sole_root :: "warehouse_match list \<Rightarrow> string result" where
  "sole_root matches =
     (if length matches = 1 then Inr (fst (snd (matches ! 0)))
      else (let primaries = filter (\<lambda>m. snd (snd m)) matches in
        if length primaries = 1 then Inr (fst (snd (primaries ! 0)))
        else Inl AmbiguousProjectWarehouseError))"

text \<open>What the listed records answer, between the cache's read and its write.\<close>

definition route :: "(json \<Rightarrow> string) \<Rightarrow> string \<Rightarrow> string \<Rightarrow> dict list \<Rightarrow> string option result" where
  "route repr project serving records =
     (let matches = List.map_filter (warehouse_match repr project serving) records in
      if matches = [] then Inr None else map_sum id Some (sole_root matches))"

text \<open>
  \<^verbatim>\<open>_default_ttl_seconds\<close>: \<open>parse\<close> is \<^verbatim>\<open>float()\<close>, in microseconds, \<open>None\<close> for \<^verbatim>\<open>ValueError\<close>.
\<close>

definition default_ttl :: "(string \<Rightarrow> int option) \<Rightarrow> string option \<Rightarrow> int" where
  "default_ttl parse raw = (case raw of
       None \<Rightarrow> 5000000
     | Some s \<Rightarrow> if s = [] then 5000000 else (case parse s of None \<Rightarrow> 5000000 | Some t \<Rightarrow> t))"

definition resolve_root ::
  "(json \<Rightarrow> string) \<Rightarrow> string \<Rightarrow> string \<Rightarrow> string \<Rightarrow> int \<Rightarrow> int \<Rightarrow> ttl_cache \<times> dict world
    \<Rightarrow> string option result \<times> ttl_cache \<times> dict world" where
  "resolve_root repr control_root project serving ttl now cw =
     (case ttl_get (control_root, project, serving) now (fst cw) of
        (Some root, c1) \<Rightarrow> (Inr (Some root), c1, snd cw)
      | (None, c1) \<Rightarrow>
          (case list_records registry_prefix False (snd cw) of
             (Inl e, w1) \<Rightarrow> (Inl e, c1, w1)
           | (Inr records, w1) \<Rightarrow>
               (case route repr project serving records of
                  Inl e \<Rightarrow> (Inl e, c1, w1)
                | Inr None \<Rightarrow> (Inr None, c1, w1)
                | Inr (Some root) \<Rightarrow>
                    (Inr (Some root), ttl_set (control_root, project, serving) root now ttl c1, w1))))"

definition project_root ::
  "(json \<Rightarrow> string) \<Rightarrow> string \<Rightarrow> string \<Rightarrow> int \<Rightarrow> int \<Rightarrow> ttl_cache \<times> dict world
    \<Rightarrow> string option result \<times> ttl_cache \<times> dict world" where
  "project_root repr control_root project ttl now cw = resolve_root repr control_root project [] ttl now cw"

definition project_gold_root ::
  "(json \<Rightarrow> string) \<Rightarrow> string \<Rightarrow> string \<Rightarrow> int \<Rightarrow> int \<Rightarrow> ttl_cache \<times> dict world
    \<Rightarrow> string option result \<times> ttl_cache \<times> dict world" where
  "project_gold_root repr control_root project ttl now cw = resolve_root repr control_root project ''gold'' ttl now cw"

section \<open>Routing never depends on the listing's order\<close>

lemma single_nth: "length xs = 1 \<Longrightarrow> mset xs = mset ys \<Longrightarrow> xs ! 0 = ys ! 0"
  by (auto simp: length_Suc_conv)

lemma sole_root_mset:
  assumes "mset ms = mset ms'"
  shows "sole_root ms = sole_root ms'"
proof -
  have len: "length ms = length ms'" using assms by (rule mset_eq_length)
  have prim: "mset (filter (\<lambda>m. snd (snd m)) ms) = mset (filter (\<lambda>m. snd (snd m)) ms')"
    using assms by (metis mset_filter)
  then have plen: "length (filter (\<lambda>m. snd (snd m)) ms) = length (filter (\<lambda>m. snd (snd m)) ms')"
    by (rule mset_eq_length)
  show ?thesis
    using single_nth [OF _ assms] single_nth [OF _ prim] len plen
    by (simp add: sole_root_def Let_def)
qed

lemma mset_map_filter: "mset xs = mset ys \<Longrightarrow> mset (List.map_filter f xs) = mset (List.map_filter f ys)"
  unfolding List.map_filter_def by (metis mset_filter mset_map)

text \<open>
  A tenant is never routed by accident of the listing. For one project and serving class the
  answer is the same in whatever order the registry lists its records, and a root is answered only
  if it belongs to the one active record of that class, or to the one among several that is marked
  primary; with several and no single primary the resolver refuses.
\<close>

theorem routing_is_decided_not_accidental:
  assumes "mset records = mset records'"
  shows "route repr project serving records = route repr project serving records' \<and>
    (\<forall>root. route repr project serving records = Inr (Some root) \<longrightarrow>
       (\<exists>i p. List.map_filter (warehouse_match repr project serving) records = [(i, root, p)] \<or>
          filter (\<lambda>m. snd (snd m)) (List.map_filter (warehouse_match repr project serving) records) = [(i, root, p)])) \<and>
    (route repr project serving records = Inr None \<longleftrightarrow>
       List.map_filter (warehouse_match repr project serving) records = [])"
proof (intro conjI allI impI)
  let ?ms = "List.map_filter (warehouse_match repr project serving)"
  show "route repr project serving records = route repr project serving records'"
    using mset_map_filter [OF assms, of "warehouse_match repr project serving"]
      sole_root_mset [of "?ms records" "?ms records'"]
    by (auto simp: route_def Let_def)
  fix root
  assume "route repr project serving records = Inr (Some root)"
  then show "\<exists>i p. ?ms records = [(i, root, p)] \<or> filter (\<lambda>m. snd (snd m)) (?ms records) = [(i, root, p)]"
    by (auto simp: route_def sole_root_def Let_def length_Suc_conv split: if_splits sum.splits)
next
  show "route repr project serving records = Inr None \<longleftrightarrow>
      List.map_filter (warehouse_match repr project serving) records = []"
    by (auto simp: route_def sole_root_def Let_def)
qed

theorem routing_is_decided_not_accidental_witness:
  "let rec = (\<lambda>i. [(''project'', JStr ''acme''), (''id'', JStr i), (''root_uri'', JStr (''s3://'' @ i))]) in
   route (\<lambda>_. []) ''acme'' [] [rec ''aaa'', rec ''bbb''] = Inl AmbiguousProjectWarehouseError \<and>
   route (\<lambda>_. []) ''acme'' [] [rec ''bbb'', rec ''aaa''] = Inl AmbiguousProjectWarehouseError"
proof -
  let ?rec = "\<lambda>i. [(''project'', JStr ''acme''), (''id'', JStr i), (''root_uri'', JStr (''s3://'' @ i))]"
  have "route (\<lambda>_. []) ''acme'' [] [?rec ''aaa'', ?rec ''bbb''] = Inl AmbiguousProjectWarehouseError"
    by code_simp
  moreover have "mset [?rec ''aaa'', ?rec ''bbb''] = mset [?rec ''bbb'', ?rec ''aaa'']" by simp
  from routing_is_decided_not_accidental [OF this, of "\<lambda>_. []" "''acme''" "[]"]
  have "route (\<lambda>_. []) ''acme'' [] [?rec ''aaa'', ?rec ''bbb''] = route (\<lambda>_. []) ''acme'' [] [?rec ''bbb'', ?rec ''aaa'']"
    by (rule conjunct1)
  ultimately show ?thesis by (simp add: Let_def)
qed

section \<open>The cache is bounded and serves nothing stale\<close>

datatype cache_event = Got cache_key int | Stored cache_key string int int | Cleared

fun cache_apply :: "ttl_cache \<Rightarrow> cache_event \<Rightarrow> ttl_cache" where
  "cache_apply c (Got key now) = snd (ttl_get key now c)"
| "cache_apply c (Stored key value now ttl) = ttl_set key value now ttl c"
| "cache_apply c Cleared = ttl_clear c"

lemma evict_subset: "set (evict n es) \<subseteq> set es"
proof (induction n es rule: evict.induct)
  case (1 n es)
  have "set (AList.delete (soonest es) es) \<subseteq> set es" by (auto simp: AList.delete_eq)
  with 1 show ?case by (subst evict.simps) auto
qed

lemma evict_length: "length (evict n es) \<le> n"
proof (induction n es rule: evict.induct)
  case (1 n es)
  then show ?case by (subst evict.simps) auto
qed

lemma cache_apply_max [simp]: "tc_max (cache_apply c e) = tc_max c"
  by (cases e) (auto simp: ttl_get_def ttl_set_def ttl_clear_def split: option.splits)

lemma cache_apply_bound:
  "length (tc_entries c) \<le> tc_max c \<Longrightarrow> length (tc_entries (cache_apply c e)) \<le> tc_max c"
  by (cases e)
    (auto simp: ttl_get_def ttl_set_def ttl_clear_def evict_length
      intro: order_trans [OF AList.length_delete_le] split: option.splits)

text \<open>Every resident entry was stored, and expires its time to live after that.\<close>

definition cache_from :: "cache_event list \<Rightarrow> cache_entries \<Rightarrow> bool" where
  "cache_from evs es = (\<forall>(key, expires, value)\<in>set es. \<exists>t ttl. Stored key value t ttl \<in> set evs \<and> expires = t + ttl \<and> 0 < ttl)"

lemma cache_from_subset: "cache_from evs es \<Longrightarrow> set es' \<subseteq> set es \<Longrightarrow> cache_from (evs @ evs') es'"
  unfolding cache_from_def by fastforce

lemma cache_apply_from:
  assumes "cache_from evs (tc_entries c)"
  shows "cache_from (evs @ [e]) (tc_entries (cache_apply c e))"
proof (cases "\<exists>key value now ttl. e = Stored key value now ttl \<and> 0 < ttl")
  case True
  then obtain key "value" now ttl where e: "e = Stored key value now ttl" "0 < ttl" by blast
  let ?live = "filter (\<lambda>e. fst (snd e) > now) (tc_entries c)"
  have "cache_from (evs @ [e]) ((key, now + ttl, value) # ?live)"
    using cache_from_subset [OF assms, of ?live "[e]"] e by (auto simp: cache_from_def)
  moreover have "set (tc_entries (cache_apply c e)) \<subseteq> set ((key, now + ttl, value) # ?live)"
    using evict_subset [of "tc_max c"] set_update_subset [of key "(now + ttl, value)" ?live] e
    by (fastforce simp: ttl_set_def)
  ultimately show ?thesis
    unfolding cache_from_def by blast
next
  case False
  have "set (tc_entries (cache_apply c e)) \<subseteq> set (tc_entries c)"
    using False by (cases e) (auto simp: ttl_get_def ttl_set_def ttl_clear_def AList.delete_eq split: option.splits if_splits)
  with assms show ?thesis by (rule cache_from_subset)
qed

lemma cache_run_inv:
  "tc_max (foldl cache_apply \<lparr>tc_max = n, tc_entries = []\<rparr> evs) = n \<and>
   length (tc_entries (foldl cache_apply \<lparr>tc_max = n, tc_entries = []\<rparr> evs)) \<le> n \<and>
   cache_from evs (tc_entries (foldl cache_apply \<lparr>tc_max = n, tc_entries = []\<rparr> evs))"
proof (induction evs rule: rev_induct)
  case (snoc e evs)
  then show ?case
    using cache_apply_bound [of "foldl cache_apply \<lparr>tc_max = n, tc_entries = []\<rparr> evs" e] cache_apply_from
    by auto
qed (simp add: cache_from_def)

text \<open>
  The resolver's cache stays within its ceiling and never answers past its time to live.
  After any sequence of lookups, stores and clears, in any order of times, it holds at most its
  maximum of entries, and a value it answers at some instant was stored for that very key with a
  positive time to live that has not run out.
\<close>

theorem cache_is_bounded_and_fresh:
  assumes "c = foldl cache_apply \<lparr>tc_max = n, tc_entries = []\<rparr> evs"
  shows "length (tc_entries c) \<le> n \<and>
    (\<forall>key now value. fst (ttl_get key now c) = Some value \<longrightarrow>
       (\<exists>t ttl. Stored key value t ttl \<in> set evs \<and> 0 < ttl \<and> now < t + ttl))"
proof (intro conjI allI impI)
  show "length (tc_entries c) \<le> n"
    using cache_run_inv assms by blast
  fix key now "value"
  assume "fst (ttl_get key now c) = Some value"
  then obtain expires where "map_of (tc_entries c) key = Some (expires, value)" "now < expires"
    by (auto simp: ttl_get_def split: option.splits if_splits)
  moreover from this(1) have "(key, expires, value) \<in> set (tc_entries c)" by (rule map_of_SomeD)
  ultimately show "\<exists>t ttl. Stored key value t ttl \<in> set evs \<and> 0 < ttl \<and> now < t + ttl"
    using cache_run_inv [of n evs] assms unfolding cache_from_def by fastforce
qed

theorem cache_is_bounded_and_fresh_witness:
  "let c = foldl cache_apply \<lparr>tc_max = 1, tc_entries = []\<rparr>
       [Stored ([], ''p'', []) ''s3://a'' 0 5, Stored ([], ''q'', []) ''s3://b'' 1 9] in
   length (tc_entries c) \<le> 1 \<and> fst (ttl_get ([], ''q'', []) 2 c) = Some ''s3://b''"
proof -
  let ?evs = "[Stored ([], ''p'', []) ''s3://a'' 0 5, Stored ([], ''q'', []) ''s3://b'' 1 9]"
  let ?c = "foldl cache_apply \<lparr>tc_max = 1, tc_entries = []\<rparr> ?evs"
  have "fst (ttl_get ([], ''q'', []) 2 ?c) = Some ''s3://b''" by code_simp
  then show ?thesis
    using cache_is_bounded_and_fresh [OF refl, of 1 ?evs] by (simp only: Let_def)
qed

end
