(* ===== verification/Idempotency.thy ===== *)
theory Idempotency
  imports Commit_Records
begin

text \<open>
  \<^verbatim>\<open>lakehouse_kit/idempotency.py\<close>: a caller's idempotency key, claimed by the first attempt of a
  write and answered with that attempt's outcome ever after. The claim is one conditional create;
  an attempt that was refused before it wrote gives its claim back, and one whose lease ran out is
  taken over.

  Times are whole units of the caller's clock. \<open>fl\<close> is \<^verbatim>\<open>float()\<close> and \<open>it\<close> is \<^verbatim>\<open>int()\<close> of a stored
  string, which raise on a string that is no number.
\<close>

section \<open>Keys\<close>

definition idempotency_prefix :: string where
  "idempotency_prefix = ''_idempotency''"

text \<open>A Python pattern that ends in \<^verbatim>\<open>$\<close> also matches in front of one final newline.\<close>

definition matches_to_line_end :: "(string \<Rightarrow> bool) \<Rightarrow> string \<Rightarrow> bool" where
  "matches_to_line_end p s = (p s \<or> s \<noteq> [] \<and> last s = CHR 0x0A \<and> p (butlast s))"

definition key_re :: "string \<Rightarrow> bool" where
  "key_re = matches_to_line_end is_canonical_uuid"

definition is_scope_char :: "char \<Rightarrow> bool" where
  "is_scope_char c = (CHR ''a'' \<le> c \<and> c \<le> CHR ''z'' \<or> is_digit c)"

definition scope_re :: "string \<Rightarrow> bool" where
  "scope_re = matches_to_line_end (\<lambda>s. 1 \<le> length s \<and> length s \<le> 64 \<and> list_all is_scope_char s)"

definition idempotency_record_key :: "string \<Rightarrow> string \<Rightarrow> string result" where
  "idempotency_record_key scope key =
     (if \<not> key_re key then Inl ValueError
      else if \<not> scope_re scope then Inl ValueError
      else Inr (idempotency_prefix @ ''/'' @ scope @ ''/'' @ key @ ''.json''))"

section \<open>Claiming a key\<close>

definition default_lease_seconds :: int where
  "default_lease_seconds = 300"

definition released_state :: string where
  "released_state = ''released''"

record replay =
  rp_status :: int
  rp_body :: json

text \<open>\<^verbatim>\<open>float(v or 0)\<close>, \<^verbatim>\<open>int(record[k])\<close> and \<^verbatim>\<open>v == number\<close> on stored values.\<close>

definition float_or_zero :: "(string \<Rightarrow> int option) \<Rightarrow> json option \<Rightarrow> int result" where
  "float_or_zero fl v =
     (if \<not> truthy v then Inr 0
      else case v of
          Some (JInt i) \<Rightarrow> Inr i
        | Some (JBool b) \<Rightarrow> Inr 1
        | Some (JStr s) \<Rightarrow> (case fl s of None \<Rightarrow> Inl ValueError | Some i \<Rightarrow> Inr i)
        | _ \<Rightarrow> Inl TypeError)"

definition int_at :: "(string \<Rightarrow> int option) \<Rightarrow> dict \<Rightarrow> string \<Rightarrow> int result" where
  "int_at it record k = (case dict_get record k of
       None \<Rightarrow> Inl KeyError
     | Some (JInt i) \<Rightarrow> Inr i
     | Some (JBool b) \<Rightarrow> Inr (if b then 1 else 0)
     | Some (JStr s) \<Rightarrow> (case it s of None \<Rightarrow> Inl ValueError | Some i \<Rightarrow> Inr i)
     | Some _ \<Rightarrow> Inl TypeError)"

definition equals_number :: "json option \<Rightarrow> int \<Rightarrow> bool" where
  "equals_number v n = (case v of
       Some (JInt i) \<Rightarrow> i = n
     | Some (JBool b) \<Rightarrow> (if b then 1 else 0) = n
     | _ \<Rightarrow> False)"

definition claimed :: "string \<Rightarrow> int \<Rightarrow> dict" where
  "claimed endpoint now =
     [(''endpoint'', JStr endpoint), (''state'', JStr ''in_flight''), (''claimed_at'', JInt now)]"

text \<open>What a claim makes of the record it found: a raise, a replay, or a claim to take over.\<close>

definition judge_existing ::
  "(string \<Rightarrow> int option) \<Rightarrow> (string \<Rightarrow> int option) \<Rightarrow> string \<Rightarrow> int \<Rightarrow> int \<Rightarrow> dict \<Rightarrow> replay option result" where
  "judge_existing fl it endpoint now lease record =
     (if dict_get record ''endpoint'' \<noteq> Some (JStr endpoint) then Inl KeyReusedError
      else if dict_get record ''state'' = Some (JStr ''done'') then
        (case int_at it record ''status'' of
           Inl e \<Rightarrow> Inl e
         | Inr s \<Rightarrow> Inr (Some \<lparr>rp_status = s,
             rp_body = (case dict_get record ''body'' of None \<Rightarrow> JNull | Some b \<Rightarrow> b)\<rparr>))
      else if dict_get record ''state'' = Some (JStr released_state) then Inr None
      else (case float_or_zero fl (dict_get record ''claimed_at'') of
          Inl e \<Rightarrow> Inl e
        | Inr t \<Rightarrow> if now - t < lease then Inl InFlightError else Inr None))"

definition take_over :: "int \<Rightarrow> dict \<Rightarrow> dict result" where
  "take_over now record = Inr (dict_set ''claimed_at'' (JInt now) (dict_set ''state'' (JStr ''in_flight'') record))"

text \<open>\<^verbatim>\<open>claim\<close>: \<open>Inr None\<close> is "proceed".\<close>

definition idem_claim ::
  "root \<Rightarrow> (dict content \<Rightarrow> 'e) \<Rightarrow> (string \<Rightarrow> int option) \<Rightarrow> (string \<Rightarrow> int option) \<Rightarrow> string \<Rightarrow> string
    \<Rightarrow> string \<Rightarrow> int \<Rightarrow> int \<Rightarrow> dict world \<Rightarrow> replay option result \<times> dict world" where
  "idem_claim rt dg fl it scope key endpoint now lease w = (case idempotency_record_key scope key of
       Inl e \<Rightarrow> (Inl e, w)
     | Inr k \<Rightarrow>
         (case create_json k (claimed endpoint now) w of
            (Inr _, w1) \<Rightarrow> (Inr None, w1)
          | (Inl e, w1) \<Rightarrow>
              if e \<noteq> RecordExistsError then (Inl e, w1)
              else (case read_json dg k w1 of
                  (Inl e, w2) \<Rightarrow> (Inl e, w2)
                | (Inr None, w2) \<Rightarrow> (Inr None, w2)
                | (Inr (Some (record, _)), w2) \<Rightarrow>
                    (case judge_existing fl it endpoint now lease record of
                       Inl e \<Rightarrow> (Inl e, w2)
                     | Inr (Some replay) \<Rightarrow> (Inr (Some replay), w2)
                     | Inr None \<Rightarrow>
                         (case mutate_json rt dg k (take_over now) w2 of
                            (Inl e, w3) \<Rightarrow> (Inl e, w3)
                          | (Inr _, w3) \<Rightarrow> (Inr None, w3))))))"

definition idem_release ::
  "root \<Rightarrow> (dict content \<Rightarrow> 'e) \<Rightarrow> string \<Rightarrow> string \<Rightarrow> int \<Rightarrow> dict world \<Rightarrow> unit result \<times> dict world" where
  "idem_release rt dg scope key claimed_at w = (case idempotency_record_key scope key of
       Inl e \<Rightarrow> (Inl e, w)
     | Inr k \<Rightarrow>
         (case read_json dg k w of
            (Inl e, w1) \<Rightarrow> (Inl e, w1)
          | (Inr None, w1) \<Rightarrow> (Inr (), w1)
          | (Inr (Some (record, tag)), w1) \<Rightarrow>
              if dict_get record ''state'' \<noteq> Some (JStr ''in_flight'') \<or>
                 \<not> equals_number (dict_get record ''claimed_at'') claimed_at then (Inr (), w1)
              else (case replace_json rt dg k (dict_set ''state'' (JStr released_state) record) tag w1 of
                  (Inl RecordChangedError, w2) \<Rightarrow> (Inr (), w2)
                | (x, w2) \<Rightarrow> (x, w2))))"

definition done_with :: "int \<Rightarrow> json \<Rightarrow> dict \<Rightarrow> dict result" where
  "done_with status answer record =
     Inr (dict_set ''body'' answer (dict_set ''status'' (JInt status) (dict_set ''state'' (JStr ''done'') record)))"

definition record_outcome ::
  "root \<Rightarrow> (dict content \<Rightarrow> 'e) \<Rightarrow> string \<Rightarrow> string \<Rightarrow> int \<Rightarrow> json \<Rightarrow> dict world \<Rightarrow> unit result \<times> dict world" where
  "record_outcome rt dg scope key status answer w = (case idempotency_record_key scope key of
       Inl e \<Rightarrow> (Inl e, w)
     | Inr k \<Rightarrow>
         (case mutate_json rt dg k (done_with status answer) w of
            (Inl e, w1) \<Rightarrow> (Inl e, w1)
          | (Inr _, w1) \<Rightarrow> (Inr (), w1)))"

text \<open>The attempts that come one after another under one key: the endpoint each is for, and when.\<close>

fun claims_in_turn ::
  "root \<Rightarrow> (dict content \<Rightarrow> 'e) \<Rightarrow> (string \<Rightarrow> int option) \<Rightarrow> (string \<Rightarrow> int option) \<Rightarrow> string \<Rightarrow> string
    \<Rightarrow> int \<Rightarrow> (string \<times> int) list \<Rightarrow> dict world \<Rightarrow> replay option result list \<times> dict world" where
  "claims_in_turn rt dg fl it scope key lease [] w = ([], w)"
| "claims_in_turn rt dg fl it scope key lease ((endpoint, now) # ats) w =
     (let (x, w1) = idem_claim rt dg fl it scope key endpoint now lease w;
          (xs, w2) = claims_in_turn rt dg fl it scope key lease ats w1 in (x # xs, w2))"

section \<open>Callers are kept apart\<close>

lemma line_end_cases:
  "matches_to_line_end p s \<Longrightarrow> (\<And>t. p t \<Longrightarrow> set s \<subseteq> insert (CHR 0x0A) (set t) \<Longrightarrow> Q) \<Longrightarrow> Q"
  unfolding matches_to_line_end_def
  by (metis append_butlast_last_id insert_is_Un list.set(1,2) order_refl set_append subset_insertI sup_commute)

lemma scope_no_slash:
  assumes "scope_re s" shows "CHR ''/'' \<notin> set s"
proof -
  obtain t where t: "list_all is_scope_char t" "set s \<subseteq> insert (CHR 0x0A) (set t)"
    using assms unfolding scope_re_def by (elim line_end_cases) blast
  have "\<not> is_scope_char (CHR ''/'')" by code_simp
  with t show ?thesis by (auto simp: list_all_iff)
qed

text \<open>
  A key is its caller's own. Two claims share a record only when they come from the same scope
  with the same key; the record of any accepted scope and key lies two levels under the module's
  prefix, whatever the caller sent.
\<close>

theorem idempotency_keys_are_per_caller:
  assumes "idempotency_record_key s1 k1 = Inr x" "idempotency_record_key s2 k2 = Inr x"
  shows "s1 = s2 \<and> k1 = k2 \<and> prefix (idempotency_prefix @ ''/'' @ s1 @ ''/'') x"
proof -
  have x: "x = idempotency_prefix @ ''/'' @ s1 @ ''/'' @ k1 @ ''.json''"
    "x = idempotency_prefix @ ''/'' @ s2 @ ''/'' @ k2 @ ''.json''" and s: "scope_re s1" "scope_re s2"
    using assms by (auto simp: idempotency_record_key_def split: if_splits)
  from x have "s1 @ CHR ''/'' # (k1 @ ''.json'') = s2 @ CHR ''/'' # (k2 @ ''.json'')" by simp
  from first_sep_unique [OF this scope_no_slash scope_no_slash] s x show ?thesis by simp
qed

theorem idempotency_keys_are_per_caller_witness:
  "let k = ''01234567-89ab-cdef-0123-456789abcdef'' in
   idempotency_record_key ''alice'' k \<noteq> idempotency_record_key ''bob'' k"
proof -
  let ?k = "''01234567-89ab-cdef-0123-456789abcdef''"
  have "idempotency_record_key ''alice'' ?k = Inr (''_idempotency/alice/'' @ ?k @ ''.json'')" by code_simp
  then show ?thesis
    using idempotency_keys_are_per_caller [of "''alice''" ?k _ "''bob''" ?k] by (auto simp: Let_def)
qed

section \<open>One attempt runs\<close>

text \<open>On an undisturbed store a claim of a held key is exactly its judgement of the record.\<close>

lemma idem_claim_absent:
  assumes "pending w = []" "idempotency_record_key scope key = Inr k" "lookup w k = None"
  shows "idem_claim rt dg fl it scope key endpoint now lease w = (Inr None, store_put k (Json (claimed endpoint now)) w)"
  using assms by (simp add: idem_claim_def create_json_def)

lemma idem_claim_held:
  assumes "pending w = []" "idempotency_record_key scope key = Inr k" "lookup w k = Some (Json r)"
  shows "idem_claim rt dg fl it scope key endpoint now lease w =
    (case judge_existing fl it endpoint now lease r of
       Inl e \<Rightarrow> (Inl e, w)
     | Inr (Some rp) \<Rightarrow> (Inr (Some rp), w)
     | Inr None \<Rightarrow> (Inr None, store_put k
         (Json (dict_set ''claimed_at'' (JInt now) (dict_set ''state'' (JStr ''in_flight'') r))) w))"
  using assms
  by (auto simp: idem_claim_def create_json_def read_json_def read_json_at_def take_over_def mutate_json_quiet
      split: sum.splits option.splits)

text \<open>A claim that proceeded left the record of a held key: bound to its endpoint and stamped now.\<close>

definition held_at :: "string \<Rightarrow> int \<Rightarrow> dict \<Rightarrow> bool" where
  "held_at endpoint now r \<longleftrightarrow> dict_get r ''endpoint'' = Some (JStr endpoint) \<and>
     dict_get r ''state'' = Some (JStr ''in_flight'') \<and> dict_get r ''claimed_at'' = Some (JInt now)"

lemma proceeding_holds_the_key:
  assumes "pending w = []" "idempotency_record_key scope key = Inr k" "\<forall>c. lookup w k = Some c \<longrightarrow> (\<exists>r. c = Json r)"
    and "idem_claim rt dg fl it scope key endpoint now lease w = (Inr None, w1)"
  shows "\<exists>r. lookup w1 k = Some (Json r) \<and> held_at endpoint now r \<and> pending w1 = []"
proof (cases "lookup w k")
  case None
  from idem_claim_absent [OF assms(1,2) None, of rt dg fl it endpoint now lease] assms(1,4) show ?thesis by (auto simp: held_at_def claimed_def)
next
  case (Some c)
  then obtain r where r: "lookup w k = Some (Json r)" using assms(3) by blast
  with assms(4) idem_claim_held [OF assms(1,2) r, of rt dg fl it endpoint now lease]
  have j: "judge_existing fl it endpoint now lease r = Inr None"
    and w1: "w1 = store_put k (Json (dict_set ''claimed_at'' (JInt now) (dict_set ''state'' (JStr ''in_flight'') r))) w"
    by (auto split: sum.splits option.splits)
  from j have "dict_get r ''endpoint'' = Some (JStr endpoint)"
    by (auto simp: judge_existing_def split: if_splits)
  with w1 assms(1) show ?thesis by (simp add: held_at_def)
qed

lemma float_or_zero_int [simp]: "float_or_zero fl (Some (JInt i)) = Inr i"
  by (simp add: float_or_zero_def)

lemma judge_held:
  "held_at endpoint t r \<Longrightarrow> now - t < lease \<Longrightarrow>
    judge_existing fl it e now lease r = Inl (if e = endpoint then InFlightError else KeyReusedError)"
  by (simp add: judge_existing_def held_at_def released_state_def)

lemma claims_answered_alike:
  assumes "pending w = []" "idempotency_record_key scope key = Inr k" "lookup w k = Some (Json r)"
    and "\<And>e t. (e, t) \<in> set ats \<Longrightarrow> judge_existing fl it e t lease r = f e" "\<And>e. f e \<noteq> Inr None"
  shows "claims_in_turn rt dg fl it scope key lease ats w = (map (f \<circ> fst) ats, w)"
  using assms(4)
proof (induction ats)
  case (Cons a ats)
  obtain e t where a: "a = (e, t)" by force
  have "judge_existing fl it e t lease r = f e" using Cons.prems a by simp
  then have "idem_claim rt dg fl it scope key e t lease w = (f e, w)"
    using idem_claim_held [OF assms(1-3), of rt dg fl it e t lease] assms(5) [of e]
    by (cases "f e") (auto split: option.splits)
  with Cons a show ?case by simp
qed simp



text \<open>
  A replayed write answers what the first attempt answered and never runs again. Once
  \<^verbatim>\<open>record_outcome\<close> has stored an attempt's status and body on the claimed record, every later
  claim for that endpoint, at any time, returns exactly that status and body, every claim for
  another endpoint is refused, and none of them changes the store.
\<close>

theorem recorded_outcome_is_replayed:
  assumes "pending w = []" "idempotency_record_key scope key = Inr k" "lookup w k = Some (Json r)"
    and "dict_get r ''endpoint'' = Some (JStr endpoint)"
    and "record_outcome rt dg scope key status answer w = (x, w1)"
  shows "x = Inr () \<and> claims_in_turn rt dg fl it scope key lease ats w1 =
    (map (\<lambda>(e, t). if e = endpoint then Inr (Some \<lparr>rp_status = status, rp_body = answer\<rparr>)
                    else Inl KeyReusedError) ats, w1)"
proof -
  let ?r = "dict_set ''body'' answer (dict_set ''status'' (JInt status) (dict_set ''state'' (JStr ''done'') r))"
  have x: "x = Inr ()" "w1 = store_put k (Json ?r) w"
    using assms(2,5) mutate_json_quiet [of w k r "done_with status answer" ?r rt dg, OF assms(1,3)]
    by (simp_all add: record_outcome_def done_with_def)
  let ?f = "\<lambda>e. if e = endpoint then Inr (Some \<lparr>rp_status = status, rp_body = answer\<rparr>) else Inl KeyReusedError"
  have "claims_in_turn rt dg fl it scope key lease ats w1 = (map (?f \<circ> fst) ats, w1)"
  proof (rule claims_answered_alike [OF _ assms(2)])
    show "lookup w1 k = Some (Json ?r)" "pending w1 = []" using x assms(1) by simp_all
    show "judge_existing fl it e t lease ?r = ?f e" for e t
      using assms(4) by (simp add: judge_existing_def int_at_def)
  qed simp
  with x show ?thesis by (simp add: comp_def split_def)
qed

theorem recorded_outcome_is_replayed_witness:
  "let k = ''01234567-89ab-cdef-0123-456789abcdef''; fl = (\<lambda>_. None);
       w = store_put (''_idempotency/alice/'' @ k @ ''.json'') (Json (claimed ''insert'' 5)) \<lparr>objects = [], clock = 0, pending = []\<rparr> in
   fst (claims_in_turn S3 id fl fl ''alice'' k 300 [(''insert'', 9000)]
     (snd (record_outcome S3 id ''alice'' k 200 (JStr ''ok'') w)))
   = [Inr (Some \<lparr>rp_status = 200, rp_body = JStr ''ok''\<rparr>)]"
proof -
  let ?k = "''01234567-89ab-cdef-0123-456789abcdef''" and ?fl = "\<lambda>_. None"
  let ?w = "store_put (''_idempotency/alice/'' @ ?k @ ''.json'') (Json (claimed ''insert'' 5))
    \<lparr>objects = [], clock = 0, pending = []\<rparr> :: dict world"
  have key: "idempotency_record_key ''alice'' ?k = Inr (''_idempotency/alice/'' @ ?k @ ''.json'')" by code_simp
  show ?thesis
    using recorded_outcome_is_replayed [OF _ key _ _ surjective_pairing, of ?w "claimed ''insert'' 5" "''insert''"
        S3 id 200 "JStr ''ok''" ?fl ?fl 300 "[(''insert'', 9000)]"]
    by (simp add: Let_def claimed_def)
qed

section \<open>Giving a claim back\<close>

text \<open>
  A release frees only the claim its own attempt made. On S3, however others' writes interleave,
  it either writes nothing, or at the instant of its write the record was still in flight under the
  very claim it names, and only the record's state becomes released.
\<close>

theorem release_gives_back_only_its_claim:
  assumes "inj dg" "idempotency_record_key scope key = Inr k"
    and "idem_release S3 dg scope key c w = (x, w')"
  shows "\<exists>m. w' = drift m w \<or>
    (\<exists>r. lookup (drift m w) k = Some (Json r) \<and> dict_get r ''state'' = Some (JStr ''in_flight'') \<and>
       equals_number (dict_get r ''claimed_at'') c \<and>
       w' = store_put k (Json (dict_set ''state'' (JStr released_state) r)) (drift m w))"
proof -
  obtain y w1 where rd: "read_json dg k w = (y, w1)" by force
  have w1: "w1 = drift 1 w" using read_json_answer [OF rd] by (simp add: drift_def)
  show ?thesis
  proof (cases "\<exists>r e. y = Inr (Some (r, e)) \<and> dict_get r ''state'' = Some (JStr ''in_flight'') \<and>
      equals_number (dict_get r ''claimed_at'') c")
    case False
    with assms(2,3) rd w1 have "w' = drift 1 w"
      by (auto simp: idem_release_def split: sum.splits option.splits if_splits)
    then show ?thesis by blast
  next
    case True
    then obtain r e where y: "y = Inr (Some (r, e))" "dict_get r ''state'' = Some (JStr ''in_flight'')"
      "equals_number (dict_get r ''claimed_at'') c" by blast
    let ?u = "dict_set ''state'' (JStr released_state) r"
    obtain z w2 where rep: "replace_json S3 dg k ?u e w1 = (z, w2)" by force
    have w': "w' = w2"
      using assms(2,3) rd y rep by (auto simp: idem_release_def split: sum.splits error.splits)
    have e: "e = dg (Json r)" using read_json_answer [OF rd] y(1) by blast
    have two: "snd (access w1) = drift 2 w" by (simp add: w1 drift_after numeral_2_eq_2)
    show ?thesis
      using replace_json_s3 [OF rep, unfolded two] e assms(1) y w' by (auto simp: inj_eq split: sum.splits)
  qed
qed

theorem release_gives_back_only_its_claim_witness:
  "let k = ''01234567-89ab-cdef-0123-456789abcdef''; path = ''_idempotency/alice/'' @ k @ ''.json'';
       w = store_put path (Json (claimed ''insert'' 7)) \<lparr>objects = [], clock = 0, pending = []\<rparr> in
   lookup (snd (idem_release S3 id ''alice'' k 5 w)) path = Some (Json (claimed ''insert'' 7))"
proof -
  let ?k = "''01234567-89ab-cdef-0123-456789abcdef''"
  let ?path = "''_idempotency/alice/'' @ ?k @ ''.json''"
  let ?w = "store_put ?path (Json (claimed ''insert'' 7)) \<lparr>objects = [], clock = 0, pending = []\<rparr> :: dict world"
  have key: "idempotency_record_key ''alice'' ?k = Inr ?path" by code_simp
  have still: "drift m ?w = ?w" for m by (induction m) (simp_all add: drift_def)
  show ?thesis
    using release_gives_back_only_its_claim [OF inj_on_id key surjective_pairing, of 5 ?w]
    unfolding still by (auto simp: Let_def claimed_def equals_number_def)
qed

text \<open>
  A takeover can undo an outcome recorded between its read and its write. A claim finds the lease
  of a slow attempt over; before it re-stamps the record, that attempt finishes and its outcome is
  stored; the takeover sets the state back to in flight and the claim proceeds, so the write runs a
  second time although its outcome was on record, and the outcome is no longer replayed.
\<close>

theorem takeover_discards_a_recorded_outcome:
  "\<exists>w w' k r. lookup (drift 3 w) k = Some (Json r) \<and>
     judge_existing (\<lambda>_. None) (\<lambda>_. None) ''insert'' 1000 300 r = Inr (Some \<lparr>rp_status = 200, rp_body = JStr ''ok''\<rparr>) \<and>
     idempotency_record_key ''alice'' ''01234567-89ab-cdef-0123-456789abcdef'' = Inr k \<and>
     idem_claim S3 id (\<lambda>_. None) (\<lambda>_. None) ''alice'' ''01234567-89ab-cdef-0123-456789abcdef'' ''insert'' 1000 300 w
       = (Inr None, w') \<and>
     fst (idem_claim S3 id (\<lambda>_. None) (\<lambda>_. None) ''alice'' ''01234567-89ab-cdef-0123-456789abcdef'' ''insert'' 1001 300 w')
       = Inl InFlightError"
proof -
  let ?k = "''01234567-89ab-cdef-0123-456789abcdef''"
  let ?path = "''_idempotency/alice/'' @ ?k @ ''.json''"
  let ?idle = "\<lparr>others = id, elapsed = 0, answers = True\<rparr>"
  let ?r = "dict_set ''body'' (JStr ''ok'') (dict_set ''status'' (JInt 200) (dict_set ''state'' (JStr ''done'') (claimed ''insert'' 5)))"
  let ?w = "\<lparr>objects = [(?path, Json (claimed ''insert'' 5))], clock = 0,
    pending = [?idle, ?idle, \<lparr>others = AList.update ?path (Json ?r), elapsed = 0, answers = True\<rparr>]\<rparr> :: dict world"
  let ?claim = "idem_claim S3 id (\<lambda>_. None) (\<lambda>_. None) ''alice'' ?k ''insert''"
  have key: "idempotency_record_key ''alice'' ?k = Inr ?path" by code_simp
  have "lookup (drift 3 ?w) ?path = Some (Json ?r)" by code_simp
  moreover have "judge_existing (\<lambda>_. None) (\<lambda>_. None) ''insert'' 1000 300 ?r
      = Inr (Some \<lparr>rp_status = 200, rp_body = JStr ''ok''\<rparr>)" by code_simp
  moreover have "fst (?claim 1000 300 ?w) = Inr None" by code_simp
  moreover have "fst (?claim 1001 300 (snd (?claim 1000 300 ?w))) = Inl InFlightError" by code_simp
  ultimately show ?thesis
    using key by (metis prod.collapse)
qed

end
