(* ===== verification/Publication.thy ===== *)
theory Publication
  imports Complex_Main Branch_Layout Version_Retention Records
begin

text \<open>
  The publish gate: \<^verbatim>\<open>lakehouse_kit/quality.py\<close> (the assertions on a version),
  \<^verbatim>\<open>lakehouse_kit/gate_specs.py\<close> (a project's declared gate), the tag operations of
  \<^verbatim>\<open>catalog/services/dataplane.py\<close> on main, and \<^verbatim>\<open>catalog/services/publication.py\<close>, which moves the
  tag \<^verbatim>\<open>published\<close> to a version once the gate passes it.

  A table's tags are a \<open>world\<close> of tag files by name, so every tag operation is one access with other
  clients' moves in between; an access that does not answer is any failure of pylance, the store or
  the history fence. What a version holds is pylance's answer and never changes once committed:
  \<open>facts v\<close> are its columns, row count, null counts and blob probes, or the error of opening it.
  A band is a rational; the rounding of the source's float product is not modelled.
\<close>

section \<open>Quality assertions (\<^verbatim>\<open>quality.py\<close>)\<close>

definition ROW_COUNT_POSITIVE :: string where "ROW_COUNT_POSITIVE = ''row_count_positive''"
definition NOT_NULL :: string where "NOT_NULL = ''not_null''"
definition BLOB_RESOLVES :: string where "BLOB_RESOLVES = ''blob_resolves''"
definition COLUMN_DECLARED :: string where "COLUMN_DECLARED = ''column_declared''"

definition STRUCTURAL_ASSERTIONS :: "string list" where
  "STRUCTURAL_ASSERTIONS = [NOT_NULL, BLOB_RESOLVES]"

definition SOURCE_ROWID_COLUMN :: string where "SOURCE_ROWID_COLUMN = ''source_rowid''"

record assertion =
  as_assertion :: string
  as_success :: bool
  as_column :: "string option"
  as_severity :: "string option"

text \<open>\<^verbatim>\<open>Assertion._derive_severity\<close>, run on every assertion made.\<close>

definition derive_severity :: "assertion \<Rightarrow> assertion" where
  "derive_severity a =
     (if as_assertion a \<in> set STRUCTURAL_ASSERTIONS then a\<lparr>as_severity := Some ''error''\<rparr>
      else if as_severity a = None then a\<lparr>as_severity := Some ''warn''\<rparr>
      else a)"

definition make_assertion :: "string \<Rightarrow> bool \<Rightarrow> string option \<Rightarrow> assertion" where
  "make_assertion name ok column =
     derive_severity \<lparr>as_assertion = name, as_success = ok, as_column = column, as_severity = None\<rparr>"

record version_facts =
  vf_columns :: "(string \<times> string) list"
  vf_rows :: int
  vf_nulls :: "string \<Rightarrow> int"
  vf_blobs :: "string list"
  vf_blob_resolves :: "string \<Rightarrow> bool"
  vf_stable_row_ids :: "bool option"

definition names_of :: "version_facts \<Rightarrow> string list" where
  "names_of vf = map fst (vf_columns vf)"

definition assert_quality :: "version_facts \<Rightarrow> string \<Rightarrow> string list \<Rightarrow> assertion list" where
  "assert_quality vf key_column required_columns =
     [make_assertion ROW_COUNT_POSITIVE (0 < vf_rows vf) None] @
     (if key_column \<noteq> [] \<and> key_column \<in> set (names_of vf)
      then [make_assertion NOT_NULL (vf_nulls vf key_column = 0) (Some key_column)] else []) @
     map (\<lambda>column. make_assertion COLUMN_DECLARED (column \<in> set (names_of vf)) (Some column)) required_columns @
     map (\<lambda>column. make_assertion BLOB_RESOLVES (vf_blob_resolves vf column) (Some column)) (vf_blobs vf)"

definition all_passed :: "assertion list \<Rightarrow> bool" where
  "all_passed assertions = list_all as_success assertions"

datatype contract_problem = Wrong_width string | No_stable_row_ids

definition tier_contract_violations :: "version_facts \<Rightarrow> contract_problem list" where
  "tier_contract_violations vf = (case map_of (vf_columns vf) SOURCE_ROWID_COLUMN of
       None \<Rightarrow> []
     | Some actual \<Rightarrow>
         (if actual \<noteq> ''uint64'' then [Wrong_width actual] else []) @
         (if vf_stable_row_ids vf = Some False then [No_stable_row_ids] else []))"

section \<open>The declared gate (\<^verbatim>\<open>gate_specs.py\<close>)\<close>

record gate_spec =
  gs_project :: string
  gs_key_column :: string
  gs_required_columns :: "string list"
  gs_review_band :: rat
  gs_review_enabled :: bool
  gs_review_hours :: rat

definition gates_prefix :: string where
  "gates_prefix = ''_gates''"

text \<open>\<^verbatim>\<open>ch.isalnum() or ch in "-_"\<close>, on ASCII text.\<close>

definition is_name_char :: "char \<Rightarrow> bool" where
  "is_name_char c = (is_letter c \<or> is_digit c \<or> c \<in> set ''-_'')"

definition safe_identifier :: "string \<Rightarrow> string result" where
  "safe_identifier v =
     (let cleaned = strip v in
      if cleaned = [] then Inl ValueError
      else if \<not> list_all is_name_char cleaned then Inl ValueError
      else Inr cleaned)"

definition safe_columns :: "string list \<Rightarrow> string list result" where
  "safe_columns cols =
     (if list_all (\<lambda>c. strip c \<noteq> [] \<and> list_all is_name_char (strip c)) cols then Inr (map strip cols)
      else Inl ValueError)"

text \<open>The model's validation: every field of a declaration, in the order its validators run.\<close>

definition make_gate_spec :: "gate_spec \<Rightarrow> gate_spec result" where
  "make_gate_spec gs = (case safe_identifier (gs_project gs) of
       Inl e \<Rightarrow> Inl e
     | Inr project \<Rightarrow>
         (case safe_identifier (gs_key_column gs) of
            Inl e \<Rightarrow> Inl e
          | Inr key_column \<Rightarrow>
              (case safe_columns (gs_required_columns gs) of
                 Inl e \<Rightarrow> Inl e
               | Inr cols \<Rightarrow>
                   if gs_review_band gs < 0 \<or> gs_review_hours gs \<le> 0 then Inl ValueError
                   else Inr (gs\<lparr>gs_project := project, gs_key_column := key_column, gs_required_columns := cols\<rparr>))))"

definition gate_key :: "(string \<Rightarrow> string) \<Rightarrow> string \<Rightarrow> string" where
  "gate_key hex project = gates_prefix @ ''/'' @ project @ ''-'' @ take 24 (hex project) @ ''.json''"

definition put_spec :: "(string \<Rightarrow> string) \<Rightarrow> gate_spec \<Rightarrow> gate_spec world \<Rightarrow> unit result \<times> gate_spec world" where
  "put_spec hex gs w = put_record (gate_key hex (gs_project gs)) gs w"

text \<open>A stored document, which is UTF-8 text, that does not parse or does not validate is no declaration.\<close>

definition get_spec :: "(string \<Rightarrow> string) \<Rightarrow> string \<Rightarrow> gate_spec world \<Rightarrow> gate_spec option result \<times> gate_spec world" where
  "get_spec hex project w = (case access w of
       (False, w1) \<Rightarrow> (Inl StoreError, w1)
     | (True, w1) \<Rightarrow> (Inr (case lookup w1 (gate_key hex project) of Some (Json gs) \<Rightarrow> Some gs | _ \<Rightarrow> None), w1))"

definition delete_spec :: "(string \<Rightarrow> string) \<Rightarrow> string \<Rightarrow> gate_spec world \<Rightarrow> bool result \<times> gate_spec world" where
  "delete_spec hex project w = (case access w of
       (False, w1) \<Rightarrow> (Inl StoreError, w1)
     | (True, w1) \<Rightarrow>
         if lookup w1 (gate_key hex project) = None then (Inr False, w1)
         else (Inr True, store_delete (gate_key hex project) w1))"

section \<open>The verdict\<close>

definition PUBLISHED_TAG :: string where "PUBLISHED_TAG = ''published''"
definition PUBLISHING_TAG :: string where "PUBLISHING_TAG = ''publishing''"
definition CATALOG_TAG_PREFIX :: string where "CATALOG_TAG_PREFIX = ''rask.''"

definition is_catalog_tag :: "string \<Rightarrow> bool" where
  "is_catalog_tag tag = (tag = PUBLISHED_TAG \<or> tag = PUBLISHING_TAG \<or> prefix CATALOG_TAG_PREFIX tag)"

definition FIRST_PUBLICATION :: string where "FIRST_PUBLICATION = ''first_publication''"
definition ROW_COUNT_DELTA :: string where "ROW_COUNT_DELTA = ''row_count_delta''"

record review_policy =
  rp_band :: rat
  rp_hours :: rat

definition review_reasons :: "int \<Rightarrow> int option \<Rightarrow> rat \<Rightarrow> string list" where
  "review_reasons rows published_rows band = (case published_rows of
       None \<Rightarrow> [FIRST_PUBLICATION]
     | Some p \<Rightarrow>
         if p = 0 then [FIRST_PUBLICATION]
         else if band * of_int p < of_int \<bar>rows - p\<bar> then [ROW_COUNT_DELTA]
         else [])"

datatype outcome = Publish | Hold | Refuse

record verdict_on_version =
  vd_outcome :: outcome
  vd_accepted :: "string list"
  vd_reasons :: "string list"

definition failed_names :: "assertion list \<Rightarrow> string list" where
  "failed_names assertions = map as_assertion (filter (\<lambda>a. \<not> as_success a) assertions)"

definition judge_findings :: "assertion list \<Rightarrow> string list \<Rightarrow> string list \<Rightarrow> bool \<Rightarrow> verdict_on_version" where
  "judge_findings assertions accept_assertions band_reasons review =
     (let failed = failed_names assertions;
          waived = filter (\<lambda>n. n \<notin> set STRUCTURAL_ASSERTIONS) accept_assertions;
          unaccepted = filter (\<lambda>n. n \<notin> set waived) failed in
      if list_ex (\<lambda>n. n \<in> set STRUCTURAL_ASSERTIONS) unaccepted \<or> unaccepted \<noteq> [] \<and> \<not> review then
        \<lparr>vd_outcome = Refuse, vd_accepted = [], vd_reasons = unaccepted\<rparr>
      else
        (let held = (if review then unaccepted @ band_reasons else []) in
         if held \<noteq> [] then \<lparr>vd_outcome = Hold, vd_accepted = [], vd_reasons = held\<rparr>
         else \<lparr>vd_outcome = Publish, vd_accepted = sort (remdups failed), vd_reasons = []\<rparr>))"

definition gate_source_for :: "string \<Rightarrow> string" where
  "gate_source_for declared_by = (if declared_by \<noteq> [] then ''declared'' else ''request'')"

record EffectiveGate =
  eg_key_column :: string
  eg_required_columns :: "string list"
  eg_declared_by :: string
  eg_review :: "review_policy option"

definition declared_gate ::
  "(string \<Rightarrow> string) \<Rightarrow> string \<Rightarrow> string \<Rightarrow> gate_spec world \<Rightarrow> gate_spec option \<times> gate_spec world" where
  "declared_gate hex registry_root project w =
     (if project = [] \<or> registry_root = [] then (None, w)
      else (case get_spec hex project w of (Inl _, w1) \<Rightarrow> (None, w1) | (Inr gs, w1) \<Rightarrow> (gs, w1)))"

definition effective_gate :: "gate_spec option \<Rightarrow> string \<Rightarrow> string list \<Rightarrow> EffectiveGate" where
  "effective_gate spec key_column required_columns = (case spec of
       None \<Rightarrow> \<lparr>eg_key_column = key_column, eg_required_columns = required_columns, eg_declared_by = [], eg_review = None\<rparr>
     | Some gs \<Rightarrow>
         \<lparr>eg_key_column = gs_key_column gs,
          eg_required_columns = gs_required_columns gs @ filter (\<lambda>c. c \<notin> set (gs_required_columns gs)) required_columns,
          eg_declared_by = gs_project gs,
          eg_review = (if gs_review_enabled gs then Some \<lparr>rp_band = gs_review_band gs, rp_hours = gs_review_hours gs\<rparr> else None)\<rparr>)"

definition refuse_a_tier_without_provenance :: "version_facts \<Rightarrow> unit result" where
  "refuse_a_tier_without_provenance vf = (if tier_contract_violations vf = [] then Inr () else Inl InvalidInputError)"

definition refuse_a_gate_that_cannot_run :: "assertion list \<Rightarrow> string \<Rightarrow> unit result" where
  "refuse_a_gate_that_cannot_run assertions key_column =
     (if key_column = [] \<or> list_ex (\<lambda>a. as_assertion a = NOT_NULL) assertions then Inr () else Inl InvalidInputError)"

section \<open>Tags on main\<close>

record tag_file =
  tg_branch :: ref_spelling
  tg_version :: int
  tg_updated_at :: int

type_synonym tags = "tag_file world"

definition key_segment_bytes :: nat where
  "key_segment_bytes = 255"

definition ref_file_past_a_key_segment :: "string \<Rightarrow> bool" where
  "ref_file_past_a_key_segment name = (key_segment_bytes < length (ref_file_name name))"

definition tag_reference :: "string \<Rightarrow> tags \<Rightarrow> (string option \<times> int) result \<times> tags" where
  "tag_reference tag w =
     (if ref_file_past_a_key_segment tag then (Inl TableTagNotFoundError, w)
      else (case access w of
          (False, w1) \<Rightarrow> (Inl StoreError, w1)
        | (True, w1) \<Rightarrow>
            (case lookup w1 tag of
               Some (Json tf) \<Rightarrow>
                 (case recorded_branch (tg_branch tf) of
                    Inl e \<Rightarrow> (Inl e, w1)
                  | Inr b \<Rightarrow> (Inr (b, tg_version tf), w1))
             | _ \<Rightarrow> (Inl TableTagNotFoundError, w1))))"

definition main_version_of_tag :: "string \<Rightarrow> tags \<Rightarrow> int option result \<times> tags" where
  "main_version_of_tag tag w = (case tag_reference tag w of
       (Inl e, w1) \<Rightarrow> if e = TableTagNotFoundError then (Inr None, w1) else (Inl e, w1)
     | (Inr (b, v), w1) \<Rightarrow> if b \<noteq> None then (Inl InvalidTableStateError, w1) else (Inr (Some v), w1))"

text \<open>
  \<^verbatim>\<open>create_tag\<close>, \<^verbatim>\<open>update_tag\<close> and \<^verbatim>\<open>delete_tag\<close> for a request that names no branch: Lance refuses to
  create a tag that exists and to move or delete one that does not.
\<close>

definition on_main :: "int \<Rightarrow> int \<Rightarrow> tag_file" where
  "on_main version t = \<lparr>tg_branch = NoRef, tg_version = version, tg_updated_at = t\<rparr>"

definition create_tag :: "string \<Rightarrow> int \<Rightarrow> tags \<Rightarrow> unit result \<times> tags" where
  "create_tag tag version w =
     (if ref_file_past_a_key_segment tag then (Inl InvalidInputError, w)
      else (case access w of
          (False, w1) \<Rightarrow> (Inl StoreError, w1)
        | (True, w1) \<Rightarrow>
            if lookup w1 tag \<noteq> None then (Inl TableTagAlreadyExistsError, w1)
            else (Inr (), store_put tag (Json (on_main version (clock w1))) w1)))"

definition update_tag :: "string \<Rightarrow> int \<Rightarrow> tags \<Rightarrow> unit result \<times> tags" where
  "update_tag tag version w =
     (if ref_file_past_a_key_segment tag then (Inl TableTagNotFoundError, w)
      else (case access w of
          (False, w1) \<Rightarrow> (Inl StoreError, w1)
        | (True, w1) \<Rightarrow>
            if lookup w1 tag = None then (Inl TableTagNotFoundError, w1)
            else (Inr (), store_put tag (Json (on_main version (clock w1))) w1)))"

definition delete_tag :: "string \<Rightarrow> tags \<Rightarrow> unit result \<times> tags" where
  "delete_tag tag w =
     (if ref_file_past_a_key_segment tag then (Inl TableTagNotFoundError, w)
      else (case access w of
          (False, w1) \<Rightarrow> (Inl StoreError, w1)
        | (True, w1) \<Rightarrow>
            if lookup w1 tag = None then (Inl TableTagNotFoundError, w1)
            else (Inr (), store_delete tag w1)))"

section \<open>Moving the pointer\<close>

definition published_version :: "tags \<Rightarrow> int option result \<times> tags" where
  "published_version w = main_version_of_tag PUBLISHED_TAG w"

definition set_tag :: "string \<Rightarrow> int \<Rightarrow> tags \<Rightarrow> unit result \<times> tags" where
  "set_tag tag version w = (case main_version_of_tag tag w of
       (Inl e, w1) \<Rightarrow> (Inl e, w1)
     | (Inr (Some _), w1) \<Rightarrow> update_tag tag version w1
     | (Inr None, w1) \<Rightarrow>
         (case create_tag tag version w1 of
            (Inl e, w2) \<Rightarrow> if e = TableTagAlreadyExistsError then update_tag tag version w2 else (Inl e, w2)
          | (Inr _, w2) \<Rightarrow> (Inr (), w2)))"

definition moved_at :: "int \<Rightarrow> string \<Rightarrow> tags \<Rightarrow> int option \<times> tags" where
  "moved_at version tag w = (case access w of
       (False, w1) \<Rightarrow> (None, w1)
     | (True, w1) \<Rightarrow>
         (case lookup w1 tag of
            Some (Json tf) \<Rightarrow>
              if tg_branch tf \<noteq> NoRef \<or> tg_version tf \<noteq> version then (None, w1) else (Some (tg_updated_at tf), w1)
          | _ \<Rightarrow> (None, w1)))"

record tag_advance =
  ta_moved :: bool
  ta_previous :: "int option"
  ta_moved_at :: "int option"

text \<open>\<^verbatim>\<open>before_move\<close> is the door's own step, which may raise; what it writes lies in other records.\<close>

definition advance :: "int \<Rightarrow> string \<Rightarrow> unit result \<Rightarrow> tags \<Rightarrow> tag_advance result \<times> tags" where
  "advance version tag before_move w = (case main_version_of_tag tag w of
       (Inl e, w1) \<Rightarrow> (Inl e, w1)
     | (Inr current, w1) \<Rightarrow>
         if (case current of Some c \<Rightarrow> version \<le> c | None \<Rightarrow> False) then
           (Inr \<lparr>ta_moved = False, ta_previous = current, ta_moved_at = None\<rparr>, w1)
         else (case before_move of
             Inl e \<Rightarrow> (Inl e, w1)
           | Inr _ \<Rightarrow>
               (case set_tag tag version w1 of
                  (Inl e, w2) \<Rightarrow> (Inl e, w2)
                | (Inr _, w2) \<Rightarrow>
                    (case moved_at version tag w2 of
                       (t, w3) \<Rightarrow> (Inr \<lparr>ta_moved = True, ta_previous = current, ta_moved_at = t\<rparr>, w3)))))"

definition drop_tag :: "string \<Rightarrow> tags \<Rightarrow> unit result \<times> tags" where
  "drop_tag tag w = (case delete_tag tag w of
       (Inl e, w1) \<Rightarrow> if e = TableTagNotFoundError then (Inr (), w1) else (Inl e, w1)
     | (Inr _, w1) \<Rightarrow> (Inr (), w1))"

section \<open>Gate and publish\<close>

record publication_result =
  pr_published :: bool
  pr_from_version :: "int option"
  pr_to_version :: int
  pr_assertions :: "assertion list"
  pr_reason :: "(outcome \<times> string list) option"
  pr_accepted :: "string list"
  pr_gate_source :: string
  pr_held :: bool
  pr_hold_reasons :: "string list"
  pr_moved_at :: "int option"

definition advanced :: "publication_result \<Rightarrow> bool" where
  "advanced pr = (pr_published pr \<and> pr_from_version pr \<noteq> Some (pr_to_version pr))"

type_synonym versions = "int \<Rightarrow> version_facts result"

definition rows_at :: "versions \<Rightarrow> int option \<Rightarrow> int option result" where
  "rows_at facts version = (case version of
       None \<Rightarrow> Inr None
     | Some v \<Rightarrow> (case facts v of Inl e \<Rightarrow> Inl e | Inr vf \<Rightarrow> Inr (Some (vf_rows vf))))"

text \<open>What both doors do with an opened version: assert, refuse what cannot be judged, then judge.\<close>

definition judge_version ::
  "version_facts \<Rightarrow> string \<Rightarrow> string list \<Rightarrow> string list \<Rightarrow> review_policy option \<Rightarrow> int option result
    \<Rightarrow> (assertion list \<times> verdict_on_version) result" where
  "judge_version vf key_column required_columns accept_assertions review published_rows =
     (let assertions = assert_quality vf key_column required_columns in
      case refuse_a_gate_that_cannot_run assertions key_column of
        Inl e \<Rightarrow> Inl e
      | Inr _ \<Rightarrow>
          (case refuse_a_tier_without_provenance vf of
             Inl e \<Rightarrow> Inl e
           | Inr _ \<Rightarrow>
               (case review of
                  None \<Rightarrow> Inr (assertions, judge_findings assertions accept_assertions [] False)
                | Some rp \<Rightarrow>
                    (case published_rows of
                       Inl e \<Rightarrow> Inl e
                     | Inr p \<Rightarrow>
                         Inr (assertions, judge_findings assertions accept_assertions
                           (review_reasons (vf_rows vf) p (rp_band rp)) True)))))"

definition result_of ::
  "bool \<Rightarrow> int option \<Rightarrow> int \<Rightarrow> string \<Rightarrow> assertion list \<Rightarrow> verdict_on_version \<Rightarrow> publication_result" where
  "result_of published from_version to_version declared_by assertions vd =
     \<lparr>pr_published = published, pr_from_version = from_version, pr_to_version = to_version, pr_assertions = assertions,
      pr_reason = (if vd_outcome vd = Publish then None else Some (vd_outcome vd, vd_reasons vd)),
      pr_accepted = (if published then vd_accepted vd else []),
      pr_gate_source = gate_source_for declared_by, pr_held = (vd_outcome vd = Hold),
      pr_hold_reasons = (if vd_outcome vd = Hold then vd_reasons vd else []), pr_moved_at = None\<rparr>"

definition gate ::
  "versions \<Rightarrow> string \<Rightarrow> int \<Rightarrow> string list \<Rightarrow> string \<Rightarrow> review_policy option \<Rightarrow> int option \<Rightarrow> publication_result result" where
  "gate facts key_column version required_columns declared_by review published_rows = (case facts version of
       Inl e \<Rightarrow> Inl e
     | Inr vf \<Rightarrow>
         (case judge_version vf key_column required_columns [] review (Inr published_rows) of
            Inl e \<Rightarrow> Inl e
          | Inr (assertions, vd) \<Rightarrow> Inr (result_of False None version declared_by assertions vd)))"

record publish_request =
  pq_version :: int
  pq_key_column :: string
  pq_required_columns :: "string list"
  pq_accept_assertions :: "string list"
  pq_tag :: string
  pq_declared_by :: string
  pq_review :: "review_policy option"

text \<open>The body under \<^verbatim>\<open>try\<close>, once the request was found to move nothing backwards.\<close>

definition publish_body ::
  "versions \<Rightarrow> unit result \<Rightarrow> publish_request \<Rightarrow> int option \<Rightarrow> tags \<Rightarrow> publication_result result \<times> tags" where
  "publish_body facts before_move pq previous w = (case set_tag PUBLISHING_TAG (pq_version pq) w of
       (Inl e, w1) \<Rightarrow> (Inl e, w1)
     | (Inr _, w1) \<Rightarrow>
         (case facts (pq_version pq) of
            Inl e \<Rightarrow> (Inl e, w1)
          | Inr vf \<Rightarrow>
              (case judge_version vf (pq_key_column pq) (pq_required_columns pq) (pq_accept_assertions pq)
                  (pq_review pq) (rows_at facts previous) of
                 Inl e \<Rightarrow> (Inl e, w1)
               | Inr (assertions, vd) \<Rightarrow>
                   if vd_outcome vd \<noteq> Publish then
                     (Inr (result_of False previous (pq_version pq) (pq_declared_by pq) assertions vd), w1)
                   else
                     (let published = result_of True previous (pq_version pq) (pq_declared_by pq) assertions vd in
                      if previous = Some (pq_version pq) then (Inr published, w1)
                      else (case before_move of
                          Inl e \<Rightarrow> (Inl e, w1)
                        | Inr _ \<Rightarrow>
                            (case set_tag (pq_tag pq) (pq_version pq) w1 of
                               (Inl e, w2) \<Rightarrow> (Inl e, w2)
                             | (Inr _, w2) \<Rightarrow>
                                 (case moved_at (pq_version pq) (pq_tag pq) w2 of
                                    (t, w3) \<Rightarrow> (Inr (published\<lparr>pr_moved_at := t\<rparr>), w3))))))))"

definition publish ::
  "int result \<Rightarrow> versions \<Rightarrow> unit result \<Rightarrow> publish_request \<Rightarrow> tags \<Rightarrow> publication_result result \<times> tags" where
  "publish latest facts before_move pq w =
     (if pq_version pq < 1 then (Inl InvalidInputError, w)
      else (case latest of
          Inl e \<Rightarrow> (Inl e, w)
        | Inr l \<Rightarrow>
            if l < pq_version pq then (Inl TableVersionNotFoundError, w)
            else (case main_version_of_tag (pq_tag pq) w of
                (Inl e, w1) \<Rightarrow> (Inl e, w1)
              | (Inr previous, w1) \<Rightarrow>
                  if (case previous of Some p \<Rightarrow> pq_version pq < p | None \<Rightarrow> False) then (Inl InvalidTableStateError, w1)
                  else (case publish_body facts before_move pq previous w1 of
                      (x, w2) \<Rightarrow> (x, snd (delete_tag PUBLISHING_TAG w2))))))"

section \<open>The verdict is fail closed\<close>

lemma judge_findings_outcome:
  "vd_outcome (judge_findings assertions accept band review) =
     (if (\<exists>n\<in>set (failed_names assertions). n \<in> set STRUCTURAL_ASSERTIONS) \<or>
         \<not> review \<and> \<not> set (failed_names assertions) \<subseteq> set accept then Refuse
      else if review \<and> (band \<noteq> [] \<or> \<not> set (failed_names assertions) \<subseteq> set accept) then Hold
      else Publish)"
proof -
  let ?failed = "failed_names assertions"
  let ?waived = "filter (\<lambda>n. n \<notin> set STRUCTURAL_ASSERTIONS) accept"
  let ?un = "filter (\<lambda>n. n \<notin> set ?waived) ?failed"
  have a: "list_ex (\<lambda>n. n \<in> set STRUCTURAL_ASSERTIONS) ?un \<longleftrightarrow> (\<exists>n\<in>set ?failed. n \<in> set STRUCTURAL_ASSERTIONS)"
    by (auto simp: list_ex_iff)
  have b: "?un = [] \<longleftrightarrow> set ?failed \<subseteq> set accept" if "\<not> (\<exists>n\<in>set ?failed. n \<in> set STRUCTURAL_ASSERTIONS)"
    using that by (auto simp: filter_empty_conv)
  have c: "?un \<noteq> []" if "\<exists>n\<in>set ?failed. n \<in> set STRUCTURAL_ASSERTIONS"
    using that by (auto simp: filter_empty_conv)
  show ?thesis
    unfolding judge_findings_def Let_def a using b c by auto
qed

text \<open>
  A version's findings decide it, and no acceptance makes broken data publishable. A failed
  structural assertion (a null key, a blob that does not resolve) refuses whatever the request accepts
  and whether or not the project reviews. Otherwise, with review off, the version is published exactly
  when every failed assertion was accepted by name, and refused if not; with review on, it is
  published exactly when moreover the row count is inside the band, and held for a person if not.
\<close>

theorem verdict_on_findings:
  "vd_outcome (judge_findings assertions accept band review) =
     (if (\<exists>a\<in>set assertions. \<not> as_success a \<and> as_assertion a \<in> set STRUCTURAL_ASSERTIONS) then Refuse
      else if (\<forall>a\<in>set assertions. as_success a \<or> as_assertion a \<in> set accept) then
        (if review \<and> band \<noteq> [] then Hold else Publish)
      else if review then Hold else Refuse)"
  unfolding judge_findings_outcome by (auto simp: failed_names_def subset_iff)

theorem verdict_on_findings_witness:
  "vd_outcome (judge_findings [make_assertion NOT_NULL False (Some ''id'')] [NOT_NULL] [] True) = Refuse \<and>
   vd_outcome (judge_findings [make_assertion ROW_COUNT_POSITIVE False None] [ROW_COUNT_POSITIVE] [] False) = Publish"
  unfolding verdict_on_findings
  by (simp add: make_assertion_def derive_severity_def STRUCTURAL_ASSERTIONS_def NOT_NULL_def BLOB_RESOLVES_def
      ROW_COUNT_POSITIVE_def)

lemma judge_version_publishes:
  assumes "judge_version vf key req accept review rows = Inr (assertions, vd)" "vd_outcome vd = Publish"
  shows "assertions = assert_quality vf key req \<and> (key \<noteq> [] \<longrightarrow> key \<in> set (names_of vf)) \<and>
    tier_contract_violations vf = [] \<and>
    (\<forall>a\<in>set assertions. as_success a \<or> as_assertion a \<in> set accept \<and> as_assertion a \<notin> set STRUCTURAL_ASSERTIONS) \<and>
    (\<forall>rp. review = Some rp \<longrightarrow> (\<exists>p. rows = Inr p \<and> review_reasons (vf_rows vf) p (rp_band rp) = []))"
proof -
  have names: "NOT_NULL \<noteq> ROW_COUNT_POSITIVE" "NOT_NULL \<noteq> COLUMN_DECLARED" "NOT_NULL \<noteq> BLOB_RESOLVES"
    by (simp_all add: NOT_NULL_def ROW_COUNT_POSITIVE_def COLUMN_DECLARED_def BLOB_RESOLVES_def)
  have made: "as_assertion (make_assertion n ok c) = n" for n ok c
    by (simp add: make_assertion_def derive_severity_def)
  have runs: "list_ex (\<lambda>a. as_assertion a = NOT_NULL) (assert_quality vf key req) \<Longrightarrow> key \<in> set (names_of vf)"
    using names by (auto simp: assert_quality_def list_ex_iff made split: if_splits)
  let ?as = "assert_quality vf key req"
  have ok: "refuse_a_gate_that_cannot_run ?as key = Inr ()" "refuse_a_tier_without_provenance vf = Inr ()"
    using assms(1) by (auto simp: judge_version_def Let_def split: sum.splits)
  then have key: "key \<noteq> [] \<longrightarrow> key \<in> set (names_of vf)" "tier_contract_violations vf = []"
    using runs by (auto simp: refuse_a_gate_that_cannot_run_def refuse_a_tier_without_provenance_def split: if_splits)
  have passes: "\<forall>a\<in>set ?as. as_success a \<or> as_assertion a \<in> set accept \<and> as_assertion a \<notin> set STRUCTURAL_ASSERTIONS"
    if "vd_outcome (judge_findings ?as accept band rv) = Publish" for band rv
    using that unfolding judge_findings_outcome by (auto simp: failed_names_def subset_iff split: if_splits)
  have inside: "band = []" if "vd_outcome (judge_findings ?as accept band True) = Publish" for band
    using that unfolding judge_findings_outcome by (auto split: if_splits)
  show ?thesis
  proof (cases review)
    case None
    with assms(1) ok have "assertions = ?as" "vd = judge_findings ?as accept [] False"
      by (auto simp: judge_version_def Let_def)
    with assms(2) None key passes show ?thesis by blast
  next
    case (Some rp)
    with assms(1) ok obtain p where p: "rows = Inr p" "assertions = ?as"
      "vd = judge_findings ?as accept (review_reasons (vf_rows vf) p (rp_band rp)) True"
      by (auto simp: judge_version_def Let_def split: sum.splits)
    with assms(2) Some key passes inside show ?thesis by blast
  qed
qed

section \<open>What a tag operation touches\<close>

text \<open>A run that never writes the tag: time passes, others act, and other tags are written.\<close>

inductive spares :: "string \<Rightarrow> tags \<Rightarrow> tags \<Rightarrow> bool" for tag where
  idle: "spares tag w w"
| reached: "spares tag w w1 \<Longrightarrow> spares tag w (snd (access w1))"
| put_other: "spares tag w w1 \<Longrightarrow> k \<noteq> tag \<Longrightarrow> spares tag w (store_put k c w1)"
| delete_other: "spares tag w w1 \<Longrightarrow> k \<noteq> tag \<Longrightarrow> spares tag w (store_delete k w1)"

lemma spares_trans: "spares tag v w \<Longrightarrow> spares tag u v \<Longrightarrow> spares tag u w"
  by (induction rule: spares.induct) (auto intro: spares.intros)

lemma access_snd: "access w = (b, w1) \<Longrightarrow> w1 = snd (access w)"
  by simp

lemma spares_access [simp]: "spares tag w (snd (access w))"
  by (rule spares.reached [OF spares.idle])

lemma main_version_spares: "main_version_of_tag k w = (x, w1) \<Longrightarrow> spares tag w w1"
  by (auto simp: main_version_of_tag_def tag_reference_def split: if_splits prod.splits bool.splits sum.splits
      option.splits content.splits dest!: access_snd intro: spares.intros)

lemma moved_at_spares: "moved_at v k w = (x, w1) \<Longrightarrow> spares tag w w1"
  by (auto simp: moved_at_def split: if_splits prod.splits bool.splits option.splits content.splits
      dest!: access_snd intro: spares.intros)

lemma create_tag_effect:
  "create_tag k v w = (x, w1) \<Longrightarrow> (\<exists>v1. spares tag w v1 \<and> (case x of
      Inl _ \<Rightarrow> w1 = v1 | Inr _ \<Rightarrow> w1 = store_put k (Json (on_main v (clock v1))) v1))"
  by (auto simp: create_tag_def split: if_splits prod.splits bool.splits dest!: access_snd
      intro: spares.idle exI [of _ "snd (access w)"])

lemma update_tag_effect:
  "update_tag k v w = (x, w1) \<Longrightarrow> (\<exists>v1. spares tag w v1 \<and> (case x of
      Inl _ \<Rightarrow> w1 = v1 | Inr _ \<Rightarrow> w1 = store_put k (Json (on_main v (clock v1))) v1))"
  by (auto simp: update_tag_def split: if_splits prod.splits bool.splits dest!: access_snd
      intro: spares.idle exI [of _ "snd (access w)"])

lemma delete_tag_spares: "delete_tag k w = (x, w1) \<Longrightarrow> k \<noteq> tag \<Longrightarrow> spares tag w w1"
  by (auto simp: delete_tag_def split: if_splits prod.splits bool.splits dest!: access_snd intro: spares.intros)

text \<open>\<^verbatim>\<open>set_tag\<close> writes the tag once, or raises and writes nothing, however the racing creates fall.\<close>

lemma set_tag_effect:
  assumes "set_tag k v w = (x, w1)"
  shows "\<exists>v1. spares tag w v1 \<and> (case x of Inl _ \<Rightarrow> w1 = v1 | Inr _ \<Rightarrow> w1 = store_put k (Json (on_main v (clock v1))) v1)"
proof -
  obtain y u where mv: "main_version_of_tag k w = (y, u)" by force
  note su = main_version_spares [OF mv, of tag]
  have upd: "\<exists>v1. spares tag w v1 \<and> (case x of Inl _ \<Rightarrow> w1 = v1 | Inr _ \<Rightarrow> w1 = store_put k (Json (on_main v (clock v1))) v1)"
    if "update_tag k v u' = (x, w1)" "spares tag w u'" for u'
    using update_tag_effect [OF that(1), of tag] spares_trans [OF _ that(2)] by blast
  show ?thesis
  proof (cases "\<exists>e. y = Inl e")
    case True
    with assms mv su show ?thesis by (auto simp: set_tag_def)
  next
    case False
    then obtain cur where y: "y = Inr cur" by (cases y) auto
    show ?thesis
    proof (cases cur)
      case (Some c)
      with assms mv y upd su show ?thesis by (auto simp: set_tag_def)
    next
      case None
      obtain z u2 where cr: "create_tag k v u = (z, u2)" by force
      obtain v1 where v1: "spares tag u v1" "case z of Inl _ \<Rightarrow> u2 = v1 | Inr _ \<Rightarrow> u2 = store_put k (Json (on_main v (clock v1))) v1"
        using create_tag_effect [OF cr, of tag] by blast
      have sv: "spares tag w v1" using spares_trans [OF v1(1) su] .
      show ?thesis
      proof (cases z)
        case (Inr a)
        with assms mv y None cr v1 sv show ?thesis by (auto simp: set_tag_def)
      next
        case (Inl e)
        with assms mv y None cr v1 sv upd [of u2] show ?thesis by (auto simp: set_tag_def split: if_splits)
      qed
    qed
  qed
qed

section \<open>Publishing\<close>

text \<open>One write of the tag, naming the version on main, among other clients' steps.\<close>

definition writes_once :: "string \<Rightarrow> int \<Rightarrow> tags \<Rightarrow> tags \<Rightarrow> bool" where
  "writes_once tag v w w' \<longleftrightarrow>
     (\<exists>w1. spares tag w w1 \<and> spares tag (store_put tag (Json (on_main v (clock w1))) w1) w')"

lemma set_tag_other:
  "set_tag k v w = (x, w1) \<Longrightarrow> k \<noteq> tag \<Longrightarrow> spares tag w w1"
  using set_tag_effect [of k v w x w1 tag] by (cases x) (auto intro: spares.put_other)

lemma advanced_result_of [simp]:
  "\<not> advanced (result_of False p v d a vd)" "advanced (result_of True p v d a vd) \<longleftrightarrow> p \<noteq> Some v"
  "advanced (pr\<lparr>pr_moved_at := t\<rparr>) \<longleftrightarrow> advanced pr"
  by (simp_all add: advanced_def result_of_def)

lemma publish_body_worlds:
  assumes "publish_body facts bm pq previous w = (x, w')"
    and pin: "set_tag PUBLISHING_TAG (pq_version pq) w = (y, w1)" and st: "set_tag (pq_tag pq) (pq_version pq) w1 = (z, w2)"
    and mv: "moved_at (pq_version pq) (pq_tag pq) w2 = (t, w3)"
  shows "w' = w1 \<and> \<not> (\<exists>pr. x = Inr pr \<and> advanced pr) \<or> w' = w2 \<and> x \<in> range Inl \<and> z \<in> range Inl \<or>
      w' = w3 \<and> z \<in> range Inr \<and> (\<exists>pr. x = Inr pr \<and> advanced pr)"
proof -
  let ?t = "pq_tag pq" and ?v = "pq_version pq"
  note unfold = publish_body_def Let_def
  show ?thesis
  proof (cases y)
    case (Inl e)
    with assms(1) pin show ?thesis by (auto simp: unfold)
  next
    case y: (Inr u)
    show ?thesis
    proof (cases "facts ?v")
      case (Inl e)
      with assms(1) pin y show ?thesis by (auto simp: unfold)
    next
      case vf: (Inr vf)
      let ?j = "judge_version vf (pq_key_column pq) (pq_required_columns pq) (pq_accept_assertions pq) (pq_review pq) (rows_at facts previous)"
      show ?thesis
      proof (cases ?j)
        case (Inl e)
        with assms(1) pin y vf show ?thesis by (auto simp: unfold)
      next
        case (Inr avd)
        obtain a vd where j: "?j = Inr (a, vd)" using Inr by (cases avd) simp
        have eq: "publish_body facts bm pq previous w =
            (if vd_outcome vd \<noteq> Publish then (Inr (result_of False previous ?v (pq_declared_by pq) a vd), w1)
             else if previous = Some ?v then (Inr (result_of True previous ?v (pq_declared_by pq) a vd), w1)
             else case bm of Inl e \<Rightarrow> (Inl e, w1)
               | Inr _ \<Rightarrow> (case z of Inl e \<Rightarrow> (Inl e, w2)
                   | Inr _ \<Rightarrow> (Inr ((result_of True previous ?v (pq_declared_by pq) a vd)\<lparr>pr_moved_at := t\<rparr>), w3)))"
          using pin y vf j st mv by (simp add: publish_body_def Let_def split: sum.split)
        show ?thesis
          using assms(1) unfolding eq by (auto split: if_splits sum.splits)
      qed
    qed
  qed
qed

lemma publish_body_effect:
  assumes "publish_body facts bm pq previous w = (x, w')" "pq_tag pq \<noteq> PUBLISHING_TAG"
  shows "if \<exists>pr. x = Inr pr \<and> advanced pr then writes_once (pq_tag pq) (pq_version pq) w w' else spares (pq_tag pq) w w'"
proof -
  let ?t = "pq_tag pq" and ?v = "pq_version pq"
  obtain y w1 where pin: "set_tag PUBLISHING_TAG ?v w = (y, w1)" by force
  have w1: "spares ?t w w1" using set_tag_other [OF pin] assms(2) by metis
  obtain z w2 where st: "set_tag ?t ?v w1 = (z, w2)" by force
  obtain t w3 where mv: "moved_at ?v ?t w2 = (t, w3)" by force
  from publish_body_worlds [OF assms(1) pin st mv] show ?thesis
  proof (elim disjE conjE)
    assume "w' = w1" "\<not> (\<exists>pr. x = Inr pr \<and> advanced pr)"
    with w1 show ?thesis by auto
  next
    assume a: "w' = w2" "x \<in> range Inl" "z \<in> range Inl"
    then have "spares ?t w1 w2" using set_tag_effect [OF st, of ?t] by auto
    with spares_trans [OF this w1] a show ?thesis by auto
  next
    assume a: "w' = w3" "z \<in> range Inr" "\<exists>pr. x = Inr pr \<and> advanced pr"
    then obtain v1 where v1: "spares ?t w1 v1" "w2 = store_put ?t (Json (on_main ?v (clock v1))) v1"
      using set_tag_effect [OF st, of ?t] by auto
    have "spares ?t w v1" using spares_trans [OF v1(1) w1] .
    moreover have "spares ?t w2 w3" using moved_at_spares [OF mv] .
    ultimately show ?thesis using a v1 by (auto simp: writes_once_def)
  qed
qed

lemma publish_body_passed:
  assumes "publish_body facts bm pq previous w = (Inr pr, w')" "pr_published pr"
  shows "\<exists>vf vd. facts (pq_version pq) = Inr vf \<and> vd_outcome vd = Publish \<and>
    judge_version vf (pq_key_column pq) (pq_required_columns pq) (pq_accept_assertions pq) (pq_review pq)
      (rows_at facts previous) = Inr (pr_assertions pr, vd) \<and> pr_to_version pr = pq_version pq \<and> pr_from_version pr = previous"
  using assms
  by (auto simp: publish_body_def Let_def result_of_def split: sum.splits prod.splits if_splits)

lemma publish_cases:
  assumes "publish latest facts bm pq w = (x, w')"
  shows "(\<exists>e. x = Inl e \<and> (w' = w \<or> (\<exists>y. main_version_of_tag (pq_tag pq) w = (y, w')))) \<or>
    (\<exists>previous w1 w2. main_version_of_tag (pq_tag pq) w = (Inr previous, w1) \<and> (\<forall>p. previous = Some p \<longrightarrow> p \<le> pq_version pq) \<and>
       1 \<le> pq_version pq \<and> publish_body facts bm pq previous w1 = (x, w2) \<and> w' = snd (delete_tag PUBLISHING_TAG w2))"
  using assms
  by (auto simp: publish_def not_less split: if_splits sum.splits prod.splits option.splits)

text \<open>What the gate requires of a version's own contents, with \<open>previous\<close> the version published before.\<close>

definition gate_passed :: "versions \<Rightarrow> publish_request \<Rightarrow> int option \<Rightarrow> bool" where
  "gate_passed facts pq previous \<longleftrightarrow> (\<exists>vf. facts (pq_version pq) = Inr vf \<and>
     (pq_key_column pq \<noteq> [] \<longrightarrow> pq_key_column pq \<in> set (names_of vf)) \<and> tier_contract_violations vf = [] \<and>
     (\<forall>a\<in>set (assert_quality vf (pq_key_column pq) (pq_required_columns pq)).
        as_success a \<or> as_assertion a \<in> set (pq_accept_assertions pq) \<and> as_assertion a \<notin> set STRUCTURAL_ASSERTIONS) \<and>
     (\<forall>rp. pq_review pq = Some rp \<longrightarrow>
        (\<exists>p. rows_at facts previous = Inr p \<and> review_reasons (vf_rows vf) p (rp_band rp) = [])))"

lemma publish_body_gated:
  assumes "publish_body facts bm pq previous w = (Inr pr, w')" "pr_published pr"
  shows "gate_passed facts pq previous"
proof -
  obtain vf vd where vf: "facts (pq_version pq) = Inr vf" "vd_outcome vd = Publish"
    and j: "judge_version vf (pq_key_column pq) (pq_required_columns pq) (pq_accept_assertions pq) (pq_review pq)
      (rows_at facts previous) = Inr (pr_assertions pr, vd)"
    using publish_body_passed [OF assms] by blast
  from judge_version_publishes [OF j vf(2)] vf(1) show ?thesis
    unfolding gate_passed_def by auto
qed

text \<open>
  C4: A version becomes what readers read only once the gate passed that very version. However other
  clients move the table's tags meanwhile, a publish either writes the published tag exactly once, to
  the requested version on main, and then that version's own contents passed: its key column exists,
  its provenance contract holds, every assertion succeeded or was accepted by name and is not
  structural, and under review its row count is inside the band; or it never writes the tag.
\<close>

theorem publish_moves_the_tag_only_past_the_gate:
  assumes "publish latest facts bm pq w = (x, w')" "pq_tag pq \<noteq> PUBLISHING_TAG"
  shows "spares (pq_tag pq) w w' \<and> \<not> (\<exists>pr. x = Inr pr \<and> advanced pr) \<or>
    writes_once (pq_tag pq) (pq_version pq) w w' \<and>
    (\<exists>pr previous. x = Inr pr \<and> pr_published pr \<and> gate_passed facts pq previous \<and>
       (\<forall>p. previous = Some p \<longrightarrow> p \<le> pq_version pq))"
  using publish_cases [OF assms(1)]
proof (elim disjE exE conjE)
  fix e assume "x = Inl e" "w' = w"
  then show ?thesis by (auto intro: spares.idle)
next
  fix e y assume "x = Inl e" "main_version_of_tag (pq_tag pq) w = (y, w')"
  then show ?thesis by (auto intro: main_version_spares)
next
  fix previous w1 w2
  assume mv: "main_version_of_tag (pq_tag pq) w = (Inr previous, w1)" and fwd: "\<forall>p. previous = Some p \<longrightarrow> p \<le> pq_version pq"
    and body: "publish_body facts bm pq previous w1 = (x, w2)" and w': "w' = snd (delete_tag PUBLISHING_TAG w2)"
  let ?t = "pq_tag pq"
  have s1: "spares ?t w w1" using main_version_spares [OF mv] .
  have s2: "spares ?t w2 w'" using delete_tag_spares [OF surjective_pairing] assms(2) w' by metis
  note eff = publish_body_effect [OF body assms(2)]
  show ?thesis
  proof (cases "\<exists>pr. x = Inr pr \<and> advanced pr")
    case False
    with eff have "spares ?t w w'" using spares_trans [OF s2 spares_trans [OF _ s1]] by simp
    with False show ?thesis by simp
  next
    case True
    then obtain pr where pr: "x = Inr pr" "advanced pr" by blast
    obtain v1 where "spares ?t w1 v1" "spares ?t (store_put ?t (Json (on_main (pq_version pq) (clock v1))) v1) w2"
      using eff True by (auto simp: writes_once_def)
    then have once: "writes_once ?t (pq_version pq) w w'"
      unfolding writes_once_def using spares_trans [OF s2] spares_trans [OF _ s1] by blast
    have "pr_published pr" using pr(2) by (simp add: advanced_def)
    with publish_body_gated [OF body [unfolded pr(1)]] fwd once pr(1) \<open>pr_published pr\<close> show ?thesis by blast
  qed
qed

theorem publish_moves_the_tag_only_past_the_gate_witness:
  "let vf = \<lparr>vf_columns = [(''id'', ''int64'')], vf_rows = 3, vf_nulls = (\<lambda>_. 0), vf_blobs = [],
         vf_blob_resolves = (\<lambda>_. True), vf_stable_row_ids = None\<rparr>;
       pq = \<lparr>pq_version = 2, pq_key_column = ''id'', pq_required_columns = [], pq_accept_assertions = [],
         pq_tag = PUBLISHED_TAG, pq_declared_by = [], pq_review = None\<rparr> in
   \<exists>w'. writes_once PUBLISHED_TAG 2 \<lparr>objects = [], clock = 0, pending = []\<rparr> w' \<and>
     (\<exists>previous. gate_passed (\<lambda>_. Inr vf) pq previous)"
proof -
  let ?vf = "\<lparr>vf_columns = [(''id'', ''int64'')], vf_rows = 3, vf_nulls = (\<lambda>_. 0), vf_blobs = [],
         vf_blob_resolves = (\<lambda>_. True), vf_stable_row_ids = None\<rparr>"
  let ?pq = "\<lparr>pq_version = 2, pq_key_column = ''id'', pq_required_columns = [], pq_accept_assertions = [],
         pq_tag = PUBLISHED_TAG, pq_declared_by = [], pq_review = None\<rparr>"
  let ?w = "\<lparr>objects = [], clock = 0, pending = []\<rparr> :: tags"
  let ?run = "publish (Inr 2) (\<lambda>_. Inr ?vf) (Inr ()) ?pq ?w"
  have "case fst ?run of Inr pr \<Rightarrow> advanced pr | Inl _ \<Rightarrow> False" by code_simp
  then obtain pr where run: "?run = (Inr pr, snd ?run)" and adv: "advanced pr" by (auto split: sum.splits simp: prod_eq_iff)
  have tag: "pq_tag ?pq \<noteq> PUBLISHING_TAG" by code_simp
  show ?thesis
    using publish_moves_the_tag_only_past_the_gate [OF run tag] adv by (auto simp: Let_def)
qed

lemma publish_body_result:
  assumes "publish_body facts bm pq previous w = (Inr pr, w')"
  shows "\<exists>vf a vd m. facts (pq_version pq) = Inr vf \<and>
    judge_version vf (pq_key_column pq) (pq_required_columns pq) (pq_accept_assertions pq) (pq_review pq)
      (rows_at facts previous) = Inr (a, vd) \<and>
    pr = (result_of (vd_outcome vd = Publish) previous (pq_version pq) (pq_declared_by pq) a vd)\<lparr>pr_moved_at := m\<rparr>"
proof -
  have same: "result_of b p v d a vd = (result_of b p v d a vd)\<lparr>pr_moved_at := None\<rparr>" for b p v d a vd
    by (simp add: result_of_def)
  obtain vf where vf: "facts (pq_version pq) = Inr vf"
    using assms by (auto simp: publish_body_def split: prod.splits sum.splits)
  obtain a vd where j: "judge_version vf (pq_key_column pq) (pq_required_columns pq) (pq_accept_assertions pq) (pq_review pq)
      (rows_at facts previous) = Inr (a, vd)"
    using assms vf by (auto simp: publish_body_def split: prod.splits sum.splits)
  have "\<exists>m. pr = (result_of (vd_outcome vd = Publish) previous (pq_version pq) (pq_declared_by pq) a vd)\<lparr>pr_moved_at := m\<rparr>"
    using assms vf j same
    by (simp add: publish_body_def Let_def split: prod.splits sum.splits if_splits) metis+
  with vf j show ?thesis by blast
qed

text \<open>
  Asking the gate and publishing agree. For a request that accepts nothing, when a publish returns,
  the gate asked about the same version, under the same declaration and against the row count that was
  published, returns too; it reports the same assertions, the same authority, the same hold and the
  same reasons, and it finds nothing wrong exactly when the publish published.
\<close>

theorem gate_agrees_with_publish:
  assumes "publish latest facts bm pq w = (Inr pr, w')" "pq_accept_assertions pq = []"
    and "rows_at facts (pr_from_version pr) = Inr rows"
  shows "\<exists>g. gate facts (pq_key_column pq) (pq_version pq) (pq_required_columns pq) (pq_declared_by pq) (pq_review pq) rows = Inr g \<and>
    pr_assertions g = pr_assertions pr \<and> pr_gate_source g = pr_gate_source pr \<and> pr_held g = pr_held pr \<and>
    pr_hold_reasons g = pr_hold_reasons pr \<and> pr_reason g = pr_reason pr \<and> (pr_published pr \<longleftrightarrow> pr_reason g = None) \<and>
    \<not> pr_published g"
proof -
  obtain previous w1 w2 where "publish_body facts bm pq previous w1 = (Inr pr, w2)"
    using publish_cases [OF assms(1)] by blast
  then obtain vf a vd m where vf: "facts (pq_version pq) = Inr vf"
    and j: "judge_version vf (pq_key_column pq) (pq_required_columns pq) [] (pq_review pq) (rows_at facts previous) = Inr (a, vd)"
    and pr: "pr = (result_of (vd_outcome vd = Publish) previous (pq_version pq) (pq_declared_by pq) a vd)\<lparr>pr_moved_at := m\<rparr>"
    using publish_body_result assms(2) by metis
  have "pr_from_version pr = previous" by (simp add: pr result_of_def)
  with assms(3) j have "judge_version vf (pq_key_column pq) (pq_required_columns pq) [] (pq_review pq) (Inr rows) = Inr (a, vd)"
    by simp
  then show ?thesis
    using vf by (auto simp: gate_def pr result_of_def)
qed

theorem gate_agrees_with_publish_witness:
  "let vf = \<lparr>vf_columns = [], vf_rows = 0, vf_nulls = (\<lambda>_. 0), vf_blobs = [],
         vf_blob_resolves = (\<lambda>_. True), vf_stable_row_ids = None\<rparr> in
   \<exists>g. gate (\<lambda>_. Inr vf) [] 2 [] [] None None = Inr g \<and> pr_reason g \<noteq> None"
proof -
  let ?vf = "\<lparr>vf_columns = [], vf_rows = 0, vf_nulls = (\<lambda>_. 0), vf_blobs = [],
         vf_blob_resolves = (\<lambda>_. True), vf_stable_row_ids = None\<rparr>"
  let ?pq = "\<lparr>pq_version = 2, pq_key_column = [], pq_required_columns = [], pq_accept_assertions = [],
         pq_tag = PUBLISHED_TAG, pq_declared_by = [], pq_review = None\<rparr>"
  let ?run = "publish (Inr 2) (\<lambda>_. Inr ?vf) (Inr ()) ?pq \<lparr>objects = [], clock = 0, pending = []\<rparr>"
  have "case fst ?run of Inr pr \<Rightarrow> \<not> pr_published pr \<and> pr_from_version pr = None | Inl _ \<Rightarrow> False" by code_simp
  then obtain pr where run: "?run = (Inr pr, snd ?run)" and pr: "\<not> pr_published pr" "pr_from_version pr = None"
    by (auto split: sum.splits simp: prod_eq_iff)
  have rows: "rows_at (\<lambda>_. Inr ?vf) (pr_from_version pr) = Inr None" by (simp add: pr rows_at_def)
  show ?thesis
    using gate_agrees_with_publish [OF run _ rows] pr by (auto simp: Let_def)
qed

text \<open>The request as the door hands it to the publish: the effective gate's fields in place of its own.\<close>

definition under_gate :: "EffectiveGate \<Rightarrow> publish_request \<Rightarrow> publish_request" where
  "under_gate eg pq = pq\<lparr>pq_key_column := eg_key_column eg, pq_required_columns := eg_required_columns eg,
     pq_declared_by := eg_declared_by eg, pq_review := eg_review eg\<rparr>"

lemma gate_passed_fewer:
  assumes "gate_passed facts pq previous" "set req \<subseteq> set (pq_required_columns pq)"
  shows "gate_passed facts (pq\<lparr>pq_required_columns := req\<rparr>) previous"
proof -
  have "set (assert_quality vf k req) \<subseteq> set (assert_quality vf k (pq_required_columns pq))" for vf k
    using assms(2) by (auto simp: assert_quality_def)
  then show ?thesis
    using assms(1) unfolding gate_passed_def by (simp add: subset_iff) blast
qed

text \<open>
  A request cannot weaken the gate its project declared. Whatever key column and columns the
  request names, a version that passes the gate composed with a project's declaration passes the
  declaration on its own: its key column, every declared column and its review band are still
  judged; and every column the request named is judged besides.
\<close>

theorem request_cannot_weaken_the_declared_gate:
  assumes "gate_passed facts (under_gate (effective_gate (Some gs) key req) pq) previous"
  shows "gate_passed facts (under_gate (effective_gate (Some gs) [] []) pq) previous \<and>
    eg_key_column (effective_gate (Some gs) key req) = gs_key_column gs \<and>
    set req \<subseteq> set (eg_required_columns (effective_gate (Some gs) key req)) \<and>
    (eg_review (effective_gate (Some gs) key req) \<noteq> None \<longleftrightarrow> gs_review_enabled gs)"
proof -
  let ?u = "under_gate (effective_gate (Some gs) key req) pq"
  have "under_gate (effective_gate (Some gs) [] []) pq = ?u\<lparr>pq_required_columns := gs_required_columns gs\<rparr>"
    by (simp add: under_gate_def effective_gate_def)
  moreover have "set (gs_required_columns gs) \<subseteq> set (pq_required_columns ?u)"
    by (simp add: under_gate_def effective_gate_def)
  ultimately show ?thesis
    using gate_passed_fewer [OF assms] by (auto simp: effective_gate_def)
qed

theorem request_cannot_weaken_the_declared_gate_witness:
  "let vf = \<lparr>vf_columns = [(''id'', ''int64'')], vf_rows = 3, vf_nulls = (\<lambda>_. 0), vf_blobs = [],
         vf_blob_resolves = (\<lambda>_. True), vf_stable_row_ids = None\<rparr>;
       pq = \<lparr>pq_version = 2, pq_key_column = [], pq_required_columns = [], pq_accept_assertions = [],
         pq_tag = PUBLISHED_TAG, pq_declared_by = [], pq_review = None\<rparr>;
       gs = \<lparr>gs_project = ''p'', gs_key_column = ''id'', gs_required_columns = [], gs_review_band = 0,
         gs_review_enabled = False, gs_review_hours = 1\<rparr> in
   gate_passed (\<lambda>_. Inr vf) (under_gate (effective_gate (Some gs) [] []) pq) None"
proof -
  let ?vf = "\<lparr>vf_columns = [(''id'', ''int64'')], vf_rows = 3, vf_nulls = (\<lambda>_. 0), vf_blobs = [],
         vf_blob_resolves = (\<lambda>_. True), vf_stable_row_ids = None\<rparr>"
  let ?pq = "\<lparr>pq_version = 2, pq_key_column = [], pq_required_columns = [], pq_accept_assertions = [],
         pq_tag = PUBLISHED_TAG, pq_declared_by = [], pq_review = None\<rparr>"
  let ?gs = "\<lparr>gs_project = ''p'', gs_key_column = ''id'', gs_required_columns = [], gs_review_band = 0,
         gs_review_enabled = False, gs_review_hours = 1\<rparr>"
  have "gate_passed (\<lambda>_. Inr ?vf) (under_gate (effective_gate (Some ?gs) ''other'' [''id'']) ?pq) None"
    by (simp add: gate_passed_def under_gate_def effective_gate_def assert_quality_def names_of_def
        tier_contract_violations_def SOURCE_ROWID_COLUMN_def make_assertion_def derive_severity_def)
  from request_cannot_weaken_the_declared_gate [OF this] show ?thesis by (simp add: Let_def)
qed


end
