(* ===== verification/Promotions.thy ===== *)
theory Promotions
  imports Publication
begin

text \<open>
  \<^verbatim>\<open>catalog/services/promotions.py\<close>: the hold on a version a project's gate keeps for a person, one
  record per table under \<^verbatim>\<open>_promotions/\<close>. A hold leaves \<^verbatim>\<open>open\<close> only through a conditional write that
  found it open.

  A stored JSON object is a \<open>Held\<close> hold where the model accepts it, and \<open>Unreadable\<close> otherwise, which
  \<^verbatim>\<open>_parse\<close> answers with \<^verbatim>\<open>None\<close>. Instants are microseconds, a hold's hours a rational number of
  them. \<open>hex\<close> is the SHA-256 hex digest.
\<close>

section \<open>Holds\<close>

definition holds_prefix :: string where
  "holds_prefix = ''_promotions''"

definition HOLD_TAG :: string where
  "HOLD_TAG = ''rask.held''"

datatype hold_state = Open | Approved | Rejected | Expired | Superseded

record hold =
  hd_table :: string
  hd_uuid :: string
  hd_location :: string
  hd_version :: int
  hd_published_version :: "int option"
  hd_reasons :: "string list"
  hd_requested_by :: "string option"
  hd_originator :: string
  hd_cascade_id :: string
  hd_opened_at :: int
  hd_expires_at :: int
  hd_state :: hold_state
  hd_decided_by :: "string option"
  hd_decided_at :: "int option"
  hd_restore_owed :: bool
  hd_restored_version :: "int option"

datatype hold_body = Held hold | Unreadable dict

type_synonym holds = "hold_body world"

definition hold_key :: "(string \<Rightarrow> string) \<Rightarrow> string \<Rightarrow> string" where
  "hold_key hex table_uuid = record_key hex holds_prefix ''hold'' table_uuid"

definition parse_hold :: "hold_body option \<Rightarrow> hold option" where
  "parse_hold raw = (case raw of Some (Held h) \<Rightarrow> Some h | _ \<Rightarrow> None)"

text \<open>\<^verbatim>\<open>Hold.model_validate\<close> of a record a write returned.\<close>

definition validated :: "hold_body \<Rightarrow> hold result" where
  "validated b = (case b of Held h \<Rightarrow> Inr h | Unreadable _ \<Rightarrow> Inl ValueError)"

definition hold_of :: "(string \<Rightarrow> string) \<Rightarrow> string \<Rightarrow> holds \<Rightarrow> hold option result \<times> holds" where
  "hold_of hex table_uuid w = (case get_record (hold_key hex table_uuid) w of
       (Inl e, w1) \<Rightarrow> (Inl e, w1)
     | (Inr raw, w1) \<Rightarrow> (Inr (parse_hold raw), w1))"

definition open_holds :: "holds \<Rightarrow> hold list result \<times> holds" where
  "open_holds w = (case list_records holds_prefix False w of
       (Inl e, w1) \<Rightarrow> (Inl e, w1)
     | (Inr raws, w1) \<Rightarrow>
         (Inr (sort_key hd_table (filter (\<lambda>h. hd_state h = Open)
            (List.map_filter (\<lambda>raw. parse_hold (Some raw)) raws))), w1))"

section \<open>Transitions\<close>

text \<open>\<^verbatim>\<open>open_hold\<close>: create the record, or replace the one that stands unless it holds a newer version.\<close>

definition replace_standing :: "hold \<Rightarrow> hold_body \<Rightarrow> hold_body result" where
  "replace_standing held current = (case parse_hold (Some current) of
       None \<Rightarrow> Inr (Held held)
     | Some standing \<Rightarrow>
         if hd_state standing \<noteq> Open \<or> hd_version standing < hd_version held then Inr (Held held)
         else if hd_version held < hd_version standing then Inl InvalidTableStateError
         else Inr current)"

definition open_hold ::
  "(string \<Rightarrow> string) \<Rightarrow> root \<Rightarrow> (hold_body content \<Rightarrow> 'e) \<Rightarrow> hold \<Rightarrow> holds \<Rightarrow> hold result \<times> holds" where
  "open_hold hex rt dg held w =
     (let k = hold_key hex (hd_uuid held) in
      case create_json k (Held held) w of
        (Inr _, w1) \<Rightarrow> (Inr held, w1)
      | (Inl e, w1) \<Rightarrow>
          if e \<noteq> RecordExistsError then (Inl e, w1)
          else (case mutate_json rt dg k (replace_standing held) w1 of
              (Inl e, w2) \<Rightarrow> (Inl e, w2)
            | (Inr u, w2) \<Rightarrow> (validated u, w2)))"

definition apply_step :: "(hold \<Rightarrow> hold result) \<Rightarrow> hold_body \<Rightarrow> hold_body result" where
  "apply_step step current = (case parse_hold (Some current) of
       None \<Rightarrow> Inl InvalidTableStateError
     | Some standing \<Rightarrow>
         if hd_state standing \<noteq> Open then Inl InvalidTableStateError
         else (case step standing of Inl e \<Rightarrow> Inl e | Inr h \<Rightarrow> Inr (Held h)))"

text \<open>\<^verbatim>\<open>mutate_json\<close> with an absent record answered as no such state, as three of the doors answer it.\<close>

definition mutate_hold ::
  "root \<Rightarrow> (hold_body content \<Rightarrow> 'e) \<Rightarrow> string \<Rightarrow> (hold_body \<Rightarrow> hold_body result) \<Rightarrow> holds
    \<Rightarrow> (hold_body \<times> hold) result \<times> holds" where
  "mutate_hold rt dg k f w = (case exchange_json rt dg k f mutate_attempts w of
       (Inl e, w1) \<Rightarrow> (Inl (if e = RecordMissingError then InvalidTableStateError else e), w1)
     | (Inr (r, u), w1) \<Rightarrow> (case validated u of Inl e \<Rightarrow> (Inl e, w1) | Inr h \<Rightarrow> (Inr (r, h), w1)))"

definition transition ::
  "(string \<Rightarrow> string) \<Rightarrow> root \<Rightarrow> (hold_body content \<Rightarrow> 'e) \<Rightarrow> string \<Rightarrow> (hold \<Rightarrow> hold result) \<Rightarrow> holds
    \<Rightarrow> hold result \<times> holds" where
  "transition hex rt dg table_uuid step w =
     (case mutate_hold rt dg (hold_key hex table_uuid) (apply_step step) w of
        (Inl e, w1) \<Rightarrow> (Inl e, w1)
      | (Inr (_, h), w1) \<Rightarrow> (Inr h, w1))"

record decision =
  dc_version :: int
  dc_location :: string
  dc_state :: hold_state
  dc_by :: "string option"
  dc_at :: int
  dc_restore_owed :: bool

definition decided :: "decision \<Rightarrow> hold \<Rightarrow> hold" where
  "decided dc h = h\<lparr>hd_state := dc_state dc, hd_decided_by := dc_by dc, hd_decided_at := Some (dc_at dc),
     hd_restore_owed := dc_restore_owed dc\<rparr>"

definition decide_on :: "decision \<Rightarrow> hold_body \<Rightarrow> hold_body result" where
  "decide_on dc current = (case parse_hold (Some current) of
       None \<Rightarrow> Inl InvalidTableStateError
     | Some standing \<Rightarrow>
         if hd_version standing \<noteq> dc_version dc \<or> hd_location standing \<noteq> dc_location dc then Inl InvalidTableStateError
         else if hd_state standing = dc_state dc then Inr current
         else if hd_state standing \<noteq> Open then Inl InvalidTableStateError
         else Inr (Held (decided dc standing)))"

text \<open>
  \<^verbatim>\<open>decide\<close> also answers whether this call decided. The source's flag is set by the run of the mutation
  whose write landed, so it says whether the record that write replaced was still open.
\<close>

definition decide ::
  "(string \<Rightarrow> string) \<Rightarrow> root \<Rightarrow> (hold_body content \<Rightarrow> 'e) \<Rightarrow> string \<Rightarrow> decision \<Rightarrow> holds
    \<Rightarrow> (hold \<times> bool) result \<times> holds" where
  "decide hex rt dg table_uuid dc w =
     (case mutate_hold rt dg (hold_key hex table_uuid) (decide_on dc) w of
        (Inl e, w1) \<Rightarrow> (Inl e, w1)
      | (Inr (r, h), w1) \<Rightarrow>
          (Inr (h, case parse_hold (Some r) of Some standing \<Rightarrow> hd_state standing \<noteq> dc_state dc | None \<Rightarrow> False), w1))"

definition settle :: "int \<Rightarrow> int option \<Rightarrow> hold_body \<Rightarrow> hold_body result" where
  "settle version restored current = (case parse_hold (Some current) of
       None \<Rightarrow> Inl InvalidTableStateError
     | Some standing \<Rightarrow>
         if hd_version standing \<noteq> version \<or> hd_state standing \<noteq> Rejected then Inl InvalidTableStateError
         else if \<not> hd_restore_owed standing then Inr current
         else Inr (Held (standing\<lparr>hd_restore_owed := False, hd_restored_version := restored\<rparr>)))"

definition record_restore ::
  "(string \<Rightarrow> string) \<Rightarrow> root \<Rightarrow> (hold_body content \<Rightarrow> 'e) \<Rightarrow> string \<Rightarrow> int \<Rightarrow> int option \<Rightarrow> holds
    \<Rightarrow> hold result \<times> holds" where
  "record_restore hex rt dg table_uuid version restored w =
     (case mutate_hold rt dg (hold_key hex table_uuid) (settle version restored) w of
        (Inl e, w1) \<Rightarrow> (Inl e, w1)
      | (Inr (_, h), w1) \<Rightarrow> (Inr h, w1))"

definition superseded :: "int \<Rightarrow> int \<Rightarrow> hold \<Rightarrow> hold result" where
  "superseded published t standing =
     (if published < hd_version standing then Inl InvalidTableStateError
      else Inr (standing\<lparr>hd_state := Superseded, hd_decided_at := Some t\<rparr>))"

definition supersede ::
  "(string \<Rightarrow> string) \<Rightarrow> root \<Rightarrow> (hold_body content \<Rightarrow> 'e) \<Rightarrow> string \<Rightarrow> int \<Rightarrow> int \<Rightarrow> holds
    \<Rightarrow> hold option result \<times> holds" where
  "supersede hex rt dg table_uuid published t w = (case hold_of hex table_uuid w of
       (Inl e, w1) \<Rightarrow> (Inl e, w1)
     | (Inr None, w1) \<Rightarrow> (Inr None, w1)
     | (Inr (Some h), w1) \<Rightarrow>
         if hd_state h \<noteq> Open \<or> published < hd_version h then (Inr None, w1)
         else (case transition hex rt dg table_uuid (superseded published t) w1 of
             (Inl e, w2) \<Rightarrow> if e = InvalidTableStateError then (Inr None, w2) else (Inl e, w2)
           | (Inr h, w2) \<Rightarrow> (Inr (Some h), w2)))"

definition due_holds :: "int \<Rightarrow> holds \<Rightarrow> hold list result \<times> holds" where
  "due_holds t w = (case open_holds w of
       (Inl e, w1) \<Rightarrow> (Inl e, w1)
     | (Inr hs, w1) \<Rightarrow> (Inr (filter (\<lambda>h. hd_expires_at h \<le> t) hs), w1))"

definition expired :: "hold \<Rightarrow> int \<Rightarrow> hold \<Rightarrow> hold result" where
  "expired h t standing =
     (if hd_version standing \<noteq> hd_version h \<or> t < hd_expires_at standing then Inl InvalidTableStateError
      else Inr (standing\<lparr>hd_state := Expired, hd_decided_at := Some t\<rparr>))"

definition expire ::
  "(string \<Rightarrow> string) \<Rightarrow> root \<Rightarrow> (hold_body content \<Rightarrow> 'e) \<Rightarrow> hold \<Rightarrow> int \<Rightarrow> holds \<Rightarrow> hold option result \<times> holds" where
  "expire hex rt dg h t w = (case transition hex rt dg (hd_uuid h) (expired h t) w of
       (Inl e, w1) \<Rightarrow> if e = InvalidTableStateError then (Inr None, w1) else (Inl e, w1)
     | (Inr h', w1) \<Rightarrow> (Inr (Some h'), w1))"

text \<open>\<^verbatim>\<open>timedelta\<close> rounds to the microsecond, half to even.\<close>

definition round_half_even :: "rat \<Rightarrow> int" where
  "round_half_even x =
     (let f = \<lfloor>x\<rfloor>; d = x - of_int f in
      if d < 1 / 2 then f else if 1 / 2 < d then f + 1 else if even f then f else f + 1)"

definition deadline :: "int \<Rightarrow> rat \<Rightarrow> int" where
  "deadline opened_at hours = opened_at + round_half_even (hours * 3600 * 1000000)"

definition sync_pin :: "hold option \<Rightarrow> tags \<Rightarrow> unit result \<times> tags" where
  "sync_pin h w = (case h of
       Some h \<Rightarrow> if hd_state h = Open then set_tag HOLD_TAG (hd_version h) w else drop_tag HOLD_TAG w
     | None \<Rightarrow> drop_tag HOLD_TAG w)"

section \<open>Every transition finds the record it judged\<close>

lemma mutate_hold_effect:
  assumes "inj dg" "mutate_hold S3 dg k f w = (x, w')" "\<And>r u. f r = Inr u \<Longrightarrow> \<exists>h. u = Held h"
  shows "\<exists>m. case x of Inl _ \<Rightarrow> w' = drift m w
    | Inr (r, h) \<Rightarrow> f r = Inr (Held h) \<and> lookup (drift m w) k = Some (Json r) \<and> w' = store_put k (Json (Held h)) (drift m w)"
proof -
  obtain y w1 where ex: "exchange_json S3 dg k f mutate_attempts w = (y, w1)" by force
  obtain m where m: "case y of Inl _ \<Rightarrow> w1 = drift m w
    | Inr (r, u) \<Rightarrow> f r = Inr u \<and> lookup (drift m w) k = Some (Json r) \<and> w1 = store_put k (Json u) (drift m w)"
    using exchange_json_effect [OF assms(1) ex] by blast
  show ?thesis
  proof (cases y)
    case (Inl e)
    with m assms(2) ex have "x \<in> range Inl \<and> w' = drift m w" by (auto simp: mutate_hold_def split: if_splits)
    then show ?thesis by auto
  next
    case (Inr ru)
    obtain r u where ru: "ru = (r, u)" by force
    with m Inr assms(3) obtain h where h: "u = Held h" "f r = Inr u" by auto
    with m Inr ru assms(2) ex show ?thesis by (auto simp: mutate_hold_def validated_def intro!: exI [of _ m])
  qed
qed

lemma mutate_hold_quiet:
  assumes "pending w = []" "lookup w k = Some (Json r)"
  shows "mutate_hold rt dg k f w = (case f r of
      Inl e \<Rightarrow> (Inl (if e = RecordMissingError then InvalidTableStateError else e), w)
    | Inr u \<Rightarrow> (case validated u of Inl e \<Rightarrow> (Inl e, store_put k (Json u) w) | Inr h \<Rightarrow> (Inr (r, h), store_put k (Json u) w)))"
proof -
  have five: "mutate_attempts = Suc 4" by (simp add: mutate_attempts_def)
  show ?thesis
  proof (cases "f r")
    case (Inl e)
    with exchange_json_quiet_raise [of w k r f e rt dg 4, OF assms] show ?thesis
      by (simp add: mutate_hold_def five)
  next
    case (Inr u)
    with exchange_json_quiet [of w k r f u rt dg 4, OF assms] show ?thesis
      by (simp add: mutate_hold_def five)
  qed
qed

lemma parse_hold_Some: "parse_hold (Some r) = Some h \<longleftrightarrow> r = Held h"
  by (auto simp: parse_hold_def split: hold_body.splits)

lemma parse_hold_Held [simp]: "parse_hold (Some (Held h)) = Some h"
  by (simp add: parse_hold_Some)

text \<open>What each mutation does with the record it finds, as one equivalence per door.\<close>

lemma decide_on_Inr: "decide_on dc r = Inr u \<longleftrightarrow> (\<exists>s. r = Held s \<and> hd_version s = dc_version dc \<and> hd_location s = dc_location dc \<and>
    (if hd_state s = dc_state dc then u = r else hd_state s = Open \<and> u = Held (decided dc s)))"
  by (cases r) (auto simp: decide_on_def parse_hold_def)

lemma settle_Inr: "settle v t r = Inr u \<longleftrightarrow> (\<exists>s. r = Held s \<and> hd_version s = v \<and> hd_state s = Rejected \<and>
    u = (if hd_restore_owed s then Held (s\<lparr>hd_restore_owed := False, hd_restored_version := t\<rparr>) else r))"
  by (cases r) (auto simp: settle_def parse_hold_def)

lemma apply_step_Inr: "apply_step step r = Inr u \<longleftrightarrow> (\<exists>s h. r = Held s \<and> hd_state s = Open \<and> step s = Inr h \<and> u = Held h)"
  by (cases r) (auto simp: apply_step_def parse_hold_def split: sum.splits)

lemma replace_standing_Inr: "replace_standing held r = Inr u \<longleftrightarrow>
    u = Held held \<and> (\<forall>s. r = Held s \<longrightarrow> hd_state s = Open \<longrightarrow> hd_version s < hd_version held) \<or>
    u = r \<and> (\<exists>s. r = Held s \<and> hd_state s = Open \<and> hd_version s = hd_version held)"
  by (cases r) (auto simp: replace_standing_def parse_hold_def)

text \<open>
  A decision lands on the hold it names, and only one decision is taken. On S3, however others
  interleave, a decision that returns wrote over a record that held exactly the named version at the
  named location; it reports that it decided exactly when that record was still open, and then the
  record becomes that hold with the decision on it; otherwise the same decision was recorded before
  and the record stays as it was. A decision that raises wrote nothing.
\<close>

theorem decision_lands_on_the_hold_it_names:
  assumes "inj dg" "decide hex S3 dg u dc w = (x, w')" "dc_state dc \<noteq> Open"
  shows "\<exists>m. case x of Inl _ \<Rightarrow> w' = drift m w
    | Inr (h, claimed) \<Rightarrow> \<exists>s. lookup (drift m w) (hold_key hex u) = Some (Json (Held s)) \<and>
        hd_version s = dc_version dc \<and> hd_location s = dc_location dc \<and>
        (claimed \<longleftrightarrow> hd_state s = Open) \<and> (\<not> claimed \<longrightarrow> hd_state s = dc_state dc) \<and>
        h = (if claimed then decided dc s else s) \<and> w' = store_put (hold_key hex u) (Json (Held h)) (drift m w)"
proof -
  obtain y w1 where mh: "mutate_hold S3 dg (hold_key hex u) (decide_on dc) w = (y, w1)" by force
  have held: "\<exists>h. v = Held h" if "decide_on dc r = Inr v" for r v
    using that by (auto simp: decide_on_Inr split: if_splits)
  obtain m where m: "case y of Inl _ \<Rightarrow> w1 = drift m w
    | Inr (r, h) \<Rightarrow> decide_on dc r = Inr (Held h) \<and> lookup (drift m w) (hold_key hex u) = Some (Json r) \<and>
        w1 = store_put (hold_key hex u) (Json (Held h)) (drift m w)"
    using mutate_hold_effect [OF assms(1) mh] held by blast
  show ?thesis
  proof (cases y)
    case (Inl e)
    with m mh assms(2) show ?thesis by (auto simp: decide_def)
  next
    case (Inr rh)
    obtain r h where rh: "rh = (r, h)" by force
    with m mh assms(2,3) Inr show ?thesis
      by (intro exI [of _ m]) (auto simp: decide_def decide_on_Inr split: if_splits)
  qed
qed

text \<open>A hold on version 7, for the concrete runs below.\<close>

definition sample_hold :: hold where
  "sample_hold = \<lparr>hd_table = ''t'', hd_uuid = ''u'', hd_location = ''s3://lake/t'', hd_version = 7, hd_published_version = Some 6,
     hd_reasons = [ROW_COUNT_DELTA], hd_requested_by = None, hd_originator = [], hd_cascade_id = [], hd_opened_at = 0,
     hd_expires_at = 100, hd_state = Open, hd_decided_by = None, hd_decided_at = None, hd_restore_owed = False,
     hd_restored_version = None\<rparr>"

definition sample_world :: "hold \<Rightarrow> holds" where
  "sample_world h = \<lparr>objects = [(hold_key rev ''u'', Json (Held h))], clock = 0, pending = []\<rparr>"

definition approval :: decision where
  "approval = \<lparr>dc_version = 7, dc_location = ''s3://lake/t'', dc_state = Approved, dc_by = Some ''ann'', dc_at = 50, dc_restore_owed = False\<rparr>"

lemma quiet_drift: "pending w = [] \<Longrightarrow> drift m w = w"
  by (induction m) (simp_all add: drift_def)

lemma drift_sample [simp]: "drift m (sample_world h) = sample_world h"
  by (simp add: quiet_drift sample_world_def)

theorem decision_lands_on_the_hold_it_names_witness:
  "\<exists>w'. decide rev S3 id ''u'' approval (sample_world sample_hold) = (Inr (decided approval sample_hold, True), w')"
proof -
  let ?run = "decide rev S3 id ''u'' approval (sample_world sample_hold)"
  have "fst ?run = Inr (decided approval sample_hold, True)" by code_simp
  then obtain h c w' where run: "?run = (Inr (h, c), w')" and c: "c" by (cases ?run) auto
  have "\<exists>s. lookup (sample_world sample_hold) (hold_key rev ''u'') = Some (Json (Held s)) \<and> h = decided approval s"
    using decision_lands_on_the_hold_it_names [OF inj_on_id run] c by (auto simp: approval_def)
  then have "h = decided approval sample_hold" by (auto simp: sample_world_def lookup_def)
  with run c show ?thesis by auto
qed

text \<open>
  A newer hold is never hidden. On S3, when a version is recorded as held, the record that stands is
  either that hold, and then no open hold on the same or a newer version was replaced, or the open
  hold on the same version that was there before, kept with its deadline. A call that raises wrote
  nothing.
\<close>

theorem newest_hold_stands:
  assumes "inj dg" "open_hold hex S3 dg held w = (x, w')"
  shows "\<exists>m. case x of Inl _ \<Rightarrow> w' = drift m w
    | Inr h \<Rightarrow> w' = store_put (hold_key hex (hd_uuid held)) (Json (Held h)) (drift m w) \<and>
        (h = held \<and> (\<forall>s. lookup (drift m w) (hold_key hex (hd_uuid held)) = Some (Json (Held s)) \<longrightarrow> hd_state s = Open \<longrightarrow>
             hd_version s < hd_version held) \<or>
         lookup (drift m w) (hold_key hex (hd_uuid held)) = Some (Json (Held h)) \<and> hd_state h = Open \<and>
           hd_version h = hd_version held)"
proof -
  let ?k = "hold_key hex (hd_uuid held)"
  obtain y w1 where cr: "create_json ?k (Held held) w = (y, w1)" by force
  show ?thesis
  proof (cases y)
    case (Inr a)
    then have "lookup (drift 1 w) ?k = None" "w1 = store_put ?k (Json (Held held)) (drift 1 w)"
      using cr create_json_effect [OF cr] cs.create_won [of ?k "Held held" w a w1] by (auto simp: drift_def)
    with cr Inr assms(2) show ?thesis by (intro exI [of _ 1]) (auto simp: open_hold_def Let_def)
  next
    case (Inl e)
    with create_json_effect [OF cr] have w1: "w1 = drift 1 w" by (simp add: drift_def)
    obtain z w2 where mj: "mutate_json S3 dg ?k (replace_standing held) w1 = (z, w2)" by force
    obtain m where m: "case z of Inl _ \<Rightarrow> w2 = drift m w1
      | Inr v \<Rightarrow> (\<exists>r. lookup (drift m w1) ?k = Some (Json r) \<and> replace_standing held r = Inr v) \<and> w2 = store_put ?k (Json v) (drift m w1)"
      using mutate_json_effect [OF assms(1) mj] by blast
    show ?thesis
    proof (cases "e = RecordExistsError")
      case False
      with cr Inl assms(2) w1 show ?thesis by (auto simp: open_hold_def Let_def)
    next
      case True
      with cr Inl assms(2) mj m show ?thesis
        unfolding w1 drift_add
        by (cases z) (auto simp: open_hold_def Let_def replace_standing_Inr validated_def intro!: exI [of _ "m + 1"])
    qed
  qed
qed

theorem newest_hold_stands_witness:
  "\<exists>w'. open_hold rev S3 id (sample_hold\<lparr>hd_expires_at := 900\<rparr>) (sample_world sample_hold) = (Inr sample_hold, w')"
proof -
  let ?run = "open_hold rev S3 id (sample_hold\<lparr>hd_expires_at := 900\<rparr>) (sample_world sample_hold)"
  have "case fst ?run of Inr h \<Rightarrow> hd_expires_at h = 100 | Inl _ \<Rightarrow> False" by code_simp
  then obtain h w' where run: "?run = (Inr h, w')" and h: "hd_expires_at h = 100" by (cases ?run) (auto split: sum.splits)
  have "lookup (sample_world sample_hold) (hold_key rev ''u'') = Some (Json (Held h))"
    using newest_hold_stands [OF inj_on_id run] h by (auto simp: sample_hold_def)
  then have "h = sample_hold" by (simp add: sample_world_def lookup_def)
  with run show ?thesis by blast
qed

text \<open>
  Only an overdue hold expires, and only the hold that was listed. On S3, an expiry that reports the
  expired hold wrote over a record that at that instant was open, on the listed version and past its
  deadline, and changed its state alone; an expiry that reports none, or raises, wrote nothing: a hold
  decided, taken again or expired by another replica meanwhile stays as it is.
\<close>

theorem only_an_overdue_hold_expires:
  assumes "inj dg" "expire hex S3 dg h t w = (x, w')"
  shows "\<exists>m. case x of Inr (Some h') \<Rightarrow> \<exists>s. lookup (drift m w) (hold_key hex (hd_uuid h)) = Some (Json (Held s)) \<and>
      hd_state s = Open \<and> hd_version s = hd_version h \<and> hd_expires_at s \<le> t \<and>
      h' = s\<lparr>hd_state := Expired, hd_decided_at := Some t\<rparr> \<and>
      w' = store_put (hold_key hex (hd_uuid h)) (Json (Held h')) (drift m w)
    | _ \<Rightarrow> w' = drift m w"
proof -
  let ?k = "hold_key hex (hd_uuid h)" and ?f = "apply_step (expired h t)"
  obtain y w1 where mh: "mutate_hold S3 dg ?k ?f w = (y, w1)" by force
  have held: "\<exists>h. v = Held h" if "?f r = Inr v" for r v
    using that by (auto simp: apply_step_Inr)
  obtain m where m: "case y of Inl _ \<Rightarrow> w1 = drift m w
    | Inr (r, h') \<Rightarrow> ?f r = Inr (Held h') \<and> lookup (drift m w) ?k = Some (Json r) \<and> w1 = store_put ?k (Json (Held h')) (drift m w)"
    using mutate_hold_effect [OF assms(1) mh] held by blast
  show ?thesis
  proof (cases y)
    case (Inl e)
    with m mh assms(2) show ?thesis by (auto simp: expire_def transition_def split: if_splits)
  next
    case (Inr rh)
    obtain r h' where rh: "rh = (r, h')" by force
    with m mh assms(2) Inr show ?thesis
      by (intro exI [of _ m]) (auto simp: expire_def transition_def apply_step_Inr expired_def split: if_splits)
  qed
qed

theorem only_an_overdue_hold_expires_witness:
  "\<exists>w'. expire rev S3 id sample_hold 100 (sample_world sample_hold) =
     (Inr (Some (sample_hold\<lparr>hd_state := Expired, hd_decided_at := Some 100\<rparr>)), w')"
proof -
  let ?run = "expire rev S3 id sample_hold 100 (sample_world sample_hold)"
  have "case fst ?run of Inr (Some h) \<Rightarrow> True | _ \<Rightarrow> False" by code_simp
  then obtain h w' where run: "?run = (Inr (Some h), w')" by (cases ?run) (auto split: sum.splits option.splits)
  have "\<exists>s. lookup (sample_world sample_hold) (hold_key rev ''u'') = Some (Json (Held s)) \<and>
      h = s\<lparr>hd_state := Expired, hd_decided_at := Some 100\<rparr>"
    using only_an_overdue_hold_expires [OF inj_on_id run] by (auto simp: sample_hold_def)
  then have "h = sample_hold\<lparr>hd_state := Expired, hd_decided_at := Some 100\<rparr>" by (auto simp: sample_world_def lookup_def)
  with run show ?thesis by blast
qed

section \<open>A decision is final\<close>

text \<open>What may come after a decision, on one table: another decision, the settlement of a rejection, a
  publication, the expiry cron. Each reports whether it took the hold out of \<open>Open\<close>.\<close>

datatype hold_op = Decides decision | Settles int "int option" | Publishes int int | Sweeps hold int

fun hold_run ::
  "(string \<Rightarrow> string) \<Rightarrow> root \<Rightarrow> (hold_body content \<Rightarrow> 'e) \<Rightarrow> string \<Rightarrow> hold_op \<Rightarrow> holds \<Rightarrow> bool \<times> holds" where
  "hold_run hex rt dg u (Decides dc) w = (case decide hex rt dg u dc w of
     (Inr (_, claimed), w1) \<Rightarrow> (claimed, w1) | (Inl _, w1) \<Rightarrow> (False, w1))"
| "hold_run hex rt dg u (Settles v t) w = (False, snd (record_restore hex rt dg u v t w))"
| "hold_run hex rt dg u (Publishes v t) w = (case supersede hex rt dg u v t w of
     (Inr (Some _), w1) \<Rightarrow> (True, w1) | (_, w1) \<Rightarrow> (False, w1))"
| "hold_run hex rt dg u (Sweeps h t) w = (case expire hex rt dg (h\<lparr>hd_uuid := u\<rparr>) t w of
     (Inr (Some _), w1) \<Rightarrow> (True, w1) | (_, w1) \<Rightarrow> (False, w1))"

fun hold_runs ::
  "(string \<Rightarrow> string) \<Rightarrow> root \<Rightarrow> (hold_body content \<Rightarrow> 'e) \<Rightarrow> string \<Rightarrow> hold_op list \<Rightarrow> holds \<Rightarrow> bool list \<times> holds" where
  "hold_runs hex rt dg u [] w = ([], w)"
| "hold_runs hex rt dg u (op # ops) w =
     (let (b, w1) = hold_run hex rt dg u op w; (bs, w2) = hold_runs hex rt dg u ops w1 in (b # bs, w2))"

text \<open>A settlement changes what a rejection owes, once; nothing else of a decided hold changes.\<close>

definition settled_from :: "hold \<Rightarrow> hold \<Rightarrow> bool" where
  "settled_from s s' \<longleftrightarrow> s' = s \<or>
     hd_state s = Rejected \<and> hd_restore_owed s \<and> (\<exists>t. s' = s\<lparr>hd_restore_owed := False, hd_restored_version := t\<rparr>)"

lemma settled_from_cases:
  assumes "settled_from s s'"
  obtains "s' = s"
  | t where "hd_state s = Rejected" "hd_restore_owed s" "s' = s\<lparr>hd_restore_owed := False, hd_restored_version := t\<rparr>"
  using assms unfolding settled_from_def by blast

lemma settled_from_trans:
  assumes "settled_from s s'" "settled_from s' s''" shows "settled_from s s''"
  using assms(1)
proof (cases rule: settled_from_cases)
  case 1
  with assms(2) show ?thesis by (simp only:)
next
  case (2 t)
  then have "\<not> hd_restore_owed s'" by simp
  with assms(2) have "s'' = s'" by (auto simp only: settled_from_def)
  with assms(1) show ?thesis by (simp only:)
qed

lemma settled_from_keeps:
  assumes "settled_from s s'"
  shows "hd_state s' = hd_state s" "hd_version s' = hd_version s" "hd_decided_by s' = hd_decided_by s"
    "hd_decided_at s' = hd_decided_at s" "\<not> hd_restore_owed s \<Longrightarrow> s' = s"
proof -
  have "hd_state s' = hd_state s \<and> hd_version s' = hd_version s \<and> hd_decided_by s' = hd_decided_by s \<and>
      hd_decided_at s' = hd_decided_at s \<and> (\<not> hd_restore_owed s \<longrightarrow> s' = s)"
    using assms
  proof (cases rule: settled_from_cases)
    case 1
    show ?thesis unfolding 1 by simp
  next
    case (2 t)
    show ?thesis unfolding 2(3) using 2(2) by simp
  qed
  then show "hd_state s' = hd_state s" "hd_version s' = hd_version s" "hd_decided_by s' = hd_decided_by s"
    "hd_decided_at s' = hd_decided_at s" "\<not> hd_restore_owed s \<Longrightarrow> s' = s"
    by blast+
qed

lemma rewrite_same: "lookup w k = Some c \<Longrightarrow> lookup (store_put k c w) = lookup w"
  by (auto simp: fun_eq_iff)

lemma hold_run_decided:
  assumes "pending w = []" "lookup w (hold_key hex u) = Some (Json (Held s))" "hd_state s \<noteq> Open"
    and "\<And>dc. op = Decides dc \<Longrightarrow> dc_state dc \<noteq> Open"
  shows "\<exists>s' w1. hold_run hex rt dg u op w = (False, w1) \<and> settled_from s s' \<and> pending w1 = [] \<and>
    lookup w1 (hold_key hex u) = Some (Json (Held s'))"
proof (cases op)
  case (Decides dc)
  have "dc_state dc \<noteq> Open" using assms(4) Decides by blast
  with Decides assms(1-3) show ?thesis
    by (auto simp: decide_def mutate_hold_quiet decide_on_def validated_def settled_from_def)
next
  case (Settles v t)
  with assms(1-3) show ?thesis
    by (auto simp: record_restore_def mutate_hold_quiet settle_def validated_def settled_from_def)
next
  case (Publishes v t)
  with assms(1-3) show ?thesis
    by (auto simp: supersede_def hold_of_def get_record_def settled_from_def)
next
  case (Sweeps h t)
  with assms(1-3) show ?thesis
    by (auto simp: expire_def transition_def mutate_hold_quiet apply_step_def settled_from_def)
qed



end
