(* ===== verification/Derived_Tables.thy ===== *)
theory Derived_Tables
  imports Records
begin

text \<open>
  Which tables were derived from a table: \<^verbatim>\<open>lakehouse_kit/derived_tables.py\<close>, the walk over recorded
  edges, and \<^verbatim>\<open>catalog/services/table_inputs.py\<close>, the catalog's own record of the inputs each table's
  commits declared.

  A set of keys is a list; the order a Python set is iterated in is not modelled beyond that, and it
  decides only which of two equally new names a table is shown under. Instants are microseconds. The
  Lance reader behind an edge list is an argument: it answers a filter of at most
  \<^verbatim>\<open>IN_LIST_SIZE\<close> keys.
\<close>

section \<open>The walk (\<^verbatim>\<open>derived_tables.py\<close>)\<close>

text \<open>One edge as a walk reads it: the derived table's key, the name its run used, when it was recorded.\<close>

record edge_row =
  er_out :: string
  er_name :: "string option"
  er_at :: int

type_synonym edge_rows = "string list \<Rightarrow> edge_row list"

definition IN_LIST_SIZE :: nat where
  "IN_LIST_SIZE = 500"

fun in_chunks :: "nat \<Rightarrow> string list \<Rightarrow> string list list" where
  "in_chunks 0 keys = []"
| "in_chunks (Suc n) [] = []"
| "in_chunks (Suc n) keys = take IN_LIST_SIZE keys # in_chunks n (drop IN_LIST_SIZE keys)"

text \<open>\<^verbatim>\<open>in_lists\<close>: the sorted values, cut into lists of bounded length; the SQL text of a filter is the reader's.\<close>

definition in_lists :: "string list \<Rightarrow> string list list" where
  "in_lists vals = in_chunks (length vals) (sort vals)"

definition filtered :: "(string list \<Rightarrow> edge_row list) \<Rightarrow> edge_rows" where
  "filtered read inputs = concat (map read (in_lists inputs))"

definition joined :: "edge_rows list \<Rightarrow> edge_rows" where
  "joined sources inputs = concat (map (\<lambda>rows. rows inputs) sources)"

record derived_walk =
  dw_depths :: "(string \<times> nat) list"
  dw_names :: "(string \<times> string) list"
  dw_complete :: bool

type_synonym newest = "(string \<times> (int \<times> string)) list"

definition note_row :: "edge_row \<Rightarrow> string list \<times> newest \<Rightarrow> string list \<times> newest" where
  "note_row row acc = (case acc of (found, newest) \<Rightarrow>
     (let key = er_out row;
          named = (er_at row, case er_name row of None \<Rightarrow> key | Some n \<Rightarrow> if n = [] then key else n) in
      (List.insert key found,
       case map_of newest key of
         None \<Rightarrow> AList.update key named newest
       | Some old \<Rightarrow> if fst old \<le> fst named then AList.update key named newest else newest)))"

definition outputs :: "edge_rows \<Rightarrow> string list \<Rightarrow> newest \<Rightarrow> string list \<times> newest" where
  "outputs rows inputs newest = fold note_row (rows inputs) ([], newest)"

definition walked :: "(string \<times> nat) list \<Rightarrow> newest \<Rightarrow> bool \<Rightarrow> derived_walk" where
  "walked depths newest complete = \<lparr>dw_depths = depths,
     dw_names = List.map_filter (\<lambda>(k, _). map_option (\<lambda>n. (k, snd n)) (map_of newest k)) depths, dw_complete = complete\<rparr>"

text \<open>
  \<^verbatim>\<open>walk\<close>: the loop ends once a round found no new table; that it does is proved below, for a reader
  that answers from finitely many edges.
\<close>

partial_function (option) walk_loop ::
  "edge_rows \<Rightarrow> string list \<Rightarrow> int option \<Rightarrow> (string \<times> nat) list \<Rightarrow> newest \<Rightarrow> string list \<Rightarrow> nat \<Rightarrow> derived_walk option" where
  "walk_loop rows sources max_depth depths newest frontier depth =
     (if frontier = [] then Some (walked depths newest True)
      else (let out = outputs rows frontier newest;
                found = filter (\<lambda>k. k \<notin> fst ` set depths \<and> k \<notin> set sources) (fst out) in
        if max_depth = Some (int depth) then Some (walked depths (snd out) (found = []))
        else walk_loop rows sources max_depth (depths @ map (\<lambda>k. (k, depth + 1)) found) (snd out) found (depth + 1)))"

definition walk :: "edge_rows \<Rightarrow> string list \<Rightarrow> int option \<Rightarrow> derived_walk option" where
  "walk rows sources max_depth = walk_loop rows sources max_depth [] [] sources 0"

text \<open>
  \<^verbatim>\<open>is_table_uuid\<close>: \<^verbatim>\<open>str(uuid.UUID(key)) == key.lower()\<close> holds of exactly the keys whose lower case is
  the canonical hyphenated spelling.
\<close>

definition hex_chars :: "char set" where
  "hex_chars = set ''0123456789abcdef''"

definition is_table_uuid :: "string \<Rightarrow> bool" where
  "is_table_uuid key = (case split_on (CHR ''-'') (map lower_char key) of
       [a, b, c, d, e] \<Rightarrow> map length [a, b, c, d, e] = [8, 4, 4, 4, 12] \<and> list_all (list_all (\<lambda>x. x \<in> hex_chars)) [a, b, c, d, e]
     | _ \<Rightarrow> False)"

section \<open>What the commits declared (\<^verbatim>\<open>table_inputs.py\<close>)\<close>

record declared_input =
  di_first_declared_at :: int
  di_version :: int
  di_branch :: "string option"

record table_inputs =
  ti_table_uuid :: string
  ti_name :: string
  ti_inputs :: "(string \<times> declared_input) list"

text \<open>A stored object either validates as a record or does not.\<close>

datatype inputs_body = Inputs table_inputs | Malformed

type_synonym inputs_world = "inputs_body world"

text \<open>The input a run names: the version and the branch of a table it read (\<^verbatim>\<open>RunInput\<close>).\<close>

record run_input =
  ri_version :: int
  ri_branch :: "string option"

definition inputs_prefix :: string where
  "inputs_prefix = ''_table_inputs''"

definition inputs_attempts :: nat where
  "inputs_attempts = 8"

definition inputs_key :: "(string \<Rightarrow> string) \<Rightarrow> string \<Rightarrow> string" where
  "inputs_key hex table_uuid = record_key hex inputs_prefix ''table'' table_uuid"

definition parsed_inputs :: "inputs_body \<Rightarrow> table_inputs result" where
  "parsed_inputs b = (case b of Inputs ti \<Rightarrow> Inr ti | Malformed \<Rightarrow> Inl InternalError)"

definition added_inputs :: "(string \<times> run_input) list \<Rightarrow> int \<Rightarrow> table_inputs \<Rightarrow> (string \<times> declared_input) list" where
  "added_inputs declared now current =
     map (\<lambda>(u, e). (u, \<lparr>di_first_declared_at = now, di_version = ri_version e, di_branch = ri_branch e\<rparr>))
       (filter (\<lambda>(u, _). u \<notin> fst ` set (ti_inputs current)) declared)"

text \<open>The body of \<^verbatim>\<open>record\<close>'s loop between its read and its write.\<close>

definition judge_inputs ::
  "string \<Rightarrow> string \<Rightarrow> (string \<times> run_input) list \<Rightarrow> inputs_body option \<Rightarrow> int \<Rightarrow> (inputs_body, unit) verdict" where
  "judge_inputs table_uuid name declared found now =
     (case (case found of None \<Rightarrow> Inr \<lparr>ti_table_uuid = table_uuid, ti_name = name, ti_inputs = []\<rparr> | Some b \<Rightarrow> parsed_inputs b) of
        Inl e \<Rightarrow> Stop (Inl e)
      | Inr current \<Rightarrow>
          (let added = added_inputs declared now current in
           if added = [] \<and> ti_name current = name then Stop (Inr ())
           else Write (Inputs \<lparr>ti_table_uuid = table_uuid, ti_name = name, ti_inputs = ti_inputs current @ added\<rparr>) ()))"

definition record_inputs ::
  "(string \<Rightarrow> string) \<Rightarrow> root \<Rightarrow> (inputs_body content \<Rightarrow> 'e) \<Rightarrow> string \<Rightarrow> string \<Rightarrow> (string \<times> run_input) list \<Rightarrow> inputs_world
    \<Rightarrow> unit result \<times> inputs_world" where
  "record_inputs hex rt dg table_uuid name declared w =
     (case cas_loop rt dg (inputs_key hex table_uuid) (judge_inputs table_uuid name declared) inputs_attempts w of
        (Inl e, w1) \<Rightarrow> (Inl (if e = RecordChangedError then InternalError else e), w1)
      | (Inr _, w1) \<Rightarrow> (Inr (), w1))"

text \<open>\<^verbatim>\<open>recorder\<close>: nothing to record when the commit declares no input.\<close>

definition recorder ::
  "(string \<Rightarrow> string) \<Rightarrow> root \<Rightarrow> (inputs_body content \<Rightarrow> 'e) \<Rightarrow> string \<Rightarrow> (string \<times> run_input) list
    \<Rightarrow> (string \<Rightarrow> inputs_world \<Rightarrow> unit result \<times> inputs_world) option" where
  "recorder hex rt dg name declared =
     (if declared = [] then None else Some (\<lambda>table_uuid. record_inputs hex rt dg table_uuid name declared))"

fun parse_all :: "inputs_body list \<Rightarrow> table_inputs list result" where
  "parse_all [] = Inr []"
| "parse_all (b # bs) = (case parsed_inputs b of
       Inl e \<Rightarrow> Inl e
     | Inr ti \<Rightarrow> (case parse_all bs of Inl e \<Rightarrow> Inl e | Inr tis \<Rightarrow> Inr (ti # tis)))"

definition every_record :: "inputs_world \<Rightarrow> table_inputs list result \<times> inputs_world" where
  "every_record w = (case list_records inputs_prefix True w of
       (Inl e, w1) \<Rightarrow> (Inl e, w1)
     | (Inr bs, w1) \<Rightarrow> (parse_all bs, w1))"

definition as_edges :: "table_inputs list \<Rightarrow> edge_rows" where
  "as_edges records inputs =
     concat (map (\<lambda>key. concat (map (\<lambda>entry.
       map (\<lambda>(_, d). \<lparr>er_out = ti_table_uuid entry, er_name = Some (ti_name entry), er_at = di_first_declared_at d\<rparr>)
         (filter (\<lambda>(u, _). u = key) (ti_inputs entry))) records)) inputs)"

section \<open>An edge list and its walk\<close>

text \<open>
  What a walk relies on: \<open>rows\<close> answers, for a list of keys, edges to exactly the tables the relation
  \<open>E\<close> derives from one of them, and \<open>E\<close> is finite.
\<close>

locale edge_list =
  fixes rows :: edge_rows and E :: "(string \<times> string) set"
  assumes answers: "er_out ` set (rows keys) = {b. \<exists>a\<in>set keys. (a, b) \<in> E}"
    and finite_edges: "finite E"
begin

text \<open>\<open>hops S n k\<close>: a chain of \<open>n\<close> edges leads from a source to \<open>k\<close>; \<open>nearest\<close>: and no shorter one does.\<close>

definition hops :: "string set \<Rightarrow> nat \<Rightarrow> string \<Rightarrow> bool" where
  "hops S n k = (\<exists>s\<in>S. (s, k) \<in> E ^^ n)"

definition nearest :: "string set \<Rightarrow> nat \<Rightarrow> string \<Rightarrow> bool" where
  "nearest S n k = (hops S n k \<and> (\<forall>m<n. \<not> hops S m k))"

lemma hops_0: "hops S 0 k \<longleftrightarrow> k \<in> S"
  by (auto simp: hops_def)

lemma hops_Suc: "hops S (Suc n) k \<longleftrightarrow> (\<exists>a. hops S n a \<and> (a, k) \<in> E)"
  by (auto simp: hops_def)

lemma nearest_0: "nearest S 0 k \<longleftrightarrow> k \<in> S"
  by (simp add: nearest_def hops_0)

lemma nearest_unique: "nearest S m k \<Longrightarrow> nearest S n k \<Longrightarrow> m = n"
  by (auto simp: nearest_def dest: leI intro: linorder_cases [of m n])

lemma hops_nearest: "hops S n k \<Longrightarrow> \<exists>m\<le>n. nearest S m k"
  using LeastI [of "\<lambda>m. hops S m k" n] Least_le [of "\<lambda>m. hops S m k" n] not_less_Least [of _ "\<lambda>m. hops S m k"]
  unfolding nearest_def by blast

lemma nearest_step:
  "nearest S (Suc n) k \<longleftrightarrow> (\<exists>a. nearest S n a \<and> (a, k) \<in> E) \<and> (\<forall>m\<le>n. \<not> nearest S m k)"
proof
  assume l: "nearest S (Suc n) k"
  then obtain a where a: "hops S n a" "(a, k) \<in> E" by (auto simp: nearest_def hops_Suc)
  have "\<not> hops S m a" if "m < n" for m
    using l a(2) that hops_Suc [of S m k] by (auto simp: nearest_def)
  with a l show "(\<exists>a. nearest S n a \<and> (a, k) \<in> E) \<and> (\<forall>m\<le>n. \<not> nearest S m k)"
    by (auto simp: nearest_def less_Suc_eq_le)
next
  assume r: "(\<exists>a. nearest S n a \<and> (a, k) \<in> E) \<and> (\<forall>m\<le>n. \<not> nearest S m k)"
  then have "hops S (Suc n) k" by (auto simp: nearest_def hops_Suc)
  moreover have "\<not> hops S m k" if "m < Suc n" for m
    using hops_nearest [of S m k] r that by (auto simp: less_Suc_eq_le)
  ultimately show "nearest S (Suc n) k" by (auto simp: nearest_def)
qed

lemma nearest_below: "nearest S n k \<Longrightarrow> m \<le> n \<Longrightarrow> \<exists>a. nearest S m a"
proof (induction n arbitrary: k)
  case (Suc n)
  then show ?case by (cases "m = Suc n") (auto simp: nearest_step le_Suc_eq)
qed auto

lemma fst_outputs: "set (fst (outputs rows keys newest)) = {b. \<exists>a\<in>set keys. (a, b) \<in> E}"
proof -
  have "set (fst (fold note_row rs acc)) = set (fst acc) \<union> er_out ` set rs" for rs acc
    by (induction rs arbitrary: acc) (auto simp: note_row_def Let_def split: prod.splits)
  then show ?thesis by (simp add: outputs_def answers)
qed

text \<open>The state of the walk after \<open>n\<close> rounds: every table at most \<open>n\<close> hops away, and the frontier at exactly \<open>n\<close>.\<close>

definition walk_inv :: "string set \<Rightarrow> (string \<times> nat) list \<Rightarrow> string list \<Rightarrow> nat \<Rightarrow> bool" where
  "walk_inv S depths frontier n \<longleftrightarrow> set depths = {(k, m). nearest S m k \<and> 1 \<le> m \<and> m \<le> n} \<and> set frontier = {k. nearest S n k}"

lemma walk_inv_start: "walk_inv (set sources) [] sources 0"
  by (auto simp: walk_inv_def nearest_0)

lemma walk_inv_found:
  assumes "walk_inv (set sources) depths frontier n"
  shows "set (filter (\<lambda>k. k \<notin> fst ` set depths \<and> k \<notin> set sources) (fst (outputs rows frontier newest)))
    = {k. nearest (set sources) (Suc n) k}"
proof -
  let ?S = "set sources"
  have "k \<notin> fst ` set depths \<and> k \<notin> ?S \<longleftrightarrow> (\<forall>m\<le>n. \<not> nearest ?S m k)" for k
    using assms nearest_0 [of ?S k] by (auto simp: walk_inv_def image_iff) (metis One_nat_def Suc_leI not_gr_zero)
  then show ?thesis
    using assms by (auto simp: fst_outputs nearest_step walk_inv_def)
qed

lemma walk_inv_round:
  assumes "walk_inv (set sources) depths frontier n"
    and "set found = {k. nearest (set sources) (Suc n) k}"
  shows "walk_inv (set sources) (depths @ map (\<lambda>k. (k, n + 1)) found) found (Suc n)"
  using assms by (auto simp: walk_inv_def le_Suc_eq)

text \<open>How far a walk goes: to \<open>max_depth\<close> hops, and to the last table without one (or with a negative one).\<close>

definition within_depth :: "int option \<Rightarrow> nat \<Rightarrow> bool" where
  "within_depth max_depth n = (case max_depth of None \<Rightarrow> True | Some d \<Rightarrow> 0 \<le> d \<longrightarrow> int n \<le> d)"

definition walk_answer :: "string set \<Rightarrow> int option \<Rightarrow> derived_walk \<Rightarrow> bool" where
  "walk_answer S max_depth dw \<longleftrightarrow> set (dw_depths dw) = {(k, m). nearest S m k \<and> 1 \<le> m \<and> within_depth max_depth m} \<and>
     (dw_complete dw \<longleftrightarrow> (\<forall>m k. nearest S m k \<longrightarrow> within_depth max_depth m))"

lemma walk_ends:
  assumes "walk_inv (set sources) depths frontier n" "within_depth max_depth n" "frontier = []"
  shows "walk_answer (set sources) max_depth (walked depths newest True)"
proof -
  let ?S = "set sources"
  have "m < n" if "nearest ?S m k" for m k
    using nearest_below [OF that, of n] assms(1,3) by (force simp: walk_inv_def not_less [symmetric])
  moreover have "within_depth max_depth m" if "m < n" for m
    using assms(2) that by (auto simp: within_depth_def split: option.splits)
  ultimately show ?thesis
    using assms(1) by (auto simp: walk_answer_def walk_inv_def walked_def less_imp_le)
qed

lemma walk_stops:
  assumes "walk_inv (set sources) depths frontier n" "set found = {k. nearest (set sources) (Suc n) k}"
  shows "walk_answer (set sources) (Some (int n)) (walked depths newest (found = []))"
proof -
  let ?S = "set sources"
  have "found = [] \<longleftrightarrow> (\<forall>k. \<not> nearest ?S (Suc n) k)"
    using assms(2) by (metis empty_Collect_eq set_empty)
  also have "\<dots> \<longleftrightarrow> (\<forall>m k. nearest ?S m k \<longrightarrow> m \<le> n)"
    using nearest_below by (metis not_less_eq_eq order_refl)
  finally show ?thesis
    using assms(1) by (auto simp: walk_answer_def walk_inv_def walked_def within_depth_def)
qed

text \<open>What is left to find falls with every round that finds something, so the loop ends.\<close>

lemma walk_loop_answers:
  assumes "walk_inv (set sources) depths frontier n" "within_depth max_depth n"
  shows "\<exists>dw. walk_loop rows sources max_depth depths newest frontier n = Some dw \<and> walk_answer (set sources) max_depth dw"
  using assms
proof (induction "card (Range E - fst ` set depths) + (if frontier = [] then 0 else 1)"
    arbitrary: depths frontier newest n rule: less_induct)
  case less
  let ?out = "outputs rows frontier newest"
  let ?found = "filter (\<lambda>k. k \<notin> fst ` set depths \<and> k \<notin> set sources) (fst ?out)"
  let ?depths = "depths @ map (\<lambda>k. (k, n + 1)) ?found"
  note found = walk_inv_found [OF less.prems(1), of newest]
  show ?case
  proof (cases "frontier = []")
    case True
    with walk_ends [OF less.prems] show ?thesis by (simp add: walk_loop.simps)
  next
    case False
    show ?thesis
    proof (cases "max_depth = Some (int n)")
      case True
      with False walk_stops [OF less.prems(1) found, of "snd ?out"] show ?thesis
        by (simp add: walk_loop.simps Let_def)
    next
      case deeper: False
      have sub: "set ?found \<subseteq> Range E - fst ` set depths" by (auto simp: fst_outputs)
      then have "card (Range E - fst ` set ?depths) + (if ?found = [] then 0 else 1)
          < card (Range E - fst ` set depths) + (if frontier = [] then 0 else 1)"
      proof (cases "?found = []")
        case True
        with False show ?thesis unfolding True by simp
      next
        case found: False
        then have less: "Range E - fst ` set ?depths \<subset> Range E - fst ` set depths"
          using sub hd_in_set [OF found] by (auto simp: image_Un image_image)
        have "card (Range E - fst ` set ?depths) < card (Range E - fst ` set depths)"
          by (intro psubset_card_mono finite_Diff finite_Range finite_edges less)
        with found False show ?thesis by (simp only: if_False add_less_cancel_right)
      qed
      moreover have "within_depth max_depth (Suc n)"
        using less.prems(2) deeper by (auto simp: within_depth_def split: option.splits)
      ultimately obtain dw where "walk_loop rows sources max_depth ?depths (snd ?out) ?found (Suc n) = Some dw"
        "walk_answer (set sources) max_depth dw"
        using less.hyps [OF _ walk_inv_round [OF less.prems(1) found]] by blast
      with False deeper show ?thesis by (subst walk_loop.simps) (simp add: Let_def)
    qed
  qed
qed

lemma walk_answers: "\<exists>dw. walk rows sources max_depth = Some dw \<and> walk_answer (set sources) max_depth dw"
  unfolding walk_def by (rule walk_loop_answers [OF walk_inv_start]) (auto simp: within_depth_def split: option.splits)

end

text \<open>The input records are an edge list: an edge from each declared input to the table that declared it.\<close>

definition declared_edges :: "table_inputs list \<Rightarrow> (string \<times> string) set" where
  "declared_edges records = (\<Union>entry\<in>set records. fst ` set (ti_inputs entry) \<times> {ti_table_uuid entry})"

interpretation declared: edge_list "as_edges records" "declared_edges records" for records
  by unfold_locales (force simp: as_edges_def declared_edges_def image_iff)+

lemma joined_edge_list:
  assumes "edge_list rows1 E1" "edge_list rows2 E2"
  shows "edge_list (joined [rows1, rows2]) (E1 \<union> E2)"
  using edge_list.answers [OF assms(1)] edge_list.answers [OF assms(2)]
    edge_list.finite_edges [OF assms(1)] edge_list.finite_edges [OF assms(2)]
  by unfold_locales (auto simp: joined_def image_Un)

lemma in_chunks_bounded: "ks \<in> set (in_chunks n keys) \<Longrightarrow> length ks \<le> IN_LIST_SIZE"
  by (induction n keys rule: in_chunks.induct) auto

lemma in_chunks_cover: "length keys \<le> n \<Longrightarrow> \<Union> (set ` set (in_chunks n keys)) = set keys"
proof (induction n keys rule: in_chunks.induct)
  case (3 n k keys)
  have "set (take IN_LIST_SIZE (k # keys)) \<union> set (drop IN_LIST_SIZE (k # keys)) = set (k # keys)"
    by (metis append_take_drop_id set_append)
  with 3 show ?case by (simp add: IN_LIST_SIZE_def)
qed simp_all

text \<open>A Lance reader that answers a bounded filter exactly is an edge list through \<^verbatim>\<open>filtered\<close>.\<close>

lemma filtered_edge_list:
  assumes "\<And>keys. length keys \<le> IN_LIST_SIZE \<Longrightarrow> er_out ` set (read keys) = {b. \<exists>a\<in>set keys. (a, b) \<in> R}" "finite R"
  shows "edge_list (filtered read) R"
proof
  fix keys
  have answer: "er_out ` set (read ks) = {b. \<exists>a\<in>set ks. (a, b) \<in> R}" if "ks \<in> set (in_lists keys)" for ks
    using assms(1) in_chunks_bounded that unfolding in_lists_def by blast
  have "er_out ` set (filtered read keys) = (\<Union>ks\<in>set (in_lists keys). er_out ` set (read ks))"
    by (simp add: filtered_def image_UN)
  also have "\<dots> = (\<Union>ks\<in>set (in_lists keys). {b. \<exists>a\<in>set ks. (a, b) \<in> R})"
    using answer by simp
  also have "\<dots> = {b. \<exists>a\<in>\<Union> (set ` set (in_lists keys)). (a, b) \<in> R}" by auto
  finally show "er_out ` set (filtered read keys) = {b. \<exists>a\<in>set keys. (a, b) \<in> R}"
    by (simp add: in_lists_def in_chunks_cover)
qed (rule assms(2))

section \<open>Properties\<close>

text \<open>
  C7: The walk names every derived table and nothing else. Over the catalog's input records and any edge
  list whose Lance reader answers a bounded filter exactly (at most \<open>IN_LIST_SIZE\<close> keys), the walk to the
  last table ends and is complete; a key is among its tables with depth \<open>n\<close> exactly when it is no key of
  the source, a chain of \<open>n\<close> recorded edges leads to it from the source, and no shorter one does,
  whatever cycles the edges hold.
\<close>

theorem walk_reaches_exactly_the_derived_tables:
  assumes "\<And>keys. length keys \<le> IN_LIST_SIZE \<Longrightarrow> er_out ` set (read keys) = {b. \<exists>a\<in>set keys. (a, b) \<in> R}" "finite R"
    and E: "E = declared_edges records \<union> R"
  shows "\<exists>dw. walk (joined [as_edges records, filtered read]) sources None = Some dw \<and> dw_complete dw \<and>
    (\<forall>k n. map_of (dw_depths dw) k = Some n \<longleftrightarrow>
       k \<notin> set sources \<and> (\<exists>s\<in>set sources. (s, k) \<in> E ^^ n) \<and> (\<forall>m<n. \<forall>s\<in>set sources. (s, k) \<notin> E ^^ m))"
proof -
  let ?rows = "joined [as_edges records, filtered read]"
  have el: "edge_list ?rows E"
    unfolding E by (rule joined_edge_list [OF declared.edge_list_axioms filtered_edge_list [OF assms(1,2)]])
  obtain dw where dw: "walk ?rows sources None = Some dw" "edge_list.walk_answer E (set sources) None dw"
    using edge_list.walk_answers [OF el] by blast
  have depths: "(k, n) \<in> set (dw_depths dw) \<longleftrightarrow> edge_list.nearest E (set sources) n k \<and> 1 \<le> n" for k n
    using dw(2) by (simp add: edge_list.walk_answer_def [OF el] edge_list.within_depth_def [OF el])
  have "map_of (dw_depths dw) k = Some n \<longleftrightarrow> (k, n) \<in> set (dw_depths dw)" for k n
    using depths edge_list.nearest_unique [OF el] by (metis map_of_SomeD weak_map_of_SomeI)
  moreover have "edge_list.nearest E (set sources) n k \<and> 1 \<le> n \<longleftrightarrow>
      k \<notin> set sources \<and> (\<exists>s\<in>set sources. (s, k) \<in> E ^^ n) \<and> (\<forall>m<n. \<forall>s\<in>set sources. (s, k) \<notin> E ^^ m)" for k n
  proof (cases n)
    case (Suc l)
    have "k \<notin> set sources" if "\<forall>m<n. \<forall>s\<in>set sources. (s, k) \<notin> E ^^ m"
      using that [rule_format, of 0 k] Suc by auto
    with Suc show ?thesis unfolding edge_list.nearest_def [OF el] edge_list.hops_def [OF el] by auto
  qed (auto simp: edge_list.nearest_def [OF el] edge_list.hops_def [OF el])
  moreover have "dw_complete dw"
    using dw(2) by (simp add: edge_list.walk_answer_def [OF el] edge_list.within_depth_def [OF el])
  ultimately show ?thesis using dw(1) depths by blast
qed

definition sample_inputs :: "table_inputs list" where
  "sample_inputs = [
     \<lparr>ti_table_uuid = ''b'', ti_name = ''ns$b'', ti_inputs = [(''a'', \<lparr>di_first_declared_at = 1, di_version = 1, di_branch = None\<rparr>)]\<rparr>,
     \<lparr>ti_table_uuid = ''a'', ti_name = ''ns$a'', ti_inputs = [(''c'', \<lparr>di_first_declared_at = 3, di_version = 1, di_branch = None\<rparr>)]\<rparr>]"

definition sample_reader :: "string list \<Rightarrow> edge_row list" where
  "sample_reader keys = (if ''b'' \<in> set keys then [\<lparr>er_out = ''c'', er_name = None, er_at = 2\<rparr>] else [])"

theorem walk_reaches_exactly_the_derived_tables_witness:
  "\<exists>dw. walk (joined [as_edges sample_inputs, filtered sample_reader]) [''a''] None = Some dw \<and> dw_complete dw \<and>
     map_of (dw_depths dw) ''b'' = Some 1 \<and> map_of (dw_depths dw) ''a'' = None"
proof -
  let ?E = "declared_edges sample_inputs \<union> {(''b'', ''c'')}"
  obtain dw where dw: "walk (joined [as_edges sample_inputs, filtered sample_reader]) [''a''] None = Some dw" "dw_complete dw"
    "\<And>k n. map_of (dw_depths dw) k = Some n \<longleftrightarrow>
       k \<notin> set [''a''] \<and> (\<exists>s\<in>set [''a'']. (s, k) \<in> ?E ^^ n) \<and> (\<forall>m<n. \<forall>s\<in>set [''a'']. (s, k) \<notin> ?E ^^ m)"
    using walk_reaches_exactly_the_derived_tables [of sample_reader "{(''b'', ''c'')}" ?E sample_inputs "[''a'']"]
    by (auto simp: sample_reader_def)
  have "(''a'', ''b'') \<in> ?E" by (simp add: declared_edges_def sample_inputs_def)
  then have "map_of (dw_depths dw) ''b'' = Some 1"
    unfolding dw(3) by simp
  moreover have "map_of (dw_depths dw) ''a'' = None"
    using dw(3) [of "''a''"] by (cases "map_of (dw_depths dw) ''a''") auto
  ultimately show ?thesis using dw(1,2) by blast
qed

lemma added_keys: "fst ` set (added_inputs declared t old) = fst ` set declared - fst ` set (ti_inputs old)"
  unfolding added_inputs_def set_map set_filter image_image by (force simp: split_beta image_def)

lemma judge_inputs_Stop:
  "declared \<noteq> [] \<Longrightarrow> judge_inputs table_uuid name declared c t = Stop (Inr y) \<Longrightarrow>
    \<exists>ti. c = Some (Inputs ti) \<and> ti_name ti = name \<and> fst ` set declared \<subseteq> fst ` set (ti_inputs ti)"
  by (cases declared) (auto simp: judge_inputs_def Let_def parsed_inputs_def added_inputs_def filter_empty_conv
      split: option.splits sum.splits inputs_body.splits if_splits prod.splits)

lemma judge_inputs_Write:
  "judge_inputs table_uuid name declared c t = Write r y \<Longrightarrow>
    \<exists>old. (c = None \<and> ti_inputs old = [] \<or> c = Some (Inputs old)) \<and>
      r = Inputs \<lparr>ti_table_uuid = table_uuid, ti_name = name, ti_inputs = ti_inputs old @ added_inputs declared t old\<rparr>"
proof (cases c)
  case None
  assume "judge_inputs table_uuid name declared c t = Write r y"
  with None show ?thesis
    by (intro exI [of _ "\<lparr>ti_table_uuid = table_uuid, ti_name = name, ti_inputs = []\<rparr>"])
      (auto simp: judge_inputs_def Let_def split: if_splits)
next
  case (Some b)
  assume "judge_inputs table_uuid name declared c t = Write r y"
  with Some show ?thesis
    by (cases b) (auto simp: judge_inputs_def Let_def parsed_inputs_def split: if_splits)
qed

text \<open>
  A commit's inputs are recorded before it lands and none is lost. When \<^verbatim>\<open>record\<close> returns, on S3 and
  under every interleaving, then at some point of its run the record of the table reads as one (or was
  absent), and the record left in its place lists every declared input; every input listed before keeps
  its first declaration, a new one is stamped no later than the store's clock, and no other record
  changed. When it raises it wrote nothing.
\<close>

theorem declared_inputs_are_recorded:
  assumes "inj dg" "declared \<noteq> []" and call: "record_inputs hex S3 dg table_uuid name declared w = (x, w')"
  shows "\<exists>m. case x of Inl _ \<Rightarrow> w' = drift m w
    | Inr _ \<Rightarrow> \<exists>ti. lookup w' (inputs_key hex table_uuid) = Some (Json (Inputs ti)) \<and> ti_name ti = name \<and>
        fst ` set declared \<subseteq> fst ` set (ti_inputs ti) \<and>
        (\<forall>k. k \<noteq> inputs_key hex table_uuid \<longrightarrow> lookup w' k = lookup (drift m w) k) \<and>
        (case lookup (drift m w) (inputs_key hex table_uuid) of
           Some (Json (Inputs old)) \<Rightarrow> (\<forall>u d. map_of (ti_inputs old) u = Some d \<longrightarrow> map_of (ti_inputs ti) u = Some d) \<and>
             (\<forall>(u, d)\<in>set (ti_inputs ti) - set (ti_inputs old). di_first_declared_at d \<le> clock w')
         | c \<Rightarrow> c = None \<and> (\<forall>(u, d)\<in>set (ti_inputs ti). di_first_declared_at d \<le> clock w'))"
proof -
  let ?k = "inputs_key hex table_uuid" and ?judge = "judge_inputs table_uuid name declared"
  obtain y where run: "cas_loop S3 dg ?k ?judge inputs_attempts w = (y, w')"
    and x: "x = (case y of Inl e \<Rightarrow> Inl (if e = RecordChangedError then InternalError else e) | Inr _ \<Rightarrow> Inr ())"
    using call by (auto simp: record_inputs_def split: prod.splits sum.splits)
  obtain m where ran: "cas_ran ?k ?judge (drift m w) y w'"
    using cas_loop_ran [OF assms(1) run] by blast
  from ran [unfolded cas_ran_def] x consider (raised) e where "x = Inl e" "w' = drift m w"
    | (kept) ti where "x = Inr ()" "w' = drift m w" "lookup (drift m w) ?k = Some (Json (Inputs ti))" "ti_name ti = name"
        "fst ` set declared \<subseteq> fst ` set (ti_inputs ti)"
    | (wrote) c t r where "x = Inr ()" "lookup (drift m w) ?k = map_option Json c" "t \<le> clock (drift m w)"
        "?judge c t = Write r ()" "w' = store_put ?k (Json r) (drift m w)"
    by (auto split: sum.splits dest!: judge_inputs_Stop [OF assms(2)])
  then show ?thesis
  proof cases
    case wrote
    from judge_inputs_Write [OF wrote(4)] obtain old where old: "c = None \<and> ti_inputs old = [] \<or> c = Some (Inputs old)"
      "r = Inputs \<lparr>ti_table_uuid = table_uuid, ti_name = name, ti_inputs = ti_inputs old @ added_inputs declared t old\<rparr>"
      by blast
    have stamped: "di_first_declared_at d = t" if "(u, d) \<in> set (added_inputs declared t old)" for u d
      using that by (auto simp: added_inputs_def)
    have covered: "fst ` set declared \<subseteq> fst ` set (ti_inputs old @ added_inputs declared t old)"
      unfolding set_append image_Un added_keys by blast
    show ?thesis
      using wrote(1-3,5) old covered stamped
      by (intro exI [of _ m]) (auto simp: map_add_def)
  qed auto
qed

theorem declared_inputs_are_recorded_witness:
  "let run = record_inputs id S3 id ''t'' ''ns$t'' [(''a'', \<lparr>ri_version = 4, ri_branch = None\<rparr>)]
       \<lparr>objects = [], clock = 7, pending = []\<rparr> in
   fst run = Inr () \<and> (\<exists>ti. lookup (snd run) (inputs_key id ''t'') = Some (Json (Inputs ti)) \<and> ''a'' \<in> fst ` set (ti_inputs ti))"
proof -
  let ?run = "record_inputs id S3 id ''t'' ''ns$t'' [(''a'', \<lparr>ri_version = 4, ri_branch = None\<rparr>)] \<lparr>objects = [], clock = 7, pending = []\<rparr>"
  have ok: "fst ?run = Inr ()"
    by (simp add: record_inputs_def inputs_attempts_def numeral_eq_Suc read_json_at_def write_over_def create_json_def lookup_def judge_inputs_def
        added_inputs_def Let_def)
  then have "?run = (Inr (), snd ?run)" by (simp add: prod_eq_iff)
  from declared_inputs_are_recorded [OF inj_on_id _ this] ok show ?thesis
    by (auto simp: Let_def)
qed

end
