(* ===== verification/Erasure_Obligations.thy ===== *)
theory Erasure_Obligations
  imports Derived_Tables
begin

text \<open>
  \<^verbatim>\<open>catalog/services/erasure_obligations.py\<close>: the record of a subject's erasure the catalog accepted for a
  table, open until a verification settles it, and what of \<^verbatim>\<open>catalog/services/erasure.py\<close> it stores and
  shows: a report's surfaces, and its two conclusions.

  \<open>sha\<close> stands for the SHA-256 hex digest. Instants are microseconds. The steps of a verification that
  read and reclaim data through pylance are not modelled: what they found is a list of surfaces.
\<close>

section \<open>Surfaces (\<^verbatim>\<open>erasure.py\<close>)\<close>

definition OPEN_OUTCOMES :: "string list" where
  "OPEN_OUTCOMES = [''failed'', ''skipped'', ''held'']"

definition DERIVED :: string where
  "DERIVED = ''derived''"

definition derived_prefix :: string where
  "derived_prefix = DERIVED @ '':''"

record surface_result =
  sr_surface :: string
  sr_outcome :: string
  sr_detail :: string

abbreviation is_open :: "surface_result \<Rightarrow> bool" where
  "is_open sr \<equiv> sr_outcome sr \<in> set OPEN_OUTCOMES"

record pin_release =
  pn_release_id :: string
  pn_due_at :: int
  pn_refs :: "string list"
  pn_notified :: "string list"
  pn_bound :: string

text \<open>A report; the fixed text of its \<^verbatim>\<open>derived_scope\<close> is left out. A pin is a ref and the version it holds, a dropped tag its name and branch.\<close>

record erasure_report =
  rr_table :: string
  rr_predicate :: string
  rr_surfaces :: "surface_result list"
  rr_versions_reclaimed :: int
  rr_bytes_reclaimed :: int
  rr_untagged :: "(string \<times> string option) list"
  rr_residual_versions :: "string list"
  rr_pinned_by :: "(string \<times> string) list"
  rr_held_by_retention :: "string list"
  rr_release :: "pin_release option"
  rr_complete :: bool
  rr_settled :: bool

definition derived_surface :: "string \<Rightarrow> string" where
  "derived_surface key = derived_prefix @ key"

definition derived_key :: "string \<Rightarrow> string option" where
  "derived_key surface = (if prefix derived_prefix surface then Some (drop (length derived_prefix) surface) else None)"

definition hidden_surface :: "string set \<Rightarrow> surface_result \<Rightarrow> bool" where
  "hidden_surface hidden sr = (case derived_key (sr_surface sr) of None \<Rightarrow> False | Some key \<Rightarrow> key \<in> hidden)"

definition hidden_count :: "nat \<Rightarrow> surface_result" where
  "hidden_count owed = \<lparr>sr_surface = DERIVED, sr_outcome = ''failed'',
     sr_detail = ''tables derived from this one that you may not see, and that no erasure obligation follows this one on: '' @ show_nat owed\<rparr>"

text \<open>The loop of \<^verbatim>\<open>shown\<close> over the surfaces, with its flag \<^verbatim>\<open>counted\<close>.\<close>

fun show_each :: "string set \<Rightarrow> surface_result \<Rightarrow> bool \<Rightarrow> surface_result list \<Rightarrow> surface_result list" where
  "show_each hidden count counted [] = []"
| "show_each hidden count counted (sr # srs) =
     (if \<not> hidden_surface hidden sr then sr # show_each hidden count counted srs
      else if is_open sr \<and> \<not> counted then count # show_each hidden count True srs
      else show_each hidden count counted srs)"

definition shown :: "surface_result list \<Rightarrow> string set \<Rightarrow> surface_result list" where
  "shown surfaces hidden =
     show_each hidden (hidden_count (length (filter (\<lambda>sr. hidden_surface hidden sr \<and> is_open sr) surfaces))) False surfaces"

text \<open>
  The last step of \<^verbatim>\<open>verify\<close>: the derived tables' surfaces join the others, or one failed surface when
  judging them raised, and the report's two conclusions are drawn.
\<close>

definition concluded :: "bool \<Rightarrow> erasure_report \<Rightarrow> surface_result list result \<Rightarrow> erasure_report" where
  "concluded pins_alone report derived =
     (let all = rr_surfaces report @ (case derived of
           Inr ds \<Rightarrow> ds
         | Inl _ \<Rightarrow> [\<lparr>sr_surface = DERIVED, sr_outcome = ''failed'', sr_detail = ''the tables derived from it could not be judged''\<rparr>]) in
      report\<lparr>rr_surfaces := all, rr_complete := \<not> list_ex is_open all,
        rr_settled := (pins_alone \<and> \<not> list_ex (\<lambda>sr. is_open sr \<and> sr_surface sr \<noteq> ''verify'') all)\<rparr>)"

section \<open>Obligations\<close>

definition obligation_prefix :: string where
  "obligation_prefix = ''_erasure_obligations''"

definition is_obligation_id :: "string \<Rightarrow> bool" where
  "is_obligation_id s = (length s = 32 \<and> list_all (\<lambda>c. c \<in> hex_chars) s)"

datatype obligation_state = Open | Released

record erasure_obligation =
  ob_id :: string
  ob_table :: string
  ob_table_uuid :: string
  ob_object_id :: string
  ob_location :: string
  ob_predicate_digest :: string
  ob_retain_days :: int
  ob_refs :: "(string \<times> int) list"
  ob_requested_by :: "string option"
  ob_requested_at :: int
  ob_deadline :: int
  ob_follows :: "string option"
  ob_state :: obligation_state
  ob_verified_at :: "int option"
  ob_open_surfaces :: "surface_result list"
  ob_released_at :: "int option"
  ob_release :: "pin_release option"
  ob_late_derived :: "string list"

text \<open>A stored object either validates as an obligation or does not.\<close>

datatype obligation_body = Obligation erasure_obligation | Bad_obligation

type_synonym obligations = "obligation_body world"

definition valid_obligation :: "obligation_body \<Rightarrow> erasure_obligation result" where
  "valid_obligation b = (case b of Obligation ob \<Rightarrow> Inr ob | Bad_obligation \<Rightarrow> Inl ValueError)"

text \<open>The obligation as the doors show it: its digest, its object and its location are not shown.\<close>

record obligation_view =
  ov_id :: string
  ov_table :: string
  ov_table_uuid :: string
  ov_refs :: "(string \<times> int) list"
  ov_retain_days :: int
  ov_requested_by :: "string option"
  ov_requested_at :: int
  ov_deadline :: int
  ov_follows :: "string option"
  ov_overdue :: bool
  ov_state :: obligation_state
  ov_verified_at :: "int option"
  ov_open_surfaces :: "surface_result list"
  ov_released_at :: "int option"
  ov_release :: "pin_release option"
  ov_late_derived :: "string list"

definition view :: "erasure_obligation \<Rightarrow> int \<Rightarrow> string \<Rightarrow> string set \<Rightarrow> obligation_view" where
  "view ob now table hidden = \<lparr>ov_id = ob_id ob, ov_table = table, ov_table_uuid = ob_table_uuid ob, ov_refs = ob_refs ob,
     ov_retain_days = ob_retain_days ob, ov_requested_by = ob_requested_by ob, ov_requested_at = ob_requested_at ob,
     ov_deadline = ob_deadline ob, ov_follows = ob_follows ob, ov_overdue = (ob_state ob = Open \<and> ob_deadline ob < now),
     ov_state = ob_state ob, ov_verified_at = ob_verified_at ob, ov_open_surfaces = shown (ob_open_surfaces ob) hidden,
     ov_released_at = ob_released_at ob, ov_release = ob_release ob,
     ov_late_derived = filter (\<lambda>key. key \<notin> hidden) (ob_late_derived ob)\<rparr>"

definition digest :: "(string \<Rightarrow> string) \<Rightarrow> string \<Rightarrow> string" where
  "digest sha predicate = sha predicate"

definition obligation_key :: "string \<Rightarrow> string" where
  "obligation_key obligation_id = obligation_prefix @ ''/'' @ obligation_id @ ''.json''"

definition record_obligation :: "erasure_obligation \<Rightarrow> obligations \<Rightarrow> unit result \<times> obligations" where
  "record_obligation ob w = create_json (obligation_key (ob_id ob)) (Obligation ob) w"

definition read_obligation ::
  "(obligation_body content \<Rightarrow> 'e) \<Rightarrow> string \<Rightarrow> obligations \<Rightarrow> erasure_obligation result \<times> obligations" where
  "read_obligation dg obligation_id w =
     (if \<not> is_obligation_id obligation_id then (Inl InvalidInputError, w)
      else (case read_json dg (obligation_key obligation_id) w of
          (Inl e, w1) \<Rightarrow> (Inl e, w1)
        | (Inr None, w1) \<Rightarrow> (Inl InvalidTableStateError, w1)
        | (Inr (Some (b, _)), w1) \<Rightarrow> (valid_obligation b, w1)))"

definition list_obligations :: "obligations \<Rightarrow> erasure_obligation list result \<times> obligations" where
  "list_obligations w = (case list_records obligation_prefix False w of
       (Inl e, w1) \<Rightarrow> (Inl e, w1)
     | (Inr bs, w1) \<Rightarrow> (Inr (List.map_filter (\<lambda>b. case b of Obligation ob \<Rightarrow> Some ob | Bad_obligation \<Rightarrow> None) bs), w1))"

definition require_followable ::
  "(obligation_body content \<Rightarrow> 'e) \<Rightarrow> string \<Rightarrow> obligations \<Rightarrow> unit result \<times> obligations" where
  "require_followable dg obligation_id w = (case read_obligation dg obligation_id w of
       (Inl e, w1) \<Rightarrow> (Inl (if e = InvalidTableStateError then InvalidInputError else e), w1)
     | (Inr _, w1) \<Rightarrow> (Inr (), w1))"

text \<open>\<^verbatim>\<open>_reaches\<close>: the chain of \<^verbatim>\<open>follows\<close>, each obligation of it looked at once.\<close>

function reaches_from ::
  "(string \<times> erasure_obligation) list \<Rightarrow> string \<Rightarrow> string list \<Rightarrow> string option \<Rightarrow> bool" where
  "reaches_from by_id source seen step = (case step of
       None \<Rightarrow> False
     | Some s \<Rightarrow>
         if s \<in> set seen then False
         else if s = source then True
         else reaches_from by_id source (s # seen)
           (case map_of by_id s of None \<Rightarrow> None | Some followed \<Rightarrow> ob_follows followed))"
  by pat_completeness auto
termination
proof (relation "measure (\<lambda>(by_id, source, seen, step). 2 * card (fst ` set by_id - set seen) + (if step = None then 0 else 1))",
    goal_cases)
  case (2 by_id source seen step s)
  show ?case
  proof (cases "map_of by_id s")
    case None
    then have "fst ` set by_id - set (s # seen) = fst ` set by_id - set seen"
      by (auto simp: map_of_eq_None_iff)
    with 2 None show ?thesis by simp
  next
    case (Some followed)
    then have "s \<in> fst ` set by_id" by (metis domI dom_map_of_conv_image_fst)
    with 2 have "card (fst ` set by_id - set (s # seen)) < card (fst ` set by_id - set seen)"
      by (intro psubset_card_mono) auto
    with 2 show ?thesis by auto
  qed
qed simp

declare reaches_from.simps [simp del]

definition obligations_by_id :: "erasure_obligation list \<Rightarrow> (string \<times> erasure_obligation) list" where
  "obligations_by_id obs = rev (map (\<lambda>ob. (ob_id ob, ob)) obs)"

definition followed_tables :: "erasure_obligation list \<Rightarrow> string \<Rightarrow> string list" where
  "followed_tables obs source =
     remdups (map ob_table_uuid (filter (\<lambda>ob. reaches_from (obligations_by_id obs) source [] (ob_follows ob)) obs))"

definition require_verifiable ::
  "(string \<Rightarrow> string) \<Rightarrow> erasure_obligation \<Rightarrow> string \<Rightarrow> string \<Rightarrow> string \<Rightarrow> unit result" where
  "require_verifiable sha ob table_uuid location predicate =
     (if ob_table_uuid ob \<noteq> table_uuid \<or> ob_location ob \<noteq> location then Inl InvalidTableStateError
      else if ob_state ob = Released then Inl InvalidTableStateError
      else if digest sha predicate \<noteq> ob_predicate_digest ob then Inl InvalidInputError
      else Inr ())"

text \<open>The mutation of \<^verbatim>\<open>list_late_derived\<close>; what it added is judged against the record its write replaced.\<close>

definition listing :: "string list \<Rightarrow> obligation_body \<Rightarrow> obligation_body result" where
  "listing late current = (case valid_obligation current of
       Inl e \<Rightarrow> Inl e
     | Inr ob \<Rightarrow>
         if ob_state ob \<noteq> Released then Inl InvalidTableStateError
         else Inr (Obligation (ob\<lparr>ob_late_derived := ob_late_derived ob @ filter (\<lambda>k. k \<notin> set (ob_late_derived ob)) late\<rparr>)))"

definition missing_is_state :: "error \<Rightarrow> error" where
  "missing_is_state e = (if e = RecordMissingError then InvalidTableStateError else e)"

definition list_late_derived ::
  "root \<Rightarrow> (obligation_body content \<Rightarrow> 'e) \<Rightarrow> string \<Rightarrow> string list \<Rightarrow> obligations \<Rightarrow> string list result \<times> obligations" where
  "list_late_derived rt dg obligation_id late w =
     (case exchange_json rt dg (obligation_key obligation_id) (listing late) mutate_attempts w of
        (Inl e, w1) \<Rightarrow> (Inl (missing_is_state e), w1)
      | (Inr (standing, _), w1) \<Rightarrow>
          (Inr (case standing of Obligation ob \<Rightarrow> filter (\<lambda>k. k \<notin> set (ob_late_derived ob)) late | Bad_obligation \<Rightarrow> []), w1))"

definition settled :: "erasure_report \<Rightarrow> int \<Rightarrow> erasure_obligation \<Rightarrow> erasure_obligation" where
  "settled report now ob =
     (if ob_state ob = Released then ob
      else if rr_settled report then
        ob\<lparr>ob_state := Released, ob_predicate_digest := [], ob_released_at := Some now, ob_verified_at := Some now,
          ob_open_surfaces := [], ob_release := rr_release report\<rparr>
      else ob\<lparr>ob_verified_at := Some now, ob_open_surfaces := filter is_open (rr_surfaces report)\<rparr>)"

definition settling :: "erasure_report \<Rightarrow> int \<Rightarrow> obligation_body \<Rightarrow> obligation_body result" where
  "settling report now current = map_sum id (\<lambda>ob. Obligation (settled report now ob)) (valid_obligation current)"

definition settle ::
  "root \<Rightarrow> (obligation_body content \<Rightarrow> 'e) \<Rightarrow> string \<Rightarrow> erasure_report \<Rightarrow> int \<Rightarrow> obligations
    \<Rightarrow> erasure_obligation result \<times> obligations" where
  "settle rt dg obligation_id report now w =
     (case mutate_json rt dg (obligation_key obligation_id) (settling report now) w of
        (Inl e, w1) \<Rightarrow> (Inl (missing_is_state e), w1)
      | (Inr b, w1) \<Rightarrow> (valid_obligation b, w1))"

section \<open>The life of an obligation\<close>

inductive ob_step :: "erasure_obligation \<Rightarrow> erasure_obligation \<Rightarrow> bool" where
  verified: "ob_step ob (settled report now ob)"
| late_found: "ob_state ob = Released \<Longrightarrow>
    ob_step ob (ob\<lparr>ob_late_derived := ob_late_derived ob @ filter (\<lambda>k. k \<notin> set (ob_late_derived ob)) late\<rparr>)"

inductive_cases ob_stepE: "ob_step ob ob'"

text \<open>What an obligation is about never changes.\<close>

definition same_terms :: "erasure_obligation \<Rightarrow> erasure_obligation \<Rightarrow> bool" where
  "same_terms a b \<longleftrightarrow> ob_id a = ob_id b \<and> ob_table_uuid a = ob_table_uuid b \<and> ob_location a = ob_location b \<and> ob_refs a = ob_refs b \<and>
     ob_deadline a = ob_deadline b \<and> ob_follows a = ob_follows b \<and> ob_retain_days a = ob_retain_days b"

lemma settled_terms [simp]: "same_terms ob (settled report now ob)"
  by (simp add: settled_def same_terms_def)

text \<open>The invariant of a record since \<open>ob0\<close> was written: the digest stays while it is open and goes at the release.\<close>

definition ob_inv :: "erasure_obligation \<Rightarrow> erasure_obligation \<Rightarrow> bool" where
  "ob_inv ob0 ob \<longleftrightarrow> same_terms ob0 ob \<and>
     (case ob_state ob of
        Open \<Rightarrow> ob_predicate_digest ob = ob_predicate_digest ob0 \<and> ob_released_at ob = None \<and> ob_release ob = None \<and> ob_late_derived ob = []
      | Released \<Rightarrow> ob_predicate_digest ob = [] \<and> ob_released_at ob \<noteq> None \<and> ob_released_at ob = ob_verified_at ob \<and>
          ob_open_surfaces ob = [])"

lemma same_terms_trans: "same_terms a b \<Longrightarrow> same_terms b c \<Longrightarrow> same_terms a c"
  by (simp add: same_terms_def)

text \<open>What a released obligation keeps; only the list of late derived tables may grow.\<close>

definition kept_release :: "erasure_obligation \<Rightarrow> erasure_obligation \<Rightarrow> bool" where
  "kept_release a b \<longleftrightarrow> ob_state b = Released \<and> same_terms a b \<and> ob_predicate_digest b = ob_predicate_digest a \<and>
     ob_released_at b = ob_released_at a \<and> ob_verified_at b = ob_verified_at a \<and> ob_open_surfaces b = ob_open_surfaces a \<and>
     ob_release b = ob_release a \<and> prefix (ob_late_derived a) (ob_late_derived b)"

lemma ob_step_released: "ob_step a b \<Longrightarrow> ob_state a = Released \<Longrightarrow> kept_release a b"
  by (erule ob_stepE) (auto simp: kept_release_def settled_def same_terms_def)

lemma kept_release_trans: "kept_release a b \<Longrightarrow> kept_release b c \<Longrightarrow> kept_release a c"
  unfolding kept_release_def same_terms_def by (auto intro: prefix_order.trans)

lemma run_released:
  assumes "ob_step\<^sup>*\<^sup>* a b" "ob_state a = Released"
  shows "kept_release a b"
  using assms
proof (induction rule: rtranclp_induct)
  case base
  then show ?case by (simp add: kept_release_def same_terms_def)
next
  case (step b c)
  then have "kept_release b c" using ob_step_released by (simp add: kept_release_def)
  with step show ?case using kept_release_trans by blast
qed

text \<open>Both operations are one step of that life or none, under every interleaving.\<close>

lemma settle_steps:
  assumes "inj dg" "settle S3 dg i report now w = (x, w')"
  shows "\<exists>m. w' = drift m w \<and> (\<exists>e. x = Inl e) \<or>
    (\<exists>ob. lookup (drift m w) (obligation_key i) = Some (Json (Obligation ob)) \<and> x = Inr (settled report now ob) \<and>
       w' = store_put (obligation_key i) (Json (Obligation (settled report now ob))) (drift m w))"
proof -
  obtain y where run: "mutate_json S3 dg (obligation_key i) (settling report now) w = (y, w')"
    and x: "x = (case y of Inl e \<Rightarrow> Inl (missing_is_state e) | Inr b \<Rightarrow> valid_obligation b)"
    using assms(2) by (auto simp: settle_def split: prod.splits sum.splits)
  have made: "\<exists>ob. r = Obligation ob \<and> u = Obligation (settled report now ob)" if "settling report now r = Inr u" for r u
    using that by (cases r) (auto simp: settling_def valid_obligation_def)
  obtain m where "case y of Inl _ \<Rightarrow> w' = drift m w
      | Inr u \<Rightarrow> (\<exists>r. lookup (drift m w) (obligation_key i) = Some (Json r) \<and> settling report now r = Inr u) \<and>
          w' = store_put (obligation_key i) (Json u) (drift m w)"
    using mutate_json_effect [OF assms(1) run] by blast
  with x made show ?thesis
    by (cases y) (force simp: valid_obligation_def)+
qed

lemma list_late_steps:
  assumes "inj dg" "list_late_derived S3 dg i late w = (x, w')"
  shows "\<exists>m. w' = drift m w \<and> (\<exists>e. x = Inl e) \<or>
    (\<exists>ob. lookup (drift m w) (obligation_key i) = Some (Json (Obligation ob)) \<and> ob_state ob = Released \<and>
       x = Inr (filter (\<lambda>k. k \<notin> set (ob_late_derived ob)) late) \<and>
       w' = store_put (obligation_key i) (Json (Obligation
         (ob\<lparr>ob_late_derived := ob_late_derived ob @ filter (\<lambda>k. k \<notin> set (ob_late_derived ob)) late\<rparr>))) (drift m w))"
proof -
  obtain y where run: "exchange_json S3 dg (obligation_key i) (listing late) mutate_attempts w = (y, w')"
    and x: "x = (case y of Inl e \<Rightarrow> Inl (missing_is_state e) | Inr (standing, _) \<Rightarrow>
      Inr (case standing of Obligation ob \<Rightarrow> filter (\<lambda>k. k \<notin> set (ob_late_derived ob)) late | Bad_obligation \<Rightarrow> []))"
    using assms(2) by (auto simp: list_late_derived_def split: prod.splits sum.splits)
  have made: "\<exists>ob. r = Obligation ob \<and> ob_state ob = Released \<and> u = Obligation
      (ob\<lparr>ob_late_derived := ob_late_derived ob @ filter (\<lambda>k. k \<notin> set (ob_late_derived ob)) late\<rparr>)" if "listing late r = Inr u" for r u
    using that by (cases r) (auto simp: listing_def valid_obligation_def split: if_splits)
  obtain m where "case y of Inl _ \<Rightarrow> w' = drift m w
      | Inr (r, u) \<Rightarrow> listing late r = Inr u \<and> lookup (drift m w) (obligation_key i) = Some (Json r) \<and>
          w' = store_put (obligation_key i) (Json u) (drift m w)"
    using exchange_json_effect [OF assms(1) run] by blast
  with x made show ?thesis
    by (cases y) (force split: prod.splits)+
qed

section \<open>Properties\<close>

text \<open>
  C28: A released obligation is final. While every other client changes the record only by verifications
  and late-table listings, neither a verification nor a listing, whatever its report says and however it
  is interleaved, takes a released obligation back: it stays released with its digest, its release time,
  its surfaces and its pin release, and the late derived tables listed on it are kept in order.
\<close>

theorem released_obligation_is_final:
  assumes "inj dg" "ob_state ob0 = Released"
    and others: "\<And>m. \<exists>ob. lookup (drift m w) (obligation_key i) = Some (Json (Obligation ob)) \<and> ob_step\<^sup>*\<^sup>* ob0 ob"
    and "w' = snd (settle S3 dg i report now w) \<or> w' = snd (list_late_derived S3 dg i late w)"
  shows "\<exists>ob. lookup w' (obligation_key i) = Some (Json (Obligation ob)) \<and> ob_state ob = Released \<and>
    ob_predicate_digest ob = ob_predicate_digest ob0 \<and> ob_released_at ob = ob_released_at ob0 \<and>
    ob_open_surfaces ob = ob_open_surfaces ob0 \<and> ob_release ob = ob_release ob0 \<and>
    prefix (ob_late_derived ob0) (ob_late_derived ob)"
proof -
  have step: "\<exists>m. w' = drift m w \<or> (\<exists>ob ob'. lookup (drift m w) (obligation_key i) = Some (Json (Obligation ob)) \<and> ob_step ob ob' \<and>
      w' = store_put (obligation_key i) (Json (Obligation ob')) (drift m w))"
    using assms(4)
  proof
    assume "w' = snd (settle S3 dg i report now w)"
    then show ?thesis
      using settle_steps [OF assms(1) prod.collapse [symmetric], of i report now w] ob_step.verified by metis
  next
    assume "w' = snd (list_late_derived S3 dg i late w)"
    then show ?thesis
      using list_late_steps [OF assms(1) prod.collapse [symmetric], of i late w] ob_step.late_found by metis
  qed
  then obtain m where m: "w' = drift m w \<or> (\<exists>ob ob'. lookup (drift m w) (obligation_key i) = Some (Json (Obligation ob)) \<and>
      ob_step ob ob' \<and> w' = store_put (obligation_key i) (Json (Obligation ob')) (drift m w))" ..
  obtain ob1 where ob1: "lookup (drift m w) (obligation_key i) = Some (Json (Obligation ob1))" "ob_step\<^sup>*\<^sup>* ob0 ob1"
    using others [of m] by blast
  from m obtain ob where ob: "lookup w' (obligation_key i) = Some (Json (Obligation ob))" "ob_step\<^sup>*\<^sup>* ob0 ob"
  proof (elim disjE exE conjE)
    fix ob ob'
    assume put: "lookup (drift m w) (obligation_key i) = Some (Json (Obligation ob))" "ob_step ob ob'"
      "w' = store_put (obligation_key i) (Json (Obligation ob')) (drift m w)"
    with ob1(1) have "ob_step ob1 ob'" by simp
    with ob1(2) have "ob_step\<^sup>*\<^sup>* ob0 ob'" by (rule rtranclp.rtrancl_into_rtrancl)
    with put(3) that show thesis by simp
  qed (use ob1 that in blast)
  have "kept_release ob0 ob" using ob(2) assms(2) by (rule run_released)
  with ob(1) show ?thesis unfolding kept_release_def by blast
qed

definition sample_obligation :: erasure_obligation where
  "sample_obligation = \<lparr>ob_id = ''o'', ob_table = ''ns$t'', ob_table_uuid = ''u'', ob_object_id = ''table:u'', ob_location = ''s3://b/u'',
     ob_predicate_digest = ''d'', ob_retain_days = 0, ob_refs = [(''main'', 3)], ob_requested_by = None, ob_requested_at = 1,
     ob_deadline = 10, ob_follows = None, ob_state = Open, ob_verified_at = None, ob_open_surfaces = [], ob_released_at = None,
     ob_release = None, ob_late_derived = []\<rparr>"

definition settled_report :: erasure_report where
  "settled_report = \<lparr>rr_table = ''ns$t'', rr_predicate = ''id = 1'', rr_surfaces = [], rr_versions_reclaimed = 0, rr_bytes_reclaimed = 0,
     rr_untagged = [], rr_residual_versions = [], rr_pinned_by = [], rr_held_by_retention = [], rr_release = None, rr_complete = True,
     rr_settled = True\<rparr>"

definition obligation_world :: "erasure_obligation \<Rightarrow> obligations" where
  "obligation_world ob = \<lparr>objects = [(obligation_key ''o'', Json (Obligation ob))], clock = 0, pending = []\<rparr>"

lemma drift_obligation_world [simp]: "drift m (obligation_world ob) = obligation_world ob"
  by (induction m) (simp_all add: drift_after [symmetric] obligation_world_def)

lemma lookup_obligation_world [simp]: "lookup (obligation_world ob) (obligation_key ''o'') = Some (Json (Obligation ob))"
  by (simp add: obligation_world_def lookup_def)

theorem released_obligation_is_final_witness:
  "\<exists>ob. lookup (snd (settle S3 id ''o'' (settled_report\<lparr>rr_settled := False\<rparr>) 9 (obligation_world (settled settled_report 5 sample_obligation))))
       (obligation_key ''o'') = Some (Json (Obligation ob)) \<and> ob_state ob = Released \<and> ob_released_at ob = Some 5"
proof -
  let ?ob = "settled settled_report 5 sample_obligation"
  have "ob_state ?ob = Released" "ob_released_at ?ob = Some 5"
    by (simp_all add: settled_def sample_obligation_def settled_report_def)
  moreover have "\<exists>ob. lookup (drift m (obligation_world ?ob)) (obligation_key ''o'') = Some (Json (Obligation ob)) \<and> ob_step\<^sup>*\<^sup>* ?ob ob" for m
    by simp
  ultimately show ?thesis
    using released_obligation_is_final [OF inj_on_id, of ?ob "obligation_world ?ob" "''o''"] by fastforce
qed

text \<open>
  The subject's digest is kept exactly while the obligation is open. In every state a recorded
  obligation reaches by verifications and listings, it is either open, with the digest it was recorded
  with, no release and no late table, or released, with its digest wiped, a release time that is its last
  verification's, and no open surface; what it is about never changes. A verification
  releases it exactly when its report settled.
\<close>

theorem digest_is_kept_while_open:
  assumes "ob_step\<^sup>*\<^sup>* ob0 ob" "ob_state ob0 = Open" "ob_released_at ob0 = None" "ob_release ob0 = None" "ob_late_derived ob0 = []"
  shows "ob_inv ob0 ob \<and>
    (\<forall>report now. ob_state ob = Open \<longrightarrow> (ob_state (settled report now ob) = Released \<longleftrightarrow> rr_settled report))"
proof -
  have "ob_inv ob0 ob"
    using assms
  proof (induction rule: rtranclp_induct)
    case base
    then show ?case by (simp add: ob_inv_def same_terms_def)
  next
    case (step b c)
    from step.hyps(2) step.IH [OF step.prems] show ?case
      by (elim ob_stepE) (auto simp: ob_inv_def same_terms_def settled_def split: obligation_state.splits)
  qed
  then show ?thesis by (simp add: settled_def)
qed

theorem digest_is_kept_while_open_witness:
  "ob_inv sample_obligation (settled settled_report 5 sample_obligation) \<and>
   ob_predicate_digest (settled settled_report 5 sample_obligation) = []"
proof -
  have "ob_inv sample_obligation (settled settled_report 5 sample_obligation)"
    using digest_is_kept_while_open [OF r_into_rtranclp [of ob_step, OF ob_step.verified [of sample_obligation settled_report 5]]]
    by (simp add: sample_obligation_def)
  then show ?thesis by (simp add: settled_def settled_report_def sample_obligation_def)
qed

text \<open>Obligation \<open>a\<close> follows \<open>b\<close>, by the listed obligation that carries the id \<open>a\<close>.\<close>

definition follows_rel :: "(string \<times> erasure_obligation) list \<Rightarrow> (string \<times> string) set" where
  "follows_rel by_id = {(a, b). \<exists>ob. map_of by_id a = Some ob \<and> ob_follows ob = Some b}"

lemma reaches_from_None [simp]: "reaches_from by_id source seen None = False"
  by (subst reaches_from.simps) simp

text \<open>
  The loop's state: what it has seen is no source and closed under \<^verbatim>\<open>follows\<close> but for the step ahead, so
  a step already seen can lead to nothing new.
\<close>

lemma reaches_from_iff:
  assumes "source \<notin> set seen" "follows_rel by_id `` set seen \<subseteq> insert s (set seen)"
  shows "reaches_from by_id source seen (Some s) \<longleftrightarrow> (s, source) \<in> (follows_rel by_id)\<^sup>*"
  using assms
proof (induction by_id source seen "Some s" arbitrary: s rule: reaches_from.induct)
  case (1 by_id source seen s)
  let ?F = "follows_rel by_id"
  consider (seen) "s \<in> set seen" | (found) "s \<notin> set seen" "s = source"
    | (ended) "s \<notin> set seen" "s \<noteq> source" "\<forall>t. (s, t) \<notin> ?F" | (onward) t where "s \<notin> set seen" "s \<noteq> source" "(s, t) \<in> ?F"
    by blast
  then show ?case
  proof cases
    case seen
    then have "?F `` set seen \<subseteq> set seen" using 1(3) by auto
    then have "?F\<^sup>* `` set seen \<subseteq> set seen" by (rule Image_closed_trancl [THEN equalityD1])
    with seen 1(2) have "(s, source) \<notin> ?F\<^sup>*" by blast
    with seen show ?thesis by (subst reaches_from.simps) simp
  next
    case found
    then show ?thesis by (subst reaches_from.simps) simp
  next
    case ended
    then have "(s, source) \<notin> ?F\<^sup>*" by (metis converse_rtranclE)
    moreover have "(case map_of by_id s of None \<Rightarrow> None | Some followed \<Rightarrow> ob_follows followed) = None"
      using ended(3) by (cases "map_of by_id s") (auto simp: follows_rel_def)
    ultimately show ?thesis using ended by (subst reaches_from.simps) simp
  next
    case onward
    then obtain ob where ob: "map_of by_id s = Some ob" "ob_follows ob = Some t" by (auto simp: follows_rel_def)
    have "?F `` {s} = {t}" using ob by (auto simp: follows_rel_def)
    with 1(3) have "?F `` set (s # seen) \<subseteq> insert t (set (s # seen))" by auto
    from 1(1) [OF refl _ _ _ _ this] onward ob 1(2) have "reaches_from by_id source (s # seen) (Some t) \<longleftrightarrow> (t, source) \<in> ?F\<^sup>*" by simp
    moreover have "(s, source) \<in> ?F\<^sup>* \<longleftrightarrow> (t, source) \<in> ?F\<^sup>*"
      using onward \<open>?F `` {s} = {t}\<close> by (auto elim: converse_rtranclE intro: converse_rtrancl_into_rtrancl)
    ultimately show ?thesis using onward ob by (subst reaches_from.simps) simp
  qed
qed

text \<open>
  The tables an obligation is followed on are the chains' tables. Whatever cycles, unknown ids or
  repetitions the listed obligations hold, the chain loop ends, and a table's uuid is answered exactly
  when an obligation recorded on it names, in \<^verbatim>\<open>follows\<close>, the source or an obligation from which the
  \<^verbatim>\<open>follows\<close> of listed obligations lead to the source.
\<close>

theorem followed_tables_are_the_chains:
  "t \<in> set (followed_tables obs source) \<longleftrightarrow>
    (\<exists>ob\<in>set obs. \<exists>f. ob_table_uuid ob = t \<and> ob_follows ob = Some f \<and>
      (f, source) \<in> (follows_rel (obligations_by_id obs))\<^sup>*)"
proof -
  have "reaches_from by_id source [] step \<longleftrightarrow> (\<exists>f. step = Some f \<and> (f, source) \<in> (follows_rel by_id)\<^sup>*)" for by_id step
    using reaches_from_iff [of source "[]" by_id] by (cases step) auto
  then show ?thesis by (auto simp: followed_tables_def image_iff)
qed

text \<open>Surfaces two reports cannot be told apart by, for a reader who may not see \<open>hidden\<close>.\<close>

definition alike :: "string set \<Rightarrow> surface_result \<Rightarrow> surface_result \<Rightarrow> bool" where
  "alike hidden a b \<longleftrightarrow> a = b \<or> hidden_surface hidden a \<and> hidden_surface hidden b \<and> (is_open a \<longleftrightarrow> is_open b)"

lemma show_each_alike:
  "list_all2 (alike hidden) srs srs' \<Longrightarrow> show_each hidden count counted srs = show_each hidden count counted srs'"
  by (induction srs srs' arbitrary: counted rule: list_all2_induct) (auto simp: alike_def)

lemma hidden_alike:
  "list_all2 (alike hidden) srs srs' \<Longrightarrow>
    length (filter (\<lambda>sr. hidden_surface hidden sr \<and> is_open sr) srs) = length (filter (\<lambda>sr. hidden_surface hidden sr \<and> is_open sr) srs')"
  by (induction srs srs' rule: list_all2_induct) (auto simp: alike_def)

lemma count_not_hidden [simp]: "\<not> hidden_surface hidden (hidden_count n)" "is_open (hidden_count n)"
  by (simp_all add: hidden_surface_def hidden_count_def derived_key_def derived_prefix_def DERIVED_def OPEN_OUTCOMES_def)

lemma show_each_names: "\<not> hidden_surface hidden count \<Longrightarrow> sr \<in> set (show_each hidden count counted srs) \<Longrightarrow> \<not> hidden_surface hidden sr"
  by (induction srs arbitrary: counted) (auto split: if_splits)

lemma show_each_open:
  "is_open count \<Longrightarrow> (\<exists>sr\<in>set (show_each hidden count counted srs). is_open sr) \<longleftrightarrow>
    (\<exists>sr\<in>set srs. is_open sr \<and> \<not> (counted \<and> hidden_surface hidden sr))"
  by (induction srs arbitrary: counted) auto

lemma show_each_keeps:
  "\<not> hidden_surface hidden sr \<Longrightarrow> sr \<in> set srs \<Longrightarrow> sr \<in> set (show_each hidden count counted srs)"
  by (induction srs arbitrary: counted) auto

text \<open>
  An obligation's view names no table its reader may not see and hides nothing else. Replacing the
  surfaces of hidden derived tables by others of hidden tables, open where they were open, changes nothing
  a reader is shown; no surface shown is a hidden table's; every surface that is not is shown; and the
  reader still learns whether anything is open.
\<close>

theorem view_hides_exactly_the_hidden_tables:
  assumes "list_all2 (alike hidden) (ob_open_surfaces ob) srs"
  shows "view (ob\<lparr>ob_open_surfaces := srs\<rparr>) now table hidden = view ob now table hidden \<and>
    (\<forall>sr\<in>set (ov_open_surfaces (view ob now table hidden)). \<not> hidden_surface hidden sr) \<and>
    (\<forall>sr\<in>set (ob_open_surfaces ob). \<not> hidden_surface hidden sr \<longrightarrow> sr \<in> set (ov_open_surfaces (view ob now table hidden))) \<and>
    ((\<exists>sr\<in>set (ov_open_surfaces (view ob now table hidden)). is_open sr) \<longleftrightarrow> (\<exists>sr\<in>set (ob_open_surfaces ob). is_open sr)) \<and>
    set (ov_late_derived (view ob now table hidden)) \<inter> hidden = {}"
proof (intro conjI)
  have same: "shown (ob_open_surfaces ob) hidden = shown srs hidden"
    unfolding shown_def hidden_alike [OF assms] by (rule show_each_alike [OF assms])
  show "view (ob\<lparr>ob_open_surfaces := srs\<rparr>) now table hidden = view ob now table hidden"
    by (simp add: view_def same)
  let ?shown = "ov_open_surfaces (view ob now table hidden)"
  show "\<forall>sr\<in>set ?shown. \<not> hidden_surface hidden sr"
    using show_each_names [OF count_not_hidden(1)] by (simp add: view_def shown_def)
  show "\<forall>sr\<in>set (ob_open_surfaces ob). \<not> hidden_surface hidden sr \<longrightarrow> sr \<in> set ?shown"
    using show_each_keeps by (simp add: view_def shown_def)
  show "(\<exists>sr\<in>set ?shown. is_open sr) \<longleftrightarrow> (\<exists>sr\<in>set (ob_open_surfaces ob). is_open sr)"
    by (simp add: view_def shown_def show_each_open)
  show "set (ov_late_derived (view ob now table hidden)) \<inter> hidden = {}"
    by (auto simp: view_def)
qed

theorem view_hides_exactly_the_hidden_tables_witness:
  "let a = \<lparr>sr_surface = derived_surface ''u1'', sr_outcome = ''failed'', sr_detail = ''ns$secret''\<rparr>;
       b = \<lparr>sr_surface = derived_surface ''u2'', sr_outcome = ''held'', sr_detail = ''ns$other''\<rparr>;
       hidden = {''u1'', ''u2''} in
   view (sample_obligation\<lparr>ob_open_surfaces := [b]\<rparr>) 20 ''ns$t'' hidden = view (sample_obligation\<lparr>ob_open_surfaces := [a]\<rparr>) 20 ''ns$t'' hidden"
proof -
  let ?a = "\<lparr>sr_surface = derived_surface ''u1'', sr_outcome = ''failed'', sr_detail = ''ns$secret''\<rparr>"
  let ?b = "\<lparr>sr_surface = derived_surface ''u2'', sr_outcome = ''held'', sr_detail = ''ns$other''\<rparr>"
  have "alike {''u1'', ''u2''} ?a ?b"
    by (simp add: alike_def hidden_surface_def derived_key_def derived_surface_def OPEN_OUTCOMES_def)
  then have "list_all2 (alike {''u1'', ''u2''}) (ob_open_surfaces (sample_obligation\<lparr>ob_open_surfaces := [?a]\<rparr>)) [?b]" by simp
  from view_hides_exactly_the_hidden_tables [OF this, of 20 "''ns$t''"] show ?thesis by (simp add: Let_def)
qed

end
