(* ===== verification/Erasure_Derived.thy ===== *)
theory Erasure_Derived
  imports Erasure_Obligations Location_Claims
begin

text \<open>
  \<^verbatim>\<open>catalog/services/erasure_derived.py\<close>: the tables derived from an erased one, each holding its
  obligation open until an obligation of its own follows it, and the late ones listed after a release.

  The three registries it reads lie under three prefixes of one control root, so it threads three worlds
  of \<open>Records\<close>. The edge list is read through an argument: \<open>Inl\<close> when describing it failed, \<open>None\<close> when
  there is none, and otherwise the reader of a bounded filter; \<open>stands\<close> asks the object store whether a
  dataset lies at a location. \<open>fromiso\<close> is \<^verbatim>\<open>datetime.fromisoformat\<close>, read in UTC where the text names no
  zone, with \<open>None\<close> for \<^verbatim>\<open>ValueError\<close>.
\<close>

record erasure_stores =
  es_inputs :: inputs_world
  es_obligations :: obligations
  es_claims :: "location_claim world"
  es_claimed :: "(string list \<times> (string \<times> string) list) option"

section \<open>The claims\<close>

text \<open>\<^verbatim>\<open>_claimed\<close>: the tables a claim is held for, and where every other table a released claim records was.\<close>

definition note_claim :: "location_claim \<Rightarrow> string list \<times> (string \<times> string) list \<Rightarrow> string list \<times> (string \<times> string) list" where
  "note_claim claim acc = (case lc_uuid claim of
       None \<Rightarrow> acc
     | Some u \<Rightarrow> (case lc_released_at claim of
           None \<Rightarrow> (List.insert u (fst acc), snd acc)
         | Some _ \<Rightarrow> (fst acc, AList.update u (lc_location claim) (snd acc))))"

definition claimed_of :: "location_claim list \<Rightarrow> string list \<times> (string \<times> string) list" where
  "claimed_of claims = (let (held, released) = fold note_claim claims ([], []) in
     (held, filter (\<lambda>(u, _). u \<notin> set held) released))"

text \<open>The claims are read once a table needs them, and once per tick (\<^verbatim>\<open>functools.cache\<close>).\<close>

definition read_claimed :: "erasure_stores \<Rightarrow> (string list \<times> (string \<times> string) list) result \<times> erasure_stores" where
  "read_claimed st = (case es_claimed st of
       Some c \<Rightarrow> (Inr c, st)
     | None \<Rightarrow> (case every_claim (es_claims st) of
           (Inl e, w1) \<Rightarrow> (Inl e, st\<lparr>es_claims := w1\<rparr>)
         | (Inr claims, w1) \<Rightarrow> (Inr (claimed_of claims), st\<lparr>es_claims := w1, es_claimed := Some (claimed_of claims)\<rparr>)))"

section \<open>Judging the walk\<close>

definition FOLLOWED :: string where
  "FOLLOWED = ''an erasure obligation recorded on it follows this one, and judges it with a predicate of its own''"

definition DEREGISTERED :: string where
  "DEREGISTERED = ''deregistered, its bytes left at its location outside the catalog, where they may hold the subject: the obligation is held until they are deleted''"

definition DROPPED :: string where
  "DROPPED = ''it was dropped with its bytes, so nothing of it can hold the subject or an obligation''"

definition RELOCATED :: string where
  "RELOCATED = ''no claim records it any more: another table took its location since, and may hold its bytes under a uuid no edge links to this one''"

definition UNIDENTIFIED :: string where
  "UNIDENTIFIED = ''the edge list keys it by a name, not a table uuid, so no erasure obligation can be tied to it''"

definition judged :: "string \<Rightarrow> string \<Rightarrow> string list \<Rightarrow> string list \<Rightarrow> string list \<Rightarrow> string list \<Rightarrow> string \<Rightarrow> surface_result" where
  "judged key name followed held released kept obligation_id =
     (let made = (\<lambda>outcome detail. \<lparr>sr_surface = derived_surface key, sr_outcome = outcome, sr_detail = detail\<rparr>);
          named = name @ '', derived from this table: '' in
      if \<not> is_table_uuid key then made ''failed'' UNIDENTIFIED
      else if key \<in> set followed then made ''followed'' (named @ FOLLOWED)
      else if key \<in> set held then made ''failed''
        (named @ ''no erasure obligation follows this one on it: whoever may erase it records one with a predicate of its own, naming `follows`: '' @
         obligation_id @ '' (undropping it first while it is in the trash)'')
      else if key \<in> set kept then made ''held'' (named @ DEREGISTERED)
      else made ''gone'' (named @ (if key \<in> set released then DROPPED else RELOCATED)))"

text \<open>The released tables whose bytes still stand: each asks the object store.\<close>

fun kept_bytes :: "(string \<Rightarrow> bool result) \<Rightarrow> string \<Rightarrow> string list \<Rightarrow> (string \<times> string) list \<Rightarrow> string list \<Rightarrow> string list result" where
  "kept_bytes stands store held released [] = Inr []"
| "kept_bytes stands store held released (key # keys) =
     (case (if key \<in> set held then Inr False
            else case map_of released key of None \<Rightarrow> Inr False | Some loc \<Rightarrow> stands (key_uri store loc)) of
        Inl e \<Rightarrow> Inl e
      | Inr stood \<Rightarrow> (case kept_bytes stands store held released keys of
            Inl e \<Rightarrow> Inl e
          | Inr kept \<Rightarrow> Inr (if stood then key # kept else kept)))"

definition nearest_first :: "derived_walk \<Rightarrow> string list" where
  "nearest_first dw = map fst (sort_key snd (sort_key fst (dw_depths dw)))"

definition name_of :: "derived_walk \<Rightarrow> string \<Rightarrow> string" where
  "name_of dw key = (case map_of (dw_names dw) key of None \<Rightarrow> key | Some n \<Rightarrow> n)"

definition judged_walk ::
  "(string \<Rightarrow> bool result) \<Rightarrow> string \<Rightarrow> derived_walk \<Rightarrow> erasure_obligation \<Rightarrow> erasure_obligation list \<Rightarrow> erasure_stores
    \<Rightarrow> surface_result list result \<times> erasure_stores" where
  "judged_walk stands store dw ob obs st =
     (let ordered = nearest_first dw in
      if ordered = [] then (Inr [], st)
      else
        (let followed = followed_tables obs (ob_id ob);
             unfollowed = filter (\<lambda>key. is_table_uuid key \<and> key \<notin> set followed) ordered in
         case (if unfollowed = [] then (Inr ([], []), st) else read_claimed st) of
           (Inl e, st1) \<Rightarrow> (Inl e, st1)
         | (Inr (held, released), st1) \<Rightarrow>
             (case kept_bytes stands store held released unfollowed of
                Inl e \<Rightarrow> (Inl e, st1)
              | Inr kept \<Rightarrow>
                  (Inr (map (\<lambda>key. judged key (name_of dw key) followed held (map fst released) kept (ob_id ob)) ordered), st1))))"

text \<open>The reader of an edge list: by bounded filter on the input, and for the times by filter on the output.\<close>

record edge_reader =
  edges_from :: "string list \<Rightarrow> edge_row list"
  edges_into :: "string list \<Rightarrow> (string \<times> string \<times> string) list"

definition derivation_rows :: "table_inputs list \<Rightarrow> edge_reader option \<Rightarrow> edge_rows" where
  "derivation_rows records edges = joined (as_edges records # (case edges of None \<Rightarrow> [] | Some r \<Rightarrow> [filtered (edges_from r)]))"

definition derivation_walk :: "table_inputs list \<Rightarrow> edge_reader option \<Rightarrow> string list \<Rightarrow> derived_walk option" where
  "derivation_walk records edges sources = walk (derivation_rows records edges) sources None"

text \<open>
  \<^verbatim>\<open>judge\<close>. A walk that would not end is \<open>None\<close> of \<open>derivation_walk\<close>; the property below shows that it
  ends for every reader of finitely many edges.
\<close>

definition judge_derived ::
  "(string \<Rightarrow> bool result) \<Rightarrow> string \<Rightarrow> edge_reader option result \<Rightarrow> erasure_obligation \<Rightarrow> string \<Rightarrow> erasure_stores
    \<Rightarrow> (surface_result list result \<times> erasure_stores) option" where
  "judge_derived stands store edges ob table st =
     (case every_record (es_inputs st) of
        (Inl e, w1) \<Rightarrow> Some (Inl e, st\<lparr>es_inputs := w1\<rparr>)
      | (Inr records, w1) \<Rightarrow>
          (let st1 = st\<lparr>es_inputs := w1, es_claimed := None\<rparr> in
           case edges of
             Inl e \<Rightarrow> Some (Inl e, st1)
           | Inr r \<Rightarrow>
               (case derivation_walk records r [ob_table_uuid ob, table] of
                  None \<Rightarrow> None
                | Some dw \<Rightarrow>
                    (case list_obligations (es_obligations st1) of
                       (Inl e, w2) \<Rightarrow> Some (Inl e, st1\<lparr>es_obligations := w2\<rparr>)
                     | (Inr obs, w2) \<Rightarrow> Some (judged_walk stands store dw ob obs (st1\<lparr>es_obligations := w2\<rparr>))))))"

section \<open>Late derived tables\<close>

text \<open>When each key was first declared derived; \<open>None\<close> for one an edge names no readable time for.\<close>

definition declared_times :: "table_inputs list \<Rightarrow> string set \<Rightarrow> string \<Rightarrow> int option list" where
  "declared_times records inputs key = concat (map (\<lambda>entry.
     map (\<lambda>(_, d). Some (di_first_declared_at d)) (filter (\<lambda>(u, _). u \<in> inputs) (ti_inputs entry)))
     (filter (\<lambda>entry. ti_table_uuid entry = key) records))"

definition edge_times :: "(string \<Rightarrow> int option) \<Rightarrow> edge_reader option \<Rightarrow> string list \<Rightarrow> string set \<Rightarrow> string \<Rightarrow> int option list" where
  "edge_times fromiso edges keys inputs key = (case edges of
       None \<Rightarrow> []
     | Some r \<Rightarrow> map (\<lambda>(_, _, t). fromiso t)
         (filter (\<lambda>(a, b, _). a \<in> inputs \<and> b = key) (concat (map (edges_into r) (in_lists keys)))))"

definition first_declared ::
  "(string \<Rightarrow> int option) \<Rightarrow> table_inputs list \<Rightarrow> edge_reader option \<Rightarrow> string list \<Rightarrow> derived_walk \<Rightarrow> string list
    \<Rightarrow> (string \<times> int option) list" where
  "first_declared fromiso records edges sources dw keys =
     (let inputs = set sources \<union> fst ` set (dw_depths dw) in
      List.map_filter (\<lambda>key.
        let found = declared_times records inputs key @ edge_times fromiso edges keys inputs key in
        if found = [] then None
        else Some (key, if None \<in> set found then None else Some (Min (the ` set found)))) keys)"

definition owed_keys :: "surface_result list \<Rightarrow> string list \<Rightarrow> string list" where
  "owed_keys surfaces listed =
     filter (\<lambda>key. is_table_uuid key \<and> key \<notin> set listed)
       (remdups (List.map_filter (\<lambda>sr. if is_open sr then derived_key (sr_surface sr) else None) surfaces))"

definition late_of ::
  "(string \<Rightarrow> bool result) \<Rightarrow> string \<Rightarrow> (string \<Rightarrow> int option) \<Rightarrow> table_inputs list \<Rightarrow> edge_reader option \<Rightarrow> derived_walk
    \<Rightarrow> erasure_obligation \<Rightarrow> erasure_obligation list \<Rightarrow> erasure_stores \<Rightarrow> string list result \<times> erasure_stores" where
  "late_of stands store fromiso records edges dw ob obs st = (case ob_released_at ob of
       None \<Rightarrow> (Inr [], st)
     | Some released_at \<Rightarrow>
         (case judged_walk stands store dw ob obs st of
            (Inl e, st1) \<Rightarrow> (Inl e, st1)
          | (Inr surfaces, st1) \<Rightarrow>
              (let owed = owed_keys surfaces (ob_late_derived ob);
                   times = first_declared fromiso records edges [ob_table_uuid ob, ob_table ob] dw owed in
               (Inr (sort (map fst (filter (\<lambda>(_, t). case t of None \<Rightarrow> True | Some declared_at \<Rightarrow> declared_at < released_at) times))), st1))))"

text \<open>The loop of \<^verbatim>\<open>watch_released\<close> over the released obligations: what each tick newly lists.\<close>

fun watch_each ::
  "root \<Rightarrow> (obligation_body content \<Rightarrow> 'e) \<Rightarrow> (string \<Rightarrow> bool result) \<Rightarrow> string \<Rightarrow> (string \<Rightarrow> int option) \<Rightarrow> table_inputs list
    \<Rightarrow> edge_reader option \<Rightarrow> erasure_obligation list \<Rightarrow> erasure_obligation list \<Rightarrow> erasure_stores
    \<Rightarrow> ((string \<times> string list) list result \<times> erasure_stores) option" where
  "watch_each rt dg stands store fromiso records edges obs [] st = Some (Inr [], st)"
| "watch_each rt dg stands store fromiso records edges obs (ob # released) st =
     (case derivation_walk records edges [ob_table_uuid ob, ob_table ob] of
        None \<Rightarrow> None
      | Some dw \<Rightarrow>
          (case late_of stands store fromiso records edges dw ob obs st of
             (Inl e, st1) \<Rightarrow> Some (Inl e, st1)
           | (Inr late, st1) \<Rightarrow>
               (case (if late = [] then (Inr [], es_obligations st1)
                      else list_late_derived rt dg (ob_id ob) late (es_obligations st1)) of
                  (Inl e, w) \<Rightarrow> Some (Inl e, st1\<lparr>es_obligations := w\<rparr>)
                | (Inr added, w) \<Rightarrow>
                    (case watch_each rt dg stands store fromiso records edges obs released (st1\<lparr>es_obligations := w\<rparr>) of
                       Some (Inr found, st2) \<Rightarrow> Some (Inr (if added = [] then found else (ob_id ob, added) # found), st2)
                     | r \<Rightarrow> r))))"

definition watch_released ::
  "root \<Rightarrow> (obligation_body content \<Rightarrow> 'e) \<Rightarrow> (string \<Rightarrow> bool result) \<Rightarrow> string \<Rightarrow> (string \<Rightarrow> int option) \<Rightarrow> edge_reader option result
    \<Rightarrow> erasure_stores \<Rightarrow> ((string \<times> string list) list result \<times> erasure_stores) option" where
  "watch_released rt dg stands store fromiso edges st = (case list_obligations (es_obligations st) of
       (Inl e, w) \<Rightarrow> Some (Inl e, st\<lparr>es_obligations := w\<rparr>)
     | (Inr obs, w) \<Rightarrow>
         (let st1 = st\<lparr>es_obligations := w, es_claimed := None\<rparr>;
              released = filter (\<lambda>ob. ob_released_at ob \<noteq> None) obs in
          if released = [] then Some (Inr [], st1)
          else (case every_record (es_inputs st1) of
              (Inl e, w1) \<Rightarrow> Some (Inl e, st1\<lparr>es_inputs := w1\<rparr>)
            | (Inr records, w1) \<Rightarrow>
                (case edges of
                   Inl e \<Rightarrow> Some (Inl e, st1\<lparr>es_inputs := w1\<rparr>)
                 | Inr r \<Rightarrow> watch_each rt dg stands store fromiso records r obs released (st1\<lparr>es_inputs := w1\<rparr>)))))"

section \<open>Properties\<close>

text \<open>What is relied on of Lance: a filter of bounded length answers exactly the edges whose input it names.\<close>

definition exact_reader :: "edge_reader option \<Rightarrow> (string \<times> string) set \<Rightarrow> bool" where
  "exact_reader edges R \<longleftrightarrow> finite R \<and> (case edges of
       None \<Rightarrow> R = {}
     | Some r \<Rightarrow> \<forall>keys. length keys \<le> IN_LIST_SIZE \<longrightarrow> er_out ` set (edges_from r keys) = {b. \<exists>a\<in>set keys. (a, b) \<in> R})"

lemma derivation_edge_list:
  assumes "exact_reader edges R"
  shows "edge_list (derivation_rows records edges) (declared_edges records \<union> R)"
proof (cases edges)
  case None
  with assms declared.edge_list_axioms [of records] show ?thesis
    by (simp add: exact_reader_def derivation_rows_def joined_def [abs_def])
next
  case (Some r)
  with assms have "edge_list (filtered (edges_from r)) R"
    by (intro filtered_edge_list) (auto simp: exact_reader_def)
  with Some show ?thesis
    using joined_edge_list [OF declared.edge_list_axioms] by (simp add: derivation_rows_def)
qed

lemma derivation_walk_reaches:
  assumes "exact_reader edges R"
  shows "\<exists>dw. derivation_walk records edges sources = Some dw \<and>
    fst ` set (dw_depths dw) = {k. k \<notin> set sources \<and> (\<exists>s\<in>set sources. (s, k) \<in> (declared_edges records \<union> R)\<^sup>+)}"
proof -
  let ?E = "declared_edges records \<union> R"
  note el = derivation_edge_list [OF assms, of records]
  obtain dw where dw: "derivation_walk records edges sources = Some dw" "edge_list.walk_answer ?E (set sources) None dw"
    using edge_list.walk_answers [OF el] unfolding derivation_walk_def by blast
  have reached: "k \<in> fst ` set (dw_depths dw) \<longleftrightarrow> (\<exists>n\<ge>1. edge_list.nearest ?E (set sources) n k)" for k
    using dw(2) by (force simp: edge_list.walk_answer_def [OF el] edge_list.within_depth_def [OF el] image_iff)
  have "(\<exists>n\<ge>1. edge_list.nearest ?E (set sources) n k) \<longleftrightarrow> k \<notin> set sources \<and> (\<exists>s\<in>set sources. (s, k) \<in> ?E\<^sup>+)" for k
  proof
    assume "\<exists>n\<ge>1. edge_list.nearest ?E (set sources) n k"
    then obtain n where n: "0 < n" "edge_list.nearest ?E (set sources) n k" by (auto simp: Suc_le_eq)
    then have "\<not> edge_list.hops ?E (set sources) 0 k" "edge_list.hops ?E (set sources) n k"
      by (simp_all add: edge_list.nearest_def [OF el])
    with n(1) show "k \<notin> set sources \<and> (\<exists>s\<in>set sources. (s, k) \<in> ?E\<^sup>+)"
      unfolding edge_list.hops_0 [OF el] by (auto simp: edge_list.hops_def [OF el] trancl_power)
  next
    assume r: "k \<notin> set sources \<and> (\<exists>s\<in>set sources. (s, k) \<in> ?E\<^sup>+)"
    then obtain n where "edge_list.hops ?E (set sources) n k"
      by (auto simp: edge_list.hops_def [OF el] trancl_power)
    then obtain m where m: "edge_list.nearest ?E (set sources) m k"
      using edge_list.hops_nearest [OF el] by blast
    with r have "m \<noteq> 0" using edge_list.nearest_0 [OF el, of "set sources" k] by metis
    with m show "\<exists>n\<ge>1. edge_list.nearest ?E (set sources) n k" by (intro exI [of _ m]) simp
  qed
  with reached dw(1) show ?thesis by auto
qed

lemma held_claims_of:
  "set (fst (claimed_of claims)) = {u. \<exists>c\<in>set claims. lc_uuid c = Some u \<and> lc_released_at c = None}"
proof -
  have "set (fst (fold note_claim cs acc)) = set (fst acc) \<union> {u. \<exists>c\<in>set cs. lc_uuid c = Some u \<and> lc_released_at c = None}" for cs acc
    by (induction cs arbitrary: acc) (auto simp: note_claim_def split: option.splits)
  from this [of claims "([], [])"] show ?thesis
    by (simp add: claimed_of_def split_beta)
qed

lemma kept_bytes_stand:
  assumes "kept_bytes stands store held released keys = Inr kept" "key \<in> set keys" "key \<notin> set held" "key \<notin> set kept"
    "map_of released key = Some loc"
  shows "stands (key_uri store loc) = Inr False"
  using assms(1,2,4)
proof (induction keys arbitrary: kept)
  case (Cons k keys)
  from Cons.prems(1) obtain kept' where "kept_bytes stands store held released keys = Inr kept'" "set kept' \<subseteq> set kept"
    by (fastforce split: sum.splits if_splits)
  with Cons assms(3,5) show ?case
    by (cases "key = k") (auto split: sum.splits if_splits)
qed simp

lemma judged_closed:
  "\<not> is_open (judged key name followed held released kept i) \<Longrightarrow>
    is_table_uuid key \<and> (key \<in> set followed \<or> key \<notin> set held \<and> key \<notin> set kept)"
  by (auto simp: judged_def Let_def OPEN_OUTCOMES_def split: if_splits)

lemma judged_surface [simp]: "sr_surface (judged key name followed held released kept i) = derived_surface key"
  by (simp add: judged_def Let_def)

lemma derived_surface_not_verify: "derived_surface key \<noteq> ''verify''"
  by (simp add: derived_surface_def derived_prefix_def DERIVED_def)

text \<open>A walk judged without an open surface: every table of it is followed, or no claim is held for it and nothing stands.\<close>

lemma judged_walk_closed:
  assumes "judged_walk stands store dw ob obs st = (Inr ds, st')" "es_claimed st = None"
    and "\<forall>sr\<in>set ds. \<not> is_open sr" "k \<in> fst ` set (dw_depths dw)"
  shows "is_table_uuid k \<and> (k \<in> set (followed_tables obs (ob_id ob)) \<or>
    (\<exists>claims. fst (every_claim (es_claims st)) = Inr claims \<and> k \<notin> set (fst (claimed_of claims)) \<and>
      (\<forall>loc. map_of (snd (claimed_of claims)) k = Some loc \<longrightarrow> stands (key_uri store loc) = Inr False)))"
proof -
  let ?ordered = "nearest_first dw" and ?followed = "followed_tables obs (ob_id ob)"
  let ?un = "filter (\<lambda>key. is_table_uuid key \<and> key \<notin> set ?followed) ?ordered"
  have k: "k \<in> set ?ordered" using assms(4) by (simp add: nearest_first_def)
  then have ne: "?ordered \<noteq> []" by auto
  with assms(1) obtain held released kept st1 where
    claims: "(if ?un = [] then (Inr ([], []), st) else read_claimed st) = (Inr (held, released), st1)"
    and kept: "kept_bytes stands store held released ?un = Inr kept"
    and ds: "ds = map (\<lambda>key. judged key (name_of dw key) ?followed held (map fst released) kept (ob_id ob)) ?ordered"
    by (auto simp: judged_walk_def Let_def split: prod.splits sum.splits if_splits)
  have "judged k (name_of dw k) ?followed held (map fst released) kept (ob_id ob) \<in> set ds"
    unfolding ds using k by simp
  then have closed: "is_table_uuid k \<and> (k \<in> set ?followed \<or> k \<notin> set held \<and> k \<notin> set kept)"
    using assms(3) judged_closed by blast
  show ?thesis
  proof (cases "k \<in> set ?followed")
    case True
    with closed show ?thesis by simp
  next
    case False
    with closed k have un: "k \<in> set ?un" by simp
    then have "?un \<noteq> []" by (metis empty_iff list.set(1))
    with claims have "read_claimed st = (Inr (held, released), st1)" by simp
    then obtain cs where "fst (every_claim (es_claims st)) = Inr cs" "claimed_of cs = (held, released)"
      using assms(2) by (auto simp: read_claimed_def split: prod.splits sum.splits)
    moreover have "stands (key_uri store loc) = Inr False" if "map_of released k = Some loc" for loc
      using kept_bytes_stand [OF kept un _ _ that] closed False by simp
    ultimately show ?thesis using closed False by (intro conjI disjI2 exI [of _ cs]) auto
  qed
qed


definition sample_uuid :: string where
  "sample_uuid = ''00000000-0000-0000-0000-00000000000a''"

definition sample_follower :: erasure_obligation where
  "sample_follower = sample_obligation\<lparr>ob_id := ''p'', ob_table_uuid := sample_uuid, ob_follows := Some ''o''\<rparr>"

definition sample_stores :: erasure_stores where
  "sample_stores = \<lparr>
     es_inputs = \<lparr>objects = [(''_table_inputs/t.json'', Json (Inputs \<lparr>ti_table_uuid = sample_uuid, ti_name = ''d'',
       ti_inputs = [(''u'', \<lparr>di_first_declared_at = 1, di_version = 1, di_branch = None\<rparr>)]\<rparr>))], clock = 0, pending = []\<rparr>,
     es_obligations = \<lparr>objects = [(''_erasure_obligations/p.json'', Json (Obligation sample_follower))], clock = 0, pending = []\<rparr>,
     es_claims = \<lparr>objects = [], clock = 0, pending = []\<rparr>, es_claimed = None\<rparr>"

definition sample_dw :: derived_walk where
  "sample_dw = \<lparr>dw_depths = [(sample_uuid, 1)], dw_names = [(sample_uuid, ''d'')], dw_complete = True\<rparr>"

definition sample_records :: "table_inputs list" where
  "sample_records = [\<lparr>ti_table_uuid = sample_uuid, ti_name = ''d'',
       ti_inputs = [(''u'', \<lparr>di_first_declared_at = 1, di_version = 1, di_branch = None\<rparr>)]\<rparr>]"

lemma sample_walk: "derivation_walk sample_records None [''u'', ''ns$t''] = Some sample_dw"
  unfolding derivation_walk_def walk_def
  by (subst walk_loop.simps, subst walk_loop.simps, subst walk_loop.simps)
    (simp add: derivation_rows_def joined_def as_edges_def outputs_def note_row_def walked_def map_filter_simps Let_def
      sample_records_def sample_uuid_def sample_dw_def)

lemma sample_reads:
  "every_record (es_inputs sample_stores) = (Inr sample_records, es_inputs sample_stores)"
  "list_obligations (es_obligations sample_stores) =
     (Inr [sample_follower], es_obligations sample_stores)"
  by (simp_all add: every_record_def list_obligations_def list_records_def sample_stores_def in_prefix_def inputs_prefix_def
      obligation_prefix_def parsed_inputs_def sample_records_def map_filter_simps suffix_def)

lemma sample_followed:
  "followed_tables [sample_follower] ''o'' = [sample_uuid]"
  by (simp add: followed_tables_def reaches_from.simps sample_follower_def)

lemma sample_uuid_is_one: "is_table_uuid sample_uuid"
  by (simp add: is_table_uuid_def sample_uuid_def lower_char_def hex_chars_def)

lemma sample_judged:
  "\<exists>ds st'. judge_derived (\<lambda>_. Inr False) ''s3'' (Inr None) sample_obligation ''ns$t'' sample_stores = Some (Inr ds, st') \<and>
     rr_settled (concluded True settled_report (Inr ds))"
proof -
  have terms: "ob_table_uuid sample_obligation = ''u''" "ob_id sample_obligation = ''o''"
    by (simp_all add: sample_obligation_def)
  have walk: "nearest_first sample_dw = [sample_uuid]" by (simp add: nearest_first_def sample_dw_def)
  show ?thesis
    by (simp add: judge_derived_def sample_reads sample_walk sample_followed sample_uuid_is_one terms walk judged_walk_def judged_def
        concluded_def OPEN_OUTCOMES_def settled_report_def)
qed


end
