(* ===== verification/Erasure_Release.thy ===== *)
theory Erasure_Release
  imports History_Fences
begin

text \<open>
  \<^verbatim>\<open>catalog/services/erasure_release.py\<close>: the scheduled release of the refs that pin an erased subject's
  versions. A tick claims a due release under a lease, records which tags it deletes and where each branch
  comes back, deletes leaf-first, recreates top-down, and ends the record.

  What pylance answers about a table's refs is an argument \<open>lr\<close>, over an abstract store \<open>'d\<close> of datasets:
  opening a location gives the version the handle reads, listings give each branch's parent and each
  tag's branch, \<open>None\<close> being main, and every call may raise. Instants are microseconds, and the text
  a failed tick leaves on its record is kept as the error it is the text of.
\<close>

section \<open>Data\<close>

definition release_prefix :: string where
  "release_prefix = ''_erasure_releases''"

definition LEASE :: int where
  "LEASE = 15 * 60 * 1000000"

datatype release_phase = Pending | Deleting | Recreating

record recreate =
  rc_branch :: string
  rc_parent :: "string option"
  rc_version :: int

record release_record =
  rl_id :: string
  rl_table :: string
  rl_table_uuid :: string
  rl_location :: string
  rl_requested_by :: "string option"
  rl_notified :: "string list"
  rl_refs :: "string list"
  rl_due_at :: int
  rl_phase :: release_phase
  rl_lease_until :: "int option"
  rl_tags :: "string list"
  rl_plan :: "recreate list"
  rl_last_error :: "error option"

datatype release_body = Release release_record | Bad_release

type_synonym releases = "release_body world"

text \<open>One ref the release changed; the action names the event, the constructor's arguments are its extra fields.\<close>

datatype ref_action = Table_tag_deleted string | Table_branch_deleted string | Table_branch_created string "string option" int

record ref_change =
  rf_action :: ref_action
  rf_table :: string
  rf_table_uuid :: string
  rf_location :: string
  rf_release_id :: string

definition change :: "release_record \<Rightarrow> ref_action \<Rightarrow> ref_change" where
  "change r a = \<lparr>rf_action = a, rf_table = rl_table r, rf_table_uuid = rl_table_uuid r, rf_location = rl_location r, rf_release_id = rl_id r\<rparr>"

record 'd lance_refs =
  lr_open :: "string \<Rightarrow> 'd \<Rightarrow> int result"
  lr_branches :: "string \<Rightarrow> 'd \<Rightarrow> (string \<times> string option) list result"
  lr_tags :: "string \<Rightarrow> 'd \<Rightarrow> (string \<times> string option) list result"
  lr_delete_tag :: "string \<Rightarrow> string \<Rightarrow> 'd \<Rightarrow> unit result \<times> 'd"
  lr_delete_branch :: "string \<Rightarrow> string \<Rightarrow> 'd \<Rightarrow> unit result \<times> 'd"
  lr_create_branch :: "string \<Rightarrow> string \<Rightarrow> string option \<Rightarrow> int \<Rightarrow> 'd \<Rightarrow> unit result \<times> 'd"

definition release_key :: "string \<Rightarrow> string" where
  "release_key release_id = release_prefix @ ''/'' @ release_id @ ''.json''"

definition valid_release :: "release_body \<Rightarrow> release_record result" where
  "valid_release b = (case b of Release r \<Rightarrow> Inr r | Bad_release \<Rightarrow> Inl ValueError)"

text \<open>\<^verbatim>\<open>new_release\<close> over the refs \<^verbatim>\<open>pinned_by\<close> names.\<close>

definition new_release ::
  "string list \<Rightarrow> string \<Rightarrow> string \<Rightarrow> string \<Rightarrow> string \<Rightarrow> string option \<Rightarrow> string list \<Rightarrow> int \<Rightarrow> release_record" where
  "new_release refs release_id table table_uuid location requested_by notified due_at =
     \<lparr>rl_id = release_id, rl_table = table, rl_table_uuid = table_uuid, rl_location = location, rl_requested_by = requested_by,
      rl_notified = notified, rl_refs = refs, rl_due_at = due_at, rl_phase = Pending, rl_lease_until = None, rl_tags = [], rl_plan = [],
      rl_last_error = None\<rparr>"

definition schedule :: "release_record \<Rightarrow> releases \<Rightarrow> unit result \<times> releases" where
  "schedule r w = create_json (release_key (rl_id r)) (Release r) w"

definition scheduled ::
  "(release_body content \<Rightarrow> 'e) \<Rightarrow> string \<Rightarrow> releases \<Rightarrow> release_record option result \<times> releases" where
  "scheduled dg release_id w = (case read_json dg (release_key release_id) w of
       (Inl e, w1) \<Rightarrow> (Inl e, w1)
     | (Inr None, w1) \<Rightarrow> (Inr None, w1)
     | (Inr (Some (b, _)), w1) \<Rightarrow> (map_sum id Some (valid_release b), w1))"

section \<open>The plan\<close>

text \<open>\<^verbatim>\<open>ref.split(":", 1)[1]\<close> of the refs that begin with \<open>kind\<close> and a colon.\<close>

definition refs_named :: "string \<Rightarrow> string list \<Rightarrow> string list" where
  "refs_named kind refs = map (drop (Suc (length kind))) (filter (prefix (kind @ '':'')) refs)"

text \<open>The loop that closes the named branches under the branches cut from them.\<close>

function close_subtree :: "(string \<times> string option) list \<Rightarrow> string list \<Rightarrow> string list \<Rightarrow> string list" where
  "close_subtree forks subtree frontier =
     (if frontier = [] then subtree
      else (let parent = last frontier;
                children = remdups (filter (\<lambda>n. n \<notin> set subtree) (map fst (filter (\<lambda>(_, f). f = Some parent) forks))) in
        close_subtree forks (subtree @ children) (butlast frontier @ children)))"
  by pat_completeness auto
termination
proof (relation "measure (\<lambda>(forks, subtree, frontier). card (fst ` set forks - set subtree) + length frontier)", goal_cases)
  case (2 forks subtree frontier parent children)
  have sub: "set children \<subseteq> fst ` set forks - set subtree" using 2 by auto
  have "distinct children" using 2 by simp
  then have "card (set children) = length children" by (rule distinct_card)
  moreover have "fst ` set forks - set (subtree @ children) = fst ` set forks - set subtree - set children" by auto
  ultimately have "card (fst ` set forks - set (subtree @ children)) + length children = card (fst ` set forks - set subtree)"
    using sub card_Diff_subset [of "set children" "fst ` set forks - set subtree"] card_mono [OF _ sub] by simp
  moreover have "Suc (length (butlast frontier)) = length frontier" using 2 by (cases frontier rule: rev_cases) auto
  ultimately show ?case by simp
qed simp

declare close_subtree.simps [simp del]

definition fork_of :: "(string \<times> string option) list \<Rightarrow> string \<Rightarrow> string option" where
  "fork_of forks name = (case map_of forks name of None \<Rightarrow> None | Some f \<Rightarrow> f)"

text \<open>\<^verbatim>\<open>_depth\<close>: the loop runs while its depth is at most the size of the subtree, so at most one round more.\<close>

fun depth_loop :: "(string \<times> string option) list \<Rightarrow> string list \<Rightarrow> nat \<Rightarrow> nat \<Rightarrow> string option \<Rightarrow> nat" where
  "depth_loop forks subtree 0 depth parent = depth"
| "depth_loop forks subtree (Suc n) depth parent = (case parent of
       None \<Rightarrow> depth
     | Some p \<Rightarrow> if p \<in> set subtree then depth_loop forks subtree n (depth + 1) (fork_of forks p) else depth)"

definition branch_depth :: "string \<Rightarrow> (string \<times> string option) list \<Rightarrow> string list \<Rightarrow> nat" where
  "branch_depth name forks subtree = depth_loop forks subtree (Suc (length subtree)) 0 (fork_of forks name)"

definition subtree_of :: "(string \<times> string option) list \<Rightarrow> release_record \<Rightarrow> string list" where
  "subtree_of forks r =
     (let named = remdups (filter (\<lambda>n. n \<in> fst ` set forks) (refs_named ''branch'' (rl_refs r) @ map rc_branch (rl_plan r))) in
      close_subtree forks named named)"

definition plan_release ::
  "(string \<times> string option) list \<Rightarrow> (string \<times> string option) list \<Rightarrow> int \<Rightarrow> release_record \<Rightarrow> string list \<times> recreate list" where
  "plan_release forks listed head r =
     (let subtree = subtree_of forks r;
          tags = sort (remdups (refs_named ''tag'' (rl_refs r) @ rl_tags r @
            map fst (filter (\<lambda>(_, b). case b of None \<Rightarrow> False | Some n \<Rightarrow> n \<in> set subtree) listed)));
          top_down = sort_key (\<lambda>n. branch_depth n forks subtree) (sort subtree) in
      (filter (\<lambda>t. t \<in> fst ` set listed) tags,
       map (\<lambda>n. \<lparr>rc_branch = n,
         rc_parent = (case fork_of forks n of None \<Rightarrow> None | Some p \<Rightarrow> if p \<in> set subtree then Some p else None),
         rc_version = head\<rparr>) top_down))"

section \<open>The claim\<close>

definition claimable :: "release_record \<Rightarrow> int \<Rightarrow> bool" where
  "claimable r time \<longleftrightarrow> rl_due_at r \<le> time \<and> (case rl_lease_until r of None \<Rightarrow> True | Some t \<Rightarrow> t \<le> time)"

definition joined_plan :: "release_record \<Rightarrow> string list \<Rightarrow> recreate list \<Rightarrow> release_record" where
  "joined_plan r tags plan =
     (let recorded = map rc_branch (rl_plan r);
          newcomers = map (\<lambda>s. case rl_plan r of [] \<Rightarrow> s | p # _ \<Rightarrow> s\<lparr>rc_version := rc_version p\<rparr>)
            (filter (\<lambda>s. rc_branch s \<notin> set recorded) plan) in
      r\<lparr>rl_tags := sort (remdups (rl_tags r @ tags)), rl_plan := rl_plan r @ newcomers\<rparr>)"

definition claim_release :: "int \<Rightarrow> string list \<Rightarrow> recreate list \<Rightarrow> release_body \<Rightarrow> release_body result" where
  "claim_release time tags plan current = (case valid_release current of
       Inl e \<Rightarrow> Inl e
     | Inr r0 \<Rightarrow>
         if \<not> claimable r0 time then Inl ReleaseLost
         else (let r = r0\<lparr>rl_lease_until := Some (time + LEASE)\<rparr> in
           Inr (Release (case rl_phase r of
               Pending \<Rightarrow> r\<lparr>rl_phase := Deleting, rl_tags := tags, rl_plan := plan\<rparr>
             | Deleting \<Rightarrow> joined_plan r tags plan
             | Recreating \<Rightarrow> r))))"

definition set_recreating :: "release_body \<Rightarrow> release_body result" where
  "set_recreating current = (case current of Release r \<Rightarrow> Inr (Release (r\<lparr>rl_phase := Recreating\<rparr>)) | Bad_release \<Rightarrow> Inr Bad_release)"

text \<open>\<^verbatim>\<open>_mutate\<close>: a record that changed under every attempt, or is gone, is another tick's.\<close>

definition mutate_release ::
  "root \<Rightarrow> (release_body content \<Rightarrow> 'e) \<Rightarrow> string \<Rightarrow> (release_body \<Rightarrow> release_body result) \<Rightarrow> releases
    \<Rightarrow> release_record result \<times> releases" where
  "mutate_release rt dg release_id f w = (case mutate_json rt dg (release_key release_id) f w of
       (Inl e, w1) \<Rightarrow> (Inl (if e = RecordChangedError \<or> e = RecordMissingError then ReleaseLost else e), w1)
     | (Inr b, w1) \<Rightarrow> (valid_release b, w1))"

definition hand_back :: "root \<Rightarrow> (release_body content \<Rightarrow> 'e) \<Rightarrow> string \<Rightarrow> int \<Rightarrow> error \<Rightarrow> releases \<Rightarrow> releases" where
  "hand_back rt dg release_id time err w = snd (mutate_json rt dg (release_key release_id)
     (\<lambda>b. Inr (case b of Release r \<Rightarrow> Release (r\<lparr>rl_lease_until := Some time, rl_last_error := Some err\<rparr>) | Bad_release \<Rightarrow> Bad_release)) w)"

definition finish_release :: "root \<Rightarrow> string \<Rightarrow> releases \<Rightarrow> bool result \<times> releases" where
  "finish_release rt release_id w = delete_record rt (release_key release_id) w"

section \<open>Deleting and recreating\<close>

fun delete_tags :: "'d lance_refs \<Rightarrow> release_record \<Rightarrow> string set \<Rightarrow> string list \<Rightarrow> 'd \<Rightarrow> ref_change list result \<times> 'd" where
  "delete_tags lr r listed [] d = (Inr [], d)"
| "delete_tags lr r listed (t # ts) d =
     (if t \<notin> listed then delete_tags lr r listed ts d
      else (case lr_delete_tag lr (rl_location r) t d of
          (Inl e, d1) \<Rightarrow> (Inl e, d1)
        | (Inr _, d1) \<Rightarrow> (case delete_tags lr r listed ts d1 of
              (Inl e, d2) \<Rightarrow> (Inl e, d2)
            | (Inr cs, d2) \<Rightarrow> (Inr (change r (Table_tag_deleted t) # cs), d2))))"

fun delete_branches :: "'d lance_refs \<Rightarrow> release_record \<Rightarrow> string set \<Rightarrow> recreate list \<Rightarrow> 'd \<Rightarrow> ref_change list result \<times> 'd" where
  "delete_branches lr r listed [] d = (Inr [], d)"
| "delete_branches lr r listed (s # ss) d =
     (if rc_branch s \<notin> listed then delete_branches lr r listed ss d
      else (case lr_delete_branch lr (rl_location r) (rc_branch s) d of
          (Inl e, d1) \<Rightarrow> (Inl e, d1)
        | (Inr _, d1) \<Rightarrow> (case delete_branches lr r listed ss d1 of
              (Inl e, d2) \<Rightarrow> (Inl e, d2)
            | (Inr cs, d2) \<Rightarrow> (Inr (change r (Table_branch_deleted (rc_branch s)) # cs), d2))))"

definition delete_refs :: "'d lance_refs \<Rightarrow> release_record \<Rightarrow> 'd \<Rightarrow> ref_change list result \<times> 'd" where
  "delete_refs lr r d = (case lr_tags lr (rl_location r) d of
       Inl e \<Rightarrow> (Inl e, d)
     | Inr ts \<Rightarrow> (case delete_tags lr r (fst ` set ts) (rl_tags r) d of
           (Inl e, d1) \<Rightarrow> (Inl e, d1)
         | (Inr cs, d1) \<Rightarrow> (case lr_branches lr (rl_location r) d1 of
               Inl e \<Rightarrow> (Inl e, d1)
             | Inr bs \<Rightarrow> (case delete_branches lr r (fst ` set bs) (rev (rl_plan r)) d1 of
                   (Inl e, d2) \<Rightarrow> (Inl e, d2)
                 | (Inr cs', d2) \<Rightarrow> (Inr (cs @ cs'), d2)))))"

fun recreate_each :: "'d lance_refs \<Rightarrow> release_record \<Rightarrow> string set \<Rightarrow> recreate list \<Rightarrow> 'd \<Rightarrow> ref_change list result \<times> 'd" where
  "recreate_each lr r present [] d = (Inr [], d)"
| "recreate_each lr r present (s # ss) d =
     (if rc_branch s \<in> present then recreate_each lr r present ss d
      else (case lr_create_branch lr (rl_location r) (rc_branch s) (rc_parent s) (rc_version s) d of
          (Inl e, d1) \<Rightarrow> (Inl e, d1)
        | (Inr _, d1) \<Rightarrow> (case recreate_each lr r (insert (rc_branch s) present) ss d1 of
              (Inl e, d2) \<Rightarrow> (Inl e, d2)
            | (Inr cs, d2) \<Rightarrow> (Inr (change r (Table_branch_created (rc_branch s) (rc_parent s) (rc_version s)) # cs), d2))))"

definition recreate_refs :: "'d lance_refs \<Rightarrow> release_record \<Rightarrow> 'd \<Rightarrow> ref_change list result \<times> 'd" where
  "recreate_refs lr r d = (case lr_branches lr (rl_location r) d of
       Inl e \<Rightarrow> (Inl e, d)
     | Inr bs \<Rightarrow> recreate_each lr r (fst ` set bs) (rl_plan r) d)"

section \<open>A tick\<close>

record 'd release_stores =
  rs_releases :: releases
  rs_fences :: "history_fence world"
  rs_data :: 'd

text \<open>\<^verbatim>\<open>_plan\<close> as the tick asks it: nothing is planned again once the deletes are done.\<close>

definition tick_plan :: "'d lance_refs \<Rightarrow> release_record \<Rightarrow> int \<Rightarrow> 'd \<Rightarrow> (string list \<times> recreate list) result" where
  "tick_plan lr r head d =
     (if rl_phase r = Recreating then Inr (rl_tags r, rl_plan r)
      else (case lr_branches lr (rl_location r) d of
          Inl e \<Rightarrow> Inl e
        | Inr forks \<Rightarrow> (case lr_tags lr (rl_location r) d of
              Inl e \<Rightarrow> Inl e
            | Inr listed \<Rightarrow> Inr (plan_release forks listed head r))))"

text \<open>What the tick does under the table's fence: plan, claim, delete unless that is done, recreate.\<close>

definition release_under_fence ::
  "'d lance_refs \<Rightarrow> root \<Rightarrow> (release_body content \<Rightarrow> 'e) \<Rightarrow> int \<Rightarrow> release_record \<Rightarrow> int \<Rightarrow> releases \<Rightarrow> 'd
    \<Rightarrow> ref_change list result \<times> releases \<times> 'd" where
  "release_under_fence lr rt dg time r head w d = (case tick_plan lr r head d of
       Inl e \<Rightarrow> (Inl e, w, d)
     | Inr (tags, plan) \<Rightarrow>
         (case mutate_release rt dg (rl_id r) (claim_release time tags plan) w of
            (Inl e, w1) \<Rightarrow> (Inl e, w1, d)
          | (Inr claimed, w1) \<Rightarrow>
              (if rl_phase claimed = Deleting then
                 (case delete_refs lr claimed d of
                    (Inl e, d1) \<Rightarrow> (Inl e, w1, d1)
                  | (Inr cs, d1) \<Rightarrow>
                      (case mutate_release rt dg (rl_id r) set_recreating w1 of
                         (Inl e, w2) \<Rightarrow> (Inl e, w2, d1)
                       | (Inr again, w2) \<Rightarrow>
                           (case recreate_refs lr again d1 of
                              (Inl e, d2) \<Rightarrow> (Inl e, w2, d2)
                            | (Inr cs', d2) \<Rightarrow> (Inr (cs @ cs'), w2, d2))))
               else (case recreate_refs lr claimed d of
                   (Inl e, d1) \<Rightarrow> (Inl e, w1, d1)
                 | (Inr cs, d1) \<Rightarrow> (Inr cs, w1, d1)))))"

definition run_release ::
  "'d lance_refs \<Rightarrow> (string \<Rightarrow> string) \<Rightarrow> (nat \<Rightarrow> string) \<Rightarrow> root \<Rightarrow> (history_fence content \<Rightarrow> 'f) \<Rightarrow> (release_body content \<Rightarrow> 'e)
    \<Rightarrow> int \<Rightarrow> release_record \<Rightarrow> 'd release_stores \<Rightarrow> ref_change list result \<times> 'd release_stores" where
  "run_release lr hex mint rt dgf dg time r st = (case lr_open lr (rl_location r) (rs_data st) of
       Inl e \<Rightarrow> (Inl e, st)
     | Inr head \<Rightarrow>
         (case fence_held hex dgf mint \<lparr>th_root = rt, th_uuid = rl_table_uuid r\<rparr> BRANCH
             (\<lambda>fw. (Inr (release_under_fence lr rt dg time r head (rs_releases st) (rs_data st)), fw)) (rs_fences st) of
            (Inl e, fw) \<Rightarrow> (Inl e, st\<lparr>rs_fences := fw\<rparr>)
          | (Inr (Inl e, w1, d1), fw) \<Rightarrow> (Inl e, st\<lparr>rs_fences := fw, rs_releases := w1, rs_data := d1\<rparr>)
          | (Inr (Inr cs, w1, d1), fw) \<Rightarrow>
              (case finish_release rt (rl_id r) w1 of
                 (Inl e, w2) \<Rightarrow> (Inl e, st\<lparr>rs_fences := fw, rs_releases := w2, rs_data := d1\<rparr>)
               | (Inr _, w2) \<Rightarrow> (Inr cs, st\<lparr>rs_fences := fw, rs_releases := w2, rs_data := d1\<rparr>))))"

fun release_each ::
  "'d lance_refs \<Rightarrow> (string \<Rightarrow> string) \<Rightarrow> (nat \<Rightarrow> string) \<Rightarrow> root \<Rightarrow> (history_fence content \<Rightarrow> 'f) \<Rightarrow> (release_body content \<Rightarrow> 'e)
    \<Rightarrow> int \<Rightarrow> release_body list \<Rightarrow> 'd release_stores \<Rightarrow> ref_change list \<times> 'd release_stores" where
  "release_each lr hex mint rt dgf dg time [] st = ([], st)"
| "release_each lr hex mint rt dgf dg time (Bad_release # bs) st = release_each lr hex mint rt dgf dg time bs st"
| "release_each lr hex mint rt dgf dg time (Release r # bs) st =
     (if \<not> claimable r time then release_each lr hex mint rt dgf dg time bs st
      else (case run_release lr hex mint rt dgf dg time r st of
          (Inr cs, st1) \<Rightarrow> (case release_each lr hex mint rt dgf dg time bs st1 of (cs', st2) \<Rightarrow> (cs @ cs', st2))
        | (Inl e, st1) \<Rightarrow>
            release_each lr hex mint rt dgf dg time bs
              (if e = ReleaseLost \<or> e = HistoryFencedError then st1
               else st1\<lparr>rs_releases := hand_back rt dg (rl_id r) time e (rs_releases st1)\<rparr>)))"

definition release_due ::
  "'d lance_refs \<Rightarrow> (string \<Rightarrow> string) \<Rightarrow> (nat \<Rightarrow> string) \<Rightarrow> root \<Rightarrow> (history_fence content \<Rightarrow> 'f) \<Rightarrow> (release_body content \<Rightarrow> 'e)
    \<Rightarrow> int \<Rightarrow> 'd release_stores \<Rightarrow> ref_change list result \<times> 'd release_stores" where
  "release_due lr hex mint rt dgf dg time st = (case list_records release_prefix False (rs_releases st) of
       (Inl e, w1) \<Rightarrow> (Inl e, st\<lparr>rs_releases := w1\<rparr>)
     | (Inr bs, w1) \<Rightarrow> (case release_each lr hex mint rt dgf dg time bs (st\<lparr>rs_releases := w1\<rparr>) of (cs, st1) \<Rightarrow> (Inr cs, st1)))"

section \<open>The subtree\<close>

definition cut_from :: "(string \<times> string option) list \<Rightarrow> (string \<times> string) set" where
  "cut_from forks = {(p, c). (c, Some p) \<in> set forks}"

text \<open>The closing loop's state: what is in the subtree and not in the frontier has its children in the subtree.\<close>

lemma close_subtree_inv:
  assumes "set frontier \<subseteq> set subtree" "distinct subtree"
    and "\<forall>p\<in>set subtree - set frontier. \<forall>c. (p, c) \<in> cut_from forks \<longrightarrow> c \<in> set subtree"
  shows "set subtree \<subseteq> set (close_subtree forks subtree frontier) \<and> distinct (close_subtree forks subtree frontier) \<and>
    (\<forall>p\<in>set (close_subtree forks subtree frontier). \<forall>c. (p, c) \<in> cut_from forks \<longrightarrow> c \<in> set (close_subtree forks subtree frontier)) \<and>
    set (close_subtree forks subtree frontier) \<subseteq> set subtree \<union> fst ` set forks"
  using assms
proof (induction forks subtree frontier rule: close_subtree.induct)
  case (1 forks subtree frontier)
  show ?case
  proof (cases "frontier = []")
    case True
    then have "close_subtree forks subtree frontier = subtree" by (subst close_subtree.simps) simp
    with 1(3,4) True show ?thesis by simp
  next
    case False
    let ?p = "last frontier"
    let ?cs = "remdups (filter (\<lambda>n. n \<notin> set subtree) (map fst (filter (\<lambda>(_, f). f = Some ?p) forks)))"
    have split: "set frontier = insert ?p (set (butlast frontier))"
      using False by (metis append_butlast_last_id list.simps(15) rotate1.simps(2) set_rotate1)
    have cs: "set ?cs = {c. (?p, c) \<in> cut_from forks} - set subtree" by (force simp: cut_from_def)
    have "set (butlast frontier @ ?cs) \<subseteq> set (subtree @ ?cs)" using 1(2) split by auto
    moreover have "distinct (subtree @ ?cs)" using 1(3) by auto
    moreover have "\<forall>p\<in>set (subtree @ ?cs) - set (butlast frontier @ ?cs). \<forall>c. (p, c) \<in> cut_from forks \<longrightarrow> c \<in> set (subtree @ ?cs)"
    proof (intro ballI allI impI)
      fix p c
      assume p: "p \<in> set (subtree @ ?cs) - set (butlast frontier @ ?cs)" and edge: "(p, c) \<in> cut_from forks"
      show "c \<in> set (subtree @ ?cs)"
      proof (cases "p = ?p")
        case True
        with edge cs show ?thesis by (simp only: set_append) blast
      next
        case False
        with p split have "p \<in> set subtree - set frontier" by auto
        with 1(4) edge show ?thesis by auto
      qed
    qed
    ultimately have ih: "set (subtree @ ?cs) \<subseteq> set (close_subtree forks (subtree @ ?cs) (butlast frontier @ ?cs)) \<and>
        distinct (close_subtree forks (subtree @ ?cs) (butlast frontier @ ?cs)) \<and>
        (\<forall>p\<in>set (close_subtree forks (subtree @ ?cs) (butlast frontier @ ?cs)). \<forall>c. (p, c) \<in> cut_from forks \<longrightarrow>
          c \<in> set (close_subtree forks (subtree @ ?cs) (butlast frontier @ ?cs))) \<and>
        set (close_subtree forks (subtree @ ?cs) (butlast frontier @ ?cs)) \<subseteq> set (subtree @ ?cs) \<union> fst ` set forks"
      using 1(1) [OF False refl refl] by blast
    have sub: "set ?cs \<subseteq> fst ` set forks" by auto
    have eq: "close_subtree forks subtree frontier = close_subtree forks (subtree @ ?cs) (butlast frontier @ ?cs)"
      by (subst close_subtree.simps) (simp only: False Let_def if_False)
    show ?thesis
      unfolding eq using ih sub unfolding set_append by blast
  qed
qed

lemma subtree_of_closed:
  "distinct (subtree_of forks r)"
  "p \<in> set (subtree_of forks r) \<Longrightarrow> (p, c) \<in> cut_from forks \<Longrightarrow> c \<in> set (subtree_of forks r)"
  "set (subtree_of forks r) \<subseteq> fst ` set forks"
  "n \<in> set (refs_named ''branch'' (rl_refs r)) \<Longrightarrow> n \<in> fst ` set forks \<Longrightarrow> n \<in> set (subtree_of forks r)"
proof -
  let ?named = "remdups (filter (\<lambda>n. n \<in> fst ` set forks) (refs_named ''branch'' (rl_refs r) @ map rc_branch (rl_plan r)))"
  note inv = close_subtree_inv [of ?named ?named forks, simplified Diff_cancel, OF subset_refl distinct_remdups]
  have eq: "subtree_of forks r = close_subtree forks ?named ?named" by (simp add: subtree_of_def)
  show "distinct (subtree_of forks r)"
    "p \<in> set (subtree_of forks r) \<Longrightarrow> (p, c) \<in> cut_from forks \<Longrightarrow> c \<in> set (subtree_of forks r)"
    unfolding eq using inv by blast+
  have "set ?named \<subseteq> fst ` set forks" by auto
  then show "set (subtree_of forks r) \<subseteq> fst ` set forks"
    unfolding eq using inv by blast
  show "n \<in> set (refs_named ''branch'' (rl_refs r)) \<Longrightarrow> n \<in> fst ` set forks \<Longrightarrow> n \<in> set (subtree_of forks r)"
  proof -
    assume "n \<in> set (refs_named ''branch'' (rl_refs r))" "n \<in> fst ` set forks"
    then have "n \<in> set ?named" by auto
    then show "n \<in> set (subtree_of forks r)" unfolding eq using inv by blast
  qed
qed

section \<open>The order\<close>

lemma fork_of_cut: "fork_of forks c = Some p \<Longrightarrow> (p, c) \<in> cut_from forks"
  by (auto simp: fork_of_def cut_from_def dest: map_of_SomeD split: option.splits)

lemma cut_fork_of: "distinct (map fst forks) \<Longrightarrow> (p, c) \<in> cut_from forks \<Longrightarrow> fork_of forks c = Some p"
  by (simp add: fork_of_def cut_from_def)

lemma depth_shift: "depth_loop forks sub n d par = d + depth_loop forks sub n 0 par"
proof (induction n arbitrary: d par)
  case (Suc n)
  show ?case
    using Suc [of "d + 1"] Suc [of 1] by (cases par) auto
qed simp

text \<open>Every round of the depth loop meets another ancestor in the subtree, so it ends before its bound.\<close>

lemma depth_bound:
  assumes "acyclic (cut_from forks)"
  shows "depth_loop forks sub n 0 (Some p) \<le> card {x \<in> set sub. (x, p) \<in> (cut_from forks)\<^sup>*}"
proof (induction n arbitrary: p)
  case (Suc n)
  let ?A = "\<lambda>p. {x \<in> set sub. (x, p) \<in> (cut_from forks)\<^sup>*}"
  show ?case
  proof (cases "p \<in> set sub")
    case True
    have step: "depth_loop forks sub (Suc n) 0 (Some p) = Suc (depth_loop forks sub n 0 (fork_of forks p))"
      using True depth_shift [of forks sub n 1] by simp
    show ?thesis
    proof (cases "fork_of forks p")
      case None
      have "card {p} \<le> card (?A p)" using True by (intro card_mono) auto
      moreover have "depth_loop forks sub n 0 None = 0" by (cases n) auto
      ultimately show ?thesis unfolding step None by simp
    next
      case (Some q)
      then have edge: "(q, p) \<in> cut_from forks" by (rule fork_of_cut)
      with assms have "p \<notin> ?A q" by (auto simp: acyclic_def dest: rtrancl_into_trancl1)
      moreover have "insert p (?A q) \<subseteq> ?A p" using True edge by (auto intro: rtrancl_into_rtrancl)
      then have "card (insert p (?A q)) \<le> card (?A p)" by (intro card_mono) auto
      ultimately have "Suc (card (?A q)) \<le> card (?A p)" by simp
      with Suc [of q] step Some show ?thesis by simp
    qed
  qed simp
qed simp

lemma depth_saturates: "depth_loop forks sub (Suc n) 0 par \<le> n \<Longrightarrow> depth_loop forks sub n 0 par = depth_loop forks sub (Suc n) 0 par"
proof (induction n arbitrary: par)
  case (Suc n)
  show ?case
  proof (cases "\<exists>p. par = Some p \<and> p \<in> set sub")
    case True
    then obtain p where p: "par = Some p" "p \<in> set sub" by blast
    have rec: "depth_loop forks sub (Suc m) 0 par = Suc (depth_loop forks sub m 0 (fork_of forks p))" for m
      using p depth_shift [of forks sub m 1] by simp
    from Suc.prems have "depth_loop forks sub (Suc n) 0 (fork_of forks p) \<le> n" unfolding rec by simp
    from Suc.IH [OF this] show ?thesis unfolding rec by simp
  next
    case False
    then show ?thesis by (cases par) auto
  qed
qed simp

lemma depth_child:
  assumes "acyclic (cut_from forks)" "fork_of forks c = Some p" "p \<in> set sub"
  shows "branch_depth c forks sub = Suc (branch_depth p forks sub)"
proof -
  let ?n = "length sub"
  have "depth_loop forks sub (Suc ?n) 0 (fork_of forks p) \<le> ?n"
  proof (cases "fork_of forks p")
    case (Some q)
    have "card {x \<in> set sub. (x, q) \<in> (cut_from forks)\<^sup>*} \<le> card (set sub)" by (intro card_mono) auto
    with depth_bound [OF assms(1), of sub "Suc ?n" q] card_length [of sub] show ?thesis unfolding Some by linarith
  qed simp
  from depth_saturates [OF this] show ?thesis
    using assms(2,3) depth_shift [of forks sub ?n 1] by (simp add: branch_depth_def)
qed

lemma sorted_before:
  assumes "sorted (map f (as @ s # bs))" "p \<in> set (as @ s # bs)" "f p < (f s :: nat)"
  shows "p \<in> set as"
  using assms by (auto simp: sorted_append)

lemma sorted_after:
  assumes "sorted (map f (as @ s # bs))" "c \<in> set (as @ s # bs)" "(f s :: nat) < f c"
  shows "c \<in> set bs"
  using assms by (auto simp: sorted_append)

section \<open>Properties\<close>

lemma plan_branches:
  assumes "plan_release forks listed head r = (tags, plan)"
  shows "map rc_branch plan = sort_key (\<lambda>n. branch_depth n forks (subtree_of forks r)) (sort (subtree_of forks r))"
    "rc_branch ` set plan = set (subtree_of forks r)" "distinct (map rc_branch plan)"
    "s \<in> set plan \<Longrightarrow> rc_parent s = (case fork_of forks (rc_branch s) of None \<Rightarrow> None
       | Some p \<Rightarrow> if p \<in> set (subtree_of forks r) then Some p else None)"
    "t \<in> fst ` set listed \<Longrightarrow> t \<in> set (refs_named ''tag'' (rl_refs r)) \<or> (\<exists>n\<in>set (subtree_of forks r). (t, Some n) \<in> set listed) \<Longrightarrow> t \<in> set tags"
    "set tags \<subseteq> fst ` set listed" "distinct tags"
proof -
  have plan: "plan = map (\<lambda>n. \<lparr>rc_branch = n,
         rc_parent = (case fork_of forks n of None \<Rightarrow> None | Some p \<Rightarrow> if p \<in> set (subtree_of forks r) then Some p else None),
         rc_version = head\<rparr>) (sort_key (\<lambda>n. branch_depth n forks (subtree_of forks r)) (sort (subtree_of forks r)))"
    and tags: "tags = filter (\<lambda>t. t \<in> fst ` set listed) (sort (remdups (refs_named ''tag'' (rl_refs r) @ rl_tags r @
            map fst (filter (\<lambda>(_, b). case b of None \<Rightarrow> False | Some n \<Rightarrow> n \<in> set (subtree_of forks r)) listed))))"
    using assms by (simp_all add: plan_release_def Let_def)
  show names: "map rc_branch plan = sort_key (\<lambda>n. branch_depth n forks (subtree_of forks r)) (sort (subtree_of forks r))"
    unfolding plan by (simp add: comp_def)
  have "set (map rc_branch plan) = set (subtree_of forks r)" unfolding names by simp
  then show "rc_branch ` set plan = set (subtree_of forks r)" by simp
  show "distinct (map rc_branch plan)" unfolding names by (simp add: subtree_of_closed(1))
  show "s \<in> set plan \<Longrightarrow> rc_parent s = (case fork_of forks (rc_branch s) of None \<Rightarrow> None
       | Some p \<Rightarrow> if p \<in> set (subtree_of forks r) then Some p else None)"
    unfolding plan by auto
  show "t \<in> fst ` set listed \<Longrightarrow> t \<in> set (refs_named ''tag'' (rl_refs r)) \<or> (\<exists>n\<in>set (subtree_of forks r). (t, Some n) \<in> set listed) \<Longrightarrow> t \<in> set tags"
  proof -
    let ?on = "filter (\<lambda>(_, b). case b of None \<Rightarrow> False | Some n \<Rightarrow> n \<in> set (subtree_of forks r)) listed"
    assume t: "t \<in> fst ` set listed" "t \<in> set (refs_named ''tag'' (rl_refs r)) \<or> (\<exists>n\<in>set (subtree_of forks r). (t, Some n) \<in> set listed)"
    have "t \<in> set (map fst ?on)" if "n \<in> set (subtree_of forks r)" "(t, Some n) \<in> set listed" for n
      unfolding set_map by (rule image_eqI [of _ _ "(t, Some n)"]) (use that in auto)
    then have "t \<in> set (refs_named ''tag'' (rl_refs r) @ rl_tags r @ map fst ?on)" using t(2) by auto
    with t(1) show "t \<in> set tags" unfolding tags by (simp only: set_filter set_sort set_remdups) blast
  qed
  show "set tags \<subseteq> fst ` set listed" "distinct tags" unfolding tags by auto
qed

lemma plan_order:
  assumes "distinct (map fst forks)" "acyclic (cut_from forks)" "plan_release forks listed head r = (tags, plan)" "plan = as @ s # bs"
  shows "rc_parent s = Some p \<Longrightarrow> p \<in> rc_branch ` set as" "(rc_branch s, c) \<in> cut_from forks \<Longrightarrow> c \<in> rc_branch ` set bs"
proof -
  let ?sub = "subtree_of forks r"
  let ?f = "\<lambda>n. branch_depth n forks ?sub"
  note plan = plan_branches [OF assms(3)]
  have names: "map rc_branch plan = map rc_branch as @ rc_branch s # map rc_branch bs" using assms(4) by simp
  have "sorted (map ?f (map rc_branch plan))" unfolding plan(1) by simp
  then have sorted: "sorted (map ?f (map rc_branch as @ rc_branch s # map rc_branch bs))" unfolding names .
  have all: "set (map rc_branch as @ rc_branch s # map rc_branch bs) = set ?sub" unfolding names [symmetric] using plan(2) by simp
  have s: "s \<in> set plan" using assms(4) by simp
  then have s': "rc_branch s \<in> set ?sub" using plan(2) by blast
  show "p \<in> rc_branch ` set as" if "rc_parent s = Some p"
  proof -
    from that plan(4) [OF s] have p: "fork_of forks (rc_branch s) = Some p" "p \<in> set ?sub" by (auto split: option.splits if_splits)
    with depth_child [OF assms(2)] have "?f p < ?f (rc_branch s)" by simp
    then have "p \<in> set (map rc_branch as)" using sorted_before [OF sorted] p(2) unfolding all by blast
    then show ?thesis by simp
  qed
  show "c \<in> rc_branch ` set bs" if "(rc_branch s, c) \<in> cut_from forks"
  proof -
    have c: "c \<in> set ?sub" using subtree_of_closed(2) [OF s' that] .
    have "?f (rc_branch s) < ?f c" using depth_child [OF assms(2) cut_fork_of [OF assms(1) that] s'] by simp
    then have "c \<in> set (map rc_branch bs)" using sorted_after [OF sorted] c unfolding all by blast
    then show ?thesis by simp
  qed
qed

text \<open>
  What is relied on of pylance's refs: an existing tag can be deleted, a branch no other branch is cut from
  and no tag names can be deleted, an absent branch can be created from main or from a listed branch, and
  each changes that ref and no other.
\<close>

definition shows_refs :: "'d lance_refs \<Rightarrow> string \<Rightarrow> 'd \<Rightarrow> (string \<times> string option) set \<Rightarrow> (string \<times> string option) set \<Rightarrow> bool" where
  "shows_refs lr loc d B T \<longleftrightarrow> (\<exists>bs ts. lr_branches lr loc d = Inr bs \<and> lr_tags lr loc d = Inr ts \<and> set bs = B \<and> set ts = T)"

definition lance_accepts :: "'d lance_refs \<Rightarrow> string \<Rightarrow> bool" where
  "lance_accepts lr loc \<longleftrightarrow> (\<forall>d B T. shows_refs lr loc d B T \<longrightarrow>
     (\<forall>t\<in>fst ` T. \<exists>d'. lr_delete_tag lr loc t d = (Inr (), d') \<and> shows_refs lr loc d' B {x \<in> T. fst x \<noteq> t}) \<and>
     (\<forall>b\<in>fst ` B. Some b \<notin> snd ` B \<and> Some b \<notin> snd ` T \<longrightarrow>
        (\<exists>d'. lr_delete_branch lr loc b d = (Inr (), d') \<and> shows_refs lr loc d' {x \<in> B. fst x \<noteq> b} T)) \<and>
     (\<forall>b p v. b \<notin> fst ` B \<and> (p = None \<or> p \<in> Some ` fst ` B) \<longrightarrow>
        (\<exists>d'. lr_create_branch lr loc b p v d = (Inr (), d') \<and> shows_refs lr loc d' (insert (b, p) B) T)))"

lemma lance_deletes_tag:
  "lance_accepts lr loc \<Longrightarrow> shows_refs lr loc d B T \<Longrightarrow> t \<in> fst ` T \<Longrightarrow>
    \<exists>d'. lr_delete_tag lr loc t d = (Inr (), d') \<and> shows_refs lr loc d' B {x \<in> T. fst x \<noteq> t}"
  unfolding lance_accepts_def by blast

lemma lance_deletes_branch:
  "lance_accepts lr loc \<Longrightarrow> shows_refs lr loc d B T \<Longrightarrow> b \<in> fst ` B \<Longrightarrow> Some b \<notin> snd ` B \<Longrightarrow> Some b \<notin> snd ` T \<Longrightarrow>
    \<exists>d'. lr_delete_branch lr loc b d = (Inr (), d') \<and> shows_refs lr loc d' {x \<in> B. fst x \<noteq> b} T"
  unfolding lance_accepts_def by blast

lemma lance_creates_branch:
  "lance_accepts lr loc \<Longrightarrow> shows_refs lr loc d B T \<Longrightarrow> b \<notin> fst ` B \<Longrightarrow> p = None \<or> p \<in> Some ` fst ` B \<Longrightarrow>
    \<exists>d'. lr_create_branch lr loc b p v d = (Inr (), d') \<and> shows_refs lr loc d' (insert (b, p) B) T"
  by (simp add: lance_accepts_def)

lemma delete_tags_accepted:
  assumes "lance_accepts lr (rl_location r)" "shows_refs lr (rl_location r) d B T" "distinct tags" "\<forall>t\<in>set tags. t \<in> L \<longleftrightarrow> t \<in> fst ` T"
  shows "\<exists>cs d'. delete_tags lr r L tags d = (Inr cs, d') \<and> shows_refs lr (rl_location r) d' B {x \<in> T. fst x \<notin> set tags}"
  using assms(2-)
proof (induction tags arbitrary: d T)
  case (Cons t tags)
  show ?case
  proof (cases "t \<in> L")
    case True
    with Cons.prems have "t \<in> fst ` T" by simp
    then obtain d1 where d1: "lr_delete_tag lr (rl_location r) t d = (Inr (), d1)"
      "shows_refs lr (rl_location r) d1 B {x \<in> T. fst x \<noteq> t}"
      using lance_deletes_tag [OF assms(1) Cons.prems(1)] by blast
    have "\<forall>t'\<in>set tags. t' \<in> L \<longleftrightarrow> t' \<in> fst ` {x \<in> T. fst x \<noteq> t}" using Cons.prems(2,3) by auto
    from Cons.IH [OF d1(2) _ this] Cons.prems(2) obtain cs d2 where "delete_tags lr r L tags d1 = (Inr cs, d2)"
      "shows_refs lr (rl_location r) d2 B {x \<in> {x \<in> T. fst x \<noteq> t}. fst x \<notin> set tags}" by auto
    moreover have "{x \<in> {x \<in> T. fst x \<noteq> t}. fst x \<notin> set tags} = {x \<in> T. fst x \<notin> set (t # tags)}" by auto
    ultimately show ?thesis using True d1(1) by simp
  next
    case False
    from Cons.IH [OF Cons.prems(1)] Cons.prems(2,3) obtain cs d2 where "delete_tags lr r L tags d = (Inr cs, d2)"
      "shows_refs lr (rl_location r) d2 B {x \<in> T. fst x \<notin> set tags}" by auto
    moreover have "{x \<in> T. fst x \<notin> set (t # tags)} = {x \<in> T. fst x \<notin> set tags}" using False Cons.prems(3) by auto
    ultimately show ?thesis using False by simp
  qed
qed simp

lemma delete_branches_accepted:
  assumes "lance_accepts lr (rl_location r)" "shows_refs lr (rl_location r) d B T" "distinct (map rc_branch ss)"
    and "rc_branch ` set ss \<subseteq> fst ` B" "rc_branch ` set ss \<subseteq> L" "snd ` T \<inter> Some ` rc_branch ` set ss = {}"
    and "\<And>xs s ys c. ss = xs @ s # ys \<Longrightarrow> (c, Some (rc_branch s)) \<in> B \<Longrightarrow> c \<in> rc_branch ` set xs"
  shows "\<exists>cs d'. delete_branches lr r L ss d = (Inr cs, d') \<and> shows_refs lr (rl_location r) d' {x \<in> B. fst x \<notin> rc_branch ` set ss} T"
  using assms(2-)
proof (induction ss arbitrary: d B)
  case (Cons s ss)
  let ?b = "rc_branch s"
  have "Some ?b \<notin> snd ` B" using Cons.prems(6) [of "[]" s ss] by fastforce
  moreover have "Some ?b \<notin> snd ` T" using Cons.prems(5) by auto
  moreover have "?b \<in> fst ` B" using Cons.prems(3) by simp
  ultimately obtain d1 where d1: "lr_delete_branch lr (rl_location r) ?b d = (Inr (), d1)"
    "shows_refs lr (rl_location r) d1 {x \<in> B. fst x \<noteq> ?b} T"
    using lance_deletes_branch [OF assms(1) Cons.prems(1)] by blast
  have eq: "fst ` {x \<in> B. fst x \<noteq> ?b} = fst ` B - {?b}" by auto
  have "rc_branch ` set ss \<subseteq> fst ` {x \<in> B. fst x \<noteq> ?b}"
    unfolding eq subset_Diff_insert using Cons.prems(2,3) by simp
  moreover have "c \<in> rc_branch ` set xs" if "ss = xs @ s' # ys" "(c, Some (rc_branch s')) \<in> {x \<in> B. fst x \<noteq> ?b}" for xs s' ys c
    using Cons.prems(6) [of "s # xs" s' ys c] that by auto
  ultimately obtain cs d2 where "delete_branches lr r L ss d1 = (Inr cs, d2)"
    "shows_refs lr (rl_location r) d2 {x \<in> {x \<in> B. fst x \<noteq> ?b}. fst x \<notin> rc_branch ` set ss} T"
    using Cons.IH [OF d1(2)] Cons.prems(2,4,5) by auto
  moreover have "{x \<in> {x \<in> B. fst x \<noteq> ?b}. fst x \<notin> rc_branch ` set ss} = {x \<in> B. fst x \<notin> rc_branch ` set (s # ss)}" by auto
  ultimately show ?case using d1(1) Cons.prems(4) by simp
qed simp

lemma recreate_accepted:
  assumes "lance_accepts lr (rl_location r)" "shows_refs lr (rl_location r) d B T" "distinct (map rc_branch ss)"
    and "rc_branch ` set ss \<inter> fst ` B = {}" "P = fst ` B"
    and "\<And>xs s ys p. ss = xs @ s # ys \<Longrightarrow> rc_parent s = Some p \<Longrightarrow> p \<in> fst ` B \<union> rc_branch ` set xs"
  shows "\<exists>cs d'. recreate_each lr r P ss d = (Inr cs, d') \<and>
    shows_refs lr (rl_location r) d' (B \<union> (\<lambda>s. (rc_branch s, rc_parent s)) ` set ss) T"
  using assms(2-)
proof (induction ss arbitrary: d B P)
  case (Cons s ss)
  let ?b = "rc_branch s" and ?B = "insert (rc_branch s, rc_parent s) B"
  have absent: "?b \<notin> fst ` B" using Cons.prems(3) by simp
  moreover have "rc_parent s = None \<or> rc_parent s \<in> Some ` fst ` B"
    using Cons.prems(5) [of "[]" s ss] by (cases "rc_parent s") auto
  ultimately obtain d1 where d1: "lr_create_branch lr (rl_location r) ?b (rc_parent s) (rc_version s) d = (Inr (), d1)"
    "shows_refs lr (rl_location r) d1 ?B T"
    using lance_creates_branch [OF assms(1) Cons.prems(1)] by blast
  have "rc_branch ` set ss \<inter> fst ` ?B = {}" using Cons.prems(2,3) by auto
  moreover have "p \<in> fst ` ?B \<union> rc_branch ` set xs" if "ss = xs @ s' # ys" "rc_parent s' = Some p" for xs s' ys p
    using Cons.prems(5) [of "s # xs" s' ys p] that by auto
  ultimately obtain cs d2 where "recreate_each lr r (insert ?b P) ss d1 = (Inr cs, d2)"
    "shows_refs lr (rl_location r) d2 (?B \<union> (\<lambda>s. (rc_branch s, rc_parent s)) ` set ss) T"
    using Cons.IH [OF d1(2), of "insert ?b P"] Cons.prems(2,4) by auto
  moreover have "?B \<union> (\<lambda>s. (rc_branch s, rc_parent s)) ` set ss = B \<union> (\<lambda>s. (rc_branch s, rc_parent s)) ` set (s # ss)" by auto
  ultimately show ?case using d1(1) absent Cons.prems(4) by simp
qed simp


definition sample_lance :: "((string \<times> string option) list \<times> (string \<times> string option) list) lance_refs" where
  "sample_lance = \<lparr>lr_open = \<lambda>_ _. Inr 9, lr_branches = \<lambda>_ d. Inr (fst d), lr_tags = \<lambda>_ d. Inr (snd d),
     lr_delete_tag = \<lambda>_ t d. (Inr (), (fst d, filter (\<lambda>x. fst x \<noteq> t) (snd d))),
     lr_delete_branch = \<lambda>_ b d. (if Some b \<in> snd ` set (fst d) \<or> Some b \<in> snd ` set (snd d) then (Inl ValueError, d)
       else (Inr (), (filter (\<lambda>x. fst x \<noteq> b) (fst d), snd d))),
     lr_create_branch = \<lambda>_ b p _ d. (Inr (), ((b, p) # fst d, snd d))\<rparr>"

lemma sample_lance_accepts: "lance_accepts sample_lance loc"
  unfolding lance_accepts_def shows_refs_def sample_lance_def by auto

definition sample_release :: release_record where
  "sample_release = new_release [''branch:a''] ''i'' ''ns$t'' ''u'' ''s3://b/u'' None [] 10"


text \<open>
  A due release is one tick's at a time, and what a tick recorded is what a later one finishes. A claim
  that returns, on S3 and under every interleaving, replaced a release record that was due and under no
  live lease, and nothing else; nobody may claim the record it left before the lease is over. A step that
  was already recorded keeps its place, its parent and its version, a tag already recorded stays recorded,
  and a branch that joins a recorded plan comes back at the recorded head.
\<close>

theorem claim_is_leased_and_keeps_the_plan:
  assumes "inj dg" and run: "mutate_release S3 dg i (claim_release time tags plan) w = (Inr r', w')"
  shows "\<exists>m r. lookup (drift m w) (release_key i) = Some (Json (Release r)) \<and> claimable r time \<and>
    w' = store_put (release_key i) (Json (Release r')) (drift m w) \<and>
    (\<forall>t. claimable r' t \<longrightarrow> time + LEASE \<le> t) \<and> rl_phase r' = (if rl_phase r = Pending then Deleting else rl_phase r) \<and>
    (if rl_phase r = Pending then rl_tags r' = tags \<and> rl_plan r' = plan
     else prefix (rl_plan r) (rl_plan r') \<and> set (rl_tags r) \<subseteq> set (rl_tags r') \<and>
       (rl_phase r = Deleting \<and> rl_plan r \<noteq> [] \<longrightarrow> (\<forall>s\<in>set (rl_plan r') - set (rl_plan r). rc_version s = rc_version (hd (rl_plan r)))))"
proof -
  obtain b where mut: "mutate_json S3 dg (release_key i) (claim_release time tags plan) w = (Inr b, w')" and b: "b = Release r'"
    using run by (auto simp: mutate_release_def valid_release_def split: prod.splits sum.splits release_body.splits)
  obtain m c where c: "lookup (drift m w) (release_key i) = Some (Json c)" "claim_release time tags plan c = Inr b"
    "w' = store_put (release_key i) (Json b) (drift m w)"
    using mutate_json_effect [OF assms(1) mut] by auto
  from c(2) obtain r where r: "c = Release r" "claimable r time"
    by (auto simp: claim_release_def valid_release_def split: release_body.splits if_splits)
  let ?r = "r\<lparr>rl_lease_until := Some (time + LEASE)\<rparr>"
  have r': "r' = (case rl_phase r of Pending \<Rightarrow> ?r\<lparr>rl_phase := Deleting, rl_tags := tags, rl_plan := plan\<rparr>
      | Deleting \<Rightarrow> joined_plan ?r tags plan | Recreating \<Rightarrow> ?r)"
    using c(2) r unfolding b by (simp add: claim_release_def valid_release_def Let_def)
  have leased: "rl_lease_until r' = Some (time + LEASE)" unfolding r' by (simp add: joined_plan_def Let_def split: release_phase.splits)
  have "rl_phase r' = (if rl_phase r = Pending then Deleting else rl_phase r)"
    unfolding r' by (simp add: joined_plan_def Let_def split: release_phase.splits)
  moreover have "if rl_phase r = Pending then rl_tags r' = tags \<and> rl_plan r' = plan
     else prefix (rl_plan r) (rl_plan r') \<and> set (rl_tags r) \<subseteq> set (rl_tags r') \<and>
       (rl_phase r = Deleting \<and> rl_plan r \<noteq> [] \<longrightarrow> (\<forall>s\<in>set (rl_plan r') - set (rl_plan r). rc_version s = rc_version (hd (rl_plan r))))"
    unfolding r' by (cases "rl_plan r") (auto simp: joined_plan_def Let_def split: release_phase.splits)
  moreover have "\<forall>t. claimable r' t \<longrightarrow> time + LEASE \<le> t" using leased by (simp add: claimable_def)
  ultimately show ?thesis using c(1,3) r b by blast
qed

theorem claim_is_leased_and_keeps_the_plan_witness:
  "let w = \<lparr>objects = [(release_key ''i'', Json (Release sample_release))], clock = 0, pending = []\<rparr>;
       run = mutate_release S3 id ''i'' (claim_release 20 [''t''] []) w in
   (\<exists>r'. fst run = Inr r' \<and> (\<forall>t. claimable r' t \<longrightarrow> 20 + LEASE \<le> t))"
proof -
  let ?w = "\<lparr>objects = [(release_key ''i'', Json (Release sample_release))], clock = 0, pending = []\<rparr>"
  have "\<exists>r' w'. mutate_release S3 id ''i'' (claim_release 20 [''t''] []) ?w = (Inr r', w')"
    by (simp add: mutate_release_def mutate_json_quiet lookup_def claim_release_def valid_release_def claimable_def Let_def
        sample_release_def new_release_def)
  then obtain r' w' where run: "mutate_release S3 id ''i'' (claim_release 20 [''t''] []) ?w = (Inr r', w')" by blast
  from claim_is_leased_and_keeps_the_plan [OF inj_on_id run] show ?thesis
    by (auto simp: Let_def run)
qed

text \<open>
  A tick that fails before its claim ends a lease it does not hold. A release listed as claimable is
  claimed by another tick; this tick then fails to open the table, and its hand-back stamps the record's
  lease over, so the release is claimable again although the other tick's lease has not run out.
\<close>

definition sample_leased :: release_record where
  "sample_leased = sample_release\<lparr>rl_phase := Deleting, rl_lease_until := Some 1000\<rparr>"

theorem hand_back_ends_anothers_lease:
  "let lr = sample_lance\<lparr>lr_open := \<lambda>_ _. Inl StoreError\<rparr>;
       st = \<lparr>rs_releases = \<lparr>objects = [(release_key ''i'', Json (Release sample_leased))], clock = 0, pending = []\<rparr>,
         rs_fences = \<lparr>objects = [], clock = 0, pending = []\<rparr>, rs_data = ([], [])\<rparr>;
       st' = snd (release_each lr id (\<lambda>_. ''t'') S3 id id 20 [Release sample_release] st) in
   \<not> claimable sample_leased 20 \<and>
   (\<exists>r. lookup (rs_releases st') (release_key ''i'') = Some (Json (Release r)) \<and> claimable r 20)"
  by (simp add: run_release_def sample_leased_def sample_release_def new_release_def claimable_def hand_back_def
      mutate_json_quiet lookup_def store_put_def release_key_def release_prefix_def)

end
