(* ===== verification/Spec2Isabelle.thy ===== *)
theory Spec2Isabelle
  imports Drift_Repair Trash_Release Floor Sweep Purge Base_Refs Outbox Trash Warehouse_Registry Branch_Layout Version_Retention Object_Records
    Idempotency Compaction_Gate Promotions Erasure_Derived Erasure_Release
begin

text \<open>
  The control records of the rask lakehouse.

  \<^bold>\<open>The program.\<close> rask keeps tables as Lance datasets in an object store. Beside the data it keeps a
  control root: small JSON records, written with create-if-absent and replace-if-the-ETag-matches,
  that decide what may be done to a table. Every replica of the catalog, of the maintenance service
  and of the workers reads and writes these records, and nothing but the records orders them. The
  shared kernel is \<^verbatim>\<open>src/packages/lakehouse-kit/src/lakehouse_kit/\<close> (called \<^verbatim>\<open>kit/\<close> below); the catalog's
  own rules are \<^verbatim>\<open>src/services/catalog/src/catalog/services/\<close> (called \<^verbatim>\<open>catalog/\<close> below). This development
  models those rules as functions on an explicit store and proves what they promise.

  \<^bold>\<open>How the parts interact.\<close> A door of the catalog that changes a table takes the table's commit turn;
  one that moves a tag or a branch, and a reclaim that deletes versions, take its history fence. A
  table's location is claimed by one uuid at a time, and a purge is judged against the bases other
  datasets resolve through. A compaction is admitted by the feature flags of the manifest and by the
  files it would rewrite. A version becomes the published one only past its quality gate, or
  by the decision on the hold the gate left. An erasure opens an obligation on its table and on every table
  derived from it, plans the release of the refs that pin the subject's versions, and answers that it
  is done when every surface and every derived table is answered. All of this goes through the
  conditional writes of \<^verbatim>\<open>kit/records.py\<close>.

  \<^bold>\<open>The theories.\<close>

  \<^descr>[\<open>Prelude\<close>] the errors as one datatype, JSON values, Python's string operations, results as
  \<open>error + 'a\<close>, and the lemmas and \<^verbatim>\<open>named_theorems\<close> collections the components share.

  \<^descr>[\<open>Records\<close>] \<^verbatim>\<open>kit/records.py\<close>, \<^verbatim>\<open>kit/record_store.py\<close> and \<^verbatim>\<open>kit/stored_objects.py\<close>: the store is a
  map from keys to objects with a clock and an access switch, an S3 root or a local one. The locale
  \<open>conditional_store\<close> is the contract of the three primitives and is interpreted on the model's own
  (\<open>cs\<close>); \<open>record_registry\<close> is that of \<^verbatim>\<open>RecordRegistry\<close> (\<open>reg\<close>). Shown: \<^verbatim>\<open>mutate_json\<close> never loses
  another writer's update.

  \<^descr>[\<open>Leases\<close>] the locale \<open>lease_protocol\<close>: a record of leases, each with a token and a deadline, under
  steps that grant, renew and release. Invariants by rule induction over the reachable records.

  \<^descr>[\<open>History_Fences\<close>] \<^verbatim>\<open>kit/history_fences.py\<close>; the interpretation \<open>fence\<close>. \<open>fence_take\<close> with its eight rounds of
  compare-and-set refines the abstract step, and two live holds never exclude each other.

  \<^descr>[\<open>Shared_Reads\<close>, \<open>Commit_Turns\<close>] \<^verbatim>\<open>kit/commit_turns.py\<close>: the turns as data, the cache of a read several
  threads share, the class \<^verbatim>\<open>TableTurns\<close>; the interpretation \<open>turns\<close> of the same locale. The wait of a turn
  ends by its deadline.

  \<^descr>[\<open>Locations\<close>] the path comparisons of \<^verbatim>\<open>kit/base_refs.py\<close> and \<^verbatim>\<open>kit/location_claims.py\<close>: normalisation,
  containment, and the equivalence of the string comparison with the prefix order on path segments. The
  locale \<open>containment\<close> is interpreted twice (\<open>path_containment\<close>, \<open>store_containment\<close>).

  \<^descr>[\<open>Location_Claims\<close>] \<^verbatim>\<open>kit/location_claims.py\<close>: a claim as a record, every handler, the step relation
  it refines, and when a location may change hands.

  \<^descr>[\<open>Base_Registry\<close>, \<open>Base_Refs\<close>] \<^verbatim>\<open>kit/base_registry.py\<close>, \<^verbatim>\<open>kit/base_refs.py\<close>: the recorded bases of a table,
  what they protect, and the verdicts on a rewrite and on a deletion.

  \<^descr>[\<open>Features\<close>, \<open>Compaction_Gate\<close>] \<^verbatim>\<open>kit/features.py\<close>, \<^verbatim>\<open>kit/compaction_gate.py\<close>: the protobuf walk that
  reads the feature flags out of a manifest's bytes, and the gate; both fail closed.

  \<^descr>[\<open>Branch_Layout\<close>, \<open>Version_Retention\<close>] \<^verbatim>\<open>kit/branch_layout.py\<close>, \<^verbatim>\<open>kit/version_retention.py\<close>: a branch's
  directory and the branch a path belongs to; the versions a cleanup reclaims.

  \<^descr>[\<open>Commit_Records\<close>, \<open>Maintenance_Policies\<close>, \<open>Object_Records\<close>] \<^verbatim>\<open>kit/commit_records.py\<close>,
  \<^verbatim>\<open>kit/maintenance_policies.py\<close>, \<^verbatim>\<open>kit/protection.py\<close> and \<^verbatim>\<open>kit/object_records.py\<close>: the records held under an
  object's uuid and their end.

  \<^descr>[\<open>Outbox\<close>, \<open>Trash\<close>, \<open>Idempotency\<close>] \<^verbatim>\<open>kit/outbox.py\<close>, \<^verbatim>\<open>kit/trash.py\<close>, \<^verbatim>\<open>kit/idempotency.py\<close>: a staged event is
  kept until it is published, a drop is recoverable until its deadline, a keyed write runs once per lease.

  \<^descr>[\<open>Warehouse_Registry\<close>] \<^verbatim>\<open>kit/warehouse_registry.py\<close>: routing from a project to its warehouse and the
  bounded cache in front of it.

  \<^descr>[\<open>Publication\<close>] \<^verbatim>\<open>kit/quality.py\<close>, \<^verbatim>\<open>kit/stage_stamp.py\<close>, \<^verbatim>\<open>kit/gate_specs.py\<close>, \<^verbatim>\<open>catalog/publication.py\<close>: the assertions
  on a version, the verdict on their findings, the gate, and publish.

  \<^descr>[\<open>Promotions\<close>] \<^verbatim>\<open>catalog/promotions.py\<close>: the hold on a version and the decision on it.

  \<^descr>[\<open>Derived_Tables\<close>] \<^verbatim>\<open>kit/derived_tables.py\<close>, \<^verbatim>\<open>kit/table_inputs.py\<close>, \<^verbatim>\<open>kit/lancekit/filters.py\<close>: the walk over
  recorded derivations. The locale \<open>edge_list\<close> is what the walk relies on of its reader, interpreted on
  the declared inputs (\<open>declared\<close>); the walk ends and reaches exactly the derived tables.

  \<^descr>[\<open>Erasure_Obligations\<close>, \<open>Erasure_Derived\<close>, \<open>Erasure_Release\<close>] \<^verbatim>\<open>catalog/erasure_obligations.py\<close>,
  \<^verbatim>\<open>catalog/erasure_derived.py\<close>, \<^verbatim>\<open>catalog/erasure_release.py\<close> and the report of \<^verbatim>\<open>catalog/erasure.py\<close>.

  \<^descr>[\<open>Discovery\<close>, \<open>Orphans\<close>] \<^verbatim>\<open>maintenance/discovery.py\<close> and \<^verbatim>\<open>maintenance/orphans.py\<close> under
  \<^verbatim>\<open>src/services/maintenance/src/maintenance/services/\<close>: the walk that finds the datasets of a root, and the scan for
  files no retained version names. Every dataset is found or the walk says where it did not look; the
  orphans are exactly the unnamed files.

  \<^descr>[\<open>Base_Reclaim\<close>] \<^verbatim>\<open>kit/data_directories.py\<close>, \<^verbatim>\<open>maintenance/base_reclaim.py\<close>: the directories a table owns outside its
  root, the files in them no version references, and their deletion.

  \<^descr>[\<open>Purge\<close>] \<^verbatim>\<open>maintenance/purge.py\<close>: the deletion of a dropped object past its deadline, every guard in front of it, and
  the order of its effects.

  \<^descr>[\<open>Expiry\<close>, \<open>Table_Names\<close>, \<open>Vending\<close>] \<^verbatim>\<open>maintenance/plan.py\<close>, \<^verbatim>\<open>expiry.py\<close>, \<^verbatim>\<open>naming.py\<close>, \<^verbatim>\<open>credentials.py\<close> and
  \<^verbatim>\<open>service_kit/storage_options.py\<close>: what the winning policy says of a dataset, the pass that reclaims its superseded
  versions behind a ladder of refusals, which table a dataset is, and the credential a pass is signed with.

  \<^descr>[\<open>Due_Work\<close>, \<open>Committed_Files\<close>] \<^verbatim>\<open>kit/maintenance_due.py\<close>, \<^verbatim>\<open>maintenance/due.py\<close>, \<^verbatim>\<open>maintenance/index_health.py\<close>:
  the record of a table that should be compacted or reindexed; \<^verbatim>\<open>kit/file_identities.py\<close>,
  \<^verbatim>\<open>maintenance/committed_files.py\<close>: the files of each commit, read again.

  \<^descr>[\<open>Sweep\<close>] \<^verbatim>\<open>maintenance/sweep.py\<close>: a tick composed of the theories above, from its plan to the records it clears.

  \<^descr>[\<open>Drift_Sources\<close>, \<open>Drift_Report\<close>] \<^verbatim>\<open>maintenance/reconcile.py\<close>: the readers of the three stores (OpenFGA's tuples, the
  registries, the manifests and buckets), a detector for each way they can disagree, and the report the purge is gated on.
  Every category is counted, unavailable or skipped, and a clean report means the stores agree.

  \<^descr>[\<open>Drift_Repair\<close>] \<^verbatim>\<open>maintenance/repair.py\<close>, \<^verbatim>\<open>rebuild.py\<close>, \<^verbatim>\<open>tombstones.py\<close>: what is done about a report. Tuples are
  revoked only of tables the estate lost, as long as the warehouse registry was read; nothing is granted; a trash record
  goes once its bytes are gone.

  \<^descr>[\<open>Trash_Release\<close>, \<open>Floor\<close>] \<^verbatim>\<open>maintenance/trash_release.py\<close>, \<^verbatim>\<open>maintenance/floor.py\<close>: the end of a drop's grants at its
  deadline, and the commit that lets Lance list a dataset's leftover files again.

  \<^bold>\<open>Bounds.\<close> The source's retry bounds are kept: eight rounds of a fence or turn take, five of
  \<^verbatim>\<open>mutate_json\<close>, three of a location claim, eight of a table's inputs. A loop bounded by its data has a
  measure (the index of the varint and flag walks, the names not yet reached of the subtree closures).
  The walk over derivations has no bound of its own: it is a \<^theory_text>\<open>partial_function\<close> in the option monad, proved
  to return. The depth of a claim's chain runs on fuel one above the number of records it may pass.

  \<^bold>\<open>Parameters.\<close> What the sources import and do not define is an argument: the ETag of a body
  (\<open>dg\<close>, with \<open>inj dg\<close> where two bodies must not share one), SHA-256 and hex digests, \<^verbatim>\<open>json.loads\<close> and \<^verbatim>\<open>json.dumps\<close>
  of a body, float and ISO time conversion, what Lance answers of a dataset (its refs, versions, manifest bytes,
  row counts), the Unicode tables. A property that relies on one of them names it as a hypothesis.

  \<^bold>\<open>Other clients.\<close> Between a read and the conditional write that follows it any other client may
  write. The models of the take, claim and mutate loops take the interference of each
  round as an argument, and the exclusion theorems quantify over interference that follows the
  protocol itself.

  \<^bold>\<open>Not modelled.\<close> The reads and writes of Lance and Arrow data (\<^verbatim>\<open>catalog/dataplane.py\<close> and the erasing of rows in
  \<^verbatim>\<open>catalog/erasure.py\<close>): they call pylance and pyarrow and hold little logic of their own. The
  FastAPI doors and the OpenFGA authorisation calls. The lineage
  service. Logging and metrics.
\<close>

end
